(* ===== verification/Nexus_Prelude.thy ===== *)
theory Nexus_Prelude
  imports Main "HOL-Library.AList" "HOL-Library.Char_ord" "HOL-Library.List_Lexorder"
begin

text \<open>
  Shared vocabulary of the development: Python errors as values, Python dictionaries as
  association lists in insertion order, first-occurrence de-duplication
  (\<open>dict.fromkeys\<close>), string helpers (strip, lower, join), and the generic facts about them
  that the component theories use through the collections declared here.

  Strings are lists of code points below 256.  On that range \<open>py_isspace\<close> and
  \<open>py_lower_char\<close> are exactly Python's \<open>str.isspace\<close> and \<open>str.lower\<close>; the
  order of \<open>List_Lexorder\<close> is Python's string order (by code point).
\<close>

named_theorems dict_simps "lookup after an update of an insertion-ordered dictionary"
named_theorems nexus_defs "definitions that the proofs of a component unfold together"

section \<open>Errors and results\<close>

datatype py_error =
    ValueError string
  | KeyError string
  | RuntimeError string
  | UnknownDiagnosticCode string
  | OtherError string string
  | MissingRequiredSecret string string string
  | DslLoadError string string

type_synonym 'a result = "py_error + 'a"

text \<open>
  \<open>except ValueError\<close> also takes the classes derived from it.  \<open>OtherError c m\<close> is an exception
  of class \<open>c\<close> with text \<open>m\<close>; \<open>MissingRequiredSecret c f m\<close> carries the diagnostic code, the
  field and the text, \<open>DslLoadError c m\<close> a code and the text.
\<close>

fun is_value_error :: "py_error \<Rightarrow> bool" where
  "is_value_error (ValueError m) = True"
| "is_value_error (UnknownDiagnosticCode c) = True"
| "is_value_error (DslLoadError c m) = True"
| "is_value_error _ = False"

text \<open>Sequencing: a statement that raises ends the function.\<close>

definition bind_r :: "'a result \<Rightarrow> ('a \<Rightarrow> 'b result) \<Rightarrow> 'b result" where
  "bind_r r f = (case r of Inl e \<Rightarrow> Inl e | Inr v \<Rightarrow> f v)"

lemma bind_r_simps [simp]:
  "bind_r (Inl e) f = Inl e"
  "bind_r (Inr v) f = f v"
  by (simp_all add: bind_r_def)

lemma bind_r_Inr_iff: "bind_r r f = Inr y \<longleftrightarrow> (\<exists>x. r = Inr x \<and> f x = Inr y)"
  by (cases r) auto

lemma bind_r_cong [cong]: "r = r' \<Longrightarrow> (\<And>v. r' = Inr v \<Longrightarrow> f v = g v) \<Longrightarrow> bind_r r f = bind_r r' g"
  by (cases r') auto

fun map_r :: "('a \<Rightarrow> 'b result) \<Rightarrow> 'a list \<Rightarrow> 'b list result" where
  "map_r f [] = Inr []"
| "map_r f (x # xs) = bind_r (f x) (\<lambda>y. bind_r (map_r f xs) (\<lambda>ys. Inr (y # ys)))"

lemma map_r_Inr: "(\<And>x. x \<in> set xs \<Longrightarrow> f x = Inr (g x)) \<Longrightarrow> map_r f xs = Inr (map g xs)"
  by (induction xs) auto

lemma not_isl_Inr: "\<not> isl r \<Longrightarrow> \<exists>v. r = Inr v"
  by (cases r) auto

text \<open>
  The outcome of a loop that may not end: \<open>None\<close> is not returning, \<open>Some (Inl e)\<close> is an
  exception, \<open>Some (Inr v)\<close> a value.
\<close>

type_synonym 'a outcome = "'a result option"

definition bind_o :: "'a outcome \<Rightarrow> ('a \<Rightarrow> 'b outcome) \<Rightarrow> 'b outcome" where
  "bind_o r f = (case r of None \<Rightarrow> None | Some (Inl e) \<Rightarrow> Some (Inl e) | Some (Inr v) \<Rightarrow> f v)"

lemma bind_o_simps [simp]:
  "bind_o None f = None"
  "bind_o (Some (Inl e)) f = Some (Inl e)"
  "bind_o (Some (Inr v)) f = f v"
  by (simp_all add: bind_o_def)

section \<open>Dictionaries in insertion order\<close>

type_synonym ('k, 'v) dict = "('k \<times> 'v) list"

definition dict_keys :: "('k, 'v) dict \<Rightarrow> 'k list" where
  "dict_keys d = map fst d"

definition dict_get_or :: "('k, 'v) dict \<Rightarrow> 'k \<Rightarrow> 'v \<Rightarrow> 'v" where
  "dict_get_or d k v = (case map_of d k of None \<Rightarrow> v | Some w \<Rightarrow> w)"

text \<open>\<open>d.setdefault(k, v)\<close> for its effect on \<open>d\<close>.\<close>

definition dict_setdefault :: "('k, 'v) dict \<Rightarrow> 'k \<Rightarrow> 'v \<Rightarrow> ('k, 'v) dict" where
  "dict_setdefault d k v = (case map_of d k of None \<Rightarrow> d @ [(k, v)] | Some _ \<Rightarrow> d)"

text \<open>\<open>d[k].append(v)\<close> on a \<open>defaultdict(list)\<close>.\<close>

definition dict_append :: "('k, 'v list) dict \<Rightarrow> 'k \<Rightarrow> 'v \<Rightarrow> ('k, 'v list) dict" where
  "dict_append d k v = AList.update k (dict_get_or d k [] @ [v]) d"

text \<open>\<open>tuple(dict.fromkeys(xs))\<close>: the first occurrence of every element, in order.\<close>

definition dict_fromkeys :: "'a list \<Rightarrow> 'a list" where
  "dict_fromkeys xs = rev (remdups (rev xs))"

lemma dict_get_or_update [dict_simps, simp]:
  "dict_get_or (AList.update k v d) k' w = (if k' = k then v else dict_get_or d k' w)"
  by (simp add: dict_get_or_def update_conv')

lemma dict_get_or_append [dict_simps, simp]:
  "dict_get_or (dict_append d k v) k' [] =
     (if k' = k then dict_get_or d k [] @ [v] else dict_get_or d k' [])"
  by (simp add: dict_append_def)

lemma update_fresh [dict_simps]:
  "k \<notin> fst ` set d \<Longrightarrow> AList.update k v d = d @ [(k, v)]"
  by (induction d) auto

lemma dict_get_or_Nil [simp]: "dict_get_or [] k w = w"
  by (simp add: dict_get_or_def)

lemma map_of_setdefault [dict_simps]:
  "map_of (dict_setdefault d k v) k' =
     (if k' = k \<and> map_of d k = None then Some v else map_of d k')"
  by (auto simp: dict_setdefault_def map_add_def split: option.splits)

lemma dict_get_or_setdefault [dict_simps, simp]:
  "dict_get_or (dict_setdefault d k v) k' v = dict_get_or d k' v"
  by (simp add: dict_get_or_def map_of_setdefault split: option.split)

lemma frozen_children:
  "dict_get_or (map (\<lambda>(n, cs). (n, sort cs)) ch) n [] = sort (dict_get_or ch n [])"
  by (induction ch) (auto simp: dict_get_or_def)

lemma set_dict_fromkeys [simp]: "set (dict_fromkeys xs) = set xs"
  by (simp add: dict_fromkeys_def)

lemma distinct_dict_fromkeys [simp]: "distinct (dict_fromkeys xs)"
  by (simp add: dict_fromkeys_def)

lemma dict_fromkeys_distinct [simp]: "distinct xs \<Longrightarrow> dict_fromkeys xs = xs"
  by (simp add: dict_fromkeys_def distinct_remdups_id)

lemma dict_fromkeys_Nil [simp]: "dict_fromkeys [] = []"
  by (simp add: dict_fromkeys_def)

lemma dict_fromkeys_empty_iff [simp]: "dict_fromkeys xs = [] \<longleftrightarrow> xs = []"
  by (simp add: dict_fromkeys_def)

lemma length_dict_fromkeys: "length (dict_fromkeys xs) = card (set xs)"
  by (simp add: dict_fromkeys_def length_remdups_card_conv)

text \<open>Every value listed in an adjacency dictionary.\<close>

definition targets :: "('k, 'v list) dict \<Rightarrow> 'v set" where
  "targets es = (\<Union>(k, vs) \<in> set es. set vs)"

lemma finite_targets [simp]: "finite (targets es)"
  by (auto simp: targets_def)

lemma set_get_targets: "set (dict_get_or es x []) \<subseteq> targets es"
proof (cases "map_of es x")
  case None
  then show ?thesis by (simp add: dict_get_or_def)
next
  case (Some vs)
  then show ?thesis
    using map_of_SomeD [OF Some] by (auto simp: dict_get_or_def targets_def)
qed

section \<open>Strings\<close>

definition py_isspace :: "char \<Rightarrow> bool" where
  "py_isspace c = (let n = (of_char c :: nat)
     in (9 \<le> n \<and> n \<le> 13) \<or> (28 \<le> n \<and> n \<le> 32) \<or> n = 133 \<or> n = 160)"

definition py_strip :: "string \<Rightarrow> string" where
  "py_strip s = rev (dropWhile py_isspace (rev (dropWhile py_isspace s)))"

text \<open>\<open>s.split()\<close>: the words between runs of white space.\<close>

function py_words :: "string \<Rightarrow> string list" where
  "py_words s =
     (let t = dropWhile py_isspace s
      in if t = [] then [] else takeWhile (\<lambda>c. \<not> py_isspace c) t # py_words (dropWhile (\<lambda>c. \<not> py_isspace c) t))"
  by pat_completeness auto
termination
proof (relation "measure length", goal_cases)
  case (2 s t)
  then have "hd t \<in> {c. \<not> py_isspace c}" "t \<noteq> []" using hd_dropWhile [of py_isspace s] by auto
  then have "length (dropWhile (\<lambda>c. \<not> py_isspace c) t) < length t"
    by (cases t) (auto simp: le_imp_less_Suc length_dropWhile_le)
  then show ?case using 2(1) length_dropWhile_le [of py_isspace s] by simp
qed simp

declare py_words.simps [simp del]

definition py_lower_char :: "char \<Rightarrow> char" where
  "py_lower_char c = (let n = (of_char c :: nat)
     in if (65 \<le> n \<and> n \<le> 90) \<or> (192 \<le> n \<and> n \<le> 222 \<and> n \<noteq> 215) then char_of (n + 32) else c)"

definition py_lower :: "string \<Rightarrow> string" where
  "py_lower s = map py_lower_char s"

fun py_join :: "string \<Rightarrow> string list \<Rightarrow> string" where
  "py_join sep [] = []"
| "py_join sep [x] = x"
| "py_join sep (x # xs) = x @ sep @ py_join sep xs"

lemma dropWhile_idem: "dropWhile P (dropWhile P xs) = dropWhile P xs"
  by (induction xs) auto

lemma py_strip_Nil [simp]: "py_strip [] = []"
  by (simp add: py_strip_def)

lemma py_strip_blank_iff: "py_strip s = [] \<longleftrightarrow> (\<forall>c \<in> set s. py_isspace c)"
proof -
  have "py_strip s = [] \<longleftrightarrow> (\<forall>c \<in> set (dropWhile py_isspace s). py_isspace c)"
    by (simp add: py_strip_def dropWhile_eq_Nil_conv)
  also have "\<dots> \<longleftrightarrow> (\<forall>c \<in> set s. py_isspace c)"
    by (metis dropWhile_eq_Nil_conv hd_dropWhile hd_in_set list.set(1) empty_iff set_dropWhileD)
  finally show ?thesis .
qed

text \<open>\<open>needle in s\<close>.\<close>

fun py_contains :: "string \<Rightarrow> string \<Rightarrow> bool" where
  "py_contains needle [] = (needle = [])"
| "py_contains needle (c # s) = (take (length needle) (c # s) = needle \<or> py_contains needle s)"

text \<open>\<open>f"{x or ''}"\<close>-style defaults: a falsy string counts as absent.\<close>

definition str_or :: "string option \<Rightarrow> string \<Rightarrow> string" where
  "str_or s d = (case s of None \<Rightarrow> d | Some [] \<Rightarrow> d | Some t \<Rightarrow> t)"

section \<open>Lists\<close>

lemma filter_eq_self_conv: "(filter P xs = xs) = (\<forall>x \<in> set xs. P x)"
  by (simp add: filter_id_conv)

lemma in_set_conv_split: "x \<in> set xs \<Longrightarrow> \<exists>ys zs. xs = ys @ x # zs"
  by (simp add: in_set_conv_decomp)

lemma distinct_length_eq_set:
  assumes "distinct xs" "distinct ys" "set xs \<subseteq> set ys" "length xs = length ys"
  shows "set xs = set ys"
  using assms by (metis card_subset_eq distinct_card finite_set)

section \<open>Dynamically typed values\<close>

text \<open>
  A finite \<open>float\<close> is given by its shortest decimal: \<open>PyFloat m e\<close> is \<open>m * 10 ^ e\<close>, where
  \<open>m\<close> has no trailing zero (zero is \<open>PyFloat 0 0\<close>; there is no negative zero, infinity or NaN).
  Distinct floats have distinct shortest decimals in the same order.
\<close>

datatype py_float = PyFloat (mantissa: int) (exp10: int)

text \<open>The values of a \<open>dict[str, Any]\<close>: JSON data, tuples being lists.\<close>

datatype pyval =
    PNone
  | PBool bool
  | PInt int
  | PFloat py_float
  | PStr string
  | PList "pyval list"
  | PDict "(string \<times> pyval) list"

definition opt_str :: "string option \<Rightarrow> pyval" where
  "opt_str s = (case s of None \<Rightarrow> PNone | Some t \<Rightarrow> PStr t)"

definition opt_int :: "int option \<Rightarrow> pyval" where
  "opt_int i = (case i of None \<Rightarrow> PNone | Some n \<Rightarrow> PInt n)"

definition str_list :: "string list \<Rightarrow> pyval" where
  "str_list ss = PList (map PStr ss)"

text \<open>\<open>bool(x)\<close>.\<close>

fun truthy :: "pyval \<Rightarrow> bool" where
  "truthy PNone = False"
| "truthy (PBool b) = b"
| "truthy (PInt i) = (i \<noteq> 0)"
| "truthy (PFloat f) = (mantissa f \<noteq> 0)"
| "truthy (PStr s) = (s \<noteq> [])"
| "truthy (PList vs) = (vs \<noteq> [])"
| "truthy (PDict d) = (d \<noteq> [])"

section \<open>Decimal rendering of integers\<close>

fun nat_str :: "nat \<Rightarrow> string" where
  "nat_str n = (if n < 10 then [char_of (48 + n)]
     else nat_str (n div 10) @ [char_of (48 + n mod 10)])"

declare nat_str.simps [simp del]

definition int_str :: "int \<Rightarrow> string" where
  "int_str i = (if i < 0 then CHR ''-'' # nat_str (nat (- i)) else nat_str (nat i))"

definition digits_value :: "string \<Rightarrow> nat" where
  "digits_value s = foldl (\<lambda>a c. a * 10 + (of_char c - 48)) 0 s"

lemma digits_value_snoc: "digits_value (s @ [c]) = digits_value s * 10 + (of_char c - 48)"
  by (simp add: digits_value_def)

lemma digit_char: "m < 10 \<Longrightarrow> of_char (char_of (48 + m :: nat)) = (48 + m :: nat)"
  by simp

lemma digits_value_nat_str: "digits_value (nat_str n) = n"
proof (induction n rule: nat_str.induct)
  case (1 n)
  show ?case
  proof (cases "n < 10")
    case True
    then show ?thesis
      by (subst nat_str.simps) (simp add: digits_value_def)
  next
    case False
    with 1 have "digits_value (nat_str (n div 10)) = n div 10" by simp
    with False show ?thesis
      by (subst nat_str.simps) (simp add: digits_value_snoc)
  qed
qed

lemma nat_str_head: "\<exists>c s. nat_str n = c # s \<and> c \<noteq> CHR ''-''"
proof (induction n rule: nat_str.induct)
  case (1 n)
  show ?case
  proof (cases "n < 10")
    case True
    have "(of_char (char_of (48 + n) :: char) :: nat) = 48 + n"
      using True by simp
    moreover have "(of_char CHR ''-'' :: nat) = 45" by simp
    ultimately have "char_of (48 + n) \<noteq> CHR ''-''" by (metis add_diff_cancel_left' diff_is_0_eq' le_add1 nat.simps(3) numeral_eq_Suc le_numeral_extra(4) numeral_le_iff semiring_norm)
    with True show ?thesis by (subst nat_str.simps) simp
  next
    case False
    with 1 show ?thesis by (subst nat_str.simps) auto
  qed
qed

lemma nat_str_inject [simp]: "nat_str m = nat_str n \<longleftrightarrow> m = n"
  by (metis digits_value_nat_str)

lemma int_str_inject [simp]: "int_str i = int_str j \<longleftrightarrow> i = j"
  using nat_str_head [of "nat i"] nat_str_head [of "nat j"] by (auto simp: int_str_def)

definition pad_left :: "nat \<Rightarrow> nat \<Rightarrow> string" where
  "pad_left w n = (let s = nat_str n in replicate (w - length s) (CHR ''0'') @ s)"

section \<open>Floats\<close>

text \<open>\<open>repr\<close> of a float: the shortest decimal, with an exponent outside 1e-4 .. 1e16.\<close>

definition float_repr :: "py_float \<Rightarrow> string" where
  "float_repr f =
     (let ds = nat_str (nat \<bar>mantissa f\<bar>); n = int (length ds); point = n + exp10 f; zeros = (\<lambda>k. replicate (nat k) (CHR ''0''))
      in if mantissa f = 0 then ''0.0''
         else (if mantissa f < 0 then ''-'' else [])
           @ (if - 4 < point \<and> point \<le> 16
              then (if point \<le> 0 then ''0.'' @ zeros (- point) @ ds
                    else if n \<le> point then ds @ zeros (point - n) @ ''.0''
                    else take (nat point) ds @ ''.'' @ drop (nat point) ds)
              else hd ds # (if tl ds = [] then [] else ''.'' @ tl ds)
                @ ''e'' @ (if point - 1 < 0 then ''-'' else ''+'') @ pad_left 2 (nat \<bar>point - 1\<bar>)))"

text \<open>\<open>int(x)\<close> of a float: the integral part.\<close>

definition float_trunc :: "py_float \<Rightarrow> int" where
  "float_trunc f =
     (if 0 \<le> exp10 f then mantissa f * 10 ^ nat (exp10 f)
      else sgn (mantissa f) * (\<bar>mantissa f\<bar> div 10 ^ nat (- exp10 f)))"

definition float_le :: "py_float \<Rightarrow> py_float \<Rightarrow> bool" where
  "float_le f g = (let e = min (exp10 f) (exp10 g)
     in mantissa f * 10 ^ nat (exp10 f - e) \<le> mantissa g * 10 ^ nat (exp10 g - e))"

section \<open>Rendering values as text\<close>

definition hex_digit :: "nat \<Rightarrow> char" where
  "hex_digit n = (if n < 10 then char_of (48 + n) else char_of (87 + n))"

text \<open>\<open>str.isprintable\<close> on code points below 256.\<close>

definition py_printable :: "char \<Rightarrow> bool" where
  "py_printable c = (let n = (of_char c :: nat) in 32 \<le> n \<and> n \<noteq> 173 \<and> \<not> (127 \<le> n \<and> n \<le> 160))"

definition repr_char :: "char \<Rightarrow> char \<Rightarrow> string" where
  "repr_char quote c =
     (if c = quote \<or> c = char_of (92 :: nat) then [char_of (92 :: nat), c]
      else if c = char_of (10 :: nat) then [char_of (92 :: nat), CHR ''n'']
      else if c = char_of (13 :: nat) then [char_of (92 :: nat), CHR ''r'']
      else if c = char_of (9 :: nat) then [char_of (92 :: nat), CHR ''t'']
      else if py_printable c then [c]
      else (let n = (of_char c :: nat)
            in [char_of (92 :: nat), CHR ''x'', hex_digit (n div 16), hex_digit (n mod 16)]))"

definition repr_string :: "string \<Rightarrow> string" where
  "repr_string s =
     (let single = char_of (39 :: nat); double = char_of (34 :: nat);
          quote = (if single \<in> set s \<and> double \<notin> set s then double else single)
      in [quote] @ concat (map (repr_char quote) s) @ [quote])"

text \<open>\<open>repr(x)\<close> and \<open>str(x)\<close>, which differ on strings only.\<close>

fun py_repr :: "pyval \<Rightarrow> string" where
  "py_repr PNone = ''None''"
| "py_repr (PBool b) = (if b then ''True'' else ''False'')"
| "py_repr (PInt i) = int_str i"
| "py_repr (PFloat f) = float_repr f"
| "py_repr (PStr s) = repr_string s"
| "py_repr (PList vs) = ''['' @ py_join '', '' (map py_repr vs) @ '']''"
| "py_repr (PDict d) = ''{'' @ py_join '', '' (map (\<lambda>(k, v). repr_string k @ '': '' @ py_repr v) d) @ ''}''"

definition py_str :: "pyval \<Rightarrow> string" where
  "py_str v = (case v of PStr s \<Rightarrow> s | _ \<Rightarrow> py_repr v)"

section \<open>Reading integers\<close>

definition is_digit :: "char \<Rightarrow> bool" where
  "is_digit c = (let n = (of_char c :: nat) in 48 \<le> n \<and> n \<le> 57)"

text \<open>Digits with single underscores between them.\<close>

fun digit_groups :: "string \<Rightarrow> bool" where
  "digit_groups [] = False"
| "digit_groups [c] = is_digit c"
| "digit_groups (c # d # s) = (is_digit c \<and> (if d = CHR ''_'' then digit_groups s else digit_groups (d # s)))"

text \<open>\<open>int(s)\<close>; \<open>None\<close> is the \<open>ValueError\<close>.\<close>

definition parse_int :: "string \<Rightarrow> int option" where
  "parse_int s =
     (let t = py_strip s;
          (neg, u) = (case t of c # v \<Rightarrow> if c = CHR ''-'' then (True, v) else if c = CHR ''+'' then (False, v) else (False, t)
                      | [] \<Rightarrow> (False, []))
      in if digit_groups u
         then Some (let n = int (digits_value (filter is_digit u)) in if neg then - n else n) else None)"

section \<open>Texts of exceptions\<close>

text \<open>\<open>str(exc)\<close>.\<close>

fun exn_text :: "py_error \<Rightarrow> string" where
  "exn_text (ValueError m) = m"
| "exn_text (KeyError m) = repr_string m"
| "exn_text (RuntimeError m) = m"
| "exn_text (UnknownDiagnosticCode c) = ''Unknown diagnostic code: '' @ c"
| "exn_text (OtherError c m) = m"
| "exn_text (MissingRequiredSecret c f m) = m"
| "exn_text (DslLoadError c m) = m"

end
