(* ===== verification/Sanitize.thy ===== *)
theory Sanitize
  imports Nexus_Prelude
begin

text \<open>
  Model of \<open>connector/common/sanitize.py\<close> and of the report payload sanitizer
  (\<open>domain/reporting/adapters/payload_sanitizer.py\<close>): masking of the values under sensitive
  keys in nested data, and truncation of texts.
\<close>

section \<open>Masking and truncation\<close>

definition DEFAULT_SENSITIVE_FIELD_KEYS :: "string list" where
  "DEFAULT_SENSITIVE_FIELD_KEYS = [''password'', ''token'', ''authorization'', ''api_key'', ''secret'']"

definition mask_secret :: "pyval \<Rightarrow> pyval" where
  "mask_secret v = (case v of PNone \<Rightarrow> PNone | _ \<Rightarrow> PStr ''***'')"

definition is_masked_secret :: "pyval \<Rightarrow> bool" where
  "is_masked_secret v = (v = PStr ''***'')"

text \<open>\<open>s[:n]\<close>: a negative bound counts from the end.\<close>

definition py_prefix :: "int \<Rightarrow> 'a list \<Rightarrow> 'a list" where
  "py_prefix n s = (if 0 \<le> n then take (nat n) s else take (length s - nat (- n)) s)"

definition truncate_text :: "int \<Rightarrow> string \<Rightarrow> string" where
  "truncate_text limit v =
     (if int (length v) \<le> limit then v
      else (let suffix = (if 3 < limit then ''...'' else [])
            in py_prefix (limit - int (length suffix)) v @ suffix))"

abbreviation truncate_default :: "string \<Rightarrow> string" where
  "truncate_default \<equiv> truncate_text 500"

definition sensitive :: "string list \<Rightarrow> string \<Rightarrow> bool" where
  "sensitive keys k = (py_lower k \<in> set (map py_lower keys))"

text \<open>
  Dicts and lists are masked inside, every other value stays.  A tuple stays too in the source, with whatever it holds:
  \<open>pyval\<close> has the values of JSON texts, none of which is a tuple, and a payload built with a tuple is not modelled.
\<close>

fun mask_secrets_in_object :: "string list \<Rightarrow> pyval \<Rightarrow> pyval" where
  "mask_secrets_in_object keys (PDict d) =
     PDict (map (\<lambda>(k, v). (k, if sensitive keys k then mask_secret v else mask_secrets_in_object keys v)) d)"
| "mask_secrets_in_object keys (PList vs) = PList (map (mask_secrets_in_object keys) vs)"
| "mask_secrets_in_object keys v = v"

abbreviation mask_default :: "pyval \<Rightarrow> pyval" where
  "mask_default \<equiv> mask_secrets_in_object DEFAULT_SENSITIVE_FIELD_KEYS"

text \<open>
  \<open>PayloadSanitizer.sanitize\<close>; a dataclass payload is its \<open>asdict\<close>.  The declared secret fields
  are set at the top level, present or not.
\<close>

definition sanitize_payload :: "string list \<Rightarrow> pyval \<Rightarrow> string list option \<Rightarrow> pyval" where
  "sanitize_payload keys payload secret_fields =
     (case payload of
        PNone \<Rightarrow> PNone
      | _ \<Rightarrow>
         (case (mask_secrets_in_object keys payload, secret_fields) of
            (PDict d, Some fields) \<Rightarrow> PDict (fold (\<lambda>f. AList.update f (PStr ''***'')) fields d)
          | (v, _) \<Rightarrow> v))"

section \<open>What remains readable\<close>

text \<open>The values found under a sensitive key, at every depth outside other such values.\<close>

fun secret_values :: "string list \<Rightarrow> pyval \<Rightarrow> pyval list" where
  "secret_values keys (PDict d) =
     concat (map (\<lambda>(k, v). if sensitive keys k then [v] else secret_values keys v) d)"
| "secret_values keys (PList vs) = concat (map (secret_values keys) vs)"
| "secret_values keys v = []"

text \<open>The other scalar values, in order.\<close>

fun open_values :: "string list \<Rightarrow> pyval \<Rightarrow> pyval list" where
  "open_values keys (PDict d) =
     concat (map (\<lambda>(k, v). if sensitive keys k then [] else open_values keys v) d)"
| "open_values keys (PList vs) = concat (map (open_values keys) vs)"
| "open_values keys v = [v]"

lemma mask_secret_values: "mask_secret v \<in> {PNone, PStr ''***''}"
  by (cases v) (simp_all add: mask_secret_def)

lemma mask_secret_idem [simp]: "mask_secret (mask_secret v) = mask_secret v"
  by (cases v) (simp_all add: mask_secret_def)

lemma mask_idem [simp]: "mask_secrets_in_object keys (mask_secrets_in_object keys v) = mask_secrets_in_object keys v"
  by (induction keys v rule: mask_secrets_in_object.induct) (auto split: if_splits)

lemma secret_values_masked:
  "set (secret_values keys (mask_secrets_in_object keys v)) \<subseteq> {PNone, PStr ''***''}"
proof (induction keys v rule: mask_secrets_in_object.induct)
  case (1 keys d)
  have "set (secret_values keys (snd (k, if sensitive keys k then mask_secret v else mask_secrets_in_object keys v)))
      \<subseteq> {PNone, PStr ''***''} \<or> sensitive keys k" if "(k, v) \<in> set d" for k v
    using 1 [OF that refl] by (cases "sensitive keys k") auto
  with mask_secret_values show ?case by (fastforce split: if_splits)
qed auto

lemma open_values_masked: "open_values keys (mask_secrets_in_object keys v) = open_values keys v"
proof (induction keys v rule: mask_secrets_in_object.induct)
  case (1 keys d)
  then show ?case
    by (auto simp: o_def case_prod_beta split: if_splits intro!: arg_cong [where f = concat] map_cong)
next
  case (2 keys vs)
  then show ?case
    by (auto simp: o_def intro!: arg_cong [where f = concat] map_cong)
qed simp_all

text \<open>Nothing but None and asterisks under a sensitive key.\<close>

definition redacted :: "string list \<Rightarrow> pyval \<Rightarrow> bool" where
  "redacted keys v \<longleftrightarrow> set (secret_values keys v) \<subseteq> {PNone, PStr ''***''}"

lemma redacted_mask [simp]: "redacted keys (mask_secrets_in_object keys v)"
  using secret_values_masked by (simp add: redacted_def)

lemma redacted_scalar [simp]:
  "redacted keys PNone" "redacted keys (PStr s)" "redacted keys (PBool b)" "redacted keys (PInt i)" "redacted keys (PFloat f)"
  "redacted keys (PDict [])" "redacted keys (str_list ss)"
  by (simp_all add: redacted_def str_list_def)

lemma redacted_Cons:
  "redacted keys (PDict ((k, v) # d)) \<longleftrightarrow>
     (if sensitive keys k then v = PNone \<or> v = PStr ''***'' else redacted keys v) \<and> redacted keys (PDict d)"
  by (auto simp: redacted_def)

lemma redacted_update:
  "redacted keys (PDict d) \<Longrightarrow> redacted keys v \<Longrightarrow> \<not> sensitive keys k \<Longrightarrow> redacted keys (PDict (AList.update k v d))"
  by (induction d) (auto simp: redacted_Cons)

lemma redacted_get: "redacted keys (PDict d) \<Longrightarrow> \<not> sensitive keys k \<Longrightarrow> redacted keys (dict_get_or d k PNone)"
  by (induction d) (auto simp: redacted_Cons dict_get_or_def)

lemma map_of_fold_update:
  "map_of (fold (\<lambda>f. AList.update f v) fs d) k = (if k \<in> set fs then Some v else map_of d k)"
  by (induction fs arbitrary: d) (auto simp: update_conv')

section \<open>Properties\<close>

text \<open>
  Masking leaves under every sensitive key, at any depth and in any case of the key, nothing but None
  or three asterisks, keeps every other scalar value in order, and masking again changes nothing.
\<close>

theorem masking_safe:
  "set (secret_values keys (mask_secrets_in_object keys v)) \<subseteq> {PNone, PStr ''***''}
   \<and> open_values keys (mask_secrets_in_object keys v) = open_values keys v
   \<and> mask_secrets_in_object keys (mask_secrets_in_object keys v) = mask_secrets_in_object keys v"
  using secret_values_masked open_values_masked mask_idem by blast

text \<open>
  For a limit that is not negative the truncated text is never longer than the limit; it is the text
  itself exactly when the text fits, and otherwise begins with the text's first characters.
\<close>

theorem truncate_bounds:
  assumes "0 \<le> limit"
  shows "int (length (truncate_text limit v)) \<le> limit
    \<and> (truncate_text limit v = v \<longleftrightarrow> int (length v) \<le> limit)
    \<and> (limit < int (length v) \<longrightarrow>
         int (length (truncate_text limit v)) = limit
         \<and> take (nat limit - 3) (truncate_text limit v) = take (nat limit - 3) v)"
proof (cases "int (length v) \<le> limit")
  case True
  then show ?thesis by (simp add: truncate_text_def)
next
  case False
  then have n: "nat limit < length v" using assms by linarith
  have len: "int (length (truncate_text limit v)) = limit"
    using False assms n by (auto simp: truncate_text_def py_prefix_def Let_def nat_diff_distrib)
  moreover have "take (nat limit - 3) (truncate_text limit v) = take (nat limit - 3) v"
    using False assms n by (auto simp: truncate_text_def py_prefix_def Let_def nat_diff_distrib)
  ultimately show ?thesis using False by force
qed

lemma truncate_bounds_witness:
  "int (length (truncate_text 8 ''a long secret text'')) \<le> 8"
  by (rule truncate_bounds [THEN conjunct1]) simp

end
