(* ===== verification/Diagnostics.thy ===== *)
theory Diagnostics
  imports Nexus_Prelude
begin

text \<open>
  Model of \<open>connector/domain/diagnostics\<close> and of the diagnostic models of
  \<open>connector/domain/models.py\<close>: the system error codes and the policies over them
  (\<open>policies.py\<close>), the catalog of diagnostic codes and the factories that consult it
  (\<open>catalog.py\<close>, \<open>core_catalog.py\<close>), the translation of external failures
  (\<open>translator.py\<close>) and the result of a command with its exit code
  (\<open>command_result.py\<close>).
\<close>

section \<open>System error codes\<close>

datatype system_error_code =
    OK | UNKNOWN_CODE | INTERNAL_ERROR | DATA_INVALID | AUTH_UNAUTHORIZED | AUTH_FORBIDDEN
  | CONFLICT | INFRA_TIMEOUT | INFRA_UNAVAILABLE | IO_ERROR | CACHE_ERROR

fun sc_value :: "system_error_code \<Rightarrow> string" where
  "sc_value OK = ''OK''"
| "sc_value UNKNOWN_CODE = ''UNKNOWN_CODE''"
| "sc_value INTERNAL_ERROR = ''INTERNAL_ERROR''"
| "sc_value DATA_INVALID = ''DATA_INVALID''"
| "sc_value AUTH_UNAUTHORIZED = ''AUTH_UNAUTHORIZED''"
| "sc_value AUTH_FORBIDDEN = ''AUTH_FORBIDDEN''"
| "sc_value CONFLICT = ''CONFLICT''"
| "sc_value INFRA_TIMEOUT = ''INFRA_TIMEOUT''"
| "sc_value INFRA_UNAVAILABLE = ''INFRA_UNAVAILABLE''"
| "sc_value IO_ERROR = ''IO_ERROR''"
| "sc_value CACHE_ERROR = ''CACHE_ERROR''"

lemma sc_value_inject: "sc_value a = sc_value b \<longleftrightarrow> a = b"
  by (cases a; cases b) simp_all

text \<open>\<open>sorted(codes, key=lambda c: c.value)\<close> is \<open>sort\<close> at this instance.\<close>

instantiation system_error_code :: linorder
begin

definition less_eq_system_error_code :: "system_error_code \<Rightarrow> system_error_code \<Rightarrow> bool" where
  "less_eq_system_error_code a b = (sc_value a \<le> sc_value b)"

definition less_system_error_code :: "system_error_code \<Rightarrow> system_error_code \<Rightarrow> bool" where
  "less_system_error_code a b = (sc_value a < sc_value b)"

instance
  by standard (auto simp: less_eq_system_error_code_def less_system_error_code_def
      sc_value_inject less_le_not_le dest: order_antisym)

end

section \<open>Policies\<close>

record retry_policy =
  rp_retryable :: "system_error_code list"
  rp_max_attempts :: int

record stop_policy =
  sp_fatal :: "system_error_code list"

record exit_code_policy =
  ep_mapping :: "(system_error_code, int) dict"
  ep_default_code :: int

definition should_retry :: "retry_policy \<Rightarrow> system_error_code \<Rightarrow> int \<Rightarrow> bool" where
  "should_retry p sys_code attempt = (sys_code \<in> set (rp_retryable p) \<and> attempt < rp_max_attempts p)"

definition is_fatal :: "stop_policy \<Rightarrow> system_error_code \<Rightarrow> bool" where
  "is_fatal p sys_code = (sys_code \<in> set (sp_fatal p))"

definition should_stop_fast :: "stop_policy \<Rightarrow> system_error_code \<Rightarrow> bool \<Rightarrow> bool" where
  "should_stop_fast p sys_code stop_on_first_error = (stop_on_first_error \<and> is_fatal p sys_code)"

definition exit_code_of :: "exit_code_policy \<Rightarrow> system_error_code \<Rightarrow> int" where
  "exit_code_of p sys_code = dict_get_or (ep_mapping p) sys_code (ep_default_code p)"

definition SYSTEM_TO_DIAG :: "(system_error_code, string) dict" where
  "SYSTEM_TO_DIAG = [
    (AUTH_UNAUTHORIZED, ''SINK_UNAUTHORIZED''),
    (AUTH_FORBIDDEN, ''SINK_FORBIDDEN''),
    (CONFLICT, ''SINK_CONFLICT''),
    (INFRA_TIMEOUT, ''SINK_TIMEOUT''),
    (IO_ERROR, ''SINK_IO_ERROR''),
    (INFRA_UNAVAILABLE, ''SINK_UNAVAILABLE'')]"

definition RETRYABLE_CODES :: "system_error_code list" where
  "RETRYABLE_CODES = [INFRA_UNAVAILABLE, INFRA_TIMEOUT]"

definition FATAL_CODES :: "system_error_code list" where
  "FATAL_CODES = [AUTH_UNAUTHORIZED, AUTH_FORBIDDEN, INTERNAL_ERROR]"

definition FATAL_PRIORITY :: "system_error_code list" where
  "FATAL_PRIORITY = [INTERNAL_ERROR, AUTH_UNAUTHORIZED, AUTH_FORBIDDEN]"

definition EXIT_CODE_MAP :: "(system_error_code, int) dict" where
  "EXIT_CODE_MAP = [(OK, 0), (DATA_INVALID, 1), (CONFLICT, 1), (AUTH_UNAUTHORIZED, 2),
    (AUTH_FORBIDDEN, 2), (CACHE_ERROR, 2), (IO_ERROR, 2), (INFRA_TIMEOUT, 2),
    (INFRA_UNAVAILABLE, 2), (INTERNAL_ERROR, 2), (UNKNOWN_CODE, 2)]"

definition default_retry_policy :: "int \<Rightarrow> retry_policy" where
  "default_retry_policy max_attempts =
     \<lparr>rp_retryable = RETRYABLE_CODES, rp_max_attempts = max_attempts\<rparr>"

definition default_stop_policy :: stop_policy where
  "default_stop_policy = \<lparr>sp_fatal = FATAL_CODES\<rparr>"

definition default_exit_policy :: exit_code_policy where
  "default_exit_policy = \<lparr>ep_mapping = EXIT_CODE_MAP, ep_default_code = 1\<rparr>"

definition map_system_code :: "system_error_code option \<Rightarrow> string" where
  "map_system_code system_code =
     (case system_code of
        None \<Rightarrow> ''SINK_HTTP_ERROR''
      | Some c \<Rightarrow> dict_get_or SYSTEM_TO_DIAG c ''SINK_HTTP_ERROR'')"

definition map_http_status :: "int option \<Rightarrow> system_error_code" where
  "map_http_status status_code =
     (case status_code of
        None \<Rightarrow> INTERNAL_ERROR
      | Some s \<Rightarrow>
          if s = 401 then AUTH_UNAUTHORIZED
          else if s = 403 then AUTH_FORBIDDEN
          else if s = 409 then CONFLICT
          else if 400 \<le> s \<and> s < 500 then DATA_INVALID
          else if 500 \<le> s then INFRA_UNAVAILABLE
          else INTERNAL_ERROR)"

text \<open>The argument is the set of codes, given as a list of its members.\<close>

definition resolve_primary_code :: "system_error_code list \<Rightarrow> stop_policy \<Rightarrow> system_error_code" where
  "resolve_primary_code codes stop_policy =
     (if codes = [] then OK
      else if OK \<in> set codes \<and> length (remdups codes) = 1 then OK
      else (case find (\<lambda>code. code \<in> set codes \<and> is_fatal stop_policy code) FATAL_PRIORITY of
          Some code \<Rightarrow> code
        | None \<Rightarrow>
           (case find (is_fatal stop_policy) (sort codes) of
              Some code \<Rightarrow> code
            | None \<Rightarrow>
                if DATA_INVALID \<in> set codes then DATA_INVALID
                else if CONFLICT \<in> set codes then CONFLICT
                else hd (sort codes))))"

section \<open>Diagnostic items and the catalog\<close>

datatype diagnostic_stage =
    EXTRACT | MAP | NORMALIZE | ENRICH | VALIDATE | MATCH | RESOLVE | PLAN | APPLY | CACHE | SINK
  | TOPOLOGY_VALIDATE | TOPOLOGY_BOOTSTRAP

datatype diagnostic_severity = SEVERITY_ERROR | SEVERITY_WARNING

text \<open>The identity fields of a reference are any value: the reader of stored rows does not check them.\<close>

record row_ref =
  rr_line_no :: "int option"
  rr_row_id :: string
  rr_identity_primary :: pyval
  rr_identity_value :: pyval

record diagnostic_item =
  di_stage :: diagnostic_stage
  di_code :: string
  di_field :: "string option"
  di_message :: string
  di_record_ref :: "row_ref option"
  di_details :: "(string, pyval) dict option"
  di_severity :: "diagnostic_severity option"

record identity =
  id_primary :: string
  id_values :: "(string, string) dict"

definition primary_value :: "identity \<Rightarrow> string" where
  "primary_value i = dict_get_or (id_values i) (id_primary i) []"

record catalog_entry =
  ce_diag_code :: string
  ce_system_code :: system_error_code
  ce_default_message :: "string option"
  ce_severity :: "diagnostic_severity option"
  ce_retryable :: bool
  ce_fatal :: bool

record error_catalog =
  cat_entries :: "(string, catalog_entry) dict"
  cat_strict :: bool

definition register_entry :: "catalog_entry \<Rightarrow> error_catalog \<Rightarrow> error_catalog" where
  "register_entry e cat = cat\<lparr>cat_entries := AList.update (ce_diag_code e) e (cat_entries cat)\<rparr>"

definition register_many :: "catalog_entry list \<Rightarrow> error_catalog \<Rightarrow> error_catalog" where
  "register_many es cat = fold register_entry es cat"

definition make_catalog :: "catalog_entry list \<Rightarrow> bool \<Rightarrow> error_catalog" where
  "make_catalog entries strict = register_many entries \<lparr>cat_entries = [], cat_strict = strict\<rparr>"

definition with_strict :: "error_catalog \<Rightarrow> bool \<Rightarrow> error_catalog" where
  "with_strict cat strict = register_many (map snd (cat_entries cat)) (make_catalog [] strict)"

definition catalog_contains :: "error_catalog \<Rightarrow> string \<Rightarrow> bool" where
  "catalog_contains cat code = (map_of (cat_entries cat) code \<noteq> None)"

fun merge_loop :: "catalog_entry list \<Rightarrow> string \<Rightarrow> error_catalog \<Rightarrow> error_catalog result" where
  "merge_loop [] on_conflict merged = Inr merged"
| "merge_loop (e # es) on_conflict merged =
     (if catalog_contains merged (ce_diag_code e) \<and> on_conflict \<noteq> ''override''
      then Inl (ValueError (''Duplicate diagnostic code: '' @ ce_diag_code e))
      else merge_loop es on_conflict (register_entry e merged))"

definition merge_catalogs :: "error_catalog \<Rightarrow> error_catalog \<Rightarrow> string \<Rightarrow> error_catalog result" where
  "merge_catalogs cat other on_conflict =
     merge_loop (map snd (cat_entries other)) on_conflict
       (register_many (map snd (cat_entries cat)) (make_catalog [] (cat_strict cat \<or> cat_strict other)))"

definition classify :: "error_catalog \<Rightarrow> string \<Rightarrow> system_error_code result" where
  "classify cat code =
     (case map_of (cat_entries cat) code of
        Some e \<Rightarrow> Inr (ce_system_code e)
      | None \<Rightarrow> if cat_strict cat then Inl (UnknownDiagnosticCode code) else Inr UNKNOWN_CODE)"

definition resolve_severity ::
    "error_catalog \<Rightarrow> string \<Rightarrow> diagnostic_severity option \<Rightarrow> diagnostic_severity \<Rightarrow> diagnostic_severity" where
  "resolve_severity cat code explicit fallback =
     (case explicit of
        Some s \<Rightarrow> s
      | None \<Rightarrow>
         (case map_of (cat_entries cat) code of
            Some e \<Rightarrow> (case ce_severity e of Some s \<Rightarrow> s | None \<Rightarrow> fallback)
          | None \<Rightarrow> fallback))"

definition resolve_message :: "error_catalog \<Rightarrow> string \<Rightarrow> string option \<Rightarrow> string" where
  "resolve_message cat code explicit =
     (if explicit \<noteq> None \<and> explicit \<noteq> Some [] then the explicit
      else (case map_of (cat_entries cat) code of
          Some e \<Rightarrow> str_or (ce_default_message e) code
        | None \<Rightarrow> code))"

definition from_catalog ::
    "error_catalog \<Rightarrow> diagnostic_stage \<Rightarrow> string \<Rightarrow> string option \<Rightarrow> string option \<Rightarrow> row_ref option
     \<Rightarrow> (string, pyval) dict option \<Rightarrow> diagnostic_severity option \<Rightarrow> diagnostic_severity
     \<Rightarrow> diagnostic_item result" where
  "from_catalog cat stage code fld message rref details severity default_severity =
     bind_r (classify cat code) (\<lambda>_.
       Inr \<lparr>di_stage = stage, di_code = code, di_field = fld,
            di_message = resolve_message cat code message, di_record_ref = rref,
            di_details = details,
            di_severity = Some (resolve_severity cat code severity default_severity)\<rparr>)"

definition build_error ::
    "error_catalog \<Rightarrow> diagnostic_stage \<Rightarrow> string \<Rightarrow> string option \<Rightarrow> string option \<Rightarrow> row_ref option
     \<Rightarrow> (string, pyval) dict option \<Rightarrow> diagnostic_severity option \<Rightarrow> diagnostic_item result" where
  "build_error cat stage code fld message rref details severity =
     from_catalog cat stage code fld message rref details severity SEVERITY_ERROR"

definition build_warning ::
    "error_catalog \<Rightarrow> diagnostic_stage \<Rightarrow> string \<Rightarrow> string option \<Rightarrow> string option \<Rightarrow> row_ref option
     \<Rightarrow> (string, pyval) dict option \<Rightarrow> diagnostic_severity option \<Rightarrow> diagnostic_item result" where
  "build_warning cat stage code fld message rref details severity =
     from_catalog cat stage code fld message rref details severity SEVERITY_WARNING"

section \<open>Translation of external failures\<close>

definition translate_exception ::
    "error_catalog \<Rightarrow> diagnostic_stage \<Rightarrow> string \<Rightarrow> row_ref option \<Rightarrow> diagnostic_item result" where
  "translate_exception cat stage exc_text rref =
     build_error cat stage ''INTERNAL_ERROR'' None (Some exc_text) rref None None"

text \<open>\<open>diagnostic_boundary\<close>: what was raised becomes a diagnostic, except an unknown diagnostic code.\<close>

definition diagnostic_boundary ::
    "error_catalog \<Rightarrow> diagnostic_stage \<Rightarrow> row_ref option \<Rightarrow> 'a option result \<Rightarrow> ('a option \<times> diagnostic_item list) result" where
  "diagnostic_boundary cat stage rref r =
     (case r of
        Inr res \<Rightarrow> Inr (res, [])
      | Inl (UnknownDiagnosticCode c) \<Rightarrow> Inl (UnknownDiagnosticCode c)
      | Inl e \<Rightarrow> bind_r (translate_exception cat stage (exn_text e) rref) (\<lambda>diag. Inr (None, [diag])))"

definition translate_http ::
    "error_catalog \<Rightarrow> diagnostic_stage \<Rightarrow> int option \<Rightarrow> pyval option \<Rightarrow> row_ref option \<Rightarrow> diagnostic_item result" where
  "translate_http cat stage status body rref =
     (let system_code = map_option (\<lambda>s. map_http_status (Some s)) status;
          code = map_system_code system_code;
          message = (case status of Some s \<Rightarrow> ''HTTP '' @ int_str s | None \<Rightarrow> ''HTTP error'');
          details = (if status \<noteq> None \<or> body \<noteq> None
                     then Some [(''status'', opt_int status),
                                (''body'', case body of None \<Rightarrow> PNone | Some b \<Rightarrow> b),
                                (''system_code'', opt_str (map_option sc_value system_code))]
                     else None)
      in build_error cat stage code None (Some message) rref details None)"

text \<open>\<open>ExecutionResult\<close> of \<open>connector/domain/ports/target/execution.py\<close>.\<close>

record execution_result =
  er_ok :: bool
  er_answer_code :: pyval
  er_response_payload :: pyval
  er_error_code :: "system_error_code option"
  er_error_message :: "string option"
  er_error_reason :: "string option"
  er_error_details :: "(string, pyval) dict option"
  er_response_format :: string

definition translate_execution_result ::
    "error_catalog \<Rightarrow> diagnostic_stage \<Rightarrow> execution_result \<Rightarrow> row_ref option \<Rightarrow> diagnostic_item result" where
  "translate_execution_result cat stage result rref =
     build_error cat stage (map_system_code (er_error_code result)) None
       (Some (str_or (er_error_message result) ''request failed'')) rref
       (Some [(''answer_code'', er_answer_code result),
              (''response_format'', PStr (er_response_format result)),
              (''error_code'', opt_str (map_option sc_value (er_error_code result))),
              (''error_reason'', opt_str (er_error_reason result)),
              (''error_details'', case er_error_details result of None \<Rightarrow> PNone | Some d \<Rightarrow> PDict d)])
       None"

definition system_code_of :: "error_catalog \<Rightarrow> diagnostic_item \<Rightarrow> system_error_code result" where
  "system_code_of cat diag = classify cat (di_code diag)"

section \<open>The result of a command\<close>

record command_result =
  cr_system_codes :: "system_error_code list"
  cr_diagnostics :: "diagnostic_item list"
  cr_summary :: "(string, pyval) dict option"

definition add_code :: "system_error_code \<Rightarrow> command_result \<Rightarrow> command_result" where
  "add_code code cr = cr\<lparr>cr_system_codes := List.insert code (cr_system_codes cr)\<rparr>"

text \<open>The loop keeps what it added before a classification raised.\<close>

fun add_diagnostics :: "error_catalog \<Rightarrow> diagnostic_item list \<Rightarrow> command_result \<Rightarrow> command_result \<times> py_error option" where
  "add_diagnostics cat [] cr = (cr, None)"
| "add_diagnostics cat (item # items) cr =
     (let cr' = cr\<lparr>cr_diagnostics := cr_diagnostics cr @ [item]\<rparr>
      in case classify cat (di_code item) of
           Inl e \<Rightarrow> (cr', Some e)
         | Inr c \<Rightarrow> add_diagnostics cat items (add_code c cr'))"

definition primary_code :: "command_result \<Rightarrow> stop_policy option \<Rightarrow> system_error_code" where
  "primary_code cr sp =
     resolve_primary_code (cr_system_codes cr) (case sp of None \<Rightarrow> default_stop_policy | Some p \<Rightarrow> p)"

definition command_exit_code :: "command_result \<Rightarrow> exit_code_policy option \<Rightarrow> stop_policy option \<Rightarrow> int" where
  "command_exit_code cr ep sp =
     exit_code_of (case ep of None \<Rightarrow> default_exit_policy | Some p \<Rightarrow> p) (primary_code cr sp)"

definition command_ok :: "command_result \<Rightarrow> bool" where
  "command_ok cr = (cr_system_codes cr = [] \<or> set (cr_system_codes cr) = {OK})"

section \<open>Facts about the primary code\<close>

lemma hd_sort:
  assumes "xs \<noteq> []"
  shows "hd (sort xs) \<in> set xs \<and> (\<forall>x \<in> set xs. hd (sort xs) \<le> x)"
proof -
  have ne: "sort xs \<noteq> []" using assms by (metis set_empty set_sort)
  obtain y ys where y: "sort xs = y # ys" using ne by (cases "sort xs") auto
  have "sorted (y # ys)" using sorted_sort [of xs] by (simp add: y)
  then have "\<forall>x \<in> set (y # ys). y \<le> x" by auto
  moreover have "set (y # ys) = set xs" using set_sort [of "\<lambda>x. x" xs] by (simp add: y)
  ultimately show ?thesis unfolding y by auto
qed

lemma OK_le_iff: "OK \<le> c \<longleftrightarrow> c = OK \<or> c = UNKNOWN_CODE"
  by (cases c; hypsubst; code_simp)

lemma find_Some_in: "find P xs = Some x \<Longrightarrow> x \<in> set xs \<and> P x"
  by (induction xs) (auto split: if_splits)

lemma remdups_singleton: "length (remdups xs) = 1 \<Longrightarrow> x \<in> set xs \<Longrightarrow> set xs = {x}"
  by (metis card_1_singletonE length_remdups_card_conv singletonD)

lemma primary_in_codes:
  "codes \<noteq> [] \<Longrightarrow> resolve_primary_code codes sp \<in> set codes"
  using hd_sort [of codes]
  by (auto simp: resolve_primary_code_def dest: find_Some_in split: option.splits)

lemma primary_fatal:
  assumes "c \<in> set codes" "is_fatal sp c" "\<not> is_fatal sp OK"
  shows "is_fatal sp (resolve_primary_code codes sp)"
proof -
  have "\<not> (OK \<in> set codes \<and> length (remdups codes) = 1)"
    using assms remdups_singleton by fastforce
  moreover have "find (is_fatal sp) (sort codes) \<noteq> None"
    using assms by (auto simp: find_None_iff)
  ultimately show ?thesis
    using assms(1) by (auto simp: resolve_primary_code_def dest: find_Some_in split: option.splits)
qed

lemma primary_default_OK_iff:
  "resolve_primary_code codes default_stop_policy = OK
     \<longleftrightarrow> codes = [] \<or> (OK \<in> set codes \<and> set codes \<subseteq> {OK, UNKNOWN_CODE})"
proof (cases "codes = []")
  case True
  then show ?thesis by (simp add: resolve_primary_code_def)
next
  case ne: False
  let ?sp = default_stop_policy
  have fat: "is_fatal ?sp c \<longleftrightarrow> c \<in> {AUTH_UNAUTHORIZED, AUTH_FORBIDDEN, INTERNAL_ERROR}" for c
    by (auto simp: is_fatal_def default_stop_policy_def FATAL_CODES_def)
  show ?thesis
  proof (cases "\<exists>c \<in> set codes. is_fatal ?sp c")
    case True
    then obtain c where c: "c \<in> set codes" "is_fatal ?sp c" by blast
    have nOK: "\<not> is_fatal ?sp OK" by (simp add: fat)
    have "is_fatal ?sp (resolve_primary_code codes ?sp)"
      by (rule primary_fatal [OF c nOK])
    with c ne show ?thesis by (auto simp: fat)
  next
    case False
    have f1: "find (\<lambda>code. code \<in> set codes \<and> is_fatal ?sp code) FATAL_PRIORITY = None"
      using False by (auto simp: find_None_iff)
    have f2: "find (is_fatal ?sp) (sort codes) = None"
      using False by (auto simp: find_None_iff)
    have hd: "hd (sort codes) = OK \<longleftrightarrow> OK \<in> set codes \<and> set codes \<subseteq> {OK, UNKNOWN_CODE}"
    proof
      assume "hd (sort codes) = OK"
      with hd_sort [OF ne] show "OK \<in> set codes \<and> set codes \<subseteq> {OK, UNKNOWN_CODE}"
        by (auto simp: OK_le_iff)
    next
      assume "OK \<in> set codes \<and> set codes \<subseteq> {OK, UNKNOWN_CODE}"
      with hd_sort [OF ne] have "hd (sort codes) \<le> OK" "OK \<le> hd (sort codes)"
        by (auto simp: OK_le_iff)
      then show "hd (sort codes) = OK" by (rule antisym)
    qed
    show ?thesis
      using ne remdups_singleton [of codes OK]
      by (auto simp: resolve_primary_code_def f1 f2 hd)
  qed
qed

lemma exit_code_zero_code: "exit_code_of default_exit_policy c = 0 \<longleftrightarrow> c = OK"
  by (cases c) (simp_all add: exit_code_of_def default_exit_policy_def EXIT_CODE_MAP_def dict_get_or_def)

section \<open>Facts about the catalog\<close>

lemma map_of_register:
  "map_of (cat_entries (register_entry e cat)) = (map_of (cat_entries cat))(ce_diag_code e \<mapsto> e)"
  by (simp add: register_entry_def update_conv')

lemma contains_register_many:
  "catalog_contains (register_many es cat) c \<longleftrightarrow> catalog_contains cat c \<or> c \<in> ce_diag_code ` set es"
  by (induction es arbitrary: cat)
    (auto simp: register_many_def catalog_contains_def map_of_register)

lemma strict_register_many [simp]: "cat_strict (register_many es cat) = cat_strict cat"
  by (induction es arbitrary: cat) (simp_all add: register_many_def register_entry_def)

text \<open>A catalog on which a code can be classified: permissive, or holding the code.\<close>

definition accepts :: "error_catalog \<Rightarrow> string \<Rightarrow> bool" where
  "accepts cat code \<longleftrightarrow> \<not> cat_strict cat \<or> catalog_contains cat code"

lemma classify_accepts: "(\<exists>c. classify cat code = Inr c) \<longleftrightarrow> accepts cat code"
  by (auto simp: classify_def accepts_def catalog_contains_def split: option.splits)

definition item :: "error_catalog \<Rightarrow> diagnostic_stage \<Rightarrow> string \<Rightarrow> string option \<Rightarrow> string option \<Rightarrow> row_ref option
     \<Rightarrow> (string, pyval) dict option \<Rightarrow> diagnostic_severity \<Rightarrow> diagnostic_item" where
  "item cat stage code fld message rref details sev =
     \<lparr>di_stage = stage, di_code = code, di_field = fld,
      di_message = resolve_message cat code message, di_record_ref = rref,
      di_details = details, di_severity = Some sev\<rparr>"

lemma build_error_accepts [simp]:
  "accepts cat code \<Longrightarrow> build_error cat stage code fld message rref details severity =
     Inr (item cat stage code fld message rref details (resolve_severity cat code severity SEVERITY_ERROR))"
  using classify_accepts [of cat code] by (auto simp: build_error_def from_catalog_def item_def)

lemma build_warning_accepts [simp]:
  "accepts cat code \<Longrightarrow> build_warning cat stage code fld message rref details severity =
     Inr (item cat stage code fld message rref details (resolve_severity cat code severity SEVERITY_WARNING))"
  using classify_accepts [of cat code] by (auto simp: build_warning_def from_catalog_def item_def)

lemma item_code [simp]: "di_code (item cat stage code fld message rref details sev) = code"
  by (simp add: item_def)

lemma register_many_distinct:
  assumes "distinct (map ce_diag_code es)" "ce_diag_code ` set es \<inter> fst ` set (cat_entries cat) = {}"
  shows "cat_entries (register_many es cat) = cat_entries cat @ map (\<lambda>e. (ce_diag_code e, e)) es"
  using assms
proof (induction es arbitrary: cat)
  case Nil
  then show ?case by (simp add: register_many_def)
next
  case (Cons e es)
  have reg: "cat_entries (register_entry e cat) = cat_entries cat @ [(ce_diag_code e, e)]"
    using Cons.prems by (simp add: register_entry_def update_fresh)
  have "ce_diag_code ` set es \<inter> fst ` set (cat_entries (register_entry e cat)) = {}"
    using Cons.prems by (auto simp: reg)
  from Cons.IH [OF _ this] Cons.prems show ?case
    by (simp add: register_many_def reg)
qed

lemma merge_loop_error:
  "(\<exists>m. merge_loop es ''error'' cat = Inr m) \<longleftrightarrow>
     distinct (map ce_diag_code es) \<and> ce_diag_code ` set es \<inter> {c. catalog_contains cat c} = {}"
proof (induction es arbitrary: cat)
  case Nil
  then show ?case by simp
next
  case (Cons e es)
  have "{c. catalog_contains (register_entry e cat) c} = insert (ce_diag_code e) {c. catalog_contains cat c}"
    by (auto simp: catalog_contains_def map_of_register)
  then show ?case
    using Cons.IH [of "register_entry e cat"] by (cases "catalog_contains cat (ce_diag_code e)") auto
qed

section \<open>Properties\<close>

text \<open>
  The exit code of a command is 0 exactly when it recorded no system code, or recorded OK
  and nothing but OK and UNKNOWN_CODE.  A command that is not \<open>ok\<close> can therefore still exit
  with 0: an UNKNOWN_CODE next to OK is sorted behind it and lost.
\<close>

theorem exit_code_zero_iff:
  "(command_exit_code cr None None = 0 \<longleftrightarrow>
      cr_system_codes cr = [] \<or> (OK \<in> set (cr_system_codes cr) \<and> set (cr_system_codes cr) \<subseteq> {OK, UNKNOWN_CODE}))
   \<and> (\<exists>bad. command_exit_code bad None None = 0 \<and> \<not> command_ok bad)"
proof -
  have zero: "command_exit_code c None None = 0 \<longleftrightarrow>
      cr_system_codes c = [] \<or> (OK \<in> set (cr_system_codes c) \<and> set (cr_system_codes c) \<subseteq> {OK, UNKNOWN_CODE})" for c
    by (simp add: command_exit_code_def primary_code_def exit_code_zero_code primary_default_OK_iff)
  let ?bad = "\<lparr>cr_system_codes = [OK, UNKNOWN_CODE], cr_diagnostics = [], cr_summary = None\<rparr>"
  have "command_exit_code ?bad None None = 0" by (simp add: zero)
  moreover have "\<not> command_ok ?bad" by (auto simp: command_ok_def)
  ultimately show ?thesis using zero by blast
qed

text \<open>
  C39. Whenever a command recorded a fatal system code, its primary code is fatal, whatever else
  was recorded, and under the default policies it exits with 2; the primary code is always one
  of the recorded codes.
\<close>

theorem fatal_code_wins:
  assumes "c \<in> set (cr_system_codes cr)" "is_fatal default_stop_policy c"
  shows "is_fatal default_stop_policy (primary_code cr None)
    \<and> primary_code cr None \<in> set (cr_system_codes cr)
    \<and> command_exit_code cr None None = 2"
proof -
  have nOK: "\<not> is_fatal default_stop_policy OK"
    by (simp add: is_fatal_def default_stop_policy_def FATAL_CODES_def)
  have f: "is_fatal default_stop_policy (primary_code cr None)"
    using primary_fatal [OF assms nOK] by (simp add: primary_code_def)
  then have "exit_code_of default_exit_policy (primary_code cr None) = 2"
    by (auto simp: is_fatal_def default_stop_policy_def FATAL_CODES_def exit_code_of_def
        default_exit_policy_def EXIT_CODE_MAP_def dict_get_or_def)
  moreover have "cr_system_codes cr \<noteq> []" using assms(1) by auto
  then have "primary_code cr None \<in> set (cr_system_codes cr)"
    by (simp add: primary_code_def primary_in_codes)
  ultimately show ?thesis
    using f by (simp add: command_exit_code_def)
qed

lemma fatal_code_wins_witness:
  "command_exit_code \<lparr>cr_system_codes = [DATA_INVALID, AUTH_FORBIDDEN], cr_diagnostics = [], cr_summary = None\<rparr>
     None None = 2"
  using fatal_code_wins [of AUTH_FORBIDDEN
      "\<lparr>cr_system_codes = [DATA_INVALID, AUTH_FORBIDDEN], cr_diagnostics = [], cr_summary = None\<rparr>"]
  by (simp add: is_fatal_def default_stop_policy_def FATAL_CODES_def)

end
