(* ===== verification/Transform_Result.thy ===== *)
theory Transform_Result
  imports Diagnostics
begin

text \<open>
  Model of \<open>connector/domain/transform/core/result.py\<close> and \<open>source_record.py\<close>: the result that every
  stage of the pipeline passes on, with the row of its stage, and the updates the stages make through
  \<open>TransformResultBuilder\<close>, which are pure functions here.

  The frozen mappings of a result are \<open>MappingProxyType\<close> values.  They differ from dictionaries where the
  program asks for the class of the object or dumps it, so \<open>py_mapping\<close> keeps the difference.
\<close>

datatype py_mapping = Plain_Dict "(string, pyval) dict" | Frozen_Mapping "(string, pyval) dict"

fun mapping_items :: "py_mapping \<Rightarrow> (string, pyval) dict" where
  "mapping_items (Plain_Dict d) = d"
| "mapping_items (Frozen_Mapping d) = d"

definition freeze_mapping :: "(string, pyval) dict \<Rightarrow> py_mapping" where
  "freeze_mapping d = Frozen_Mapping d"

record source_record =
  src_line_no :: int
  src_record_id :: string
  src_values :: "(string, pyval) dict"

record 'r transform_result =
  tr_record :: source_record
  tr_row :: "'r option"
  tr_row_ref :: "row_ref option"
  tr_match_key :: "string option"
  tr_meta :: "(string, pyval) dict"
  tr_secret_candidates :: "(string, string) dict"
  tr_errors :: "diagnostic_item list"
  tr_warnings :: "diagnostic_item list"

text \<open>The row of a result may change its type from stage to stage.\<close>

definition with_row :: "'s option \<Rightarrow> 'r transform_result \<Rightarrow> 's transform_result" where
  "with_row row t =
     \<lparr>tr_record = tr_record t, tr_row = row, tr_row_ref = tr_row_ref t, tr_match_key = tr_match_key t, tr_meta = tr_meta t,
      tr_secret_candidates = tr_secret_candidates t, tr_errors = tr_errors t, tr_warnings = tr_warnings t\<rparr>"

definition with_row_ref :: "row_ref option \<Rightarrow> 'r transform_result \<Rightarrow> 'r transform_result" where
  "with_row_ref rref t = t\<lparr>tr_row_ref := rref\<rparr>"

definition with_match_key :: "string option \<Rightarrow> 'r transform_result \<Rightarrow> 'r transform_result" where
  "with_match_key k t = t\<lparr>tr_match_key := k\<rparr>"

definition with_meta_update :: "(string, pyval) dict \<Rightarrow> 'r transform_result \<Rightarrow> 'r transform_result" where
  "with_meta_update update t = t\<lparr>tr_meta := fold (\<lambda>(k, v). AList.update k v) update (tr_meta t)\<rparr>"

definition set_meta :: "string \<Rightarrow> pyval \<Rightarrow> 'r transform_result \<Rightarrow> 'r transform_result" where
  "set_meta k v t = t\<lparr>tr_meta := AList.update k v (tr_meta t)\<rparr>"

definition with_secret_candidates :: "(string, string) dict \<Rightarrow> 'r transform_result \<Rightarrow> 'r transform_result" where
  "with_secret_candidates cands t = t\<lparr>tr_secret_candidates := cands\<rparr>"

definition set_secret_candidate :: "string \<Rightarrow> string \<Rightarrow> 'r transform_result \<Rightarrow> 'r transform_result" where
  "set_secret_candidate k v t = t\<lparr>tr_secret_candidates := AList.update k v (tr_secret_candidates t)\<rparr>"

definition with_added_errors :: "diagnostic_item list \<Rightarrow> 'r transform_result \<Rightarrow> 'r transform_result" where
  "with_added_errors es t = t\<lparr>tr_errors := tr_errors t @ es\<rparr>"

definition with_added_warnings :: "diagnostic_item list \<Rightarrow> 'r transform_result \<Rightarrow> 'r transform_result" where
  "with_added_warnings ws t = t\<lparr>tr_warnings := tr_warnings t @ ws\<rparr>"

definition add_error_item :: "diagnostic_item \<Rightarrow> 'r transform_result \<Rightarrow> 'r transform_result" where
  "add_error_item d t = with_added_errors [d] t"

definition add_warning_item :: "diagnostic_item \<Rightarrow> 'r transform_result \<Rightarrow> 'r transform_result" where
  "add_warning_item d t = with_added_warnings [d] t"

definition issues :: "'r transform_result \<Rightarrow> diagnostic_item list" where
  "issues t = tr_errors t @ tr_warnings t"

lemma with_row_simps [simp]:
  "tr_record (with_row r t) = tr_record t" "tr_row (with_row r t) = r" "tr_row_ref (with_row r t) = tr_row_ref t"
  "tr_match_key (with_row r t) = tr_match_key t" "tr_meta (with_row r t) = tr_meta t"
  "tr_secret_candidates (with_row r t) = tr_secret_candidates t" "tr_errors (with_row r t) = tr_errors t"
  "tr_warnings (with_row r t) = tr_warnings t"
  by (simp_all add: with_row_def)

text \<open>What a stage adds never takes a diagnostic away.\<close>

lemma added_issues [simp]:
  "tr_errors (with_added_errors es t) = tr_errors t @ es" "tr_warnings (with_added_errors es t) = tr_warnings t"
  "tr_errors (with_added_warnings ws t) = tr_errors t" "tr_warnings (with_added_warnings ws t) = tr_warnings t @ ws"
  "tr_row (with_added_errors es t) = tr_row t" "tr_row (with_added_warnings ws t) = tr_row t"
  "tr_errors (add_error_item d t) = tr_errors t @ [d]" "tr_warnings (add_warning_item d t) = tr_warnings t @ [d]"
  by (simp_all add: with_added_errors_def with_added_warnings_def add_error_item_def add_warning_item_def)

end
