(* ===== verification/Planner.thy ===== *)
theory Planner
  imports Sanitize Transform_Result
begin

text \<open>
  Model of plan building (\<open>connector/domain/planning/plan_builder.py\<close>, \<open>plan_models.py\<close>) and of the
  values of the plan artifact: the payload \<open>infra/artifacts/plan_writer.py\<close> dumps and the plan \<open>plan_reader.py\<close>
  makes of the loaded payload.  The text and the file of the artifact are in \<open>Plan_Artifact\<close>.
\<close>

section \<open>Resolved rows and plan items\<close>

datatype resolve_op = Resolve_CREATE | Resolve_UPDATE | Resolve_SKIP | Resolve_CONFLICT

record resolved_row =
  rv_row_ref :: row_ref
  rv_identity :: identity
  rv_op :: resolve_op
  rv_desired_state :: "(string, pyval) dict"
  rv_existing :: "(string, pyval) dict option"
  rv_changes :: "(string, pyval) dict"
  rv_target_id :: "string option"
  rv_source_ref :: "(string, pyval) dict option"
  rv_secret_fields :: "string list"
  rv_secret_lifecycle :: "(string, pyval) dict option"

type_synonym planned_result = "resolved_row transform_result"

definition op_CREATE :: string where
  "op_CREATE = ''create''"

definition op_UPDATE :: string where
  "op_UPDATE = ''update''"

text \<open>A plan item as the artifact may give it: the line number and the secret fields are any values.\<close>

record plan_item =
  pi_row_id :: string
  pi_line_no :: pyval
  pi_op :: string
  pi_target_id :: string
  pi_desired_state :: "(string, pyval) dict"
  pi_changes :: "(string, pyval) dict"
  pi_source_ref :: "(string, pyval) dict option"
  pi_secret_fields :: "pyval list"
  pi_secret_lifecycle :: "(string, pyval) dict option"

record plan_summary =
  sm_rows_total :: int
  sm_valid_rows :: int
  sm_failed_rows :: int
  sm_planned_create :: int
  sm_planned_update :: int
  sm_skipped :: int

record plan_meta =
  pm_run_id :: "string option"
  pm_generated_at :: "string option"
  pm_dataset :: "string option"
  pm_csv_path :: "string option"
  pm_plan_path :: "string option"
  pm_include_deleted :: pyval

record plan =
  pl_meta :: plan_meta
  pl_summary :: plan_summary
  pl_items :: "plan_item list"

record record_ref =
  re_row_id :: string
  re_line_no :: pyval

definition record_ref_of :: "plan_item \<Rightarrow> record_ref" where
  "record_ref_of itm = \<lparr>re_row_id = pi_row_id itm, re_line_no = pi_line_no itm\<rparr>"

section \<open>The builder\<close>

record plan_builder =
  pb_items :: "pyval list"
  pb_rows_total :: int
  pb_valid_rows :: int
  pb_failed_rows :: int
  pb_planned_create :: int
  pb_planned_update :: int
  pb_skipped_rows :: int

definition new_builder :: plan_builder where
  "new_builder = \<lparr>pb_items = [], pb_rows_total = 0, pb_valid_rows = 0, pb_failed_rows = 0, pb_planned_create = 0,
     pb_planned_update = 0, pb_skipped_rows = 0\<rparr>"

definition opt_dict :: "(string, pyval) dict option \<Rightarrow> pyval" where
  "opt_dict d = (case d of None \<Rightarrow> PNone | Some d \<Rightarrow> PDict d)"

definition serialize_plan_item :: "plan_item \<Rightarrow> pyval" where
  "serialize_plan_item itm = PDict [
     (''row_id'', PStr (pi_row_id itm)), (''line_no'', pi_line_no itm), (''op'', PStr (pi_op itm)),
     (''target_id'', PStr (pi_target_id itm)), (''desired_state'', PDict (pi_desired_state itm)),
     (''changes'', PDict (pi_changes itm)), (''source_ref'', opt_dict (pi_source_ref itm)),
     (''secret_fields'', PList (pi_secret_fields itm)), (''secret_lifecycle'', opt_dict (pi_secret_lifecycle itm))]"

definition plan_item_of :: "resolved_row \<Rightarrow> plan_item" where
  "plan_item_of r =
     \<lparr>pi_row_id = rr_row_id (rv_row_ref r), pi_line_no = opt_int (rr_line_no (rv_row_ref r)),
      pi_op = (if rv_op r = Resolve_CREATE then op_CREATE else op_UPDATE), pi_target_id = str_or (rv_target_id r) [],
      pi_desired_state = rv_desired_state r, pi_changes = rv_changes r, pi_source_ref = rv_source_ref r,
      pi_secret_fields = map PStr (rv_secret_fields r), pi_secret_lifecycle = rv_secret_lifecycle r\<rparr>"

text \<open>The part the two ways of adding a row share.\<close>

definition append_item :: "resolved_row \<Rightarrow> plan_builder \<Rightarrow> plan_builder" where
  "append_item r b =
     (let itm = plan_item_of r;
          b' = (if pi_op itm = op_CREATE then b\<lparr>pb_planned_create := pb_planned_create b + 1\<rparr>
                else b\<lparr>pb_planned_update := pb_planned_update b + 1\<rparr>)
      in b'\<lparr>pb_items := pb_items b' @ [serialize_plan_item itm]\<rparr>)"

definition add_resolved :: "resolved_row \<Rightarrow> plan_builder \<Rightarrow> plan_builder" where
  "add_resolved r b =
     (let b = b\<lparr>pb_rows_total := pb_rows_total b + 1, pb_valid_rows := pb_valid_rows b + 1\<rparr>
      in if rv_op r = Resolve_SKIP then b\<lparr>pb_skipped_rows := pb_skipped_rows b + 1\<rparr>
         else if rv_op r = Resolve_CONFLICT then b\<lparr>pb_failed_rows := pb_failed_rows b + 1\<rparr>
         else append_item r b)"

definition add_resolved_without_total :: "resolved_row \<Rightarrow> plan_builder \<Rightarrow> plan_builder" where
  "add_resolved_without_total r b =
     (let b = b\<lparr>pb_valid_rows := pb_valid_rows b + 1\<rparr>
      in if rv_op r = Resolve_SKIP then b\<lparr>pb_skipped_rows := pb_skipped_rows b + 1\<rparr> else append_item r b)"

text \<open>The calls of the two callbacks, in order.\<close>

datatype plan_event = On_Skipped resolved_row | On_Failed planned_result

definition fail_row :: "planned_result \<Rightarrow> plan_builder \<times> plan_event list \<Rightarrow> plan_builder \<times> plan_event list" where
  "fail_row t st = (let (b, evs) = st in (b\<lparr>pb_failed_rows := pb_failed_rows b + 1\<rparr>, evs @ [On_Failed t]))"

definition build_step :: "planned_result \<Rightarrow> plan_builder \<times> plan_event list \<Rightarrow> plan_builder \<times> plan_event list" where
  "build_step t st =
     (let st = ((fst st)\<lparr>pb_rows_total := pb_rows_total (fst st) + 1\<rparr>, snd st)
      in case tr_row t of
           None \<Rightarrow> fail_row t st
         | Some r \<Rightarrow>
             if tr_errors t \<noteq> [] then fail_row t st
             else if rv_op r = Resolve_CONFLICT then fail_row t st
             else (add_resolved_without_total r (fst st),
                   snd st @ (if rv_op r = Resolve_SKIP then [On_Skipped r] else [])))"

definition build_from_stream :: "planned_result list \<Rightarrow> plan_builder \<Rightarrow> plan_builder \<times> plan_event list" where
  "build_from_stream rows b = fold build_step rows (b, [])"

text \<open>\<open>PlanBuildResult\<close>: the items and the summary.\<close>

definition plan_result_of :: "plan_builder \<Rightarrow> pyval list \<times> plan_summary" where
  "plan_result_of b =
     (pb_items b, \<lparr>sm_rows_total = pb_rows_total b, sm_valid_rows = pb_valid_rows b, sm_failed_rows = pb_failed_rows b,
                   sm_planned_create = pb_planned_create b, sm_planned_update = pb_planned_update b,
                   sm_skipped = pb_skipped_rows b\<rparr>)"

definition summary_as_dict :: "plan_summary \<Rightarrow> pyval" where
  "summary_as_dict s = PDict [
     (''rows_total'', PInt (sm_rows_total s)), (''valid_rows'', PInt (sm_valid_rows s)),
     (''failed_rows'', PInt (sm_failed_rows s)), (''planned_create'', PInt (sm_planned_create s)),
     (''planned_update'', PInt (sm_planned_update s)), (''skipped'', PInt (sm_skipped s))]"

section \<open>The artifact\<close>

definition build_plan_payload :: "pyval list \<Rightarrow> pyval \<Rightarrow> (string, pyval) dict \<Rightarrow> string \<Rightarrow> string \<Rightarrow> pyval" where
  "build_plan_payload items summary meta run_id generated_at = PDict [
     (''meta'', PDict (fold (\<lambda>(k, v). AList.update k v) meta [(''run_id'', PStr run_id), (''generated_at'', PStr generated_at)])),
     (''summary'', summary), (''items'', PList items)]"

definition get_str :: "pyval \<Rightarrow> string option" where
  "get_str v = (case v of PNone \<Rightarrow> None | _ \<Rightarrow> Some (py_str v))"

definition dict_of :: "pyval \<Rightarrow> (string, pyval) dict" where
  "dict_of v = (case v of PDict d \<Rightarrow> d | _ \<Rightarrow> [])"

definition dict_or_none :: "pyval \<Rightarrow> (string, pyval) dict option" where
  "dict_or_none v = (case v of PDict d \<Rightarrow> Some d | _ \<Rightarrow> None)"

definition py_or :: "pyval \<Rightarrow> pyval \<Rightarrow> pyval" where
  "py_or a b = (if truthy a then a else b)"

definition resolve_dataset :: "(string, pyval) dict \<Rightarrow> string result" where
  "resolve_dataset meta_raw =
     (case get_str (py_or (dict_get_or meta_raw ''dataset'' PNone) (dict_get_or meta_raw ''dataset_name'' PNone)) of
        Some (c # cs) \<Rightarrow> Inr (c # cs)
      | _ \<Rightarrow> Inl (ValueError ''Invalid plan format: dataset is missing in meta''))"

definition int_or_0 :: "pyval \<Rightarrow> int result" where
  "int_or_0 v =
     (if \<not> truthy v then Inr 0
      else (case v of
          PInt i \<Rightarrow> Inr i
        | PBool b \<Rightarrow> Inr 1
        | PFloat f \<Rightarrow> Inr (float_trunc f)
        | PStr s \<Rightarrow> (case parse_int s of Some i \<Rightarrow> Inr i
                    | None \<Rightarrow> Inl (ValueError (''invalid literal for int() with base 10: '' @ repr_string s)))
        | _ \<Rightarrow> Inl (OtherError ''TypeError'' ''int() argument must be a string, a bytes-like object or a real number'')))"

definition read_item :: "(string, pyval) dict \<Rightarrow> plan_item" where
  "read_item raw =
     (let desired = dict_of (dict_get_or raw ''desired_state'' PNone);
          desired = (if is_masked_secret (dict_get_or desired ''password'' PNone)
                     then filter (\<lambda>(k, v). k \<noteq> ''password'') desired else desired);
          target = dict_get_or raw ''target_id'' PNone;
          target = (if target = PNone then dict_get_or raw ''resource_id'' PNone else target)
      in \<lparr>pi_row_id = str_or (get_str (dict_get_or raw ''row_id'' PNone)) [], pi_line_no = dict_get_or raw ''line_no'' PNone,
          pi_op = str_or (get_str (dict_get_or raw ''op'' PNone)) [], pi_target_id = str_or (get_str target) [],
          pi_desired_state = desired, pi_changes = dict_of (dict_get_or raw ''changes'' PNone),
          pi_source_ref = dict_or_none (dict_get_or raw ''source_ref'' PNone),
          pi_secret_fields = (case dict_get_or raw ''secret_fields'' PNone of PList l \<Rightarrow> l | _ \<Rightarrow> []),
          pi_secret_lifecycle = dict_or_none (dict_get_or raw ''secret_lifecycle'' PNone)\<rparr>)"

definition read_summary :: "(string, pyval) dict \<Rightarrow> plan_summary result" where
  "read_summary raw =
     (let field = (\<lambda>k. int_or_0 (dict_get_or raw k PNone)) in
      bind_r (field ''rows_total'') (\<lambda>a. bind_r (field ''valid_rows'') (\<lambda>b. bind_r (field ''failed_rows'') (\<lambda>c.
      bind_r (field ''planned_create'') (\<lambda>d. bind_r (field ''planned_update'') (\<lambda>e. bind_r (field ''skipped'') (\<lambda>f.
        Inr \<lparr>sm_rows_total = a, sm_valid_rows = b, sm_failed_rows = c, sm_planned_create = d, sm_planned_update = e,
             sm_skipped = f\<rparr>)))))))"

definition build_plan ::
    "(string, pyval) dict \<Rightarrow> (string, pyval) dict \<Rightarrow> pyval list \<Rightarrow> string \<Rightarrow> plan result" where
  "build_plan meta_raw summary_raw items_raw path =
     bind_r (resolve_dataset meta_raw) (\<lambda>dataset.
     bind_r (read_summary summary_raw) (\<lambda>summary.
       Inr \<lparr>pl_meta = \<lparr>pm_run_id = get_str (dict_get_or meta_raw ''run_id'' PNone),
              pm_generated_at = get_str (dict_get_or meta_raw ''generated_at'' PNone), pm_dataset = Some dataset,
              pm_csv_path = get_str (dict_get_or meta_raw ''csv_path'' PNone), pm_plan_path = Some path,
              pm_include_deleted = dict_get_or meta_raw ''include_deleted'' PNone\<rparr>,
            pl_summary = summary,
            pl_items = concat (map (\<lambda>raw. case raw of PDict d \<Rightarrow> [read_item d] | _ \<Rightarrow> []) items_raw)\<rparr>))"

section \<open>Lemmas\<close>

text \<open>The rows that become items, in order, and the number of rows of a kind.\<close>

definition accepted :: "planned_result \<Rightarrow> resolved_row option" where
  "accepted t = (case tr_row t of
      Some r \<Rightarrow> if tr_errors t = [] \<and> rv_op r \<noteq> Resolve_CONFLICT then Some r else None
    | None \<Rightarrow> None)"

definition planned_rows :: "planned_result list \<Rightarrow> resolved_row list" where
  "planned_rows rows = filter (\<lambda>r. rv_op r \<noteq> Resolve_SKIP) (List.map_filter accepted rows)"

definition count_op :: "resolve_op \<Rightarrow> planned_result list \<Rightarrow> int" where
  "count_op op rows = int (length (filter (\<lambda>r. rv_op r = op) (List.map_filter accepted rows)))"

lemma op_distinct [simp]: "op_CREATE \<noteq> op_UPDATE" "op_UPDATE \<noteq> op_CREATE"
  by (simp_all add: op_CREATE_def op_UPDATE_def)

lemma build_fold_spec:
  "fst (fold build_step rows (b, evs)) =
     \<lparr>pb_items = pb_items b @ map (serialize_plan_item \<circ> plan_item_of) (planned_rows rows),
      pb_rows_total = pb_rows_total b + int (length rows),
      pb_valid_rows = pb_valid_rows b + int (length (List.map_filter accepted rows)),
      pb_failed_rows = pb_failed_rows b + int (length (filter (\<lambda>t. accepted t = None) rows)),
      pb_planned_create = pb_planned_create b + count_op Resolve_CREATE rows,
      pb_planned_update = pb_planned_update b + count_op Resolve_UPDATE rows,
      pb_skipped_rows = pb_skipped_rows b + count_op Resolve_SKIP rows\<rparr>"
proof (induction rows arbitrary: b evs)
  case Nil
  then show ?case by (simp add: planned_rows_def count_op_def List.map_filter_simps)
next
  case (Cons t rows)
  obtain b' evs' where st: "build_step t (b, evs) = (b', evs')" by fastforce
  show ?case
  proof (cases "accepted t")
    case None
    then have "b' = b\<lparr>pb_rows_total := pb_rows_total b + 1, pb_failed_rows := pb_failed_rows b + 1\<rparr>"
      using st by (auto simp: build_step_def accepted_def fail_row_def Let_def split: option.splits if_splits)
    with Cons [of b' evs'] None st show ?thesis
      by (simp add: planned_rows_def count_op_def List.map_filter_simps)
  next
    case (Some r)
    then have r: "tr_row t = Some r" "tr_errors t = []" "rv_op r \<noteq> Resolve_CONFLICT"
      by (auto simp: accepted_def split: option.splits if_splits)
    then have "b' = add_resolved_without_total r (b\<lparr>pb_rows_total := pb_rows_total b + 1\<rparr>)"
      using st by (simp add: build_step_def)
    then show ?thesis
      using Cons [of b' evs'] Some st r(3)
      by (cases "rv_op r")
        (simp_all add: planned_rows_def count_op_def List.map_filter_simps add_resolved_without_total_def append_item_def
          plan_item_of_def Let_def)
  qed
qed

lemma count_ops_total:
  "int (length (List.map_filter accepted rows)) = count_op Resolve_CREATE rows + count_op Resolve_UPDATE rows + count_op Resolve_SKIP rows"
proof (induction rows)
  case (Cons t rows)
  show ?case
  proof (cases "accepted t")
    case (Some r)
    then have "rv_op r \<noteq> Resolve_CONFLICT" by (auto simp: accepted_def split: option.splits if_splits)
    with Cons Some show ?thesis by (cases "rv_op r") (simp_all add: count_op_def List.map_filter_simps)
  qed (use Cons in \<open>simp add: count_op_def List.map_filter_simps\<close>)
qed (simp add: count_op_def List.map_filter_simps)

text \<open>Reading back what was written.\<close>

definition unmask :: "plan_item \<Rightarrow> plan_item" where
  "unmask itm = itm\<lparr>pi_desired_state :=
     (if dict_get_or (pi_desired_state itm) ''password'' PNone = PStr ''***''
      then filter (\<lambda>(k, v). k \<noteq> ''password'') (pi_desired_state itm) else pi_desired_state itm)\<rparr>"

lemma str_or_nil [simp]: "str_or (Some s) [] = s"
  by (cases s) (simp_all add: str_or_def)

lemma read_serialized_item: "\<exists>d. serialize_plan_item itm = PDict d \<and> read_item d = unmask itm"
  by (simp add: serialize_plan_item_def read_item_def unmask_def dict_get_or_def opt_dict_def get_str_def py_str_def
      dict_of_def dict_or_none_def is_masked_secret_def split: option.split)

lemma read_serialized_items:
  "concat (map (\<lambda>raw. case raw of PDict d \<Rightarrow> [read_item d] | _ \<Rightarrow> []) (map serialize_plan_item items)) = map unmask items"
proof (induction items)
  case (Cons itm items)
  then show ?case using read_serialized_item [of itm] by auto
qed simp

lemma read_summary_dict: "read_summary (dict_of (summary_as_dict s)) = Inr s"
  by (simp add: read_summary_def summary_as_dict_def dict_of_def dict_get_or_def int_or_0_def)

section \<open>Properties\<close>

text \<open>
  C10. The summary of a plan balances: every row of the stream is either valid or failed, the valid rows are
  those to create, to update and skipped, and the items are exactly the rows to create or update, in the
  order of the stream.
\<close>

theorem plan_summary_balanced:
  "let (items, s) = plan_result_of (fst (build_from_stream rows new_builder))
   in items = map (serialize_plan_item \<circ> plan_item_of) (planned_rows rows)
      \<and> sm_rows_total s = int (length rows) \<and> sm_rows_total s = sm_valid_rows s + sm_failed_rows s
      \<and> sm_valid_rows s = sm_planned_create s + sm_planned_update s + sm_skipped s
      \<and> sm_planned_create s = count_op Resolve_CREATE rows \<and> sm_planned_update s = count_op Resolve_UPDATE rows
      \<and> int (length items) = sm_planned_create s + sm_planned_update s"
proof -
  have split: "int (length rows) = int (length (List.map_filter accepted rows)) + int (length (filter (\<lambda>t. accepted t = None) rows))"
    by (induction rows) (auto simp: List.map_filter_simps split: option.split)
  have items: "int (length (planned_rows rows)) = count_op Resolve_CREATE rows + count_op Resolve_UPDATE rows"
  proof -
    have "int (length (List.map_filter accepted rows)) = int (length (planned_rows rows)) + count_op Resolve_SKIP rows"
      using sum_length_filter_compl [of "\<lambda>r. rv_op r = Resolve_SKIP" "List.map_filter accepted rows"]
      by (simp add: planned_rows_def count_op_def)
    then show ?thesis using count_ops_total [of rows] by simp
  qed
  show ?thesis
    using split items count_ops_total [of rows]
    by (simp add: build_from_stream_def plan_result_of_def build_fold_spec new_builder_def)
qed

end
