(* ===== verification/Json_Text.thy ===== *)
theory Json_Text
  imports Nexus_Prelude
begin

text \<open>
  The part of Python's \<open>json\<close> module the program stores rows with: \<open>json.dumps\<close> with its default
  separators and \<open>ensure_ascii\<close>, and \<open>json.loads\<close>.  The reader takes fuel for its nesting; the
  length of the text is enough.  A text that is no JSON gives \<open>None\<close> (a \<open>JSONDecodeError\<close>); escapes of
  code points above 255 and the literals NaN and Infinity are outside the model and also give \<open>None\<close>.
\<close>

section \<open>Writing\<close>

abbreviation "quote_char \<equiv> CHR 0x22"
abbreviation "backslash \<equiv> CHR 0x5C"

definition short_escapes :: "(char \<times> char) list" where
  "short_escapes = [(quote_char, quote_char), (backslash, backslash), (CHR 0x0A, CHR ''n''), (CHR 0x0D, CHR ''r''),
     (CHR 0x09, CHR ''t''), (CHR 0x0C, CHR ''f''), (CHR 0x08, CHR ''b'')]"

definition escape_char :: "char \<Rightarrow> string" where
  "escape_char c =
     (case map_of short_escapes c of
        Some e \<Rightarrow> [backslash, e]
      | None \<Rightarrow>
         (let n = (of_char c :: nat)
          in if 32 \<le> n \<and> n \<le> 126 then [c]
             else [backslash, CHR ''u'', CHR ''0'', CHR ''0'', hex_digit (n div 16), hex_digit (n mod 16)]))"

definition json_quote :: "string \<Rightarrow> string" where
  "json_quote s = quote_char # concat (map escape_char s) @ [quote_char]"

fun json_dumps :: "pyval \<Rightarrow> string" where
  "json_dumps PNone = ''null''"
| "json_dumps (PBool b) = (if b then ''true'' else ''false'')"
| "json_dumps (PInt i) = int_str i"
| "json_dumps (PFloat f) = float_repr f"
| "json_dumps (PStr s) = json_quote s"
| "json_dumps (PList vs) = ''['' @ py_join '', '' (map json_dumps vs) @ '']''"
| "json_dumps (PDict d) = ''{'' @ py_join '', '' (map (\<lambda>(k, v). json_quote k @ '': '' @ json_dumps v) d) @ ''}''"

section \<open>Reading\<close>

definition hex_value :: "char \<Rightarrow> nat option" where
  "hex_value c =
     (let n = (of_char c :: nat)
      in if 48 \<le> n \<and> n \<le> 57 then Some (n - 48) else if 97 \<le> n \<and> n \<le> 102 then Some (n - 87)
         else if 65 \<le> n \<and> n \<le> 70 then Some (n - 55) else None)"

definition hex4 :: "string \<Rightarrow> nat option" where
  "hex4 s = foldl (\<lambda>acc c. case (acc, hex_value c) of (Some a, Some h) \<Rightarrow> Some (16 * a + h) | _ \<Rightarrow> None) (Some 0) s"

definition unescape :: "char \<Rightarrow> char option" where
  "unescape e = (if e = CHR ''/'' then Some e else map_of (map (\<lambda>(c, e). (e, c)) short_escapes) e)"

definition skip_ws :: "string \<Rightarrow> string" where
  "skip_ws s = dropWhile (\<lambda>c. c \<in> {CHR '' '', CHR 0x09, CHR 0x0A, CHR 0x0D}) s"

text \<open>The text of a string up to its closing quote.\<close>

fun json_string :: "string \<Rightarrow> (string \<times> string) option" where
  "json_string [] = None"
| "json_string (c # s) =
     (if c = quote_char then Some ([], s)
      else if c = backslash then
        (case s of
           [] \<Rightarrow> None
         | e # t \<Rightarrow>
             if e = CHR ''u'' then
               (case hex4 (take 4 t) of
                  Some n \<Rightarrow> if length (take 4 t) = 4 \<and> n < 256
                            then map_option (apfst (\<lambda>r. char_of n # r)) (json_string (drop 4 t)) else None
                | None \<Rightarrow> None)
             else (case unescape e of
                 Some u \<Rightarrow> map_option (apfst (\<lambda>r. u # r)) (json_string t)
               | None \<Rightarrow> None))
      else if (of_char c :: nat) < 32 then None
      else map_option (apfst (\<lambda>r. c # r)) (json_string s))"

text \<open>The float with the value of a decimal, its trailing zeros moved into the exponent.\<close>

function make_float :: "int \<Rightarrow> int \<Rightarrow> py_float" where
  "make_float m e = (if m = 0 then PyFloat 0 0 else if 10 dvd m then make_float (m div 10) (e + 1) else PyFloat m e)"
  by auto
termination by (relation "measure (\<lambda>(m, e). nat \<bar>m\<bar>)") auto

declare make_float.simps [simp del]

text \<open>The matcher of numbers: an integer part, an optional fraction, an optional exponent.\<close>

definition number_fraction :: "string \<Rightarrow> string \<times> string" where
  "number_fraction s =
     (case s of
        c # d # t \<Rightarrow> if c = CHR ''.'' \<and> is_digit d then (takeWhile is_digit (d # t), dropWhile is_digit (d # t)) else ([], s)
      | _ \<Rightarrow> ([], s))"

definition number_exponent :: "string \<Rightarrow> int option \<times> string" where
  "number_exponent s =
     (case s of
        c # t \<Rightarrow>
          if c = CHR ''e'' \<or> c = CHR ''E'' then
            (let (neg, u) = (case t of
                 d # v \<Rightarrow> if d = CHR ''-'' then (True, v) else if d = CHR ''+'' then (False, v) else (False, t)
               | [] \<Rightarrow> (False, []))
             in case takeWhile is_digit u of
                  [] \<Rightarrow> (None, s)
                | ds \<Rightarrow> (Some (if neg then - int (digits_value ds) else int (digits_value ds)), dropWhile is_digit u))
          else (None, s)
      | [] \<Rightarrow> (None, s))"

definition number_digits :: "string \<Rightarrow> string" where
  "number_digits r = (case r of c # t \<Rightarrow> if c = CHR ''0'' then [c] else takeWhile is_digit r | [] \<Rightarrow> [])"

definition unsigned_number :: "bool \<Rightarrow> string \<Rightarrow> (pyval \<times> string) option" where
  "unsigned_number neg r =
     (let ds = number_digits r
      in if ds = [] then None
         else (let (fraction, r1) = number_fraction (drop (length ds) r);
                   (ex, r2) = number_exponent r1;
                   m = (let v = int (digits_value (ds @ fraction)) in if neg then - v else v)
               in if fraction = [] \<and> ex = None then Some (PInt m, r1)
                  else Some (PFloat (make_float m ((case ex of None \<Rightarrow> 0 | Some x \<Rightarrow> x) - int (length fraction))), r2)))"

definition json_number :: "string \<Rightarrow> (pyval \<times> string) option" where
  "json_number s =
     (case s of c # t \<Rightarrow> if c = CHR ''-'' then unsigned_number True t else unsigned_number False s | [] \<Rightarrow> None)"

fun json_value :: "nat \<Rightarrow> string \<Rightarrow> (pyval \<times> string) option"
  and json_items :: "nat \<Rightarrow> string \<Rightarrow> (pyval list \<times> string) option"
  and json_members :: "nat \<Rightarrow> string \<Rightarrow> ((string \<times> pyval) list \<times> string) option" where
  "json_value 0 s = None"
| "json_value (Suc n) s =
     (if s = [] then None
      else if hd s = quote_char then map_option (apfst PStr) (json_string (tl s))
      else if hd s = CHR ''['' then
        (let t = skip_ws (tl s)
         in if t \<noteq> [] \<and> hd t = CHR '']'' then Some (PList [], tl t) else map_option (apfst PList) (json_items n t))
      else if hd s = CHR ''{'' then
        (let t = skip_ws (tl s)
         in if t \<noteq> [] \<and> hd t = CHR ''}'' then Some (PDict [], tl t)
            else map_option (apfst (\<lambda>kvs. PDict (fold (\<lambda>(k, v). AList.update k v) kvs []))) (json_members n t))
      else if take 4 s = ''null'' then Some (PNone, drop 4 s)
      else if take 4 s = ''true'' then Some (PBool True, drop 4 s)
      else if take 5 s = ''false'' then Some (PBool False, drop 5 s)
      else json_number s)"
| "json_items 0 s = None"
| "json_items (Suc n) s =
     (case json_value n s of
        None \<Rightarrow> None
      | Some (v, r) \<Rightarrow>
         (let t = skip_ws r
          in if t = [] then None
             else if hd t = CHR '']'' then Some ([v], tl t)
             else if hd t = CHR '','' then map_option (apfst (\<lambda>vs. v # vs)) (json_items n (skip_ws (tl t)))
             else None))"
| "json_members 0 s = None"
| "json_members (Suc n) s =
     (if s = [] \<or> hd s \<noteq> quote_char then None
      else (case json_string (tl s) of
          None \<Rightarrow> None
        | Some (k, r) \<Rightarrow>
            (let t = skip_ws r
             in if t = [] \<or> hd t \<noteq> CHR '':'' then None
                else (case json_value n (skip_ws (tl t)) of
                    None \<Rightarrow> None
                  | Some (v, q) \<Rightarrow>
                      (let u = skip_ws q
                       in if u = [] then None
                          else if hd u = CHR ''}'' then Some ([(k, v)], tl u)
                          else if hd u = CHR '','' then map_option (apfst (\<lambda>kvs. (k, v) # kvs)) (json_members n (skip_ws (tl u)))
                          else None)))))"

definition json_loads :: "string \<Rightarrow> pyval option" where
  "json_loads s =
     (case json_value (2 * length s + 1) (skip_ws s) of
        Some (v, r) \<Rightarrow> if skip_ws r = [] then Some v else None
      | None \<Rightarrow> None)"

section \<open>Strings round trip\<close>

lemma hex_value_digit: "k < 16 \<Longrightarrow> hex_value (hex_digit k) = Some k"
  by (simp add: hex_value_def hex_digit_def Let_def)

lemma of_char_bound: "(of_char c :: nat) < 256"
proof -
  have "(of_char c :: nat) \<in> range of_char" by blast
  then show ?thesis by (simp only: range_nat_of_char atLeastLessThan_iff)
qed

lemma hex4_escape: "n < 256 \<Longrightarrow> hex4 [CHR ''0'', CHR ''0'', hex_digit (n div 16), hex_digit (n mod 16)] = Some n"
proof -
  assume "n < 256"
  then have "hex_value (hex_digit (n div 16)) = Some (n div 16)" "hex_value (hex_digit (n mod 16)) = Some (n mod 16)"
    by (simp_all add: hex_value_digit)
  moreover have "hex_value (CHR ''0'') = Some 0" by code_simp
  ultimately show ?thesis by (simp add: hex4_def)
qed

lemma take_drop_4 [simp]: "take 4 (a # b # c # d # t) = [a, b, c, d]" "drop 4 (a # b # c # d # t) = t"
  by (simp_all add: numeral_eq_Suc)

lemma json_string_escape: "json_string (escape_char c @ t) = map_option (apfst (\<lambda>r. c # r)) (json_string t)"
proof (cases "map_of short_escapes c")
  case (Some e)
  then have "unescape e = Some c \<and> e \<noteq> CHR ''u''"
    by (auto simp: short_escapes_def unescape_def split: if_splits)
  with Some show ?thesis by (simp add: escape_char_def)
next
  case None
  then have c: "c \<noteq> quote_char" "c \<noteq> backslash" by (auto simp: short_escapes_def split: if_splits)
  show ?thesis
  proof (cases "32 \<le> (of_char c :: nat) \<and> (of_char c :: nat) \<le> 126")
    case True
    with None c show ?thesis by (simp add: escape_char_def)
  next
    case False
    have n: "(of_char c :: nat) < 256" by (rule of_char_bound)
    have "char_of (of_char c :: nat) = c" by simp
    with None False n c show ?thesis
      by (simp add: escape_char_def Let_def hex4_escape)
  qed
qed

lemma json_string_quote: "json_string (concat (map escape_char s) @ quote_char # r) = Some (s, r)"
  by (induction s) (simp_all add: json_string_escape del: json_string.simps(2), simp)

section \<open>Numbers round trip\<close>

lemma digit_is_digit: "m < 10 \<Longrightarrow> is_digit (char_of (48 + m :: nat))"
  by (simp add: is_digit_def)

lemma nat_str_digits: "c \<in> set (nat_str n) \<Longrightarrow> is_digit c"
proof (induction n rule: nat_str.induct)
  case (1 n)
  show ?case
  proof (cases "n < 10")
    case True
    with "1.prems" show ?thesis by (subst (asm) nat_str.simps) (simp add: digit_is_digit)
  next
    case False
    with 1 show ?thesis by (subst (asm) nat_str.simps) (auto simp: digit_is_digit)
  qed
qed

lemma nat_str_nonempty [simp]: "nat_str n \<noteq> []"
  using nat_str_head [of n] by auto

lemma nat_str_zero: "nat_str 0 = ''0''"
  by code_simp

lemma nat_str_hd: "n \<noteq> 0 \<Longrightarrow> hd (nat_str n) \<noteq> CHR ''0''"
proof (induction n rule: nat_str.induct)
  case (1 n)
  show ?case
  proof (cases "n < 10")
    case True
    have "(of_char (char_of (48 + n) :: char) :: nat) = 48 + n" using True by simp
    moreover have "(of_char CHR ''0'' :: nat) = 48" by simp
    ultimately have "char_of (48 + n) \<noteq> CHR ''0''" using \<open>n \<noteq> 0\<close> by (metis add_cancel_left_right)
    with True show ?thesis by (subst nat_str.simps) simp
  next
    case False
    with 1 show ?thesis by (subst nat_str.simps) simp
  qed
qed

lemma digits_value_zeros: "digits_value (replicate k (CHR ''0'') @ s) = digits_value s"
  by (induction k) (simp_all add: digits_value_def)

lemma digits_value_shift: "digits_value (s @ replicate k (CHR ''0'')) = digits_value s * 10 ^ k"
proof (induction k)
  case (Suc k)
  have "s @ replicate (Suc k) (CHR ''0'') = (s @ replicate k (CHR ''0'')) @ ''0''" by (simp add: replicate_append_same)
  then have "digits_value (s @ replicate (Suc k) (CHR ''0'')) = digits_value ((s @ replicate k (CHR ''0'')) @ ''0'')" by (rule arg_cong)
  with Suc show ?case by (simp only: digits_value_snoc) simp
qed simp

lemma make_float_shift:
  assumes "\<not> 10 dvd m"
  shows "make_float (m * 10 ^ k) e = PyFloat m (e + int k)"
proof (induction k arbitrary: e)
  case 0
  then show ?case using assms by (subst make_float.simps) auto
next
  case (Suc k)
  have "m * 10 ^ Suc k \<noteq> 0" "10 dvd m * 10 ^ Suc k" "m * 10 ^ Suc k div 10 = m * 10 ^ k" using assms by auto
  then show ?case using Suc [of "e + 1"] by (subst make_float.simps) simp
qed

text \<open>What may follow a number.\<close>

definition number_end :: "string \<Rightarrow> bool" where
  "number_end r \<longleftrightarrow> (\<forall>c t. r = c # t \<longrightarrow> \<not> is_digit c \<and> c \<noteq> CHR ''.'' \<and> c \<noteq> CHR ''e'' \<and> c \<noteq> CHR ''E'')"

lemma digits_split:
  assumes "\<And>c. c \<in> set ds \<Longrightarrow> is_digit c" "\<forall>c t. r = c # t \<longrightarrow> \<not> is_digit c"
  shows "takeWhile is_digit (ds @ r) = ds" "dropWhile is_digit (ds @ r) = r"
  using assms by (simp_all add: takeWhile_append dropWhile_append takeWhile_eq_Nil_iff dropWhile_eq_self_iff) (auto simp: neq_Nil_conv)

lemma number_end_tail [simp]:
  assumes "number_end r"
  shows "number_fraction r = ([], r)" "number_exponent r = (None, r)"
  using assms by (cases r; simp add: number_fraction_def number_exponent_def number_end_def split: list.splits)+

lemma number_fraction_digits:
  assumes "fr \<noteq> []" "\<And>c. c \<in> set fr \<Longrightarrow> is_digit c" "\<forall>c t. r = c # t \<longrightarrow> \<not> is_digit c"
  shows "number_fraction (CHR ''.'' # fr @ r) = (fr, r)"
proof -
  obtain d u where fr: "fr = d # u" using assms(1) by (cases fr) auto
  then have "number_fraction (CHR ''.'' # fr @ r) = (takeWhile is_digit (fr @ r), dropWhile is_digit (fr @ r))"
    using assms(2) by (simp add: number_fraction_def)
  then show ?thesis using digits_split [OF assms(2,3)] by simp
qed

lemma number_no_fraction: "number_fraction (CHR ''e'' # r) = ([], CHR ''e'' # r)"
  by (cases r) (simp_all add: number_fraction_def)

lemma number_exponent_digits:
  assumes "ds \<noteq> []" "\<And>c. c \<in> set ds \<Longrightarrow> is_digit c" "\<forall>c t. r = c # t \<longrightarrow> \<not> is_digit c"
  shows "number_exponent (CHR ''e'' # (if neg then ''-'' else ''+'') @ ds @ r)
    = (Some (if neg then - int (digits_value ds) else int (digits_value ds)), r)"
proof -
  note d = digits_split [OF assms(2,3)]
  obtain q qs where q: "ds = q # qs" using assms(1) by (cases ds) auto
  show ?thesis
    using d assms(2) [of q] unfolding number_exponent_def by (simp add: q)
qed

lemma json_number_parts:
  assumes ds: "ds \<noteq> []" "\<And>c. c \<in> set ds \<Longrightarrow> is_digit c" "hd ds = CHR ''0'' \<Longrightarrow> ds = ''0''"
    and r: "\<forall>c t. r = c # t \<longrightarrow> \<not> is_digit c"
    and f: "number_fraction r = (fr, r1)" "number_exponent r1 = (ex, r2)"
  shows "json_number ((if neg then ''-'' else []) @ ds @ r) =
    (let m = (if neg then - int (digits_value (ds @ fr)) else int (digits_value (ds @ fr)))
     in if fr = [] \<and> ex = None then Some (PInt m, r1)
        else Some (PFloat (make_float m ((case ex of None \<Rightarrow> 0 | Some x \<Rightarrow> x) - int (length fr))), r2))"
proof -
  obtain d u where d: "ds = d # u" using ds(1) by (cases ds) auto
  have dd: "is_digit d" using ds(2) d by simp
  moreover have "\<not> is_digit CHR ''-''" by code_simp
  ultimately have "d \<noteq> CHR ''-''" by auto
  then have "json_number ((if neg then ''-'' else []) @ ds @ r) = unsigned_number neg (ds @ r)"
    by (simp add: json_number_def d)
  moreover have "number_digits (ds @ r) = ds"
  proof (cases "d = CHR ''0''")
    case True
    then show ?thesis using ds(3) d by (simp add: number_digits_def)
  next
    case False
    then show ?thesis using digits_split(1) [OF ds(2) r] d dd by (simp add: number_digits_def)
  qed
  ultimately show ?thesis using f ds(1) by (simp only: unsigned_number_def) (simp add: Let_def)
qed

lemma json_number_int:
  assumes "number_end r"
  shows "json_number (int_str i @ r) = Some (PInt i, r)"
proof -
  have r: "\<forall>c t. r = c # t \<longrightarrow> \<not> is_digit c" using assms by (simp add: number_end_def)
  have z: "hd (nat_str n) = CHR ''0'' \<Longrightarrow> nat_str n = ''0''" for n
    using nat_str_hd [of n] nat_str_zero by (cases "n = 0") auto
  have parts: "json_number ((if neg then ''-'' else []) @ nat_str n @ r) = Some (PInt (if neg then - int n else int n), r)" for neg n
    using json_number_parts [where neg = neg, OF nat_str_nonempty nat_str_digits z r number_end_tail(1) [OF assms] number_end_tail(2) [OF assms]]
    by (simp add: digits_value_nat_str)
  from parts [of True "nat (- i)"] parts [of False "nat i"] show ?thesis
    by (simp add: int_str_def)
qed

lemma json_number_float:
  assumes r: "number_end r" and ok: "if mantissa f = 0 then exp10 f = 0 else \<not> 10 dvd mantissa f"
  shows "json_number (float_repr f @ r) = Some (PFloat f, r)"
proof (cases "mantissa f = 0")
  case True
  have d: "is_digit CHR ''0''" "\<not> is_digit CHR ''.''" by code_simp+
  have "number_fraction (CHR ''.'' # ''0'' @ r) = (''0'', r)"
    using r d by (intro number_fraction_digits) (auto simp: number_end_def)
  then have "json_number ((if False then ''-'' else []) @ ''0'' @ CHR ''.'' # ''0'' @ r) = Some (PFloat (PyFloat 0 0), r)"
    using number_end_tail(2) [OF r] d
    by (subst json_number_parts [where fr = "''0''" and ?r1.0 = r and ex = None and ?r2.0 = r])
      (auto simp: digits_value_def make_float.simps)
  then show ?thesis using True ok by (cases f) (simp add: float_repr_def)
next
  case m: False
  let ?m = "nat \<bar>mantissa f\<bar>" let ?ds = "nat_str ?m" let ?n = "int (length ?ds)" let ?p = "?n + exp10 f"
  let ?neg = "mantissa f < 0"
  have m0: "?m \<noteq> 0" using m by simp
  have dig: "\<And>c. c \<in> set ?ds \<Longrightarrow> is_digit c" by (rule nat_str_digits)
  have hd0: "hd ?ds \<noteq> CHR ''0''" using nat_str_hd [OF m0] .
  have val: "(if ?neg then - int ?m else int ?m) = mantissa f" by simp
  have fin: "make_float (mantissa f * 10 ^ k) (exp10 f - int k) = f" for k
    using ok m make_float_shift [of "mantissa f" k "exp10 f - int k"] by (cases f) simp
  have z: "is_digit CHR ''0''" "\<not> is_digit CHR ''.''" "\<not> is_digit CHR ''e''" by code_simp+
  have stop: "\<forall>c t. r = c # t \<longrightarrow> \<not> is_digit c" using r by (simp add: number_end_def)
  have result: "json_number ((if ?neg then ''-'' else []) @ ds @ t) = Some (PFloat f, r)"
    if "ds \<noteq> []" "\<And>c. c \<in> set ds \<Longrightarrow> is_digit c" "hd ds = CHR ''0'' \<Longrightarrow> ds = ''0''"
      "\<forall>c u. t = c # u \<longrightarrow> \<not> is_digit c" "number_fraction t = (fr, r1)" "number_exponent r1 = (ex, r)"
      "fr \<noteq> [] \<or> ex \<noteq> None" "digits_value (ds @ fr) = ?m * 10 ^ k"
      "(case ex of None \<Rightarrow> 0 | Some x \<Rightarrow> x) - int (length fr) = exp10 f - int k" for ds t fr r1 ex k
  proof -
    have "(if ?neg then - int (?m * 10 ^ k) else int (?m * 10 ^ k)) = mantissa f * 10 ^ k" using val by auto
    then show ?thesis
      using json_number_parts [where neg = ?neg, OF that(1-6)] that(7-9) fin [of k] by (simp add: Let_def)
  qed
  have repr: "float_repr f @ r = (if ?neg then ''-'' else []) @
      (if - 4 < ?p \<and> ?p \<le> 16
       then (if ?p \<le> 0 then ''0.'' @ replicate (nat (- ?p)) (CHR ''0'') @ ?ds
             else if ?n \<le> ?p then ?ds @ replicate (nat (?p - ?n)) (CHR ''0'') @ ''.0''
             else take (nat ?p) ?ds @ ''.'' @ drop (nat ?p) ?ds)
       else hd ?ds # (if tl ?ds = [] then [] else ''.'' @ tl ?ds)
         @ ''e'' @ (if ?p - 1 < 0 then ''-'' else ''+'') @ pad_left 2 (nat \<bar>?p - 1\<bar>)) @ r"
    using m by (simp add: float_repr_def Let_def)
  have point: "\<forall>c u. CHR ''.'' # t = c # u \<longrightarrow> \<not> is_digit c" for t using z by simp
  consider (below) "- 4 < ?p \<and> ?p \<le> 16" "?p \<le> 0" | (whole) "- 4 < ?p \<and> ?p \<le> 16" "\<not> ?p \<le> 0" "?n \<le> ?p"
    | (split) "- 4 < ?p \<and> ?p \<le> 16" "\<not> ?p \<le> 0" "\<not> ?n \<le> ?p" | (exponent) "\<not> (- 4 < ?p \<and> ?p \<le> 16)" by blast
  then show ?thesis
  proof cases
    case below
    let ?fr = "replicate (nat (- ?p)) (CHR ''0'') @ ?ds"
    have dv: "digits_value (''0'' @ ?fr) = ?m * 10 ^ 0"
      using digits_value_zeros [of "Suc (nat (- ?p))" ?ds] by (simp add: digits_value_nat_str)
    have "json_number ((if ?neg then ''-'' else []) @ ''0'' @ CHR ''.'' # ?fr @ r) = Some (PFloat f, r)"
    proof (rule result [OF _ _ _ point number_fraction_digits number_end_tail(2) [OF r] _ dv])
      show "(case None of None \<Rightarrow> 0 | Some x \<Rightarrow> x) - int (length ?fr) = exp10 f - int 0" using below by simp
    qed (use z dig stop in \<open>auto\<close>)
    then show ?thesis using below unfolding repr by simp
  next
    case whole
    let ?w = "?ds @ replicate (nat (?p - ?n)) (CHR ''0'')"
    have "?w @ ''0'' = ?ds @ replicate (Suc (nat (?p - ?n))) (CHR ''0'')" by (simp add: replicate_append_same)
    then have dv: "digits_value (?w @ ''0'') = ?m * 10 ^ Suc (nat (?p - ?n))"
      by (simp only: digits_value_shift digits_value_nat_str)
    have "json_number ((if ?neg then ''-'' else []) @ ?w @ CHR ''.'' # ''0'' @ r) = Some (PFloat f, r)"
    proof (rule result [OF _ _ _ point number_fraction_digits number_end_tail(2) [OF r] _ dv])
      show "(case None of None \<Rightarrow> 0 | Some x \<Rightarrow> x) - int (length ''0'') = exp10 f - int (Suc (nat (?p - ?n)))" using whole(3) by simp
      show "hd ?w = CHR ''0'' \<Longrightarrow> ?w = ''0''" using hd0 by simp
    qed (use z dig stop in \<open>auto\<close>)
    then show ?thesis using whole unfolding repr by simp
  next
    case split
    have "take (nat ?p) ?ds @ drop (nat ?p) ?ds = ?ds" by simp
    then have dv: "digits_value (take (nat ?p) ?ds @ drop (nat ?p) ?ds) = ?m * 10 ^ 0" by (simp only: digits_value_nat_str) simp
    have p: "nat ?p \<noteq> 0" "nat ?p < length ?ds" using split by simp_all
    have hd: "hd (take (nat ?p) ?ds) = hd ?ds" using p by (simp add: hd_take)
    have "json_number ((if ?neg then ''-'' else []) @ take (nat ?p) ?ds @ CHR ''.'' # drop (nat ?p) ?ds @ r) = Some (PFloat f, r)"
    proof (rule result [OF _ _ _ point number_fraction_digits number_end_tail(2) [OF r] _ dv])
      show "(case None of None \<Rightarrow> 0 | Some x \<Rightarrow> x) - int (length (drop (nat ?p) ?ds)) = exp10 f - int 0" using p by simp
      show "hd (take (nat ?p) ?ds) = CHR ''0'' \<Longrightarrow> take (nat ?p) ?ds = ''0''" using hd hd0 by simp
      show "take (nat ?p) ?ds \<noteq> []" "drop (nat ?p) ?ds \<noteq> []" using p by simp_all
      show "drop (nat ?p) ?ds \<noteq> [] \<or> None \<noteq> (None :: int option)" using p by simp
    qed (use stop in \<open>auto dest: in_set_takeD in_set_dropD dig\<close>)
    then show ?thesis using split unfolding repr by simp
  next
    case exponent
    let ?x = "pad_left 2 (nat \<bar>?p - 1\<bar>)"
    let ?e = "CHR ''e'' # (if ?p - 1 < 0 then ''-'' else ''+'') @ ?x @ r"
    have x: "?x \<noteq> []" "\<And>c. c \<in> set ?x \<Longrightarrow> is_digit c" "digits_value ?x = nat \<bar>?p - 1\<bar>"
      using z by (auto simp: pad_left_def Let_def digits_value_zeros digits_value_nat_str dest: nat_str_digits)
    have ex: "number_exponent ?e = (Some (?p - 1), r)"
      using number_exponent_digits [OF x(1,2) stop, of "?p - 1 < 0"] x(3) by (cases "?p - 1 < 0") simp_all
    show ?thesis
    proof (cases "tl ?ds = []")
      case True
      then have one: "?ds = [hd ?ds]" by (metis hd_Cons_tl nat_str_nonempty)
      have dv: "digits_value (?ds @ []) = ?m * 10 ^ 0" by (simp add: digits_value_nat_str)
      have "json_number ((if ?neg then ''-'' else []) @ ?ds @ ?e) = Some (PFloat f, r)"
      proof (rule result [OF _ _ _ _ number_no_fraction ex _ dv])
        show "(case Some (?p - 1) of None \<Rightarrow> 0 | Some x \<Rightarrow> x) - int (length []) = exp10 f - int 0"
          by (subst one) simp
        show "hd ?ds = CHR ''0'' \<Longrightarrow> ?ds = ''0''" using hd0 by simp
      qed (use z dig in auto)
      moreover have "?ds @ ?e = hd ?ds # ?e" by (subst one) simp
      ultimately have "json_number ((if ?neg then ''-'' else []) @ hd ?ds # ?e) = Some (PFloat f, r)" by (simp only:)
      then show ?thesis using True unfolding repr if_not_P [OF exponent] by simp
    next
      case False
      have cons: "?ds = hd ?ds # tl ?ds" by simp
      have dv: "digits_value ([hd ?ds] @ tl ?ds) = ?m * 10 ^ 0" by (simp add: digits_value_nat_str)
      have e_stop: "\<forall>c u. ?e = c # u \<longrightarrow> \<not> is_digit c" using z by simp
      have "json_number ((if ?neg then ''-'' else []) @ [hd ?ds] @ CHR ''.'' # tl ?ds @ ?e) = Some (PFloat f, r)"
      proof (rule result [OF _ _ _ point number_fraction_digits [OF False _ e_stop] ex _ dv])
        show "(case Some (?p - 1) of None \<Rightarrow> 0 | Some x \<Rightarrow> x) - int (length (tl ?ds)) = exp10 f - int 0"
          by (simp add: of_nat_diff Suc_le_eq)
        show "hd [hd ?ds] = CHR ''0'' \<Longrightarrow> [hd ?ds] = ''0''" using hd0 by simp
        show "\<And>c. c \<in> set (tl ?ds) \<Longrightarrow> is_digit c" using dig by (meson list.set_sel(2) nat_str_nonempty)
      qed (use dig in auto)
      then show ?thesis using False unfolding repr if_not_P [OF exponent] by simp
    qed
  qed
qed

section \<open>Values round trip\<close>

text \<open>Floats in normal form, objects without repeated keys.\<close>

fun json_ok :: "pyval \<Rightarrow> bool" where
  "json_ok (PFloat f) = (if mantissa f = 0 then exp10 f = 0 else \<not> 10 dvd mantissa f)"
| "json_ok (PList vs) = (\<forall>v \<in> set vs. json_ok v)"
| "json_ok (PDict d) = (distinct (map fst d) \<and> (\<forall>(k, v) \<in> set d. json_ok v))"
| "json_ok _ = True"

definition value_end :: "string \<Rightarrow> bool" where
  "value_end r \<longleftrightarrow> r = [] \<or> hd r = CHR '','' \<or> hd r = CHR '']'' \<or> hd r = CHR ''}''"

lemma value_end_number: "value_end r \<Longrightarrow> number_end r"
proof -
  have "\<not> is_digit CHR '',''" "\<not> is_digit CHR '']''" "\<not> is_digit CHR ''}''" by code_simp+
  then show "value_end r \<Longrightarrow> number_end r" by (auto simp: value_end_def number_end_def)
qed

definition blank :: "char \<Rightarrow> bool" where
  "blank c \<longleftrightarrow> c \<in> {CHR '' '', CHR 0x09, CHR 0x0A, CHR 0x0D}"

lemma skip_ws_head: "s \<noteq> [] \<Longrightarrow> \<not> blank (hd s) \<Longrightarrow> skip_ws s = s"
  by (cases s) (auto simp: skip_ws_def blank_def)

lemma skip_ws_space: "skip_ws (CHR '' '' # s) = skip_ws s"
  by (simp add: skip_ws_def)

definition number_start :: "string \<Rightarrow> bool" where
  "number_start s \<longleftrightarrow> s \<noteq> [] \<and> (is_digit (hd s) \<or> hd s = CHR ''-'')"

lemma number_start_int: "number_start (int_str i)"
  using nat_str_digits [OF hd_in_set [OF nat_str_nonempty]] by (simp add: number_start_def int_str_def)

lemma number_start_float: "number_start (float_repr f)"
proof -
  have d: "is_digit (hd (nat_str n))" for n using nat_str_digits [OF hd_in_set [OF nat_str_nonempty]] .
  have z: "is_digit CHR ''0''" by code_simp
  show ?thesis
    using d z by (simp add: number_start_def float_repr_def Let_def hd_append)
qed

lemma number_start_append: "number_start s \<Longrightarrow> number_start (s @ r)"
  by (simp add: number_start_def)

definition structural :: "char list" where
  "structural = [quote_char, CHR ''['', CHR ''{'', CHR ''n'', CHR ''t'', CHR ''f'', CHR '' '', CHR 0x09, CHR 0x0A, CHR 0x0D,
     CHR '']'', CHR ''}'']"

lemma structural_no_number: "list_all (\<lambda>c. \<not> is_digit c \<and> c \<noteq> CHR ''-'') structural"
  by code_simp

lemma number_start_value:
  assumes "number_start s"
  shows "json_value (Suc n) s = json_number s" "\<not> blank (hd s)" "hd s \<noteq> CHR '']''" "hd s \<noteq> CHR ''}''"
proof -
  have neq: "hd s \<notin> set structural"
    using assms structural_no_number by (auto simp: number_start_def list_all_iff)
  have ne: "s \<noteq> []" using assms by (simp add: number_start_def)
  have word: "take k s \<noteq> c # t" if "hd s \<noteq> c" for k c t using that ne by (cases s; cases k) auto
  show "json_value (Suc n) s = json_number s"
    using neq ne word by (simp add: structural_def)
  show "\<not> blank (hd s)" "hd s \<noteq> CHR '']''" "hd s \<noteq> CHR ''}''" using neq by (simp_all add: blank_def structural_def)
qed

lemma dumps_head:
  "json_dumps v \<noteq> [] \<and> \<not> blank (hd (json_dumps v)) \<and> hd (json_dumps v) \<noteq> CHR '']'' \<and> hd (json_dumps v) \<noteq> CHR ''}''"
proof (cases v)
  case (PInt i)
  then show ?thesis using number_start_int [of i] number_start_value [of "int_str i"] by (simp add: number_start_def)
next
  case (PFloat f)
  then show ?thesis using number_start_float [of f] number_start_value [of "float_repr f"] by (simp add: number_start_def)
qed (auto simp: json_quote_def blank_def)

lemma dumps_skip: "skip_ws (json_dumps v @ r) = json_dumps v @ r"
  using dumps_head [of v] by (intro skip_ws_head) auto

lemma value_end_skip: "value_end r \<Longrightarrow> skip_ws r = r"
  by (cases r) (auto simp: value_end_def skip_ws_def)

lemma quote_skip: "skip_ws (json_quote k @ r) = json_quote k @ r"
  by (simp add: json_quote_def skip_ws_def)

text \<open>One element after another, and one member after another.\<close>

lemma items_dumps:
  assumes "\<And>v n r. v \<in> set vs \<Longrightarrow> value_end r \<Longrightarrow> length (json_dumps v) < n \<Longrightarrow> json_value n (json_dumps v @ r) = Some (v, r)"
    and "vs \<noteq> []" "length (py_join '', '' (map json_dumps vs)) + 1 < n"
  shows "json_items n (py_join '', '' (map json_dumps vs) @ CHR '']'' # r) = Some (vs, r)"
  using assms
proof (induction vs arbitrary: n)
  case (Cons v vs)
  obtain m where n: "n = Suc m" using Cons.prems(3) by (cases n) auto
  show ?case
  proof (cases vs)
    case Nil
    have "json_value m (json_dumps v @ CHR '']'' # r) = Some (v, CHR '']'' # r)"
      using Cons.prems Nil n by (intro Cons.prems(1)) (simp_all add: value_end_def)
    then show ?thesis using Nil n by (simp add: skip_ws_def)
  next
    case (Cons w ws)
    let ?t = "py_join '', '' (map json_dumps vs) @ CHR '']'' # r"
    have v: "json_value m (json_dumps v @ '', '' @ ?t) = Some (v, '', '' @ ?t)"
      using Cons.prems \<open>vs = w # ws\<close> n by (intro Cons.prems(1)) (simp_all add: value_end_def)
    have "json_items m ?t = Some (vs, r)"
      using Cons.prems \<open>vs = w # ws\<close> n by (intro Cons.IH) (auto intro: Cons.prems(1))
    moreover have "skip_ws ?t = ?t"
      using dumps_skip [of w] \<open>vs = w # ws\<close> by (cases ws) simp_all
    moreover have "skip_ws ('', '' @ ?t) = '', '' @ ?t" by (simp add: skip_ws_def)
    moreover have "skip_ws (CHR '' '' # ?t) = ?t" using calculation(2) by (simp add: skip_ws_space)
    ultimately show ?thesis using v \<open>vs = w # ws\<close> n by simp
  qed
qed simp

abbreviation member_text :: "string \<times> pyval \<Rightarrow> string" where
  "member_text \<equiv> \<lambda>(k, v). json_quote k @ '': '' @ json_dumps v"

lemma json_string_of_quote: "json_string (tl (json_quote k @ r)) = Some (k, r)"
  by (simp add: json_quote_def json_string_quote)

lemma members_dumps:
  assumes "\<And>k v n r. (k, v) \<in> set d \<Longrightarrow> value_end r \<Longrightarrow> length (json_dumps v) < n \<Longrightarrow> json_value n (json_dumps v @ r) = Some (v, r)"
    and "d \<noteq> []" "length (py_join '', '' (map member_text d)) + 1 < n"
  shows "json_members n (py_join '', '' (map member_text d) @ CHR ''}'' # r) = Some (d, r)"
  using assms
proof (induction d arbitrary: n)
  case (Cons kv d)
  obtain k v where kv: "kv = (k, v)" by fastforce
  obtain m where n: "n = Suc m" using Cons.prems(3) by (cases n) auto
  have start: "json_quote k @ s \<noteq> []" "hd (json_quote k @ s) = quote_char" for s by (simp_all add: json_quote_def)
  have colon: "skip_ws ('': '' @ s) = '': '' @ s" "skip_ws (CHR '' '' # json_dumps v @ s) = json_dumps v @ s" for s
    using dumps_skip [of v s] by (simp_all add: skip_ws_def)
  show ?case
  proof (cases d)
    case Nil
    have "json_value m (json_dumps v @ CHR ''}'' # r) = Some (v, CHR ''}'' # r)"
      using Cons.prems Nil n kv by (intro Cons.prems(1)) (auto simp: value_end_def)
    moreover have "skip_ws (CHR ''}'' # r) = CHR ''}'' # r" by (simp add: skip_ws_def)
    ultimately show ?thesis
      using Nil n kv start colon json_string_of_quote [of k] by simp
  next
    case (Cons w ws)
    let ?t = "py_join '', '' (map member_text d) @ CHR ''}'' # r"
    have v: "json_value m (json_dumps v @ '', '' @ ?t) = Some (v, '', '' @ ?t)"
      using Cons.prems \<open>d = w # ws\<close> n kv by (intro Cons.prems(1)) (auto simp: value_end_def)
    have "json_members m ?t = Some (d, r)"
      using Cons.prems \<open>d = w # ws\<close> n kv by (intro Cons.IH) (auto intro: Cons.prems(1))
    moreover have "skip_ws ?t = ?t"
      using quote_skip [of "fst w"] \<open>d = w # ws\<close> by (cases ws) (simp_all add: case_prod_beta)
    moreover have "skip_ws ('', '' @ ?t) = '', '' @ ?t" by (simp add: skip_ws_def)
    moreover have "skip_ws (CHR '' '' # ?t) = ?t" using calculation(2) by (simp add: skip_ws_space)
    ultimately show ?thesis using v \<open>d = w # ws\<close> n kv start colon json_string_of_quote [of k] by simp
  qed
qed simp

lemma fold_update_fresh:
  "distinct (map fst (acc @ d)) \<Longrightarrow> fold (\<lambda>(k, v). AList.update k v) d acc = acc @ d"
proof (induction d arbitrary: acc)
  case (Cons kv d)
  have "AList.update (fst kv) (snd kv) acc = acc @ [kv]" using Cons.prems by (subst update_fresh) auto
  then show ?case using Cons.IH [of "acc @ [kv]"] Cons.prems by (simp add: case_prod_beta)
qed simp

lemma value_dumps:
  "json_ok v \<Longrightarrow> value_end r \<Longrightarrow> length (json_dumps v) < n \<Longrightarrow> json_value n (json_dumps v @ r) = Some (v, r)"
proof (induction v arbitrary: n r rule: json_dumps.induct)
  case (3 i)
  then obtain m where "n = Suc m" by (cases n) auto
  then show ?case
    using json_number_int [OF value_end_number [OF "3.prems"(2)]]
      number_start_value(1) [OF number_start_append [OF number_start_int]] by simp
next
  case (4 f)
  then obtain m where "n = Suc m" by (cases n) auto
  then show ?case
    using json_number_float [OF value_end_number [OF "4.prems"(2)]] "4.prems"(1)
      number_start_value(1) [OF number_start_append [OF number_start_float]] by simp
next
  case (5 s)
  then obtain m where "n = Suc m" by (cases n) auto
  then show ?case by (simp add: json_quote_def json_string_quote)
next
  case (6 vs)
  then obtain m where n: "n = Suc m" by (cases n) auto
  show ?case
  proof (cases "vs = []")
    case True
    then show ?thesis using n by (simp add: skip_ws_def)
  next
    case False
    let ?t = "py_join '', '' (map json_dumps vs) @ CHR '']'' # r"
    have "json_items m ?t = Some (vs, r)"
      using "6.IH" "6.prems" False n by (intro items_dumps) auto
    moreover have "skip_ws ?t = ?t" "?t \<noteq> []" "hd ?t \<noteq> CHR '']''"
      using dumps_skip [of "hd vs"] dumps_head [of "hd vs"] False
      by (cases vs rule: remdups_adj.cases; simp)+
    ultimately show ?thesis using n by simp
  qed
next
  case (7 d)
  then obtain m where n: "n = Suc m" by (cases n) auto
  show ?case
  proof (cases "d = []")
    case True
    then show ?thesis using n by (simp add: skip_ws_def)
  next
    case False
    let ?t = "py_join '', '' (map member_text d) @ CHR ''}'' # r"
    have "json_members m ?t = Some (d, r)"
      using "7.IH" "7.prems" False n by (intro members_dumps) (auto simp: case_prod_beta)
    moreover have "skip_ws ?t = ?t" "?t \<noteq> []" "hd ?t \<noteq> CHR ''}''"
      using quote_skip [of "fst (hd d)"] False
      by (cases d rule: remdups_adj.cases; simp add: json_quote_def case_prod_beta)+
    moreover have "fold (\<lambda>(k, v). AList.update k v) d [] = d"
      using fold_update_fresh [of "[]" d] "7.prems"(1) by simp
    ultimately show ?thesis using n by simp
  qed
next
  case (1 n r)
  then show ?case by (cases n) auto
next
  case (2 b)
  then show ?case by (cases n; cases b) (auto simp: numeral_eq_Suc)
qed

lemma json_loads_dumps:
  assumes "json_ok v"
  shows "json_loads (json_dumps v) = Some v"
proof -
  have "json_value (2 * length (json_dumps v) + 1) (json_dumps v @ []) = Some (v, [])"
    using assms dumps_head [of v] by (intro value_dumps) (simp_all add: value_end_def)
  then show ?thesis using dumps_skip [of v "[]"] by (simp add: json_loads_def skip_ws_def)
qed

section \<open>The fuel is enough\<close>

lemma json_string_shorter: "json_string s = Some (t, r) \<Longrightarrow> length r < length s"
proof (induction s arbitrary: t r rule: json_string.induct)
  case (2 c s)
  show ?case
  proof (cases "c = backslash")
    case True
    with "2.prems" show ?thesis
      by (auto split: list.splits option.splits if_splits dest!: "2.IH"(1,2) [rotated 3])
        (use "2.IH"(1,2) in \<open>fastforce simp: min_def split: if_splits\<close>)+
  next
    case False
    with "2.prems" "2.IH"(3) show ?thesis by (fastforce split: if_splits)
  qed
qed simp

lemma skip_ws_shorter: "length (skip_ws s) \<le> length s"
  by (simp add: skip_ws_def length_dropWhile_le)

lemma number_parts_shorter:
  "length (snd (number_fraction s)) \<le> length s" "length (snd (number_exponent s)) \<le> length s"
proof -
  show "length (snd (number_fraction s)) \<le> length s"
    by (auto simp: number_fraction_def length_dropWhile_le le_SucI split: list.split)
  have *: "length (dropWhile is_digit u) \<le> Suc (length u)" "length (dropWhile is_digit u) \<le> Suc (Suc (length u))" for u
    using length_dropWhile_le [of is_digit u] by simp_all
  show "length (snd (number_exponent s)) \<le> length s"
    by (auto simp: number_exponent_def Let_def * split: list.split prod.split)
qed

lemma json_number_shorter: "json_number s = Some (v, r) \<Longrightarrow> length r < length s"
proof -
  have u: "length r < length t" if "unsigned_number neg t = Some (v, r)" for neg t
  proof -
    let ?ds = "number_digits t"
    have ds: "?ds \<noteq> []" "t \<noteq> []" using that by (auto simp: unsigned_number_def number_digits_def Let_def split: if_splits)
    obtain fr r1 where f: "number_fraction (drop (length ?ds) t) = (fr, r1)" by fastforce
    obtain ex r2 where e: "number_exponent r1 = (ex, r2)" by fastforce
    have "r = r1 \<or> r = r2" using that f e by (auto simp: unsigned_number_def Let_def split: if_splits)
    moreover have "length r1 \<le> length (drop (length ?ds) t)" "length r2 \<le> length r1"
      using number_parts_shorter(1) [of "drop (length ?ds) t"] number_parts_shorter(2) [of r1] f e by simp_all
    moreover have "length (drop (length ?ds) t) < length t" using ds by simp
    ultimately show ?thesis by auto
  qed
  show "json_number s = Some (v, r) \<Longrightarrow> length r < length s"
    using u by (fastforce simp: json_number_def split: list.splits if_splits)
qed

lemma shorter:
  "json_value n s = Some (v, r) \<Longrightarrow> length r < length s"
  "json_items n s = Some (vs, r) \<Longrightarrow> length r < length s"
  "json_members n s = Some (kvs, r) \<Longrightarrow> length r < length s"
proof (induction n arbitrary: s v vs kvs r)
  case (Suc n)
  have ws: "length (skip_ws (tl s)) \<le> length (tl s)" for s using skip_ws_shorter .
  have ws1: "skip_ws t \<noteq> [] \<Longrightarrow> length (tl (skip_ws t)) < length t" for t
    using skip_ws_shorter [of t] by (cases "skip_ws t") auto
  {
    case 1
    have word: "drop k s = r \<Longrightarrow> take k s \<noteq> [] \<Longrightarrow> length r < length s" for k by (cases s; cases k) auto
    from 1 show ?case
      using json_string_shorter [of "tl s"] json_number_shorter [of s] Suc.IH(2,3) [of "skip_ws (tl s)"] ws [of s] ws1 [of "tl s"] word
      by (cases s) (fastforce simp: Let_def split: if_splits)+
  next
    case 2
    then obtain v q where v: "json_value n s = Some (v, q)" by (auto split: option.splits)
    from Suc.IH(1) [OF this] have q: "length q < length s" .
    from 2 v q Suc.IH(2) [of "skip_ws (tl (skip_ws q))"] ws1 [of q] skip_ws_shorter [of "tl (skip_ws q)"] show ?case
      by (fastforce simp: Let_def split: if_splits)
  next
    case 3
    then obtain k q where k: "json_string (tl s) = Some (k, q)" "s \<noteq> []" by (auto split: option.splits if_splits)
    from json_string_shorter [OF k(1)] k(2) have q: "length q < length s" by (cases s) auto
    from 3 k obtain v p where v: "json_value n (skip_ws (tl (skip_ws q))) = Some (v, p)" "skip_ws q \<noteq> []"
      by (auto simp: Let_def split: option.splits if_splits)
    have p: "length p < length s"
      using Suc.IH(1) [OF v(1)] ws1 [OF v(2)] skip_ws_shorter [of "tl (skip_ws q)"] q by simp
    from 3 k v p Suc.IH(3) [of "skip_ws (tl (skip_ws p))"] ws1 [of p] skip_ws_shorter [of "tl (skip_ws p)"] show ?case
      by (fastforce simp: Let_def split: if_splits)
  }
qed simp_all

declare json_value.simps [simp del] json_items.simps [simp del] json_members.simps [simp del]

lemma fuel_enough:
  "2 * length s < n \<Longrightarrow> json_value (Suc n) s = json_value n s"
  "2 * length s + 1 < n \<Longrightarrow> json_items (Suc n) s = json_items n s"
  "2 * length s < n \<Longrightarrow> json_members (Suc n) s = json_members n s"
proof (induction n arbitrary: s)
  case (Suc n)
  have ws: "s \<noteq> [] \<Longrightarrow> length (skip_ws (tl s)) < length s" for s
    using skip_ws_shorter [of "tl s"] by (cases s) auto
  {
    case 1
    show ?case
    proof (cases "s = []")
      case False
      from ws [OF this] 1 have "2 * length (skip_ws (tl s)) + 1 < n" by simp
      then have "json_items (Suc n) (skip_ws (tl s)) = json_items n (skip_ws (tl s))"
        "json_members (Suc n) (skip_ws (tl s)) = json_members n (skip_ws (tl s))"
        by (simp_all only: Suc.IH)
      then show ?thesis by (simp only: json_value.simps Let_def)
    qed (simp add: json_value.simps)
  next
    case 2
    then have v: "json_value (Suc n) s = json_value n s" by (intro Suc.IH(1)) simp
    have "json_items (Suc n) (skip_ws (tl (skip_ws q))) = json_items n (skip_ws (tl (skip_ws q)))"
      if "json_value n s = Some (w, q)" "skip_ws q \<noteq> []" for w q
      using shorter(1) [OF that(1)] ws [OF that(2)] skip_ws_shorter [of q] 2 by (intro Suc.IH(2)) simp
    then show ?case unfolding json_items.simps v Let_def by (auto split: option.split)
  next
    case 3
    have v: "json_value (Suc n) (skip_ws (tl (skip_ws q))) = json_value n (skip_ws (tl (skip_ws q)))"
      if "json_string (tl s) = Some (k, q)" "skip_ws q \<noteq> []" for k q
      using json_string_shorter [OF that(1)] ws [OF that(2)] skip_ws_shorter [of q] 3 by (intro Suc.IH(1)) simp
    have "json_members (Suc n) (skip_ws (tl (skip_ws p))) = json_members n (skip_ws (tl (skip_ws p)))"
      if "json_string (tl s) = Some (k, q)" "skip_ws q \<noteq> []" "json_value n (skip_ws (tl (skip_ws q))) = Some (w, p)"
        "skip_ws p \<noteq> []" for k q w p
      using json_string_shorter [OF that(1)] ws [OF that(2)] skip_ws_shorter [of q] shorter(1) [OF that(3)] ws [OF that(4)]
        skip_ws_shorter [of p] 3 by (intro Suc.IH(3)) simp
    note rest = this
    show ?case
    proof (cases "s = [] \<or> hd s \<noteq> quote_char")
      case False
      note open_quote = this
      show ?thesis
      proof (cases "json_string (tl s)")
        case (Some kq)
        obtain k q where kq: "json_string (tl s) = Some (k, q)" using Some by (cases kq) auto
        show ?thesis
        proof (cases "skip_ws q = [] \<or> hd (skip_ws q) \<noteq> CHR '':''")
          case False
          then have q: "skip_ws q \<noteq> []" by simp
          show ?thesis
          proof (cases "json_value n (skip_ws (tl (skip_ws q)))")
            case None
            then show ?thesis using open_quote kq False v [OF kq q] by (simp add: json_members.simps Let_def)
          next
            case (Some wp)
            obtain w p where wp: "json_value n (skip_ws (tl (skip_ws q))) = Some (w, p)" using Some by (cases wp) auto
            show ?thesis
              using open_quote kq False v [OF kq q] wp rest [OF kq q wp]
              by (cases "skip_ws p = []") (simp_all add: json_members.simps Let_def)
          qed
        qed (use open_quote kq in \<open>simp add: json_members.simps Let_def\<close>)
      qed (use open_quote in \<open>simp add: json_members.simps\<close>)
    qed (simp add: json_members.simps)
  }
qed simp_all

lemma loads_fuel:
  assumes "2 * length s < n"
  shows "json_value (n + k) s = json_value n s"
proof (induction k)
  case (Suc k)
  then show ?case using fuel_enough(1) [of s "n + k"] assms by simp
qed simp

lemma json_loads_fuel:
  "json_loads s =
     (case json_value (2 * length s + 1 + k) (skip_ws s) of
        Some (v, r) \<Rightarrow> if skip_ws r = [] then Some v else None
      | None \<Rightarrow> None)"
  using loads_fuel [of "skip_ws s" "2 * length s + 1" k] skip_ws_shorter [of s] by (simp add: json_loads_def)

section \<open>Dictionaries of JSON data\<close>

definition dict_ok :: "(string, pyval) dict \<Rightarrow> bool" where
  "dict_ok d \<longleftrightarrow> distinct (map fst d) \<and> (\<forall>(k, v) \<in> set d. json_ok v)"

lemma json_ok_PDict [simp]: "json_ok (PDict d) = dict_ok d"
  by (simp add: dict_ok_def)

declare json_ok.simps(3) [simp del]

lemma dict_ok_simps [simp]:
  "dict_ok []" "dict_ok ((k, v) # d) \<longleftrightarrow> k \<notin> fst ` set d \<and> json_ok v \<and> dict_ok d"
  by (auto simp: dict_ok_def)

section \<open>Everything the JSON reader gives is JSON data\<close>

lemma make_float_ok: "json_ok (PFloat (make_float m e))"
  by (induction m e rule: make_float.induct) (subst make_float.simps, auto)

lemma json_number_ok: "json_number s = Some (v, r) \<Longrightarrow> json_ok v"
  by (auto simp: json_number_def unsigned_number_def Let_def split: list.splits if_splits prod.splits
      simp del: json_ok.simps(1) intro: make_float_ok)

lemma dict_ok_update: "dict_ok d \<Longrightarrow> json_ok v \<Longrightarrow> dict_ok (AList.update k v d)"
  by (auto simp: dict_ok_def distinct_update dest: in_set_takeD)
    (induction d, auto split: if_splits)

lemma dict_ok_fold_update:
  "dict_ok acc \<Longrightarrow> \<forall>(k, v) \<in> set d. json_ok v \<Longrightarrow> dict_ok (fold (\<lambda>(k, v). AList.update k v) d acc)"
  by (induction d arbitrary: acc) (auto simp: dict_ok_update)

lemma json_parse_ok:
  "json_value n s = Some (v, r) \<Longrightarrow> json_ok v"
  "json_items n s = Some (vs, r) \<Longrightarrow> \<forall>v \<in> set vs. json_ok v"
  "json_members n s = Some (kvs, r) \<Longrightarrow> \<forall>(k, v) \<in> set kvs. json_ok v"
proof (induction n arbitrary: s v vs kvs r)
  case (Suc n)
  {
    case 1
    show ?case
      using 1 Suc.IH(2,3) [of "skip_ws (tl s)"] json_number_ok [of s]
      by (auto simp: json_value.simps(2) Let_def dict_ok_fold_update split: if_splits)
  next
    case 2
    then obtain w q where w: "json_value n s = Some (w, q)" by (auto simp: json_items.simps(2) split: option.splits)
    with 2 Suc.IH(1) [OF w] Suc.IH(2) [of "skip_ws (tl (skip_ws q))"] show ?case
      by (auto simp: json_items.simps(2) Let_def split: if_splits)
  next
    case 3
    then obtain k q w p where w: "json_string (tl s) = Some (k, q)" "json_value n (skip_ws (tl (skip_ws q))) = Some (w, p)"
      by (auto simp: json_members.simps(2) Let_def split: option.splits if_splits)
    with 3 Suc.IH(1) [OF w(2)] Suc.IH(3) [of "skip_ws (tl (skip_ws p))"] show ?case
      by (auto simp: json_members.simps(2) Let_def split: if_splits)
  }
qed (simp_all add: json_value.simps json_items.simps json_members.simps)

lemma json_loads_ok: "json_loads s = Some v \<Longrightarrow> json_ok v"
  using json_parse_ok(1) by (auto simp: json_loads_def split: option.splits if_splits)

end
