(* ===== verification/Step_Monad.thy ===== *)
theory Step_Monad
  imports Nexus_Prelude
begin

text \<open>
  Statements that change a state and may raise: a step takes the state and gives the new state with a value or
  the exception, so that what was done before an exception stays done.  A component may have errors of its own.
\<close>

type_synonym ('s, 'e, 'a) gstep = "'s \<Rightarrow> 's \<times> ('e + 'a)"
type_synonym ('s, 'a) step = "('s, py_error, 'a) gstep"

definition bind_s :: "('s, 'e, 'a) gstep \<Rightarrow> ('a \<Rightarrow> ('s, 'e, 'b) gstep) \<Rightarrow> ('s, 'e, 'b) gstep" where
  "bind_s m f st = (case m st of (st', Inl e) \<Rightarrow> (st', Inl e) | (st', Inr a) \<Rightarrow> f a st')"

definition return_s :: "'a \<Rightarrow> ('s, 'e, 'a) gstep" where
  "return_s a st = (st, Inr a)"

definition lift_s :: "'e + 'a \<Rightarrow> ('s, 'e, 'a) gstep" where
  "lift_s r st = (st, r)"

definition update_s :: "('s \<Rightarrow> 's) \<Rightarrow> ('s, 'e, unit) gstep" where
  "update_s f st = (f st, Inr ())"

text \<open>A call that reads or changes the state and cannot raise.\<close>

definition call_s :: "('s \<Rightarrow> 's \<times> 'a) \<Rightarrow> ('s, 'e, 'a) gstep" where
  "call_s f st = (let (st', a) = f st in (st', Inr a))"

definition try_s :: "('s, 'e, 'a) gstep \<Rightarrow> ('e \<Rightarrow> ('s, 'd, 'a) gstep) \<Rightarrow> ('s, 'd, 'a) gstep" where
  "try_s m h st = (case m st of (st', Inl e) \<Rightarrow> h e st' | (st', Inr a) \<Rightarrow> (st', Inr a))"

lemmas step_defs = bind_s_def return_s_def lift_s_def update_s_def

lemma bind_s_Inr:
  "bind_s m f st = (st', Inr y) \<longleftrightarrow> (\<exists>st1 a. m st = (st1, Inr a) \<and> f a st1 = (st', Inr y))"
  by (auto simp: bind_s_def split: prod.split sum.split)

lemma bind_s_cong [fundef_cong]:
  "m st = m' st \<Longrightarrow> (\<And>st' a. m' st = (st', Inr a) \<Longrightarrow> f a st' = f' a st') \<Longrightarrow> st = st2 \<Longrightarrow> bind_s m f st = bind_s m' f' st2"
  by (auto simp: bind_s_def split: prod.split sum.split)

text \<open>
  Weakest precondition: \<open>Q\<close> holds of the value and the state when the step ends normally, \<open>E\<close> of the state
  when it raises.
\<close>

definition wp_s :: "('s, 'e, 'a) gstep \<Rightarrow> ('a \<Rightarrow> 's \<Rightarrow> bool) \<Rightarrow> ('s \<Rightarrow> bool) \<Rightarrow> 's \<Rightarrow> bool" where
  "wp_s m Q E st = (case m st of (st', Inl e) \<Rightarrow> E st' | (st', Inr a) \<Rightarrow> Q a st')"

named_theorems wp "weakest preconditions of the statements"

lemma wp_bind [wp]: "wp_s (bind_s m f) Q E = wp_s m (\<lambda>a. wp_s (f a) Q E) E"
  by (simp add: fun_eq_iff wp_s_def bind_s_def split: prod.split sum.split)

lemma wp_return [wp]: "wp_s (return_s a) Q E = Q a"
  by (simp add: fun_eq_iff wp_s_def return_s_def)

lemma wp_lift [wp]: "wp_s (lift_s r) Q E st = (case r of Inl e \<Rightarrow> E st | Inr a \<Rightarrow> Q a st)"
  by (simp add: wp_s_def lift_s_def)

lemma wp_update [wp]: "wp_s (update_s f) Q E = (\<lambda>st. Q () (f st))"
  by (simp add: fun_eq_iff wp_s_def update_s_def)

lemma wp_call [wp]: "wp_s (call_s f) Q E = (\<lambda>st. Q (snd (f st)) (fst (f st)))"
  by (simp add: fun_eq_iff wp_s_def call_s_def split: prod.split)

lemma wp_s_at: "wp_s m Q E st = (case m st of (st', Inl e) \<Rightarrow> E st' | (st', Inr a) \<Rightarrow> Q a st')"
  by (simp add: wp_s_def)

lemma wp_mono:
  "wp_s m Q E st \<Longrightarrow> (\<And>a st'. Q a st' \<Longrightarrow> Q' a st') \<Longrightarrow> (\<And>st'. E st' \<Longrightarrow> E' st') \<Longrightarrow> wp_s m Q' E' st"
  by (auto simp: wp_s_def split: prod.split sum.split)

lemma wp_result: "wp_s m Q E st \<Longrightarrow> m st = (st', Inr a) \<Longrightarrow> Q a st'"
  by (simp add: wp_s_def)

lemma wp_state: "wp_s m (\<lambda>a. P) P st \<Longrightarrow> P (fst (m st))"
  by (auto simp: wp_s_def split: prod.splits sum.splits)

text \<open>Steps that never raise.\<close>

definition never_raises :: "('s, 'e, 'a) gstep \<Rightarrow> bool" where
  "never_raises m \<longleftrightarrow> (\<forall>st. \<not> isl (snd (m st)))"

named_theorems never "steps that never raise"

lemma never_basic [never]:
  "never_raises (return_s a)" "never_raises (update_s f)" "never_raises (call_s g)" "\<not> isl r \<Longrightarrow> never_raises (lift_s r)"
  by (simp_all add: never_raises_def step_defs call_s_def split_beta)

lemma never_bind [never]: "never_raises m \<Longrightarrow> (\<And>a. never_raises (f a)) \<Longrightarrow> never_raises (bind_s m f)"
proof -
  assume m: "never_raises m" and f: "\<And>a. never_raises (f a)"
  have "\<not> isl (snd (bind_s m f st))" for st
  proof (cases "m st")
    case (Pair st' r)
    then have "\<not> isl r" using m by (metis never_raises_def snd_conv)
    then obtain a where "r = Inr a" using not_isl_Inr by blast
    then show ?thesis using Pair f by (simp add: bind_s_def never_raises_def)
  qed
  then show ?thesis by (simp add: never_raises_def)
qed

end
