(* ===== verification/Vault_Bytes.thy ===== *)
theory Vault_Bytes
  imports Step_Monad
begin

text \<open>
  Byte strings, for the vault: UTF-8, the URL-safe base64 of Python's \<open>base64\<close> module (its lenient decoder:
  characters outside the alphabet are skipped, what follows a complete padding is ignored), hexadecimal digits.
  A byte string is a list of characters, one for each byte.  A text has code points below 256, so
  \<open>utf8_decode\<close> gives only such texts.
\<close>

type_synonym bytes = string

section \<open>UTF-8\<close>

definition utf8_char :: "char \<Rightarrow> bytes" where
  "utf8_char c = (let n = (of_char c :: nat) in if n < 128 then [c] else [char_of (192 + n div 64), char_of (128 + n mod 64)])"

definition utf8_encode :: "string \<Rightarrow> bytes" where
  "utf8_encode s = concat (map utf8_char s)"

text \<open>\<open>None\<close> is the \<open>UnicodeDecodeError\<close>.\<close>

fun utf8_decode :: "bytes \<Rightarrow> string option" where
  "utf8_decode [] = Some []"
| "utf8_decode (b # bs) =
     (let n = (of_char b :: nat) in
      if n < 128 then map_option (Cons b) (utf8_decode bs)
      else if n = 194 \<or> n = 195
      then (case bs of
          [] \<Rightarrow> None
        | d # ds \<Rightarrow> (let m = (of_char d :: nat) in
            if 128 \<le> m \<and> m < 192 then map_option (Cons (char_of ((n - 192) * 64 + (m - 128)))) (utf8_decode ds) else None))
      else None)"

lemma of_char_less: "(of_char c :: nat) < 256"
  by simp

lemma utf8_decode_char: "utf8_decode (utf8_char c @ bs) = map_option (Cons c) (utf8_decode bs)"
proof (cases "(of_char c :: nat) < 128")
  case True
  then show ?thesis by (simp add: utf8_char_def)
next
  case False
  let ?n = "of_char c :: nat"
  have "?n div 64 < 4" using of_char_less [of c] by (intro less_mult_imp_div_less) simp
  moreover have "128 div 64 \<le> ?n div 64" using False by (intro div_le_mono) simp
  ultimately have d: "?n div 64 = 2 \<or> ?n div 64 = 3" by auto
  have m: "?n mod 64 < 64" by simp
  have "char_of (?n div 64 * 64 + ?n mod 64) = c" by (simp only: div_mult_mod_eq char_of_char)
  then have "?n div 64 = 2 \<Longrightarrow> char_of (128 + ?n mod 64) = c" "?n div 64 = 3 \<Longrightarrow> char_of (192 + ?n mod 64) = c" by simp_all
  then show ?thesis using False d m by (auto simp: utf8_char_def Let_def)
qed

theorem utf8_roundtrip: "utf8_decode (utf8_encode s) = Some s"
  by (induction s) (simp_all add: utf8_encode_def utf8_decode_char)

lemma utf8_encode_eq_Nil [simp]: "utf8_encode s = [] \<longleftrightarrow> s = []"
  by (cases s) (auto simp: utf8_encode_def utf8_char_def Let_def)

text \<open>\<open>x.encode("ascii")\<close> and UTF-8 agree on texts of ASCII characters.\<close>

lemma utf8_ascii: "\<forall>c \<in> set s. (of_char c :: nat) < 128 \<Longrightarrow> utf8_encode s = s"
  by (induction s) (simp_all add: utf8_encode_def utf8_char_def)

section \<open>Base64\<close>

definition b64_digit :: "nat \<Rightarrow> char" where
  "b64_digit n = (if n < 26 then char_of (65 + n) else if n < 52 then char_of (71 + n) else if n < 62 then char_of (n - 4)
     else if n = 62 then CHR ''-'' else CHR ''_'')"

definition b64_value :: "char \<Rightarrow> nat option" where
  "b64_value c = (let n = (of_char c :: nat) in
     if 65 \<le> n \<and> n \<le> 90 then Some (n - 65) else if 97 \<le> n \<and> n \<le> 122 then Some (n - 71)
     else if 48 \<le> n \<and> n \<le> 57 then Some (n + 4)
     else if n = 43 \<or> n = 45 then Some 62 else if n = 47 \<or> n = 95 then Some 63 else None)"

fun urlsafe_b64encode :: "bytes \<Rightarrow> bytes" where
  "urlsafe_b64encode [] = []"
| "urlsafe_b64encode [a] = (let x = (of_char a :: nat) in [b64_digit (x div 4), b64_digit (x mod 4 * 16), CHR ''='', CHR ''=''])"
| "urlsafe_b64encode [a, b] = (let x = (of_char a :: nat); y = (of_char b :: nat)
     in [b64_digit (x div 4), b64_digit (x mod 4 * 16 + y div 16), b64_digit (y mod 16 * 4), CHR ''=''])"
| "urlsafe_b64encode (a # b # c # bs) = (let x = (of_char a :: nat); y = (of_char b :: nat); z = (of_char c :: nat)
     in [b64_digit (x div 4), b64_digit (x mod 4 * 16 + y div 16), b64_digit (y mod 16 * 4 + z div 64), b64_digit (z mod 64)]
       @ urlsafe_b64encode bs)"

text \<open>
  The decoder has read \<open>quad\<close> characters of a group of four, of which \<open>left\<close> are the bits not yet given out, and
  \<open>pads\<close> padding characters in a row.
\<close>

fun b64_decode :: "nat \<Rightarrow> nat \<Rightarrow> nat \<Rightarrow> bytes \<Rightarrow> bytes option" where
  "b64_decode quad left pads [] = (if quad = 0 then Some [] else None)"
| "b64_decode quad left pads (c # s) =
     (if c = CHR ''=''
      then (if 2 \<le> quad then (if 4 \<le> quad + (pads + 1) then Some [] else b64_decode quad left (pads + 1) s)
            else b64_decode quad left pads s)
      else case b64_value c of
          None \<Rightarrow> b64_decode quad left pads s
        | Some v \<Rightarrow>
            (if quad = 0 then b64_decode 1 v 0 s
             else if quad = 1 then map_option (Cons (char_of (left * 4 + v div 16))) (b64_decode 2 (v mod 16) 0 s)
             else if quad = 2 then map_option (Cons (char_of (left * 16 + v div 4))) (b64_decode 3 (v mod 4) 0 s)
             else map_option (Cons (char_of (left * 64 + v))) (b64_decode 0 0 0 s)))"

definition urlsafe_b64decode :: "bytes \<Rightarrow> bytes option" where
  "urlsafe_b64decode s = b64_decode 0 0 0 s"

lemma b64_value_digit: "n < 64 \<Longrightarrow> b64_value (b64_digit n) = Some n"
  by (auto simp: b64_value_def b64_digit_def Let_def split: if_splits)

lemma b64_digit_not_pad: "n < 64 \<Longrightarrow> b64_digit n \<noteq> CHR ''=''"
proof
  assume "n < 64" "b64_digit n = CHR ''=''"
  then have "b64_value CHR ''='' = Some n" using b64_value_digit [of n] by simp
  then show False by (simp add: b64_value_def)
qed

lemma b64_decode_digit:
  assumes "n < 64"
  shows "b64_decode 0 left pads (b64_digit n # s) = b64_decode 1 n 0 s"
    "b64_decode 1 left pads (b64_digit n # s) = map_option (Cons (char_of (left * 4 + n div 16))) (b64_decode 2 (n mod 16) 0 s)"
    "b64_decode 2 left pads (b64_digit n # s) = map_option (Cons (char_of (left * 16 + n div 4))) (b64_decode 3 (n mod 4) 0 s)"
    "b64_decode 3 left pads (b64_digit n # s) = map_option (Cons (char_of (left * 64 + n))) (b64_decode 0 0 0 s)"
  using assms by (simp_all add: b64_value_digit b64_digit_not_pad)

lemma group_split: "(b :: nat) < m \<Longrightarrow> (a * m + b) div m = a" "b < m \<Longrightarrow> (a * m + b) mod m = b"
  by simp_all

lemma group_parts: "(y :: nat) < 256 \<Longrightarrow> y div 16 < 16" "y < 256 \<Longrightarrow> y div 4 < 64" "y < 256 \<Longrightarrow> y div 64 < 4"
  "y mod 4 < 4" "y mod 16 < 16" "y mod 64 < 64"
  by (simp_all add: less_mult_imp_div_less)

lemma b64_split:
  fixes x y z :: nat
  assumes "(y :: nat) < 256" "z < 256"
  shows "x mod 4 * 16 + y div 16 < 64" "x mod 4 * 16 < 64" "y mod 16 * 4 + z div 64 < 64" "y mod 16 * 4 < 64"
  using group_parts(4) [of x] group_parts(1) [OF assms(1)] group_parts(5) [of y] group_parts(3) [OF assms(2)] by linarith+

lemma b64_join:
  fixes x y :: nat
  assumes "(y :: nat) < 256"
  shows "x div 4 * 4 + (x mod 4 * 16 + y div 16) div 16 = x" "x div 4 * 4 + (x mod 4 * 16) div 16 = x"
  using group_split(1) [OF group_parts(1) [OF assms], of "x mod 4"] by simp_all

lemma b64_low:
  fixes x y z :: nat
  assumes "(y :: nat) < 256" "z < 256"
  shows "(x mod 4 * 16 + y div 16) mod 16 * 16 + (y mod 16 * 4 + z div 64) div 4 = y"
    "(x mod 4 * 16 + y div 16) mod 16 * 16 + (y mod 16 * 4) div 4 = y"
    "(y mod 16 * 4 + z div 64) mod 4 * 64 + z mod 64 = z"
  using group_split(2) [OF group_parts(1) [OF assms(1)], of "x mod 4"] group_split(1) [OF group_parts(3) [OF assms(2)], of "y mod 16"]
    group_split(2) [OF group_parts(3) [OF assms(2)], of "y mod 16"] by (simp_all del: group_split)

lemmas b64_group = b64_decode_digit group_parts b64_split [OF of_char_less of_char_less] b64_join [OF of_char_less]
  b64_low [OF of_char_less of_char_less] of_char_less

theorem base64_roundtrip: "urlsafe_b64decode (urlsafe_b64encode bs) = Some bs"
  unfolding urlsafe_b64decode_def
proof (induction bs rule: urlsafe_b64encode.induct)
  case (2 a)
  have "b64_decode 2 l 0 [CHR ''='', CHR ''=''] = Some []" for l by simp
  then show ?case by (simp add: Let_def b64_group del: b64_decode.simps One_nat_def)
next
  case (3 a b)
  have "b64_decode 3 l p [CHR ''=''] = Some []" for l p by simp
  then show ?case by (simp add: Let_def b64_group del: b64_decode.simps One_nat_def)
next
  case (4 a b c bs)
  then show ?case by (simp add: Let_def b64_group del: b64_decode.simps One_nat_def)
qed simp

section \<open>Hexadecimal digits\<close>

definition hexdigest :: "bytes \<Rightarrow> string" where
  "hexdigest bs = concat (map (\<lambda>b. let n = (of_char b :: nat) in [hex_digit (n div 16), hex_digit (n mod 16)]) bs)"

text \<open>\<open>int(s, 16)\<close> of hexadecimal digits in lower case.\<close>

definition hex_number :: "string \<Rightarrow> nat" where
  "hex_number s = foldl (\<lambda>a c. a * 16 + (let n = (of_char c :: nat) in if n < 58 then n - 48 else n - 87)) 0 s"

text \<open>\<open>x + b"=" * (-len(x) % 4)\<close>.\<close>

definition padded :: "bytes \<Rightarrow> bytes" where
  "padded bs = bs @ replicate (nat (- int (length bs) mod 4)) (CHR ''='')"

lemma length_b64encode: "length (urlsafe_b64encode bs) mod 4 = 0"
  by (induction bs rule: urlsafe_b64encode.induct) (simp_all add: Let_def)

lemma padded_b64encode: "padded (urlsafe_b64encode bs) = urlsafe_b64encode bs"
proof -
  have "int (length (urlsafe_b64encode bs)) mod 4 = 0" using length_b64encode [of bs] by (metis of_nat_0 of_nat_mod of_nat_numeral)
  then have "- int (length (urlsafe_b64encode bs)) mod 4 = 0" by presburger
  then show ?thesis by (simp add: padded_def)
qed

end
