(* ===== verification/Plan_Artifact.thy ===== *)
theory Plan_Artifact
  imports Planner Json_Text Vault_Bytes
begin

text \<open>
  The plan artifact on disk: the writer of \<open>infra/artifacts/plan_writer.py\<close> and \<open>_atomic_json.py\<close>, and the reader
  \<open>plan_reader.py\<close>, down to the bytes of the file.  The text is what \<open>json.dump(ensure_ascii=False, indent=2)\<close> writes
  in UTF-8; it is read with universal newlines and \<open>json.loads\<close>.  The file system is a map from paths to contents;
  whether the disk lets a step pass is a parameter of the writer.
\<close>

section \<open>Indented JSON\<close>

definition plain_escape :: "char \<Rightarrow> string" where
  "plain_escape c = (if c = quote_char \<or> c = backslash \<or> (of_char c :: nat) < 32 then escape_char c else [c])"

definition plain_quote :: "string \<Rightarrow> string" where
  "plain_quote s = quote_char # concat (map plain_escape s) @ [quote_char]"

definition new_line :: "nat \<Rightarrow> nat \<Rightarrow> string" where
  "new_line indent level = CHR 0x0A # replicate (indent * level) (CHR '' '')"

fun json_pretty :: "nat \<Rightarrow> nat \<Rightarrow> pyval \<Rightarrow> string" where
  "json_pretty indent level PNone = ''null''"
| "json_pretty indent level (PBool b) = (if b then ''true'' else ''false'')"
| "json_pretty indent level (PInt i) = int_str i"
| "json_pretty indent level (PFloat f) = float_repr f"
| "json_pretty indent level (PStr s) = plain_quote s"
| "json_pretty indent level (PList vs) =
     (if vs = [] then ''[]''
      else ''['' @ new_line indent (Suc level)
        @ py_join (CHR '','' # new_line indent (Suc level)) (map (json_pretty indent (Suc level)) vs)
        @ new_line indent level @ '']'')"
| "json_pretty indent level (PDict d) =
     (if d = [] then ''{}''
      else ''{'' @ new_line indent (Suc level)
        @ py_join (CHR '','' # new_line indent (Suc level)) (map (\<lambda>(k, v). plain_quote k @ '': '' @ json_pretty indent (Suc level) v) d)
        @ new_line indent level @ ''}'')"

text \<open>What text mode gives of the line ends of a file.\<close>

fun universal_newlines :: "string \<Rightarrow> string" where
  "universal_newlines [] = []"
| "universal_newlines (c # s) =
     (if c = CHR 0x0D then CHR 0x0A # universal_newlines (if s \<noteq> [] \<and> hd s = CHR 0x0A then tl s else s)
      else c # universal_newlines s)"

section \<open>Files\<close>

type_synonym files = "string \<rightharpoonup> bytes"

text \<open>
  The steps of the writer that the disk may refuse: the directory and the temporary file, the write with its flush, the
  replacement of the target.
\<close>

datatype disk_step = Open_Step | Write_Step | Replace_Step

definition atomic_write_json ::
    "(disk_step \<Rightarrow> py_error option) \<Rightarrow> string \<Rightarrow> string \<Rightarrow> pyval \<Rightarrow> nat \<Rightarrow> files \<Rightarrow> files \<times> unit result" where
  "atomic_write_json fault temp_path target_path payload indent fs =
     (case fault Open_Step of
        Some e \<Rightarrow> (fs, Inl e)
      | None \<Rightarrow>
          (case fault Write_Step of
             Some e \<Rightarrow> (fs(temp_path := None), Inl e)
           | None \<Rightarrow>
               (let fs = fs(temp_path \<mapsto> utf8_encode (json_pretty indent 0 payload))
                in case fault Replace_Step of
                     Some e \<Rightarrow> (fs(temp_path := None), Inl e)
                   | None \<Rightarrow> ((fs(target_path := fs temp_path))(temp_path := None), Inr ()))))"

definition write_plan_file ::
    "(disk_step \<Rightarrow> py_error option) \<Rightarrow> string \<Rightarrow> string \<Rightarrow> pyval list \<Rightarrow> pyval \<Rightarrow> (string, pyval) dict \<Rightarrow> string \<Rightarrow> string
     \<Rightarrow> files \<Rightarrow> files \<times> string result" where
  "write_plan_file fault temp_path plan_path items summary meta run_id generated_at fs =
     apsnd (map_sum id (\<lambda>_. plan_path))
       (atomic_write_json fault temp_path plan_path (build_plan_payload items summary meta run_id generated_at) 2 fs)"

text \<open>The metadata of \<open>delivery/commands/import_plan.py\<close>.\<close>

definition plan_meta_of :: "pyval \<Rightarrow> string \<Rightarrow> (string, pyval) dict" where
  "plan_meta_of include_deleted dataset_name =
     [(''csv_path'', PNone), (''include_deleted'', include_deleted), (''dataset'', PStr dataset_name)]"

text \<open>\<open>UnicodeDecodeError\<close> and \<open>JSONDecodeError\<close> are \<open>ValueError\<close>s; their messages are left out.\<close>

definition read_json :: "files \<Rightarrow> string \<Rightarrow> pyval result" where
  "read_json fs path =
     (case fs path of
        None \<Rightarrow> Inl (OtherError ''FileNotFoundError'' path)
      | Some bs \<Rightarrow>
          (case utf8_decode bs of
             None \<Rightarrow> Inl (ValueError ''UnicodeDecodeError'')
           | Some s \<Rightarrow>
               (case json_loads (universal_newlines s) of
                  None \<Rightarrow> Inl (ValueError ''JSONDecodeError'')
                | Some data \<Rightarrow> Inr data)))"

definition load_plan_raw :: "files \<Rightarrow> string \<Rightarrow> ((string, pyval) dict \<times> (string, pyval) dict \<times> pyval list) result" where
  "load_plan_raw fs path =
     bind_r (read_json fs path) (\<lambda>data.
       case data of
         PDict d \<Rightarrow>
           (case dict_get_or d ''items'' (PList []) of
              PList items \<Rightarrow> Inr (dict_of (dict_get_or d ''meta'' (PDict [])), dict_of (dict_get_or d ''summary'' (PDict [])), items)
            | _ \<Rightarrow> Inl (ValueError ''Invalid plan format: items must be list''))
       | _ \<Rightarrow> Inl (ValueError ''Invalid plan format: root must be object''))"

definition read_plan_file :: "files \<Rightarrow> string \<Rightarrow> plan result" where
  "read_plan_file fs path =
     bind_r (load_plan_raw fs path) (\<lambda>(meta, summary, items). build_plan meta summary items path)"

section \<open>The indented text reads back\<close>

lemma plain_escape_string: "json_string (plain_escape c @ t) = map_option (apfst (\<lambda>r. c # r)) (json_string t)"
  by (simp add: plain_escape_def json_string_escape del: json_string.simps(2)) (simp add: plain_escape_def)

lemma plain_quote_string: "json_string (concat (map plain_escape s) @ quote_char # r) = Some (s, r)"
  by (induction s) (simp_all add: plain_escape_string del: json_string.simps(2), simp)

lemma plain_quote_tail: "json_string (tl (plain_quote k @ r)) = Some (k, r)"
  by (simp add: plain_quote_def plain_quote_string)

lemma plain_quote_head: "plain_quote k @ r \<noteq> []" "hd (plain_quote k @ r) = quote_char" "skip_ws (plain_quote k @ r) = plain_quote k @ r"
  by (simp_all add: plain_quote_def skip_ws_def)

lemma pretty_head:
  "json_pretty i l v \<noteq> [] \<and> \<not> blank (hd (json_pretty i l v)) \<and> hd (json_pretty i l v) \<noteq> CHR '']'' \<and> hd (json_pretty i l v) \<noteq> CHR ''}''"
proof (cases v)
  case (PInt n)
  then show ?thesis using number_start_int [of n] number_start_value [of "int_str n"] by (simp add: number_start_def)
next
  case (PFloat f)
  then show ?thesis using number_start_float [of f] number_start_value [of "float_repr f"] by (simp add: number_start_def)
qed (auto simp: plain_quote_def blank_def)

lemma pretty_skip: "skip_ws (json_pretty i l v @ r) = json_pretty i l v @ r"
  using pretty_head [of i l v] by (intro skip_ws_head) auto

lemma new_line_skip: "skip_ws (new_line i l @ s) = skip_ws s"
proof -
  have "skip_ws (replicate n (CHR '' '') @ s) = skip_ws s" for n by (induction n) (simp_all add: skip_ws_def)
  then show ?thesis by (simp add: new_line_def) (simp add: skip_ws_def)
qed

lemma end_chars: "number_end (new_line i l @ s)" "number_end (CHR '','' # s)"
proof -
  have "\<not> is_digit CHR '',''" "\<not> is_digit (CHR 0x0A)" by code_simp+
  then show "number_end (new_line i l @ s)" "number_end (CHR '','' # s)" by (simp_all add: number_end_def new_line_def)
qed

lemma close_skip: "skip_ws (CHR '']'' # r) = CHR '']'' # r" "skip_ws (CHR ''}'' # r) = CHR ''}'' # r" "skip_ws (CHR '','' # r) = CHR '','' # r"
    "skip_ws (CHR '':'' # r) = CHR '':'' # r"
  by (simp_all add: skip_ws_def)

abbreviation pretty_member :: "nat \<Rightarrow> nat \<Rightarrow> string \<times> pyval \<Rightarrow> string" where
  "pretty_member i l \<equiv> \<lambda>(k, v). plain_quote k @ '': '' @ json_pretty i l v"

lemma join_skip:
  assumes "vs \<noteq> []" "\<And>v s. v \<in> set vs \<Longrightarrow> skip_ws (f v @ s) = f v @ s"
  shows "skip_ws (py_join sep (map f vs) @ s) = py_join sep (map f vs) @ s"
  using assms by (cases vs rule: remdups_adj.cases) simp_all

lemma items_pretty:
  assumes "\<And>v n r. v \<in> set vs \<Longrightarrow> number_end r \<Longrightarrow> length (json_pretty i l v) < n \<Longrightarrow> json_value n (json_pretty i l v @ r) = Some (v, r)"
    and "vs \<noteq> []" "length (py_join (CHR '','' # new_line i l) (map (json_pretty i l) vs)) + 1 < n"
  shows "json_items n (py_join (CHR '','' # new_line i l) (map (json_pretty i l) vs) @ new_line i k @ CHR '']'' # r) = Some (vs, r)"
  using assms
proof (induction vs arbitrary: n)
  case (Cons v vs)
  obtain m where n: "n = Suc m" using Cons.prems(3) by (cases n) auto
  show ?case
  proof (cases "vs = []")
    case True
    have "json_value m (json_pretty i l v @ new_line i k @ CHR '']'' # r) = Some (v, new_line i k @ CHR '']'' # r)"
      using Cons.prems True n by (intro Cons.prems(1)) (simp_all add: end_chars)
    then show ?thesis using True n by (simp add: json_items.simps new_line_skip close_skip)
  next
    case False
    let ?t = "py_join (CHR '','' # new_line i l) (map (json_pretty i l) vs) @ new_line i k @ CHR '']'' # r"
    have join: "py_join (CHR '','' # new_line i l) (map (json_pretty i l) (v # vs)) @ new_line i k @ CHR '']'' # r
        = json_pretty i l v @ CHR '','' # new_line i l @ ?t"
      using False by (cases vs) simp_all
    have v: "json_value m (json_pretty i l v @ CHR '','' # new_line i l @ ?t) = Some (v, CHR '','' # new_line i l @ ?t)"
      using Cons.prems False n by (intro Cons.prems(1)) (cases vs; simp add: end_chars)+
    have "json_items m ?t = Some (vs, r)"
      using Cons.prems False n by (intro Cons.IH) (cases vs; auto intro: Cons.prems(1))+
    moreover have "skip_ws ?t = ?t" by (rule join_skip [OF False pretty_skip])
    ultimately show ?thesis unfolding join n by (simp add: json_items.simps v close_skip new_line_skip)
  qed
qed simp

lemma members_pretty:
  assumes "\<And>k v n r. (k, v) \<in> set d \<Longrightarrow> number_end r \<Longrightarrow> length (json_pretty i l v) < n \<Longrightarrow> json_value n (json_pretty i l v @ r) = Some (v, r)"
    and "d \<noteq> []" "length (py_join (CHR '','' # new_line i l) (map (pretty_member i l) d)) + 1 < n"
  shows "json_members n (py_join (CHR '','' # new_line i l) (map (pretty_member i l) d) @ new_line i j @ CHR ''}'' # r) = Some (d, r)"
  using assms
proof (induction d arbitrary: n)
  case (Cons kv d)
  obtain k v where kv: "kv = (k, v)" by fastforce
  obtain m where n: "n = Suc m" using Cons.prems(3) by (cases n) auto
  have colon: "skip_ws ('': '' @ s) = '': '' @ s" "skip_ws (CHR '' '' # json_pretty i l v @ s) = json_pretty i l v @ s" for s
    using pretty_skip [of i l v s] by (simp_all add: skip_ws_def)
  show ?case
  proof (cases "d = []")
    case True
    have "json_value m (json_pretty i l v @ new_line i j @ CHR ''}'' # r) = Some (v, new_line i j @ CHR ''}'' # r)"
      using Cons.prems True n kv by (intro Cons.prems(1)) (auto simp: end_chars)
    then show ?thesis
      using True n kv colon plain_quote_head [of k] plain_quote_tail [of k] by (simp add: json_members.simps new_line_skip close_skip)
  next
    case False
    let ?t = "py_join (CHR '','' # new_line i l) (map (pretty_member i l) d) @ new_line i j @ CHR ''}'' # r"
    have join: "py_join (CHR '','' # new_line i l) (map (pretty_member i l) (kv # d)) @ new_line i j @ CHR ''}'' # r
        = plain_quote k @ '': '' @ json_pretty i l v @ CHR '','' # new_line i l @ ?t"
      using False kv by (cases d) simp_all
    have v: "json_value m (json_pretty i l v @ CHR '','' # new_line i l @ ?t) = Some (v, CHR '','' # new_line i l @ ?t)"
      using Cons.prems False n kv by (intro Cons.prems(1)) (cases d; auto simp: end_chars)+
    have "json_members m ?t = Some (d, r)"
      using Cons.prems False n by (intro Cons.IH) (cases d; auto intro: Cons.prems(1))+
    moreover have "skip_ws ?t = ?t" by (rule join_skip [OF False]) (auto simp: plain_quote_head)
    ultimately show ?thesis
      unfolding join n using kv v colon plain_quote_head [of k] plain_quote_tail [of k]
      by (simp add: json_members.simps close_skip new_line_skip)
  qed
qed simp

lemma value_pretty:
  "json_ok v \<Longrightarrow> number_end r \<Longrightarrow> length (json_pretty i l v) < n \<Longrightarrow> json_value n (json_pretty i l v @ r) = Some (v, r)"
proof (induction i l v arbitrary: n r rule: json_pretty.induct)
  case (3 i l j)
  then obtain m where "n = Suc m" by (cases n) auto
  then show ?case
    using json_number_int [OF "3.prems"(2)] number_start_value(1) [OF number_start_append [OF number_start_int]] by simp
next
  case (4 i l f)
  then obtain m where "n = Suc m" by (cases n) auto
  then show ?case
    using json_number_float [OF "4.prems"(2)] "4.prems"(1)
      number_start_value(1) [OF number_start_append [OF number_start_float]] by simp
next
  case (5 i l s)
  then obtain m where "n = Suc m" by (cases n) auto
  then show ?case by (simp add: json_value.simps plain_quote_def plain_quote_string)
next
  case (6 i l vs)
  then obtain m where n: "n = Suc m" by (cases n) auto
  show ?case
  proof (cases "vs = []")
    case True
    then show ?thesis using n by (simp add: json_value.simps skip_ws_def)
  next
    case False
    let ?t = "py_join (CHR '','' # new_line i (Suc l)) (map (json_pretty i (Suc l)) vs) @ new_line i l @ CHR '']'' # r"
    have "json_items m ?t = Some (vs, r)"
      using "6.IH" [OF False] "6.prems" False n by (intro items_pretty) (auto simp: new_line_def)
    moreover have skip: "skip_ws ?t = ?t" by (rule join_skip [OF False pretty_skip])
    moreover have "?t \<noteq> []" "hd ?t \<noteq> CHR '']''"
      using pretty_head [of i "Suc l" "hd vs"] False by (cases vs rule: remdups_adj.cases; simp)+
    ultimately show ?thesis using n False by (simp add: json_value.simps new_line_skip)
  qed
next
  case (7 i l d)
  then obtain m where n: "n = Suc m" by (cases n) auto
  show ?case
  proof (cases "d = []")
    case True
    then show ?thesis using n by (simp add: json_value.simps skip_ws_def)
  next
    case False
    let ?t = "py_join (CHR '','' # new_line i (Suc l)) (map (pretty_member i (Suc l)) d) @ new_line i l @ CHR ''}'' # r"
    have "json_members m ?t = Some (d, r)"
      using "7.IH" [OF False] "7.prems" False n by (intro members_pretty) (auto simp: new_line_def dict_ok_def case_prod_beta)
    moreover have "skip_ws ?t = ?t" by (rule join_skip [OF False]) (auto simp: plain_quote_head)
    moreover have "?t \<noteq> []" "hd ?t \<noteq> CHR ''}''"
      using False by (cases d rule: remdups_adj.cases; simp add: plain_quote_def case_prod_beta)+
    moreover have "fold (\<lambda>(k, v). AList.update k v) d [] = d"
      using fold_update_fresh [of "[]" d] "7.prems"(1) by (simp add: dict_ok_def)
    ultimately show ?thesis using n False by (simp add: json_value.simps new_line_skip)
  qed
next
  case (1 i l)
  then show ?case by (cases n) (auto simp: json_value.simps)
next
  case (2 i l b)
  then show ?case by (cases n; cases b) (auto simp: numeral_eq_Suc json_value.simps)
qed

lemma loads_pretty:
  assumes "json_ok v"
  shows "json_loads (json_pretty i l v) = Some v"
proof -
  have "json_value (2 * length (json_pretty i l v) + 1) (json_pretty i l v @ []) = Some (v, [])"
    using assms pretty_head [of i l v] by (intro value_pretty) (simp_all add: number_end_def)
  then show ?thesis using pretty_skip [of i l v "[]"] by (simp add: json_loads_def skip_ws_def)
qed

text \<open>The writer leaves no carriage return in the text, so reading the file as text changes nothing.\<close>

lemma universal_newlines_id: "CHR 0x0D \<notin> set s \<Longrightarrow> universal_newlines s = s"
  by (induction s rule: universal_newlines.induct) auto

lemma join_set: "c \<in> set (py_join sep xs) \<Longrightarrow> c \<in> set sep \<or> (\<exists>x \<in> set xs. c \<in> set x)"
  by (induction sep xs rule: py_join.induct) auto

lemma return_no_digit: "\<not> is_digit (CHR 0x0D)" "CHR 0x0D \<notin> set (nat_str n)"
proof -
  show "\<not> is_digit (CHR 0x0D)" by code_simp
  then show "CHR 0x0D \<notin> set (nat_str n)" using nat_str_digits by blast
qed

lemma float_no_return: "CHR 0x0D \<notin> set (float_repr f)"
proof -
  have "CHR 0x0D \<noteq> hd (nat_str n)" "CHR 0x0D \<notin> set (take k (nat_str n))" "CHR 0x0D \<notin> set (drop k (nat_str n))"
      "CHR 0x0D \<notin> set (tl (nat_str n))" for n k
    using return_no_digit(2) [of n] hd_in_set [OF nat_str_nonempty [of n]] list.set_sel(2) [OF nat_str_nonempty [of n]]
    by (metis, blast dest: in_set_takeD in_set_dropD, blast dest: in_set_takeD in_set_dropD, blast)
  then show ?thesis using return_no_digit(2) by (auto simp: float_repr_def Let_def pad_left_def)
qed

lemma escape_no_return: "CHR 0x0D \<notin> set (plain_escape c)"
proof -
  have "hex_digit n \<noteq> CHR 0x0D" if "n < 16" for n
    using hex_value_digit [OF that] by (auto simp: hex_value_def)
  then have "CHR 0x0D \<noteq> hex_digit n" if "n < 16" for n using that by metis
  moreover have "(of_char c :: nat) div 16 < 16" using of_char_bound [of c] by (intro less_mult_imp_div_less) simp
  ultimately show ?thesis by (auto simp: plain_escape_def escape_char_def short_escapes_def Let_def)
qed

lemma pretty_no_return: "CHR 0x0D \<notin> set (json_pretty i l v)"
proof (induction i l v rule: json_pretty.induct)
  case (3 i l j)
  then show ?case using return_no_digit by (simp add: int_str_def)
next
  case (5 i l s)
  then show ?case using escape_no_return by (auto simp: plain_quote_def)
next
  case (6 i l vs)
  then show ?case by (auto simp: new_line_def dest!: join_set)
next
  case (7 i l d)
  have "CHR 0x0D \<notin> set (plain_quote k)" for k using escape_no_return by (auto simp: plain_quote_def)
  with 7 show ?case by (auto simp: new_line_def dest!: join_set)
qed (auto simp: float_no_return)

lemma read_written:
  assumes "json_ok v" "fs path = Some (utf8_encode (json_pretty i l v))"
  shows "read_json fs path = Inr v"
  using assms by (simp add: read_json_def utf8_roundtrip universal_newlines_id pretty_no_return loads_pretty)

section \<open>Properties\<close>

text \<open>A row of JSON data: no key twice, floats in normal form.\<close>

definition json_row :: "resolved_row \<Rightarrow> bool" where
  "json_row r \<longleftrightarrow> dict_ok (rv_desired_state r) \<and> dict_ok (rv_changes r) \<and> (\<forall>d. rv_source_ref r = Some d \<longrightarrow> dict_ok d)
     \<and> (\<forall>d. rv_secret_lifecycle r = Some d \<longrightarrow> dict_ok d)"

lemma item_json: "json_row r \<Longrightarrow> json_ok (serialize_plan_item (plan_item_of r))"
  by (auto simp: json_row_def serialize_plan_item_def plan_item_of_def opt_dict_def opt_int_def split: option.split)

lemma payload_json:
  assumes "\<forall>v \<in> set items. json_ok v" "json_ok include_deleted"
  shows "json_ok (build_plan_payload items (summary_as_dict s) (plan_meta_of include_deleted dataset_name) run_id generated_at)"
  using assms by (simp add: build_plan_payload_def plan_meta_of_def summary_as_dict_def)

text \<open>What the reader makes of the payload of \<open>import_plan.py\<close>.\<close>

lemma load_payload:
  assumes "read_json fs path = Inr (build_plan_payload items (summary_as_dict s) (plan_meta_of include_deleted dataset_name) run_id generated_at)"
  shows "load_plan_raw fs path = Inr ([(''run_id'', PStr run_id), (''generated_at'', PStr generated_at), (''csv_path'', PNone),
    (''include_deleted'', include_deleted), (''dataset'', PStr dataset_name)], dict_of (summary_as_dict s), items)"
  by (simp add: load_plan_raw_def assms build_plan_payload_def plan_meta_of_def dict_get_or_def dict_of_def)

lemma read_payload:
  assumes "read_json fs path = Inr (build_plan_payload (map serialize_plan_item items) (summary_as_dict s)
      (plan_meta_of include_deleted dataset_name) run_id generated_at)" "dataset_name \<noteq> []"
  shows "read_plan_file fs path = Inr \<lparr>pl_meta = \<lparr>pm_run_id = Some run_id, pm_generated_at = Some generated_at,
      pm_dataset = Some dataset_name, pm_csv_path = None, pm_plan_path = Some path, pm_include_deleted = include_deleted\<rparr>,
      pl_summary = s, pl_items = map unmask items\<rparr>"
proof -
  have "resolve_dataset [(''run_id'', PStr run_id), (''generated_at'', PStr generated_at), (''csv_path'', PNone),
      (''include_deleted'', include_deleted), (''dataset'', PStr dataset_name)] = Inr dataset_name"
    using assms(2) by (cases dataset_name) (simp_all add: resolve_dataset_def dict_get_or_def py_or_def get_str_def py_str_def)
  then show ?thesis
    by (simp add: read_plan_file_def load_payload [OF assms(1)] build_plan_def read_summary_dict read_serialized_items del: map_map)
      (simp add: dict_get_or_def get_str_def py_str_def)
qed

text \<open>
  C12. A plan is written whole or not at all, and a written plan is read back as the plan that was built.  When the disk
  refuses a step, no file has changed.  Otherwise the only file that changed is that of the plan, and reading its bytes
  gives the summary, the dataset and the metadata of \<open>import_plan.py\<close>, and every item with all its fields, except that a
  password whose value is the mask is dropped from the desired state.  The rows hold JSON data, and the temporary file has
  a new name.
\<close>

theorem plan_artifact_roundtrip:
  assumes "plan_result_of (fst (build_from_stream rows new_builder)) = (items, s)" "dataset_name \<noteq> []" "json_ok include_deleted"
    "\<forall>r \<in> set (planned_rows rows). json_row r" "fs temp_path = None" "temp_path \<noteq> plan_path"
  shows "case write_plan_file fault temp_path plan_path items (summary_as_dict s) (plan_meta_of include_deleted dataset_name)
        run_id generated_at fs of
      (fs', Inl e) \<Rightarrow> fs' = fs \<and> (\<exists>st. fault st = Some e)
    | (fs', Inr path) \<Rightarrow> path = plan_path \<and> (\<forall>q. q \<noteq> plan_path \<longrightarrow> fs' q = fs q)
        \<and> read_plan_file fs' path = Inr \<lparr>pl_meta = \<lparr>pm_run_id = Some run_id, pm_generated_at = Some generated_at,
            pm_dataset = Some dataset_name, pm_csv_path = None, pm_plan_path = Some plan_path, pm_include_deleted = include_deleted\<rparr>,
            pl_summary = s, pl_items = map (unmask \<circ> plan_item_of) (planned_rows rows)\<rparr>"
proof -
  have items: "items = map serialize_plan_item (map plan_item_of (planned_rows rows))"
    using assms(1) by (auto simp: build_from_stream_def plan_result_of_def build_fold_spec new_builder_def)
  let ?payload = "build_plan_payload items (summary_as_dict s) (plan_meta_of include_deleted dataset_name) run_id generated_at"
  have ok: "json_ok ?payload" using assms(3,4) by (intro payload_json) (auto simp: items item_json)
  let ?fs' = "(fs(temp_path \<mapsto> utf8_encode (json_pretty 2 0 ?payload), plan_path \<mapsto> utf8_encode (json_pretty 2 0 ?payload)))(temp_path := None)"
  have "read_json ?fs' plan_path = Inr ?payload" by (rule read_written [OF ok]) (simp add: assms(6) [symmetric])
  then have "read_plan_file ?fs' plan_path = Inr \<lparr>pl_meta = \<lparr>pm_run_id = Some run_id, pm_generated_at = Some generated_at,
      pm_dataset = Some dataset_name, pm_csv_path = None, pm_plan_path = Some plan_path, pm_include_deleted = include_deleted\<rparr>,
      pl_summary = s, pl_items = map unmask (map plan_item_of (planned_rows rows))\<rparr>"
    unfolding items by (rule read_payload [OF _ assms(2)])
  moreover have "fs(temp_path := None) = fs" using assms(5) by (simp add: fun_eq_iff)
  ultimately show ?thesis
    using assms(5,6) by (auto simp: write_plan_file_def atomic_write_json_def Let_def split: option.split)
qed

definition example_resolved :: resolved_row where
  "example_resolved = \<lparr>rv_row_ref = \<lparr>rr_line_no = Some 1, rr_row_id = ''r1'', rr_identity_primary = PNone, rr_identity_value = PNone\<rparr>,
     rv_identity = \<lparr>id_primary = ''login'', id_values = [(''login'', ''ann'')]\<rparr>, rv_op = Resolve_CREATE,
     rv_desired_state = [(''login'', PStr ''ann''), (''password'', PStr ''***'')], rv_existing = None, rv_changes = [],
     rv_target_id = Some ''u7'', rv_source_ref = None, rv_secret_fields = [''password''], rv_secret_lifecycle = None\<rparr>"

definition result_with :: "'r option \<Rightarrow> 'r transform_result" where
  "result_with r = \<lparr>tr_record = \<lparr>src_line_no = 1, src_record_id = ''r1'', src_values = []\<rparr>, tr_row = r, tr_row_ref = None,
     tr_match_key = None, tr_meta = [], tr_secret_candidates = [], tr_errors = [], tr_warnings = []\<rparr>"

lemma plan_artifact_roundtrip_witness:
  "let (items, s) = plan_result_of (fst (build_from_stream [result_with (Some example_resolved), result_with None] new_builder));
       (fs', written) = write_plan_file (\<lambda>_. None) ''.plan.tmp'' ''plan.json'' items (summary_as_dict s)
         (plan_meta_of (PBool False) ''users'') ''r1'' ''now'' Map.empty
   in written = Inr ''plan.json'' \<and> dom fs' = {''plan.json''}
        \<and> map_sum id (\<lambda>p. (pl_items p, pl_summary p)) (read_plan_file fs' ''plan.json'') = Inr ([unmask (plan_item_of example_resolved)], s)"
proof -
  let ?rows = "[result_with (Some example_resolved), result_with None]"
  obtain items s where b: "plan_result_of (fst (build_from_stream ?rows new_builder)) = (items, s)" by fastforce
  have rows: "planned_rows ?rows = [example_resolved]"
    by (simp add: planned_rows_def accepted_def result_with_def example_resolved_def List.map_filter_simps)
  have ok: "\<forall>r \<in> set (planned_rows ?rows). json_row r" unfolding rows by (simp add: json_row_def example_resolved_def)
  let ?w = "write_plan_file (\<lambda>_. None) ''.plan.tmp'' ''plan.json'' items (summary_as_dict s) (plan_meta_of (PBool False) ''users'') ''r1'' ''now'' Map.empty"
  have w: "snd ?w = Inr ''plan.json''" "dom (fst ?w) = {''plan.json''}"
    by (auto simp: write_plan_file_def atomic_write_json_def)
  have "map_sum id (\<lambda>p. (pl_items p, pl_summary p)) (read_plan_file (fst ?w) ''plan.json'') = Inr ([unmask (plan_item_of example_resolved)], s)"
    using plan_artifact_roundtrip [OF b _ _ ok, of "''users''" "PBool False" Map.empty "''.plan.tmp''" "''plan.json''" "\<lambda>_. None" "''r1''" "''now''"] w
    by (cases ?w) (simp add: rows)
  with w show ?thesis by (simp add: b split_beta)
qed

end
