(* ===== verification/Target_Core.thy ===== *)
theory Target_Core
  imports Sanitize Diagnostics Complex_Main
begin

text \<open>
  Model of the declarative target specification (\<open>connector/domain/target_dsl/spec_models.py\<close>) and
  of the engines over it in \<open>connector/infra/target/core\<close>: the kernel (\<open>kernel.py\<close>), the
  registries of compilers, mutations and providers, the fault handler, the error normalizer and
  the result builder (\<open>engines/\<close>).

  Floats are rational numbers (no NaN, no infinities).  Messages the source writes in Russian are given
  in translation.  A compiled operation is the function its \<open>build\<close> method computes; what it builds is
  opaque, a type variable.
\<close>

section \<open>Specification\<close>

datatype fault_kind =
    Fault_SPEC | Fault_AUTH | Fault_PERMISSION | Fault_DATA | Fault_NOT_FOUND | Fault_CONFLICT
  | Fault_THROTTLE | Fault_TRANSIENT | Fault_UNKNOWN

datatype target_capability = Cap_check | Cap_execute | Cap_read_paged

datatype retry_directive = NO_RETRY | RETRY_BACKOFF | RETRY_AFTER | ESCALATE

datatype body_mode = Body_none | Body_keys_only | Body_truncated

record fault_rule =
  fr_fault_kind :: fault_kind
  fr_match_status :: "int option"
  fr_match_range :: "(int \<times> int) option"
  fr_match_code :: "string option"

record retry_rule =
  ry_directive :: retry_directive
  ry_match_fault :: "fault_kind option"
  ry_match_status :: "int option"
  ry_match_reason :: "string option"
  ry_mutation :: "string option"

record retry_config =
  rc_max_attempts :: int
  rc_backoff_base :: rat
  rc_backoff_max :: rat
  rc_jitter :: bool

record operation_spec =
  os_alias :: string
  os_kind :: string
  os_expected_statuses :: "int list"
  os_data :: "(string, pyval) dict"

record redaction_spec =
  rd_forbidden_metadata_keys :: "string list"
  rd_forbidden_fields :: "string list"
  rd_body_mode :: body_mode

record target_spec =
  ts_target_type :: string
  ts_capabilities :: "target_capability list"
  ts_fault_rules :: "fault_rule list"
  ts_retry_rules :: "retry_rule list"
  ts_retry_config :: retry_config
  ts_redaction :: redaction_spec
  ts_health_alias :: string
  ts_operations :: "(string, operation_spec) dict"

definition validate_fault_rule :: "fault_rule \<Rightarrow> fault_rule result" where
  "validate_fault_rule r =
     (if fr_match_status r = None \<and> fr_match_range r = None \<and> fr_match_code r = None
      then Inl (ValueError ''fault rule requires match_status, match_status_range or match_error_code'')
      else if fr_match_status r \<noteq> None \<and> fr_match_range r \<noteq> None
      then Inl (ValueError ''fault rule cannot define both match_status and match_status_range'')
      else (case fr_match_range r of
          Some (low, high) \<Rightarrow>
            if high < low then Inl (ValueError ''fault rule status range must be ordered'') else Inr r
        | None \<Rightarrow> Inr r))"

definition validate_retry_rule :: "retry_rule \<Rightarrow> retry_rule result" where
  "validate_retry_rule r =
     (if ry_match_fault r = None \<and> ry_match_status r = None \<and> ry_match_reason r = None
      then Inl (ValueError ''retry rule requires match_fault, match_status or match_reason'')
      else bind_r
        (case ry_match_reason r of
           None \<Rightarrow> Inr r
         | Some m \<Rightarrow> (let reason = py_lower (py_strip m) in
             if reason = [] then Inl (ValueError ''retry rule match_reason must not be empty'')
             else Inr (r\<lparr>ry_match_reason := Some reason\<rparr>)))
        (\<lambda>r. case ry_mutation r of
           None \<Rightarrow> Inr r
         | Some m \<Rightarrow> (let mutation = py_strip m in
             if mutation = [] then Inl (ValueError ''retry rule mutation must not be empty'')
             else Inr (r\<lparr>ry_mutation := Some mutation\<rparr>))))"

definition validate_retry_config :: "retry_config \<Rightarrow> retry_config result" where
  "validate_retry_config c =
     (if rc_max_attempts c < 0 \<or> rc_backoff_base c < 0 \<or> rc_backoff_max c < 0
      then Inl (ValueError ''Input should be greater than or equal to 0'')
      else if rc_backoff_max c < rc_backoff_base c
      then Inl (ValueError ''backoff_max must be greater or equal to backoff_base'')
      else Inr c)"

definition validate_operation :: "operation_spec \<Rightarrow> operation_spec result" where
  "validate_operation op =
     (let alias = py_strip (os_alias op) in
      if alias = [] then Inl (ValueError ''operation alias must not be empty'')
      else if os_kind op = ''http'' \<and> os_data op = [] then Inl (ValueError ''http operation requires transport payload'')
      else if os_expected_statuses op = [] then Inl (ValueError ''operation expected_statuses must not be empty'')
      else Inr (op\<lparr>os_alias := alias\<rparr>))"

definition validate_health :: "string \<Rightarrow> string result" where
  "validate_health alias =
     (if py_strip alias = [] then Inl (ValueError ''health operation alias must not be empty'') else Inr (py_strip alias))"

definition alias_mismatch :: "string \<Rightarrow> operation_spec \<Rightarrow> string" where
  "alias_mismatch key op =
     ''operation alias key mismatch: key='' @ repr_string key @ '', alias='' @ repr_string (os_alias op)"

definition validate_target_spec :: "target_spec \<Rightarrow> target_spec result" where
  "validate_target_spec s =
     (if Cap_check \<notin> set (ts_capabilities s)
      then Inl (ValueError ''health specification requires 'check' capability in target capabilities'')
      else if map_of (ts_operations s) (ts_health_alias s) = None
      then Inl (ValueError (''health operation alias is not declared: '' @ repr_string (ts_health_alias s)))
      else (case find (\<lambda>(alias, op). alias \<noteq> os_alias op) (ts_operations s) of
          Some (alias, op) \<Rightarrow> Inl (ValueError (alias_mismatch alias op))
        | None \<Rightarrow> Inr s))"

text \<open>\<open>apply_retry_overrides\<close>: \<open>model_copy\<close> replaces the fields without validating them again.\<close>

definition apply_retry_overrides :: "int \<Rightarrow> rat \<Rightarrow> target_spec \<Rightarrow> target_spec" where
  "apply_retry_overrides retries backoff s =
     s\<lparr>ts_retry_config := (ts_retry_config s)\<lparr>rc_max_attempts := retries, rc_backoff_base := backoff\<rparr>\<rparr>"

section \<open>Registries\<close>

type_synonym 'r compiled_operation =
  "string \<Rightarrow> (string, pyval) dict option \<Rightarrow> (string, pyval) dict option \<Rightarrow> 'r result"

type_synonym 'r compiler_registry = "(string, operation_spec \<Rightarrow> 'r compiled_operation result) dict"

definition register_compiler ::
    "string \<Rightarrow> (operation_spec \<Rightarrow> 'r compiled_operation result) \<Rightarrow> 'r compiler_registry \<Rightarrow> 'r compiler_registry result" where
  "register_compiler kind compiler reg =
     (let normalized = py_lower (py_strip kind) in
      if normalized = [] then Inl (ValueError ''the transport kind must not be empty'')
      else Inr (AList.update normalized compiler reg))"

definition compile_operation :: "'r compiler_registry \<Rightarrow> operation_spec \<Rightarrow> 'r compiled_operation result" where
  "compile_operation reg op =
     (case map_of reg (os_kind op) of
        None \<Rightarrow> Inl (ValueError (''no compiler is registered for operation.kind='' @ repr_string (os_kind op)))
      | Some compiler \<Rightarrow> compiler op)"

text \<open>\<open>RequestSpec\<close> strips its alias.\<close>

record request_spec =
  rs_operation_alias :: string
  rs_payload :: pyval
  rs_operation_params :: "(string, pyval) dict option"

definition make_request_spec :: "string \<Rightarrow> pyval \<Rightarrow> (string, pyval) dict option \<Rightarrow> request_spec result" where
  "make_request_spec alias payload params =
     (if py_strip alias = [] then Inl (ValueError ''operation_alias must not be empty'')
      else Inr \<lparr>rs_operation_alias = py_strip alias, rs_payload = payload, rs_operation_params = params\<rparr>)"

text \<open>A mutation may use the outside world (a random id), so it passes it on.\<close>

type_synonym 'w mutation = "request_spec \<Rightarrow> 'w \<Rightarrow> 'w \<times> request_spec result"

type_synonym 'w mutation_registry = "(string, 'w mutation) dict"

definition register_mutation :: "string \<Rightarrow> 'w mutation \<Rightarrow> 'w mutation_registry \<Rightarrow> 'w mutation_registry result" where
  "register_mutation name m reg =
     (let normalized = py_strip name in
      if normalized = [] then Inl (ValueError ''mutation name must not be empty'')
      else if map_of reg normalized \<noteq> None then Inl (ValueError (''mutation already registered: '' @ normalized))
      else Inr (AList.update normalized m reg))"

definition apply_mutation :: "'w mutation_registry \<Rightarrow> string \<Rightarrow> 'w mutation" where
  "apply_mutation reg name req w =
     (case map_of reg name of
        None \<Rightarrow> (w, Inl (ValueError (''unknown mutation: '' @ name)))
      | Some m \<Rightarrow> m req w)"

record 'p provider_registry =
  pr_providers :: "(string, 'p) dict"
  pr_default :: "string option"

definition register_provider :: "string \<Rightarrow> 'p \<Rightarrow> bool \<Rightarrow> 'p provider_registry \<Rightarrow> 'p provider_registry result" where
  "register_provider target_type p as_default reg =
     (if map_of (pr_providers reg) target_type \<noteq> None
      then Inl (ValueError (''Target provider already registered: '' @ target_type))
      else Inr \<lparr>pr_providers = AList.update target_type p (pr_providers reg),
                pr_default = (if as_default \<or> pr_default reg = None then Some target_type else pr_default reg)\<rparr>)"

definition get_provider :: "'p provider_registry \<Rightarrow> string \<Rightarrow> 'p result" where
  "get_provider reg target_type =
     (case map_of (pr_providers reg) target_type of
        Some p \<Rightarrow> Inr p
      | None \<Rightarrow>
          (let known = str_or (Some (py_join '', '' (sort (dict_keys (pr_providers reg))))) ''<none>''
           in Inl (OtherError ''MissingTargetProviderError''
                (''Target provider '' @ char_of (39 :: nat) # target_type @ char_of (39 :: nat) # '' is not registered. Known providers: '' @ known))))"

definition get_default_provider :: "'p provider_registry \<Rightarrow> 'p result" where
  "get_default_provider reg =
     (case pr_default reg of
        None \<Rightarrow> Inl (OtherError ''MissingTargetProviderError'' ''No default target provider is registered'')
      | Some t \<Rightarrow> get_provider reg t)"

section \<open>Kernel\<close>

fun FAULT_TO_SYSTEM :: "fault_kind \<Rightarrow> system_error_code" where
  "FAULT_TO_SYSTEM Fault_AUTH = AUTH_UNAUTHORIZED"
| "FAULT_TO_SYSTEM Fault_PERMISSION = AUTH_FORBIDDEN"
| "FAULT_TO_SYSTEM Fault_DATA = DATA_INVALID"
| "FAULT_TO_SYSTEM Fault_NOT_FOUND = DATA_INVALID"
| "FAULT_TO_SYSTEM Fault_CONFLICT = CONFLICT"
| "FAULT_TO_SYSTEM Fault_THROTTLE = INFRA_UNAVAILABLE"
| "FAULT_TO_SYSTEM Fault_TRANSIENT = INFRA_UNAVAILABLE"
| "FAULT_TO_SYSTEM Fault_SPEC = INTERNAL_ERROR"
| "FAULT_TO_SYSTEM Fault_UNKNOWN = INTERNAL_ERROR"

record retry_action =
  ra_directive :: retry_directive
  ra_mutation :: "string option"

record 'r kernel =
  k_spec :: target_spec
  k_fault_by_status :: "(int, fault_kind) dict"
  k_fault_by_range :: "(int \<times> int \<times> fault_kind) list"
  k_fault_by_code :: "(string, fault_kind) dict"
  k_operations :: "(string, operation_spec) dict"
  k_compiled :: "(string, 'r compiled_operation) dict"

definition fault_by_status :: "fault_rule list \<Rightarrow> (int, fault_kind) dict" where
  "fault_by_status rules =
     fold (\<lambda>r d. case fr_match_status r of None \<Rightarrow> d | Some s \<Rightarrow> AList.update s (fr_fault_kind r) d) rules []"

definition fault_by_range :: "fault_rule list \<Rightarrow> (int \<times> int \<times> fault_kind) list" where
  "fault_by_range rules =
     concat (map (\<lambda>r. case fr_match_range r of None \<Rightarrow> [] | Some (low, high) \<Rightarrow> [(low, high, fr_fault_kind r)]) rules)"

definition fault_by_code :: "fault_rule list \<Rightarrow> (string, fault_kind) dict" where
  "fault_by_code rules =
     fold (\<lambda>r d. case fr_match_code r of None \<Rightarrow> d | Some c \<Rightarrow> AList.update c (fr_fault_kind r) d) rules []"

fun compile_all ::
    "'r compiler_registry \<Rightarrow> (string \<times> operation_spec) list \<Rightarrow> 'r kernel \<Rightarrow> 'r kernel result" where
  "compile_all reg [] k = Inr k"
| "compile_all reg ((key, op) # rest) k =
     (if key \<noteq> os_alias op then Inl (ValueError (alias_mismatch key op))
      else bind_r (compile_operation reg op) (\<lambda>c.
        compile_all reg rest (k\<lparr>k_compiled := AList.update key c (k_compiled k),
                                k_operations := AList.update key op (k_operations k)\<rparr>)))"

definition make_kernel :: "target_spec \<Rightarrow> 'r compiler_registry \<Rightarrow> 'r kernel result" where
  "make_kernel spec reg =
     compile_all reg (ts_operations spec)
       \<lparr>k_spec = spec, k_fault_by_status = fault_by_status (ts_fault_rules spec),
        k_fault_by_range = fault_by_range (ts_fault_rules spec),
        k_fault_by_code = fault_by_code (ts_fault_rules spec), k_operations = [], k_compiled = []\<rparr>"

definition classify_fault :: "'r kernel \<Rightarrow> int option \<Rightarrow> string option \<Rightarrow> fault_kind" where
  "classify_fault k status_code error_code =
     (let by_status = (case status_code of
            None \<Rightarrow> Fault_UNKNOWN
          | Some s \<Rightarrow>
             (case map_of (k_fault_by_status k) s of
                Some kind \<Rightarrow> kind
              | None \<Rightarrow>
                 (case find (\<lambda>(low, high, kind). low \<le> s \<and> s \<le> high) (k_fault_by_range k) of
                    Some (low, high, kind) \<Rightarrow> kind
                  | None \<Rightarrow> Fault_UNKNOWN)))
      in case error_code of
           None \<Rightarrow> by_status
         | Some c \<Rightarrow>
             if c = [] then by_status
             else (case map_of (k_fault_by_code k) c of Some kind \<Rightarrow> kind | None \<Rightarrow> by_status))"

definition rule_applies :: "retry_rule \<Rightarrow> fault_kind \<Rightarrow> int option \<Rightarrow> string option \<Rightarrow> bool" where
  "rule_applies r kind status reason =
     (\<not> (ry_match_fault r \<noteq> None \<and> ry_match_fault r \<noteq> Some kind)
      \<and> \<not> (ry_match_status r \<noteq> None \<and> ry_match_status r \<noteq> status)
      \<and> \<not> (ry_match_reason r \<noteq> None \<and> ry_match_reason r \<noteq> reason))"

definition resolve_retry_action :: "'r kernel \<Rightarrow> fault_kind \<Rightarrow> int option \<Rightarrow> string option \<Rightarrow> retry_action" where
  "resolve_retry_action k kind status error_reason =
     (case find (\<lambda>r. rule_applies r kind status (map_option (\<lambda>s. py_lower (py_strip s)) error_reason))
             (ts_retry_rules (k_spec k)) of
        Some r \<Rightarrow> \<lparr>ra_directive = ry_directive r, ra_mutation = ry_mutation r\<rparr>
      | None \<Rightarrow> \<lparr>ra_directive = NO_RETRY, ra_mutation = None\<rparr>)"

definition retry_directive_of :: "'r kernel \<Rightarrow> fault_kind \<Rightarrow> retry_directive" where
  "retry_directive_of k kind = ra_directive (resolve_retry_action k kind None None)"

definition resolve_operation :: "'r kernel \<Rightarrow> string \<Rightarrow> operation_spec result" where
  "resolve_operation k alias =
     (case map_of (k_operations k) alias of
        None \<Rightarrow> Inl (ValueError (''unknown operation alias: '' @ alias))
      | Some op \<Rightarrow> Inr op)"

definition get_compiled_operation :: "'r kernel \<Rightarrow> string \<Rightarrow> (operation_spec \<times> 'r compiled_operation) result" where
  "get_compiled_operation k alias =
     bind_r (resolve_operation k alias) (\<lambda>op.
       case map_of (k_compiled k) alias of
         None \<Rightarrow> Inl (ValueError (''operation '' @ repr_string alias @ '' is not compiled''))
       | Some c \<Rightarrow> Inr (op, c))"

fun cap_text :: "target_capability \<Rightarrow> string" where
  "cap_text Cap_check = ''check''"
| "cap_text Cap_execute = ''execute''"
| "cap_text Cap_read_paged = ''read_paged''"

definition has_capability :: "'r kernel \<Rightarrow> target_capability \<Rightarrow> bool" where
  "has_capability k c = (c \<in> set (ts_capabilities (k_spec k)))"

definition require_capability :: "'r kernel \<Rightarrow> target_capability \<Rightarrow> unit result" where
  "require_capability k c =
     (if has_capability k c then Inr ()
      else Inl (ValueError (''target capability '' @ repr_string (cap_text c)
             @ '' is not supported by target_type='' @ repr_string (ts_target_type (k_spec k)))))"

definition redact_headers :: "'r kernel \<Rightarrow> (string, string) dict \<Rightarrow> (string, string) dict" where
  "redact_headers k headers =
     map (\<lambda>(h, v). (h, if py_lower h \<in> set (rd_forbidden_metadata_keys (ts_redaction (k_spec k))) then ''***'' else v)) headers"

definition safe_body :: "'r kernel \<Rightarrow> redaction_spec option \<Rightarrow> pyval \<Rightarrow> pyval" where
  "safe_body k redaction body =
     (let mode = rd_body_mode (case redaction of Some r \<Rightarrow> r | None \<Rightarrow> ts_redaction (k_spec k))
      in if mode = Body_none then PNone
         else (case body of
             PStr s \<Rightarrow> PStr (truncate_default s)
           | PDict d \<Rightarrow> if mode = Body_keys_only then str_list (dict_keys d) else mask_default body
           | _ \<Rightarrow> mask_default body))"

section \<open>Errors and results of one attempt\<close>

text \<open>A number of seconds is a float; the finite ones are their values.\<close>

datatype py_seconds = Seconds rat | Plus_Infinity | Minus_Infinity | Not_A_Number

record driver_error =
  de_message :: string
  de_code :: string
  de_answer_code :: pyval
  de_content_preview :: "string option"
  de_details :: "(string, pyval) dict"
  de_retry_after_s :: "py_seconds option"
  de_error_reason :: "string option"

record driver_response =
  dr_ok :: bool
  dr_answer_code :: pyval
  dr_payload :: pyval
  dr_content_preview :: "string option"
  dr_payload_format :: string
  dr_error_reason :: "string option"
  dr_retry_after_s :: "py_seconds option"

fun infer_response_payload_format :: "pyval \<Rightarrow> string" where
  "infer_response_payload_format PNone = ''none''"
| "infer_response_payload_format (PDict d) = ''json''"
| "infer_response_payload_format (PList l) = ''json''"
| "infer_response_payload_format (PStr s) = ''text''"
| "infer_response_payload_format _ = ''object''"

definition make_driver_response :: "driver_response \<Rightarrow> driver_response" where
  "make_driver_response r =
     (if dr_payload_format r = ''none'' \<and> dr_payload r \<noteq> PNone
      then r\<lparr>dr_payload_format := infer_response_payload_format (dr_payload r)\<rparr> else r)"

record normalized_fault =
  nf_fault_kind :: fault_kind
  nf_error_code :: system_error_code

definition from_status_or_code :: "'r kernel \<Rightarrow> int option \<Rightarrow> string option \<Rightarrow> normalized_fault" where
  "from_status_or_code k status error_code =
     (let fault = classify_fault k status error_code
      in \<lparr>nf_fault_kind = fault, nf_error_code = FAULT_TO_SYSTEM fault\<rparr>)"

definition from_status :: "'r kernel \<Rightarrow> int option \<Rightarrow> normalized_fault" where
  "from_status k status =
     (let fault = classify_fault k status None
      in \<lparr>nf_fault_kind = fault, nf_error_code = FAULT_TO_SYSTEM fault\<rparr>)"

definition from_error_code :: "'r kernel \<Rightarrow> string option \<Rightarrow> normalized_fault" where
  "from_error_code k error_code =
     (let fault = classify_fault k None error_code
      in \<lparr>nf_fault_kind = fault, nf_error_code = FAULT_TO_SYSTEM fault\<rparr>)"

text \<open>\<open>type(answer_code) is int\<close>: a bool is not an int here.\<close>

definition as_status_code :: "pyval \<Rightarrow> int option" where
  "as_status_code v = (case v of PInt i \<Rightarrow> Some i | _ \<Rightarrow> None)"

definition from_driver_error :: "'r kernel \<Rightarrow> driver_error \<Rightarrow> normalized_fault \<times> retry_action" where
  "from_driver_error k exc =
     (let status = as_status_code (de_answer_code exc);
          normalized = from_status_or_code k status (Some (de_code exc))
      in (normalized, resolve_retry_action k (nf_fault_kind normalized) status (de_error_reason exc)))"

definition from_driver_response :: "'r kernel \<Rightarrow> driver_response \<Rightarrow> normalized_fault \<times> retry_action" where
  "from_driver_response k resp =
     (let status = as_status_code (dr_answer_code resp);
          normalized = from_status k status
      in (normalized, resolve_retry_action k (nf_fault_kind normalized) status (dr_error_reason resp)))"

definition set_detail :: "string \<Rightarrow> pyval \<Rightarrow> (string, pyval) dict option \<Rightarrow> (string, pyval) dict option" where
  "set_detail key v details = Some (AList.update key v (case details of None \<Rightarrow> [] | Some d \<Rightarrow> d))"

definition mark_escalated :: "(string, pyval) dict option \<Rightarrow> (string, pyval) dict option" where
  "mark_escalated details = set_detail ''escalated'' (PBool True) details"

definition finish_details :: "string option \<Rightarrow> retry_action \<Rightarrow> (string, pyval) dict option \<Rightarrow> (string, pyval) dict option" where
  "finish_details reason action details =
     (let details' = (case reason of None \<Rightarrow> details | Some r \<Rightarrow> set_detail ''error_reason'' (PStr r) details)
      in if ra_directive action = ESCALATE then mark_escalated details' else details')"

definition build_exc_details :: "'r kernel \<Rightarrow> driver_error \<Rightarrow> retry_action \<Rightarrow> (string, pyval) dict option" where
  "build_exc_details k exc action =
     (let details = (if de_details exc = [] then None
                     else (case safe_body k None (PDict (de_details exc)) of PDict d \<Rightarrow> Some d | _ \<Rightarrow> None));
          preview = (case de_content_preview exc of
              Some (c # cs) \<Rightarrow> PStr (c # cs)
            | _ \<Rightarrow> (case details of None \<Rightarrow> PNone | Some d \<Rightarrow> dict_get_or d ''content_preview'' PNone));
          details' = (if preview = PNone then details
                      else set_detail ''content_preview'' (PStr (truncate_default (py_str preview))) details)
      in finish_details (de_error_reason exc) action details')"

text \<open>\<open>TargetSafeLogger.build_error_details\<close>.\<close>

definition build_error_details :: "'r kernel \<Rightarrow> pyval \<Rightarrow> string option \<Rightarrow> (string, pyval) dict option" where
  "build_error_details k payload content_preview =
     (let safe_preview = (case content_preview of Some (c # cs) \<Rightarrow> truncate_default (c # cs) | _ \<Rightarrow> []);
          details = (if safe_preview = [] then None else Some [(''content_preview'', PStr safe_preview)])
      in case payload of
           PDict d \<Rightarrow> set_detail ''response_payload'' (safe_body k None payload) details
         | PList l \<Rightarrow> set_detail ''response_payload'' (safe_body k None payload) details
         | _ \<Rightarrow> details)"

definition build_resp_details :: "'r kernel \<Rightarrow> driver_response \<Rightarrow> retry_action \<Rightarrow> (string, pyval) dict option" where
  "build_resp_details k resp action =
     finish_details (dr_error_reason resp) action (build_error_details k (dr_payload resp) (dr_content_preview resp))"

definition format_answer_failure :: "pyval \<Rightarrow> string" where
  "format_answer_failure answer_code =
     (if answer_code = PNone then ''target operation failed'' else ''target answer '' @ py_str answer_code)"

definition result_failure :: "system_error_code \<Rightarrow> string \<Rightarrow> execution_result" where
  "result_failure code message =
     \<lparr>er_ok = False, er_answer_code = PNone, er_response_payload = PNone, er_error_code = Some code,
      er_error_message = Some message, er_error_reason = None, er_error_details = None, er_response_format = ''none''\<rparr>"

definition execute_success :: "'r kernel \<Rightarrow> driver_response \<Rightarrow> execution_result" where
  "execute_success k resp =
     \<lparr>er_ok = True, er_answer_code = dr_answer_code resp, er_response_payload = safe_body k None (dr_payload resp),
      er_error_code = None, er_error_message = None, er_error_reason = None, er_error_details = None,
      er_response_format = dr_payload_format resp\<rparr>"

definition result_of_driver_error ::
    "driver_error \<Rightarrow> normalized_fault \<Rightarrow> (string, pyval) dict option \<Rightarrow> execution_result" where
  "result_of_driver_error exc normalized details =
     (result_failure (nf_error_code normalized) (truncate_default (de_message exc)))
       \<lparr>er_answer_code := de_answer_code exc, er_error_reason := de_error_reason exc, er_error_details := details\<rparr>"

definition result_of_response ::
    "driver_response \<Rightarrow> normalized_fault \<Rightarrow> (string, pyval) dict option \<Rightarrow> execution_result" where
  "result_of_response resp normalized details =
     (let safe_payload = (case details of None \<Rightarrow> PNone | Some d \<Rightarrow> dict_get_or d ''response_payload'' PNone)
      in (result_failure (nf_error_code normalized) (format_answer_failure (dr_answer_code resp)))
           \<lparr>er_answer_code := dr_answer_code resp, er_response_payload := safe_payload,
            er_response_format := (if safe_payload = PNone then ''none'' else dr_payload_format resp),
            er_error_reason := dr_error_reason resp, er_error_details := details\<rparr>)"

definition unexpected_failure :: "string \<Rightarrow> execution_result" where
  "unexpected_failure exc_text = result_failure INFRA_UNAVAILABLE (truncate_default exc_text)"

definition spec_error :: "string \<Rightarrow> execution_result" where
  "spec_error message = result_failure (FAULT_TO_SYSTEM Fault_SPEC) (truncate_default message)"

end
