(* ===== verification/Target_Gateway.thy ===== *)
theory Target_Gateway
  imports Target_Core
begin

text \<open>
  Model of \<open>connector/infra/target/core/gateway.py\<close>, the owner of the retry policy, with the budget
  of \<open>engines/retry_engine.py\<close> and the facade of \<open>runtime.py\<close>.

  The driver is an argument: one attempt is a function of the request, the payload and the outside
  world, which it returns changed; a paged read gives the pages it yields and how it ends.  The
  wait strategies of tenacity, random when jitter is on, are an argument too, and so is the
  measured latency.  A driver may yield pages for ever; its model yields those a consumer takes, and
  every number of them is a run of the model.  Log records have no effect.
\<close>

section \<open>Interfaces and state\<close>

datatype driver_outcome =
    Responded driver_response
  | Driver_Failed driver_error
  | Driver_Crashed string

text \<open>
  A paged read ends by itself, by an exception, or because its consumer asks for no more pages.
\<close>

datatype batch_end =
    Exhausted
  | Consumer_Stopped
  | Batch_Failed driver_error
  | Batch_Crashed string

record ('r, 'w) gateway =
  g_kernel :: "'r kernel"
  g_mutations :: "'w mutation_registry"
  g_execute :: "'r \<Rightarrow> pyval \<Rightarrow> 'w \<Rightarrow> 'w \<times> driver_outcome"
  g_iter_batches :: "'r \<Rightarrow> int \<Rightarrow> int option \<Rightarrow> 'w \<Rightarrow> 'w \<times> (int \<times> pyval) list \<times> batch_end"
  g_wait :: "int \<Rightarrow> 'w \<Rightarrow> 'w \<times> rat"
  g_latency_ms :: "'w \<Rightarrow> 'w \<Rightarrow> int"

record 'w gw_state =
  gs_requests_total :: nat
  gs_retries_total :: nat
  gs_failures_total :: nat
  gs_slept :: "py_seconds list"
  gs_world :: 'w

record target_page_result =
  tp_ok :: bool
  tp_page :: int
  tp_items :: "pyval option"
  tp_error_code :: "system_error_code option"
  tp_error_message :: "string option"
  tp_error_details :: "(string, pyval) dict option"

record target_check_result =
  tc_ok :: bool
  tc_latency_ms :: "int option"
  tc_fault_kind :: "fault_kind option"
  tc_error_code :: "system_error_code option"
  tc_error_message :: "string option"

definition count_failure :: "'w gw_state \<Rightarrow> 'w gw_state" where
  "count_failure st = st\<lparr>gs_failures_total := gs_failures_total st + 1\<rparr>"

section \<open>Retry engine\<close>

definition max_retries :: "('r, 'w) gateway \<Rightarrow> int" where
  "max_retries g = rc_max_attempts (ts_retry_config (k_spec (g_kernel g)))"

definition can_retry :: "('r, 'w) gateway \<Rightarrow> int \<Rightarrow> bool" where
  "can_retry g retries_used = (retries_used < max_retries g)"

text \<open>
  \<open>time.sleep\<close> counts in nanoseconds of 64 bits.  What is too long for them, or no number, raises.
\<close>

definition SLEEP_LIMIT :: rat where
  "SLEEP_LIMIT = 2 ^ 63 / 10 ^ 9"

definition sleep_overflow :: py_error where
  "sleep_overflow = OtherError ''OverflowError'' ''timestamp too large to convert to C _PyTime_t''"

definition time_sleep :: "py_seconds \<Rightarrow> unit result" where
  "time_sleep delay =
     (case delay of
        Seconds d \<Rightarrow> if SLEEP_LIMIT \<le> d then Inl sleep_overflow
                     else if d < 0 then Inl (ValueError ''sleep length must be non-negative'') else Inr ()
      | Not_A_Number \<Rightarrow> Inl (ValueError ''Invalid value NaN (not a number)'')
      | _ \<Rightarrow> Inl sleep_overflow)"

definition sleep_fn :: "py_seconds \<Rightarrow> 'w gw_state \<Rightarrow> 'w gw_state \<times> unit result" where
  "sleep_fn delay st =
     (case time_sleep delay of
        Inl e \<Rightarrow> (st, Inl e)
      | Inr _ \<Rightarrow> (st\<lparr>gs_slept := gs_slept st @ [delay]\<rparr>, Inr ()))"

definition sleep_before_retry :: "('r, 'w) gateway \<Rightarrow> int \<Rightarrow> 'w gw_state \<Rightarrow> 'w gw_state \<times> unit result" where
  "sleep_before_retry g retries_used st =
     (let (w, delay) = g_wait g (max 1 retries_used) (gs_world st); st1 = st\<lparr>gs_world := w\<rparr>
      in if 0 < delay then sleep_fn (Seconds delay) st1 else (st1, Inr ()))"

text \<open>\<open>max(0.0, x)\<close> keeps 0 unless the other is greater, which NaN is not.\<close>

definition max_zero :: "py_seconds \<Rightarrow> py_seconds" where
  "max_zero delay = (case delay of Seconds d \<Rightarrow> Seconds (max 0 d) | Plus_Infinity \<Rightarrow> Plus_Infinity | _ \<Rightarrow> Seconds 0)"

definition sleep_exact :: "py_seconds option \<Rightarrow> 'w gw_state \<Rightarrow> 'w gw_state \<times> unit result" where
  "sleep_exact delay_s st =
     (case delay_s of
        None \<Rightarrow> (st, Inr ())
      | Some d \<Rightarrow> if max_zero d = Seconds 0 then (st, Inr ()) else sleep_fn (max_zero d) st)"

definition retry_delay ::
    "('r, 'w) gateway \<Rightarrow> retry_directive \<Rightarrow> py_seconds option \<Rightarrow> int \<Rightarrow> 'w gw_state \<Rightarrow> 'w gw_state \<times> unit result" where
  "retry_delay g directive retry_after_s retries_used st =
     (if directive = RETRY_AFTER \<and> retry_after_s \<noteq> None then sleep_exact retry_after_s st
      else sleep_before_retry g retries_used st)"

text \<open>What the retry step decides: stop, go on with a request, or the exception of the mutation or the sleep.\<close>

datatype retry_decision = Give_Up | Retry int request_spec | Retry_Raised py_error

definition apply_execute_retry ::
    "('r, 'w) gateway \<Rightarrow> retry_action \<Rightarrow> int \<Rightarrow> request_spec \<Rightarrow> py_seconds option \<Rightarrow> 'w gw_state
     \<Rightarrow> 'w gw_state \<times> retry_decision" where
  "apply_execute_retry g action retries_used current_spec retry_after_s st =
     (if ra_directive action \<notin> {RETRY_BACKOFF, RETRY_AFTER} then (st, Give_Up)
      else if \<not> can_retry g retries_used then (st, Give_Up)
      else (let (st1, mutated) =
              (case ra_mutation action of
                 None \<Rightarrow> (st, Inr current_spec)
               | Some name \<Rightarrow>
                  (let (w, r) = apply_mutation (g_mutations g) name current_spec (gs_world st)
                   in (st\<lparr>gs_world := w\<rparr>, r)))
            in case mutated of
                 Inl e \<Rightarrow> (st1, Retry_Raised e)
               | Inr spec' \<Rightarrow>
                  (case retry_delay g (ra_directive action) retry_after_s (retries_used + 1)
                          (st1\<lparr>gs_retries_total := gs_retries_total st1 + 1\<rparr>) of
                     (st2, Inl e) \<Rightarrow> (st2, Retry_Raised e)
                   | (st2, Inr _) \<Rightarrow> (st2, Retry (retries_used + 1) spec'))))"

definition apply_read_retry ::
    "('r, 'w) gateway \<Rightarrow> retry_action \<Rightarrow> int \<Rightarrow> py_seconds option \<Rightarrow> 'w gw_state \<Rightarrow> 'w gw_state \<times> int option result" where
  "apply_read_retry g action retries_used retry_after_s st =
     (if ra_directive action \<notin> {RETRY_BACKOFF, RETRY_AFTER} then (st, Inr None)
      else if \<not> can_retry g retries_used then (st, Inr None)
      else (case retry_delay g (ra_directive action) retry_after_s (retries_used + 1)
                   (st\<lparr>gs_retries_total := gs_retries_total st + 1\<rparr>) of
              (st1, Inl e) \<Rightarrow> (st1, Inl e)
            | (st1, Inr _) \<Rightarrow> (st1, Inr (Some (retries_used + 1)))))"

lemma apply_execute_retry_Retry:
  "apply_execute_retry g action used spec after st = (st', Retry used' spec') \<Longrightarrow> used' = used + 1 \<and> used < max_retries g"
  by (auto simp: apply_execute_retry_def can_retry_def Let_def split: if_splits prod.splits sum.splits)

lemma apply_read_retry_Some:
  "apply_read_retry g action used after st = (st', Inr (Some used')) \<Longrightarrow> used' = used + 1 \<and> used < max_retries g"
  by (auto simp: apply_read_retry_def can_retry_def split: if_splits prod.splits sum.splits)

section \<open>Execution of a request\<close>

text \<open>The retry action, the delay and the result an unsuccessful attempt leads to.\<close>

definition failed_response :: "'r kernel \<Rightarrow> driver_response \<Rightarrow> retry_action \<times> py_seconds option \<times> execution_result" where
  "failed_response k resp =
     (let (normalized, action) = from_driver_response k resp
      in (action, dr_retry_after_s resp, result_of_response resp normalized (build_resp_details k resp action)))"

definition failed_exception :: "'r kernel \<Rightarrow> driver_error \<Rightarrow> retry_action \<times> py_seconds option \<times> execution_result" where
  "failed_exception k exc =
     (let (normalized, action) = from_driver_error k exc
      in (action, de_retry_after_s exc, result_of_driver_error exc normalized (build_exc_details k exc action)))"

datatype attempt = Finished execution_result | Fatal execution_result | Failed retry_action "py_seconds option" execution_result

definition judge_attempt :: "'r kernel \<Rightarrow> driver_outcome \<Rightarrow> attempt" where
  "judge_attempt k outcome =
     (case outcome of
        Driver_Crashed m \<Rightarrow> Fatal (unexpected_failure m)
      | Driver_Failed exc \<Rightarrow> (let (action, after, res) = failed_exception k exc in Failed action after res)
      | Responded resp \<Rightarrow>
          if dr_ok resp then Finished (execute_success k resp)
          else (let (action, after, res) = failed_response k resp in Failed action after res))"

text \<open>What a request that cannot be built ends in.\<close>

definition unsent :: "py_error \<Rightarrow> execution_result" where
  "unsent e = (if is_value_error e then spec_error (exn_text e) else unexpected_failure (exn_text e))"

definition build_request :: "('r, 'w) gateway \<Rightarrow> request_spec \<Rightarrow> 'r result" where
  "build_request g spec =
     bind_r (get_compiled_operation (g_kernel g) (rs_operation_alias spec)) (\<lambda>(_, compiled).
       compiled (rs_operation_alias spec) (rs_operation_params spec) None)"

definition send_request :: "('r, 'w) gateway \<Rightarrow> 'r \<Rightarrow> pyval \<Rightarrow> 'w gw_state \<Rightarrow> 'w gw_state \<times> driver_outcome" where
  "send_request g req payload st =
     (let (w, outcome) = g_execute g req payload (gs_world st)
      in (st\<lparr>gs_requests_total := gs_requests_total st + 1, gs_world := w\<rparr>, outcome))"

function (sequential) execute_loop ::
    "('r, 'w) gateway \<Rightarrow> int \<Rightarrow> request_spec \<Rightarrow> 'w gw_state \<Rightarrow> 'w gw_state \<times> execution_result result" where
  "execute_loop g retries_used spec st =
     (case build_request g spec of
        Inl e \<Rightarrow> (count_failure st, Inr (unsent e))
      | Inr req \<Rightarrow>
         (case send_request g req (rs_payload spec) st of
            (st1, outcome) \<Rightarrow>
              (case judge_attempt (g_kernel g) outcome of
                 Fatal res \<Rightarrow> (count_failure st1, Inr res)
               | Finished res \<Rightarrow> (st1, Inr res)
               | Failed action after res \<Rightarrow>
                  (case apply_execute_retry g action retries_used spec after st1 of
                     (st2, Retry_Raised e) \<Rightarrow>
                        if is_value_error e then (count_failure st2, Inr (spec_error (exn_text e))) else (st2, Inl e)
                   | (st2, Retry used' spec') \<Rightarrow> execute_loop g used' spec' st2
                   | (st2, Give_Up) \<Rightarrow> (count_failure st2, Inr res)))))"
  by pat_completeness auto
termination
  by (relation "measure (\<lambda>(g, used, spec, st). nat (max_retries g - used))")
    (auto dest!: apply_execute_retry_Retry [OF sym])

declare execute_loop.simps [simp del]

definition gateway_execute ::
    "('r, 'w) gateway \<Rightarrow> request_spec \<Rightarrow> 'w gw_state \<Rightarrow> 'w gw_state \<times> execution_result result" where
  "gateway_execute g spec st =
     (case require_capability (g_kernel g) Cap_execute of
        Inl e \<Rightarrow> (count_failure st, Inr (spec_error (exn_text e)))
      | Inr _ \<Rightarrow> execute_loop g 0 spec st)"

section \<open>Paged reading\<close>

definition ok_page :: "int \<Rightarrow> pyval \<Rightarrow> target_page_result" where
  "ok_page page items = \<lparr>tp_ok = True, tp_page = page, tp_items = Some (mask_default items),
     tp_error_code = None, tp_error_message = None, tp_error_details = None\<rparr>"

definition fail_page :: "int \<Rightarrow> system_error_code \<Rightarrow> string \<Rightarrow> (string, pyval) dict option \<Rightarrow> target_page_result" where
  "fail_page last_page code message details = \<lparr>tp_ok = False, tp_page = last_page, tp_items = None,
     tp_error_code = Some code, tp_error_message = Some message, tp_error_details = details\<rparr>"

text \<open>The number of the page yielded last, 0 before the first.\<close>

definition last_page_of :: "(int \<times> pyval) list \<Rightarrow> int" where
  "last_page_of pages = (if pages = [] then 0 else fst (List.last pages))"

lemma last_page_of_Nil [simp]: "last_page_of [] = 0"
  by (simp add: last_page_of_def)

definition read_batches ::
    "('r, 'w) gateway \<Rightarrow> 'r \<Rightarrow> int \<Rightarrow> int option \<Rightarrow> 'w gw_state \<Rightarrow> 'w gw_state \<times> (int \<times> pyval) list \<times> batch_end" where
  "read_batches g req page_size max_pages st =
     (let (w, pages, fin) = g_iter_batches g req page_size max_pages (gs_world st)
      in (st\<lparr>gs_requests_total := gs_requests_total st + length pages, gs_world := w\<rparr>, pages, fin))"

text \<open>
  The pages the generator yields, and the exception it ends with, if any: a sleep that raises does so inside the
  handler of the driver's error.
\<close>

function (sequential) read_loop ::
    "('r, 'w) gateway \<Rightarrow> int \<Rightarrow> 'r \<Rightarrow> int \<Rightarrow> int option \<Rightarrow> 'w gw_state
     \<Rightarrow> 'w gw_state \<times> target_page_result list \<times> py_error option" where
  "read_loop g retries_used req page_size max_pages st =
     (case read_batches g req page_size max_pages st of
        (st1, pages, Exhausted) \<Rightarrow> (st1, map (\<lambda>(p, items). ok_page p items) pages, None)
      | (st1, pages, Consumer_Stopped) \<Rightarrow> (st1, map (\<lambda>(p, items). ok_page p items) pages, None)
      | (st1, pages, Batch_Crashed m) \<Rightarrow>
          (count_failure st1, map (\<lambda>(p, items). ok_page p items) pages
             @ [fail_page (last_page_of pages) INFRA_UNAVAILABLE (truncate_default m) None], None)
      | (st1, pages, Batch_Failed exc) \<Rightarrow>
          (case from_driver_error (g_kernel g) exc of
             (normalized, action) \<Rightarrow>
               (case (if last_page_of pages = 0
                      then apply_read_retry g action retries_used (de_retry_after_s exc) st1 else (st1, Inr None)) of
                  (st2, Inl e) \<Rightarrow> (st2, map (\<lambda>(p, items). ok_page p items) pages, Some e)
                | (st2, Inr (Some used')) \<Rightarrow>
                    (case read_loop g used' req page_size max_pages st2 of
                       (st3, rest, raised) \<Rightarrow> (st3, map (\<lambda>(p, items). ok_page p items) pages @ rest, raised))
                | (st2, Inr None) \<Rightarrow>
                    (count_failure st2, map (\<lambda>(p, items). ok_page p items) pages
                       @ [fail_page (last_page_of pages) (nf_error_code normalized) (truncate_default (de_message exc))
                            (build_exc_details (g_kernel g) exc action)], None))))"
  by pat_completeness auto
termination
  by (relation "measure (\<lambda>(g, used, req, n, m, st). nat (max_retries g - used))")
    (auto dest!: apply_read_retry_Some [OF sym] split: if_splits)

declare read_loop.simps [simp del]

definition iter_pages ::
    "('r, 'w) gateway \<Rightarrow> string \<Rightarrow> int \<Rightarrow> int option \<Rightarrow> (string, pyval) dict option \<Rightarrow> 'w gw_state
     \<Rightarrow> 'w gw_state \<times> target_page_result list \<times> py_error option" where
  "iter_pages g operation_alias page_size max_pages params st =
     (case bind_r (require_capability (g_kernel g) Cap_read_paged) (\<lambda>_.
             bind_r (get_compiled_operation (g_kernel g) operation_alias) (\<lambda>(_, compiled).
               compiled operation_alias None params)) of
        Inl e \<Rightarrow>
          (count_failure st,
           [fail_page 0 (if is_value_error e then FAULT_TO_SYSTEM Fault_SPEC else INFRA_UNAVAILABLE)
              (truncate_default (exn_text e)) None], None)
      | Inr req \<Rightarrow> read_loop g 0 req page_size max_pages st)"

section \<open>Health check, statistics and the facade\<close>

definition check_failure :: "int option \<Rightarrow> fault_kind \<Rightarrow> system_error_code \<Rightarrow> string \<Rightarrow> target_check_result" where
  "check_failure latency kind code message =
     \<lparr>tc_ok = False, tc_latency_ms = latency, tc_fault_kind = Some kind, tc_error_code = Some code,
      tc_error_message = Some message\<rparr>"

text \<open>Only a \<open>ValueError\<close> of the preparation is caught.\<close>

definition health_check :: "('r, 'w) gateway \<Rightarrow> 'w gw_state \<Rightarrow> 'w gw_state \<times> target_check_result result" where
  "health_check g st =
     (let k = g_kernel g; alias = ts_health_alias (k_spec k) in
      case bind_r (require_capability k Cap_check) (\<lambda>_.
             bind_r (get_compiled_operation k alias) (\<lambda>(_, compiled). compiled alias None None)) of
        Inl e \<Rightarrow>
          (st, if is_value_error e
               then Inr (check_failure None Fault_SPEC (FAULT_TO_SYSTEM Fault_SPEC) (truncate_default (exn_text e)))
               else Inl e)
      | Inr req \<Rightarrow>
         (let (w, outcome) = g_execute g req PNone (gs_world st);
              latency = Some (g_latency_ms g (gs_world st) w)
          in (st\<lparr>gs_world := w\<rparr>,
              Inr (case outcome of
                 Driver_Failed exc \<Rightarrow>
                   (let (normalized, action) = from_driver_error k exc
                    in check_failure latency (nf_fault_kind normalized) (nf_error_code normalized) (truncate_default (de_message exc)))
               | Driver_Crashed m \<Rightarrow> check_failure latency Fault_TRANSIENT INFRA_UNAVAILABLE (truncate_default m)
               | Responded resp \<Rightarrow>
                   if dr_ok resp
                   then \<lparr>tc_ok = True, tc_latency_ms = latency, tc_fault_kind = None, tc_error_code = None, tc_error_message = None\<rparr>
                   else (let (normalized, action) = from_driver_response k resp
                         in check_failure latency (nf_fault_kind normalized) (nf_error_code normalized)
                              (format_answer_failure (dr_answer_code resp)))))))"

definition get_stats :: "'w gw_state \<Rightarrow> nat \<times> nat \<times> nat" where
  "get_stats st = (gs_requests_total st, gs_retries_total st, gs_failures_total st)"

definition reset_stats :: "'w gw_state \<Rightarrow> 'w gw_state" where
  "reset_stats st = st\<lparr>gs_requests_total := 0, gs_retries_total := 0, gs_failures_total := 0\<rparr>"

section \<open>Counting attempts\<close>

lemma sleep_fn_counts:
  "sleep_fn d st = (st', r) \<Longrightarrow> gs_requests_total st' = gs_requests_total st \<and> gs_retries_total st' = gs_retries_total st
     \<and> gs_failures_total st' = gs_failures_total st \<and> gs_world st' = gs_world st"
  by (auto simp: sleep_fn_def split: sum.splits)

lemma time_sleep_bounded: "0 < d \<Longrightarrow> d < SLEEP_LIMIT \<Longrightarrow> time_sleep (Seconds d) = Inr ()"
  by (simp add: time_sleep_def)

lemma retry_delay_counts:
  "retry_delay g d a n st = (st', r) \<Longrightarrow> gs_requests_total st' = gs_requests_total st
     \<and> gs_retries_total st' = gs_retries_total st \<and> gs_failures_total st' = gs_failures_total st"
  by (auto simp: retry_delay_def sleep_exact_def sleep_before_retry_def Let_def dest!: sleep_fn_counts
      split: prod.splits option.splits if_splits)

text \<open>The sleep of a retry is positive, so it raises only when it is too long.\<close>

lemma sleep_exact_raises: "sleep_exact d st = (st', Inl e) \<Longrightarrow> e = sleep_overflow"
  by (auto simp: sleep_exact_def sleep_fn_def time_sleep_def max_zero_def max_def split: option.splits py_seconds.splits if_splits)

lemma retry_delay_raises: "retry_delay g d a n st = (st', Inl e) \<Longrightarrow> e = sleep_overflow"
  by (auto simp: retry_delay_def sleep_before_retry_def sleep_fn_def time_sleep_def Let_def dest: sleep_exact_raises
      split: if_splits prod.splits)

lemma retry_delay_raised:
  "retry_delay g d a n st = (st', Inl e) \<Longrightarrow> e = sleep_overflow \<and> gs_requests_total st' = gs_requests_total st
     \<and> gs_retries_total st' = gs_retries_total st \<and> gs_failures_total st' = gs_failures_total st"
  using retry_delay_counts retry_delay_raises by blast

lemma retry_delay_done:
  "retry_delay g d a n st = (st', Inr u) \<Longrightarrow> gs_requests_total st' = gs_requests_total st
     \<and> gs_retries_total st' = gs_retries_total st \<and> gs_failures_total st' = gs_failures_total st"
  by (rule retry_delay_counts)

lemma count_failure_counts [simp]:
  "gs_requests_total (count_failure st) = gs_requests_total st"
  "gs_retries_total (count_failure st) = gs_retries_total st"
  "gs_failures_total (count_failure st) = gs_failures_total st + 1"
  by (simp_all add: count_failure_def)

lemma send_request_counts:
  "send_request g req p st = (st1, oc) \<Longrightarrow>
     gs_requests_total st1 = gs_requests_total st + 1 \<and> gs_retries_total st1 = gs_retries_total st
     \<and> gs_failures_total st1 = gs_failures_total st"
  by (auto simp: send_request_def split: prod.splits)

lemma apply_execute_retry_counts:
  "apply_execute_retry g action used spec after st = (st2, dec) \<Longrightarrow>
     gs_requests_total st2 = gs_requests_total st \<and> gs_failures_total st2 = gs_failures_total st
     \<and> (gs_retries_total st2 = gs_retries_total st + (case dec of Retry u s \<Rightarrow> 1 | _ \<Rightarrow> 0)
        \<or> dec = Retry_Raised sleep_overflow \<and> used < max_retries g \<and> gs_retries_total st2 = gs_retries_total st + 1)"
  by (auto simp: apply_execute_retry_def can_retry_def Let_def dest!: retry_delay_raised retry_delay_done
      split: if_splits prod.splits sum.splits option.splits)

lemma judge_attempt_ok:
  "judge_attempt k oc = Finished res \<Longrightarrow> er_ok res"
  "judge_attempt k oc = Fatal res \<Longrightarrow> \<not> er_ok res"
  "judge_attempt k oc = Failed action after res \<Longrightarrow> \<not> er_ok res"
  by (auto simp: judge_attempt_def execute_success_def unexpected_failure_def result_failure_def failed_response_def
      failed_exception_def result_of_response_def result_of_driver_error_def Let_def
      split: driver_outcome.splits if_splits prod.splits)

lemma spec_error_not_ok [simp]: "\<not> er_ok (spec_error m)" "\<not> er_ok (unexpected_failure m)"
  by (simp_all add: spec_error_def unexpected_failure_def result_failure_def)

lemma unsent_not_ok [simp]: "\<not> er_ok (unsent e)"
  by (simp add: unsent_def)

text \<open>The ends of an execution whose last retry was counted and not sent.\<close>

definition ends_unsent :: "('r, 'w) gateway \<Rightarrow> execution_result result \<Rightarrow> bool" where
  "ends_unsent g r \<longleftrightarrow> r = Inl sleep_overflow \<or> (\<exists>spec e. build_request g spec = Inl e \<and> r = Inr (unsent e))"

lemma sleep_overflow_class [simp]: "\<not> is_value_error sleep_overflow"
  by (simp add: sleep_overflow_def)

definition failed_count :: "execution_result result \<Rightarrow> nat" where
  "failed_count r = (case r of Inl e \<Rightarrow> 0 | Inr res \<Rightarrow> if er_ok res then 0 else 1)"

lemma execute_loop_counts:
  assumes "execute_loop g used spec st = (st', r)"
  shows "gs_retries_total st \<le> gs_retries_total st' \<and> gs_retries_total st' \<le> gs_retries_total st + nat (max_retries g - used)
    \<and> gs_requests_total st \<le> gs_requests_total st'
    \<and> (gs_requests_total st' + gs_retries_total st = gs_requests_total st + gs_retries_total st' + 1
       \<or> gs_requests_total st' + gs_retries_total st = gs_requests_total st + gs_retries_total st' \<and> ends_unsent g r)
    \<and> gs_failures_total st' = gs_failures_total st + failed_count r"
  using assms
proof (induction g used spec st arbitrary: st' r rule: execute_loop.induct)
  case (1 g used spec st)
  show ?case
  proof (cases "build_request g spec")
    case (Inl e)
    then show ?thesis
      using "1.prems" by (auto simp: execute_loop.simps [of g used spec st] failed_count_def ends_unsent_def)
  next
    case (Inr req)
    obtain st1 oc where s: "send_request g req (rs_payload spec) st = (st1, oc)" by fastforce
    show ?thesis
    proof (cases "judge_attempt (g_kernel g) oc")
      case (Finished res)
      then show ?thesis
        using "1.prems" Inr s send_request_counts [OF s] judge_attempt_ok(1) [OF Finished]
        by (auto simp: execute_loop.simps [of g used spec st] failed_count_def)
    next
      case (Fatal res)
      then show ?thesis
        using "1.prems" Inr s send_request_counts [OF s] judge_attempt_ok(2) [OF Fatal]
        by (auto simp: execute_loop.simps [of g used spec st] failed_count_def)
    next
      case (Failed action after res)
      obtain st2 dec where a: "apply_execute_retry g action used spec after st1 = (st2, dec)" by fastforce
      note c = send_request_counts [OF s] apply_execute_retry_counts [OF a] judge_attempt_ok(3) [OF Failed]
      show ?thesis
      proof (cases dec)
        case (Retry used' spec')
        have u: "used' = used + 1" "used < max_retries g"
          using apply_execute_retry_Retry a Retry by blast+
        have "execute_loop g used' spec' st2 = (st', r)"
          using "1.prems" Inr s Failed a Retry by (simp add: execute_loop.simps [of g used spec st])
        from "1.IH" [OF Inr s [symmetric] Failed a [symmetric] Retry this] c u show ?thesis
          by (simp add: Retry) linarith
      next
        case Give_Up
        then show ?thesis
          using "1.prems" Inr s Failed a c by (auto simp: execute_loop.simps [of g used spec st] failed_count_def)
      next
        case (Retry_Raised e)
        then have "if is_value_error e then st' = count_failure st2 \<and> r = Inr (spec_error (exn_text e)) else st' = st2 \<and> r = Inl e"
          using "1.prems" Inr s Failed a by (auto simp: execute_loop.simps [of g used spec st])
        then show ?thesis
          using c Retry_Raised sleep_overflow_class by (cases "is_value_error e") (auto simp: failed_count_def ends_unsent_def)
      qed
    qed
  qed
qed

text \<open>The counter of requests against the calls of the driver, as a world that counts them sees them.\<close>

lemma execute_loop_calls:
  assumes counting: "\<And>req p w. calls (fst (g_execute g req p w)) = Suc (calls w)" "\<And>n w. calls (fst (g_wait g n w)) = calls w"
    "\<And>name m req w. map_of (g_mutations g) name = Some m \<Longrightarrow> calls (fst (m req w)) = calls w"
  shows "execute_loop g used spec st = (st', r) \<Longrightarrow>
    calls (gs_world st') + gs_requests_total st = calls (gs_world st) + gs_requests_total st'"
proof (induction "nat (max_retries g - used)" arbitrary: used spec st rule: less_induct)
  case less
  have delay: "retry_delay g d a n s = (s', x) \<Longrightarrow> calls (gs_world s') = calls (gs_world s)" for d a n s s' x
    using counting(2)
    by (auto simp: retry_delay_def sleep_exact_def sleep_before_retry_def Let_def dest!: sleep_fn_counts
        split: prod.splits option.splits if_splits) (metis fst_conv)+
  have mut: "apply_mutation (g_mutations g) name s w = (w', x) \<Longrightarrow> calls w' = calls w" for name s w w' x
    using counting(3) by (auto simp: apply_mutation_def split: option.splits) (metis fst_conv)
  have retry: "apply_execute_retry g action used spec' after s = (s', dec) \<Longrightarrow> calls (gs_world s') = calls (gs_world s)" for action spec' after s s' dec
    by (auto simp: apply_execute_retry_def Let_def dest!: delay mut split: if_splits prod.splits sum.splits option.splits)
  show ?case
  proof (cases "build_request g spec")
    case (Inl e)
    then show ?thesis using less.prems by (auto simp: execute_loop.simps [of g used spec st] count_failure_def)
  next
    case (Inr req)
    obtain st1 oc where s: "send_request g req (rs_payload spec) st = (st1, oc)" by fastforce
    have sent: "calls (gs_world st1) = Suc (calls (gs_world st))" "gs_requests_total st1 = gs_requests_total st + 1"
      using s counting(1) [of req "rs_payload spec" "gs_world st"] by (auto simp: send_request_def split: prod.splits)
    show ?thesis
    proof (cases "judge_attempt (g_kernel g) oc")
      case (Failed action after res)
      obtain st2 dec where a: "apply_execute_retry g action used spec after st1 = (st2, dec)" by fastforce
      note c = retry [OF a] apply_execute_retry_counts [OF a]
      show ?thesis
      proof (cases dec)
        case (Retry used' spec')
        have "nat (max_retries g - used') < nat (max_retries g - used)"
          using apply_execute_retry_Retry a Retry by fastforce
        moreover have "execute_loop g used' spec' st2 = (st', r)"
          using less.prems Inr s Failed a Retry by (simp add: execute_loop.simps [of g used spec st])
        ultimately have "calls (gs_world st') + gs_requests_total st2 = calls (gs_world st2) + gs_requests_total st'"
          by (rule less.hyps)
        with c sent show ?thesis by simp
      qed (use less.prems Inr s Failed a c sent in
          \<open>auto simp: execute_loop.simps [of g used spec st] count_failure_def split: if_splits\<close>)
    qed (use less.prems Inr s sent in \<open>auto simp: execute_loop.simps [of g used spec st] count_failure_def\<close>)
  qed
qed

text \<open>Registered mutations whose only exceptions are of class \<open>ValueError\<close>.\<close>

definition quiet_mutations :: "'w mutation_registry \<Rightarrow> bool" where
  "quiet_mutations reg \<longleftrightarrow> (\<forall>name m req w e. map_of reg name = Some m \<longrightarrow> snd (m req w) = Inl e \<longrightarrow> is_value_error e)"

lemma apply_execute_retry_quiet:
  assumes "quiet_mutations (g_mutations g)" "apply_execute_retry g action used spec after st = (st2, Retry_Raised e)"
  shows "is_value_error e \<or> e = sleep_overflow"
proof (cases "e = sleep_overflow")
  case False
  then obtain name w where m: "apply_mutation (g_mutations g) name spec (gs_world st) = (w, Inl e)"
    using assms(2)
    by (auto simp: apply_execute_retry_def Let_def dest: retry_delay_raises split: if_splits prod.splits sum.splits option.splits)
  show ?thesis
  proof (cases "map_of (g_mutations g) name")
    case None
    then show ?thesis using m by (auto simp: apply_mutation_def)
  next
    case (Some mut)
    then have "snd (mut spec (gs_world st)) = Inl e" using m by (simp add: apply_mutation_def)
    with assms(1) Some show ?thesis unfolding quiet_mutations_def by blast
  qed
qed simp

lemma apply_mutation_quiet:
  "quiet_mutations reg \<Longrightarrow> apply_mutation reg name spec w = (w', Inl e) \<Longrightarrow> is_value_error e"
  by (auto simp: apply_mutation_def quiet_mutations_def split: option.splits) (metis snd_conv)

lemma apply_execute_retry_overflow:
  assumes "quiet_mutations (g_mutations g)" "apply_execute_retry g action used spec after st = (st2, Retry_Raised sleep_overflow)"
  shows "gs_retries_total st2 = gs_retries_total st + 1"
  using assms(2)
  by (auto simp: apply_execute_retry_def Let_def dest!: retry_delay_raised apply_mutation_quiet [OF assms(1)]
      split: if_splits prod.splits sum.splits option.splits)

lemma apply_execute_retry_short:
  assumes "quiet_mutations (g_mutations g)" "\<And>n s. \<not> isl (snd (retry_delay g (ra_directive action) after n s))"
    "apply_execute_retry g action used spec after st = (st2, Retry_Raised e)"
  shows "is_value_error e"
proof -
  have "retry_delay g (ra_directive action) after n s \<noteq> (s', Inl e)" for n s s' using assms(2) [of n s] by auto
  then show ?thesis
    using assms(3)
    by (auto simp: apply_execute_retry_def Let_def dest: apply_mutation_quiet [OF assms(1)]
        split: if_splits prod.splits sum.splits option.splits)
qed

lemma execute_loop_quiet:
  assumes "quiet_mutations (g_mutations g)" "execute_loop g used spec st = (st', Inl e)"
  shows "e = sleep_overflow"
  using assms
proof (induction g used spec st arbitrary: st' rule: execute_loop.induct)
  case (1 g used spec st)
  show ?case
  proof (cases "build_request g spec")
    case (Inl e)
    then show ?thesis
      using "1.prems" by (auto simp: execute_loop.simps [of g used spec st])
  next
    case (Inr req)
    obtain st1 oc where s: "send_request g req (rs_payload spec) st = (st1, oc)" by fastforce
    show ?thesis
    proof (cases "judge_attempt (g_kernel g) oc")
      case (Failed action after res)
      obtain st2 dec where a: "apply_execute_retry g action used spec after st1 = (st2, dec)" by fastforce
      show ?thesis
      proof (cases dec)
        case (Retry used' spec')
        have "execute_loop g used' spec' st2 = (st', Inl e)"
          using "1.prems" Inr s Failed a Retry by (simp add: execute_loop.simps [of g used spec st])
        from "1.IH" [OF Inr s [symmetric] Failed a [symmetric] Retry "1.prems"(1) this] show ?thesis .
      next
        case (Retry_Raised e')
        then show ?thesis
          using apply_execute_retry_quiet [OF "1.prems"(1) a [unfolded Retry_Raised]] "1.prems" Inr s Failed a
          by (auto simp: execute_loop.simps [of g used spec st] split: if_splits)
      qed (use "1.prems" Inr s Failed a in \<open>auto simp: execute_loop.simps [of g used spec st]\<close>)
    qed (use "1.prems" Inr s in \<open>auto simp: execute_loop.simps [of g used spec st]\<close>)
  qed
qed

text \<open>An exception of the sleep comes after a counted retry, and not at all while the waits are short.\<close>

lemma execute_overflow_counted:
  assumes "execute_loop g used spec st = (st', Inl sleep_overflow)" "quiet_mutations (g_mutations g)"
  shows "gs_retries_total st < gs_retries_total st'"
  using assms
proof (induction g used spec st arbitrary: st' rule: execute_loop.induct)
  case (1 g used spec st)
  obtain req where Inr: "build_request g spec = Inr req"
    using "1.prems"(1) by (cases "build_request g spec") (auto simp: execute_loop.simps [of g used spec st])
  obtain st1 oc where s: "send_request g req (rs_payload spec) st = (st1, oc)" by fastforce
  obtain action after res where Failed: "judge_attempt (g_kernel g) oc = Failed action after res"
    using "1.prems"(1) Inr s by (cases "judge_attempt (g_kernel g) oc") (auto simp: execute_loop.simps [of g used spec st])
  obtain st2 dec where a: "apply_execute_retry g action used spec after st1 = (st2, dec)" by fastforce
  note c = send_request_counts [OF s] apply_execute_retry_counts [OF a]
  show ?case
  proof (cases dec)
    case (Retry used' spec')
    have "execute_loop g used' spec' st2 = (st', Inl sleep_overflow)"
      using "1.prems"(1) Inr s Failed a Retry by (simp add: execute_loop.simps [of g used spec st])
    from "1.IH" [OF Inr s [symmetric] Failed a [symmetric] Retry this "1.prems"(2)] c Retry show ?thesis by simp
  next
    case (Retry_Raised e)
    then have "e = sleep_overflow" "st' = st2"
      using "1.prems"(1) Inr s Failed a by (auto simp: execute_loop.simps [of g used spec st] split: if_splits)
    then show ?thesis
      using apply_execute_retry_overflow [OF "1.prems"(2), of action used spec after st1 st2] a Retry_Raised c by simp
  qed (use "1.prems"(1) Inr s Failed a in \<open>auto simp: execute_loop.simps [of g used spec st]\<close>)
qed

lemma short_waits_return:
  fixes g :: "('r, 'w) gateway"
  assumes "\<And>n w. snd (g_wait g n w) < SLEEP_LIMIT"
    and "\<And>req p w action d res. judge_attempt (g_kernel g) (snd (g_execute g req p w)) = Failed action (Some d) res
      \<Longrightarrow> time_sleep (max_zero d) = Inr ()"
    and "quiet_mutations (g_mutations g)"
  shows "execute_loop g used spec st = (st', r) \<Longrightarrow> \<exists>res. r = Inr res"
proof (induction "nat (max_retries g - used)" arbitrary: used spec st rule: less_induct)
  case less
  show ?case
  proof (cases "build_request g spec")
    case (Inl e)
    then show ?thesis using less.prems by (auto simp: execute_loop.simps [of g used spec st])
  next
    case (Inr req)
    obtain st1 oc where s: "send_request g req (rs_payload spec) st = (st1, oc)" by fastforce
    have oc: "oc = snd (g_execute g req (rs_payload spec) (gs_world st))" using s by (auto simp: send_request_def split: prod.splits)
    show ?thesis
    proof (cases "judge_attempt (g_kernel g) oc")
      case (Failed action after res)
      obtain st2 dec where a: "apply_execute_retry g action used spec after st1 = (st2, dec)" by fastforce
      have "time_sleep (max_zero d) = Inr ()" if "after = Some d" for d
        using assms(2) Failed oc that by blast
      note asked = this
      have exact: "\<not> isl (snd (sleep_exact after s))" for s :: "'w gw_state"
        using asked by (cases after) (simp_all add: sleep_exact_def sleep_fn_def)
      have backoff: "\<not> isl (snd (sleep_before_retry g n s))" for n s
      proof -
        obtain w x where w: "g_wait g (max 1 n) (gs_world s) = (w, x)" by fastforce
        with assms(1) [of "max 1 n" "gs_world s"] show ?thesis
          by (simp add: sleep_before_retry_def sleep_fn_def time_sleep_bounded Let_def)
      qed
      have short: "\<not> isl (snd (retry_delay g (ra_directive action) after n s))" for n s
        using exact backoff by (simp add: retry_delay_def)
      show ?thesis
      proof (cases dec)
        case (Retry used' spec')
        have "nat (max_retries g - used') < nat (max_retries g - used)"
          using apply_execute_retry_Retry a Retry by fastforce
        moreover have "execute_loop g used' spec' st2 = (st', r)"
          using less.prems Inr s Failed a Retry by (simp add: execute_loop.simps [of g used spec st])
        ultimately show ?thesis by (rule less.hyps)
      next
        case (Retry_Raised e)
        then have "is_value_error e"
          using apply_execute_retry_short [OF assms(3) _ a [unfolded Retry_Raised]] short by blast
        then show ?thesis using less.prems Inr s Failed a Retry_Raised by (auto simp: execute_loop.simps [of g used spec st])
      qed (use less.prems Inr s Failed a in \<open>auto simp: execute_loop.simps [of g used spec st]\<close>)
    qed (use less.prems Inr s in \<open>auto simp: execute_loop.simps [of g used spec st]\<close>)
  qed
qed

text \<open>Every result of the loop is one of the four kinds.\<close>

lemma execute_loop_result:
  assumes "execute_loop g used spec st = (st', Inr res)"
  shows "(\<exists>m. res = spec_error m) \<or> (\<exists>m. res = unexpected_failure m)
    \<or> (\<exists>oc. judge_attempt (g_kernel g) oc = Finished res \<or> judge_attempt (g_kernel g) oc = Fatal res
        \<or> (\<exists>action after. judge_attempt (g_kernel g) oc = Failed action after res))"
  using assms
proof (induction g used spec st arbitrary: st' rule: execute_loop.induct)
  case (1 g used spec st)
  show ?case
  proof (cases "build_request g spec")
    case (Inl e)
    then show ?thesis
      using "1.prems" by (auto simp: execute_loop.simps [of g used spec st] unsent_def split: if_splits)
  next
    case (Inr req)
    obtain st1 oc where s: "send_request g req (rs_payload spec) st = (st1, oc)" by fastforce
    show ?thesis
    proof (cases "judge_attempt (g_kernel g) oc")
      case (Failed action after res')
      obtain st2 dec where a: "apply_execute_retry g action used spec after st1 = (st2, dec)" by fastforce
      show ?thesis
      proof (cases dec)
        case (Retry used' spec')
        have "execute_loop g used' spec' st2 = (st', Inr res)"
          using "1.prems" Inr s Failed a Retry by (simp add: execute_loop.simps [of g used spec st])
        from "1.IH" [OF Inr s [symmetric] Failed a [symmetric] Retry this] show ?thesis .
      next
        case Give_Up
        then have "res' = res" using "1.prems" Inr s Failed a by (simp add: execute_loop.simps [of g used spec st])
        with Failed show ?thesis by blast
      next
        case (Retry_Raised e)
        then show ?thesis
          using "1.prems" Inr s Failed a by (auto simp: execute_loop.simps [of g used spec st] split: if_splits)
      qed
    next
      case (Finished res')
      then have "res' = res" using "1.prems" Inr s by (simp add: execute_loop.simps [of g used spec st])
      with Finished show ?thesis by blast
    next
      case (Fatal res')
      then have "res' = res" using "1.prems" Inr s by (simp add: execute_loop.simps [of g used spec st])
      with Fatal show ?thesis by blast
    qed
  qed
qed

section \<open>What a result shows\<close>

abbreviation safe_to_show :: "pyval \<Rightarrow> bool" where
  "safe_to_show \<equiv> redacted DEFAULT_SENSITIVE_FIELD_KEYS"

abbreviation details_value :: "(string, pyval) dict option \<Rightarrow> pyval" where
  "details_value d \<equiv> (case d of None \<Rightarrow> PNone | Some d \<Rightarrow> PDict d)"

lemma redacted_safe_body [simp]: "safe_to_show (safe_body k r v)"
  using redacted_mask [of DEFAULT_SENSITIVE_FIELD_KEYS v]
  by (cases v) (auto simp: safe_body_def Let_def simp del: mask_secrets_in_object.simps)

lemma open_detail_keys [simp]:
  "\<not> sensitive DEFAULT_SENSITIVE_FIELD_KEYS ''escalated''"
  "\<not> sensitive DEFAULT_SENSITIVE_FIELD_KEYS ''error_reason''"
  "\<not> sensitive DEFAULT_SENSITIVE_FIELD_KEYS ''content_preview''"
  "\<not> sensitive DEFAULT_SENSITIVE_FIELD_KEYS ''response_payload''"
  by code_simp+

lemma redacted_set_detail:
  "safe_to_show (details_value d) \<Longrightarrow> safe_to_show v \<Longrightarrow> \<not> sensitive DEFAULT_SENSITIVE_FIELD_KEYS k \<Longrightarrow>
     safe_to_show (details_value (set_detail k v d))"
  by (auto simp: set_detail_def redacted_update redacted_Cons split: option.splits)

lemma redacted_finish_details:
  "safe_to_show (details_value d) \<Longrightarrow> safe_to_show (details_value (finish_details reason action d))"
  by (cases reason) (simp_all add: finish_details_def mark_escalated_def redacted_set_detail Let_def)

lemma redacted_exc_details: "safe_to_show (details_value (build_exc_details k exc action))"
proof -
  let ?d = "if de_details exc = [] then None
      else (case safe_body k None (PDict (de_details exc)) of PDict d \<Rightarrow> Some d | _ \<Rightarrow> None)"
  have d: "safe_to_show (details_value ?d)"
    using redacted_safe_body [of k None "PDict (de_details exc)"] by (auto split: pyval.split simp del: redacted_safe_body)
  show ?thesis
    unfolding build_exc_details_def Let_def
    by (rule redacted_finish_details) (use d in \<open>simp add: redacted_set_detail del: redacted_safe_body\<close>)
qed

lemma redacted_resp_details: "safe_to_show (details_value (build_resp_details k resp action))"
  unfolding build_resp_details_def build_error_details_def Let_def
  by (rule redacted_finish_details)
    (cases "dr_payload resp"; auto intro!: redacted_set_detail simp: redacted_Cons)

lemma judge_attempt_redacted:
  "judge_attempt k oc = Finished res \<Longrightarrow> safe_to_show (er_response_payload res) \<and> safe_to_show (details_value (er_error_details res))"
  "judge_attempt k oc = Fatal res \<Longrightarrow> safe_to_show (er_response_payload res) \<and> safe_to_show (details_value (er_error_details res))"
  "judge_attempt k oc = Failed action after res \<Longrightarrow> safe_to_show (er_response_payload res) \<and> safe_to_show (details_value (er_error_details res))"
proof -
  have payload: "safe_to_show (case build_resp_details k resp action of None \<Rightarrow> PNone | Some d \<Rightarrow> dict_get_or d ''response_payload'' PNone)"
    for resp action
    using redacted_resp_details [of k resp action] by (auto simp: redacted_get split: option.splits)
  show "judge_attempt k oc = Finished res \<Longrightarrow> safe_to_show (er_response_payload res) \<and> safe_to_show (details_value (er_error_details res))"
    by (auto simp: judge_attempt_def execute_success_def Let_def split: driver_outcome.splits if_splits prod.splits)
  show "judge_attempt k oc = Fatal res \<Longrightarrow> safe_to_show (er_response_payload res) \<and> safe_to_show (details_value (er_error_details res))"
    by (auto simp: judge_attempt_def unexpected_failure_def result_failure_def Let_def
        split: driver_outcome.splits if_splits prod.splits)
  show "judge_attempt k oc = Failed action after res \<Longrightarrow> safe_to_show (er_response_payload res) \<and> safe_to_show (details_value (er_error_details res))"
    using payload redacted_resp_details redacted_exc_details
    by (auto simp: judge_attempt_def failed_response_def failed_exception_def result_of_response_def
        result_of_driver_error_def result_failure_def Let_def split: driver_outcome.splits if_splits prod.splits)
qed

section \<open>Reading pages\<close>

lemma exI4: "P a b c d \<Longrightarrow> \<exists>a b c d. P a b c d"
  by blast

text \<open>
  What the gateway relies on to repeat a read without repeating data: a driver numbers the pages it
  yields from 1 on, and yields no more than it was asked for.
\<close>

locale paged_driver =
  fixes iter_batches :: "'r \<Rightarrow> int \<Rightarrow> int option \<Rightarrow> 'w \<Rightarrow> 'w \<times> (int \<times> pyval) list \<times> batch_end"
  assumes numbered: "iter_batches req n m w = (w', pages, fin) \<Longrightarrow> map fst pages = [1 .. int (length pages)]"
    and page_limit: "iter_batches req n (Some k) w = (w', pages, fin) \<Longrightarrow> int (length pages) \<le> max 0 k"
begin

lemma last_page_number: "iter_batches req n m w = (w', pages, fin) \<Longrightarrow> last_page_of pages = int (length pages)"
proof (cases "pages = []")
  case False
  assume "iter_batches req n m w = (w', pages, fin)"
  note nums = numbered [OF this]
  have "fst (List.last pages) = List.last (map fst pages)" using False by (simp add: last_map)
  also have "\<dots> = List.last ([1 .. int (length pages) - 1] @ [int (length pages)])"
    using False unfolding nums by (subst upto_rec2) (cases pages; simp)+
  finally show ?thesis using False by (simp add: last_page_of_def)
qed (simp add: last_page_of_def)

lemma read_loop_once:
  assumes "g_iter_batches g = iter_batches" "read_loop g used req n m st = (st', rs, raised)"
  shows "\<exists>w w' pages fin. iter_batches req n m w = (w', pages, fin) \<and> map fst pages = [1 .. int (length pages)]
    \<and> gs_requests_total st' = gs_requests_total st + length pages
    \<and> gs_retries_total st' \<le> gs_retries_total st + nat (max_retries g - used)
    \<and> (raised \<noteq> None \<longrightarrow> raised = Some sleep_overflow \<and> pages = [] \<and> rs = [] \<and> gs_failures_total st' = gs_failures_total st)
    \<and> (raised = None \<and> (fin = Exhausted \<or> fin = Consumer_Stopped) \<longrightarrow>
        rs = map (\<lambda>(p, items). ok_page p items) pages \<and> gs_failures_total st' = gs_failures_total st)
    \<and> (raised = None \<and> fin \<noteq> Exhausted \<and> fin \<noteq> Consumer_Stopped \<longrightarrow> gs_failures_total st' = gs_failures_total st + 1
        \<and> (\<exists>code message details.
             rs = map (\<lambda>(p, items). ok_page p items) pages @ [fail_page (int (length pages)) code message details]))"
  using assms
proof (induction g used req n m st arbitrary: st' rs raised rule: read_loop.induct)
  case (1 g used req n m st)
  obtain w' pages fin where b: "iter_batches req n m (gs_world st) = (w', pages, fin)" by (metis prod_cases3)
  let ?st1 = "st\<lparr>gs_requests_total := gs_requests_total st + length pages, gs_world := w'\<rparr>"
  have r: "read_batches g req n m st = (?st1, pages, fin)"
    using b "1.prems"(1) by (simp add: read_batches_def)
  note nums = numbered [OF b] and lst = last_page_number [OF b]
  show ?case
  proof (cases fin)
    case Exhausted
    then have e: "st' = ?st1" "rs = map (\<lambda>(p, items). ok_page p items) pages" "raised = None"
      using "1.prems"(2) r by (simp_all add: read_loop.simps [of g used req n m st])
    show ?thesis
      by (rule exI4 [of _ "gs_world st" w' pages fin]) (use e b nums Exhausted in auto)
  next
    case Consumer_Stopped
    then have e: "st' = ?st1" "rs = map (\<lambda>(p, items). ok_page p items) pages" "raised = None"
      using "1.prems"(2) r by (simp_all add: read_loop.simps [of g used req n m st])
    show ?thesis
      by (rule exI4 [of _ "gs_world st" w' pages fin]) (use e b nums Consumer_Stopped in auto)
  next
    case (Batch_Crashed msg)
    then have e: "st' = count_failure ?st1" "raised = None"
      "rs = map (\<lambda>(p, items). ok_page p items) pages
        @ [fail_page (int (length pages)) INFRA_UNAVAILABLE (truncate_default msg) None]"
      using "1.prems"(2) r lst by (simp_all add: read_loop.simps [of g used req n m st])
    show ?thesis
      by (rule exI4 [of _ "gs_world st" w' pages fin]) (use e b nums Batch_Crashed in auto)
  next
    case (Batch_Failed exc)
    obtain nf action where f: "from_driver_error (g_kernel g) exc = (nf, action)" by fastforce
    let ?retry = "if last_page_of pages = 0 then apply_read_retry g action used (de_retry_after_s exc) ?st1 else (?st1, Inr None)"
    obtain st2 dec where d: "?retry = (st2, dec)" by fastforce
    have counts: "gs_requests_total st2 = gs_requests_total ?st1" "gs_failures_total st2 = gs_failures_total ?st1"
      "gs_retries_total st2 = gs_retries_total ?st1 + (if dec = Inr None then 0 else 1)"
      using d by (auto simp: apply_read_retry_def dest!: retry_delay_counts split: if_splits prod.splits sum.splits)
    show ?thesis
    proof (cases dec)
      case (Inl e)
      have "last_page_of pages = 0" using d Inl by (auto split: if_splits)
      then have empty: "pages = []" using lst by simp
      have e: "e = sleep_overflow" "used < max_retries g"
        using d Inl by (auto simp: apply_read_retry_def can_retry_def dest: retry_delay_raises split: if_splits prod.splits sum.splits)
      have "st' = st2" "rs = []" "raised = Some e"
        using "1.prems"(2) r f d Batch_Failed Inl empty by (simp_all add: read_loop.simps [of g used req n m st])
      with e counts Inl empty b nums show ?thesis
        by (intro exI4 [of _ "gs_world st" w' pages fin]) auto
    next
      case (Inr next_used)
      show ?thesis
      proof (cases next_used)
        case None
        then have e: "st' = count_failure st2" "raised = None"
          "rs = map (\<lambda>(p, items). ok_page p items) pages @ [fail_page (int (length pages)) (nf_error_code nf)
             (truncate_default (de_message exc)) (build_exc_details (g_kernel g) exc action)]"
          using "1.prems"(2) r f d Batch_Failed lst Inr by (simp_all add: read_loop.simps [of g used req n m st])
        show ?thesis
          by (rule exI4 [of _ "gs_world st" w' pages fin]) (use e b nums Batch_Failed counts None Inr in auto)
      next
        case (Some used')
        have "last_page_of pages = 0" using d Some Inr by (auto split: if_splits)
        then have empty: "pages = []" using lst by simp
        have u: "used' = used + 1" "used < max_retries g"
          using d Some Inr by (auto dest: apply_read_retry_Some split: if_splits)
        have l: "read_loop g used' req n m st2 = (st', rs, raised)"
          using "1.prems"(2) r f d Batch_Failed Some Inr empty
          by (simp add: read_loop.simps [of g used req n m st] split: prod.splits)
        have "nat (max_retries g - used) = nat (max_retries g - used') + 1" using u by linarith
        with "1.IH" [OF r [symmetric] refl Batch_Failed f [symmetric] d [symmetric] Inr Some "1.prems"(1) l] counts Some Inr empty
        show ?thesis by force
      qed
    qed
  qed
qed

end

section \<open>The retry policy as a specification\<close>

text \<open>
  Abstractly: an attempt is repeated while its outcome is one the rules retry and the budget lasts; the
  result is that of the attempt at which this ends.
\<close>

definition retryable :: "'r kernel \<Rightarrow> driver_outcome \<Rightarrow> bool" where
  "retryable k outcome =
     (case judge_attempt k outcome of
        Failed action after res \<Rightarrow> ra_directive action = RETRY_BACKOFF \<or> ra_directive action = RETRY_AFTER
      | _ \<Rightarrow> False)"

text \<open>An outcome that asks for a wait no sleep can give.\<close>

definition endless_wait :: "'r kernel \<Rightarrow> driver_outcome \<Rightarrow> bool" where
  "endless_wait k outcome =
     (case judge_attempt k outcome of
        Failed action (Some d) res \<Rightarrow> ra_directive action = RETRY_AFTER \<and> isl (time_sleep (max_zero d))
      | _ \<Rightarrow> False)"

definition outcome_result :: "'r kernel \<Rightarrow> driver_outcome \<Rightarrow> execution_result" where
  "outcome_result k outcome =
     (case judge_attempt k outcome of Finished res \<Rightarrow> res | Fatal res \<Rightarrow> res | Failed action after res \<Rightarrow> res)"

definition final_attempt :: "'r kernel \<Rightarrow> int \<Rightarrow> driver_outcome list \<Rightarrow> nat" where
  "final_attempt k budget outcomes = length (takeWhile (\<lambda>oc. retryable k oc \<and> \<not> endless_wait k oc) (take (nat budget) outcomes))"

lemma final_attempt_simps:
  "budget \<le> 0 \<Longrightarrow> final_attempt k budget outs = 0"
  "\<not> retryable k oc \<Longrightarrow> final_attempt k budget (oc # outs) = 0"
  "endless_wait k oc \<Longrightarrow> final_attempt k budget (oc # outs) = 0"
  "retryable k oc \<Longrightarrow> \<not> endless_wait k oc \<Longrightarrow> 0 < budget \<Longrightarrow> final_attempt k budget (oc # outs) = Suc (final_attempt k (budget - 1) outs)"
  by (cases "nat budget"; simp add: final_attempt_def nat_diff_distrib')+

lemma endless_wait_retryable: "endless_wait k oc \<Longrightarrow> retryable k oc"
  by (auto simp: endless_wait_def retryable_def split: attempt.splits option.splits)

text \<open>With waits that are short enough a retry raises exactly when the outcome asks for an endless one.\<close>

lemma retry_delay_scripted:
  assumes wait: "\<And>n w. fst (g_wait g n w) = w" "\<And>n w. snd (g_wait g n w) < SLEEP_LIMIT"
    and oc: "judge_attempt k oc = Failed action after res"
  shows "\<exists>st'. retry_delay g (ra_directive action) after n st = (st', if endless_wait k oc then Inl sleep_overflow else Inr ())
    \<and> gs_world st' = gs_world st"
proof (cases "ra_directive action = RETRY_AFTER \<and> after \<noteq> None")
  case True
  then obtain d where d: "after = Some d" by blast
  have "retry_delay g (ra_directive action) after n st = sleep_exact after st" using True by (simp add: retry_delay_def)
  moreover have "endless_wait k oc = isl (time_sleep (max_zero d))" using True d oc by (simp add: endless_wait_def)
  moreover have "sleep_exact after st = (if max_zero d = Seconds 0 then (st, Inr ()) else sleep_fn (max_zero d) st)"
    by (simp add: d sleep_exact_def)
  moreover have "\<not> isl (time_sleep (Seconds 0))" by (simp add: time_sleep_def SLEEP_LIMIT_def)
  moreover have "time_sleep (max_zero d) = Inl e \<Longrightarrow> e = sleep_overflow" for e
    by (auto simp: time_sleep_def max_zero_def split: py_seconds.splits if_splits)
  ultimately show ?thesis
    by (cases "time_sleep (max_zero d)") (auto simp: sleep_fn_def)
next
  case False
  obtain w x where w: "g_wait g (max 1 n) (gs_world st) = (w, x)" by fastforce
  then have "w = gs_world st" "x < SLEEP_LIMIT" using wait(1) [of "max 1 n" "gs_world st"] wait(2) [of "max 1 n" "gs_world st"] by simp_all
  moreover have "\<not> endless_wait k oc" using False oc by (auto simp: endless_wait_def split: option.splits)
  ultimately show ?thesis
    using False w by (auto simp: retry_delay_def sleep_before_retry_def sleep_fn_def time_sleep_bounded)
qed

lemma no_mutation_action:
  assumes "\<forall>r \<in> set (ts_retry_rules (k_spec k)). ry_mutation r = None"
  shows "judge_attempt k oc = Failed action after res \<Longrightarrow> ra_mutation action = None"
proof -
  have "ra_mutation (resolve_retry_action k kind status reason) = None" for kind status reason
    using assms by (auto simp: resolve_retry_action_def find_Some_iff split: option.split)
  then show "judge_attempt k oc = Failed action after res \<Longrightarrow> ra_mutation action = None"
    by (auto simp: judge_attempt_def failed_response_def failed_exception_def from_driver_error_def
        from_driver_response_def Let_def split: driver_outcome.splits if_splits)
qed

lemma execute_loop_scripted:
  assumes drv: "\<And>req p w. g_execute g req p w = (tl w, hd w)"
    and wait: "\<And>n w. fst (g_wait g n w) = w" "\<And>n w. snd (g_wait g n w) < SLEEP_LIMIT"
    and rules: "\<forall>r \<in> set (ts_retry_rules (k_spec (g_kernel g))). ry_mutation r = None"
    and build: "build_request g spec = Inr req"
  shows "nat (max_retries g - used) < length (gs_world st) \<Longrightarrow>
    (let n = final_attempt (g_kernel g) (max_retries g - used) (gs_world st); last_outcome = gs_world st ! n;
         endless = (int n < max_retries g - used \<and> endless_wait (g_kernel g) last_outcome);
         st' = fst (execute_loop g used spec st)
     in snd (execute_loop g used spec st) = (if endless then Inl sleep_overflow else Inr (outcome_result (g_kernel g) last_outcome))
      \<and> gs_requests_total st' = gs_requests_total st + n + 1
      \<and> gs_retries_total st' = gs_retries_total st + n + (if endless then 1 else 0))"
proof (induction "nat (max_retries g - used)" arbitrary: used st rule: less_induct)
  case less
  let ?k = "g_kernel g"
  obtain oc outs where w: "gs_world st = oc # outs" using less.prems by (cases "gs_world st") auto
  let ?st1 = "st\<lparr>gs_requests_total := gs_requests_total st + 1, gs_world := outs\<rparr>"
  have s: "send_request g req (rs_payload spec) st = (?st1, oc)" by (simp add: send_request_def drv w)
  show ?case
  proof (cases "judge_attempt ?k oc")
    case (Finished res)
    then have "\<not> retryable ?k oc" "\<not> endless_wait ?k oc" by (simp_all add: retryable_def endless_wait_def)
    then show ?thesis
      using Finished build s w by (simp add: execute_loop.simps [of g used] final_attempt_simps outcome_result_def Let_def)
  next
    case (Fatal res)
    then have "\<not> retryable ?k oc" "\<not> endless_wait ?k oc" by (simp_all add: retryable_def endless_wait_def)
    then show ?thesis
      using Fatal build s w by (simp add: execute_loop.simps [of g used] final_attempt_simps outcome_result_def Let_def)
  next
    case (Failed action after res)
    note nomut = no_mutation_action [OF rules Failed]
    show ?thesis
    proof (cases "retryable ?k oc \<and> used < max_retries g")
      case False
      then have "apply_execute_retry g action used spec after ?st1 = (?st1, Give_Up)"
        using Failed by (auto simp: apply_execute_retry_def can_retry_def retryable_def)
      moreover have "final_attempt ?k (max_retries g - used) (oc # outs) = 0"
        using False final_attempt_simps [where k = ?k] by (metis diff_le_0_iff_le not_le)
      moreover have "\<not> (0 < max_retries g - used \<and> endless_wait ?k oc)"
        using False endless_wait_retryable by auto
      ultimately show ?thesis
        using Failed build s w by (simp add: execute_loop.simps [of g used] outcome_result_def Let_def)
    next
      case True
      let ?counted = "?st1\<lparr>gs_retries_total := gs_retries_total st + 1\<rparr>"
      obtain st2 where d: "retry_delay g (ra_directive action) after (used + 1) ?counted
          = (st2, if endless_wait ?k oc then Inl sleep_overflow else Inr ())" "gs_world st2 = gs_world ?counted"
        using retry_delay_scripted [OF wait Failed, of "used + 1" ?counted] by blast
      note c = retry_delay_counts [OF d(1)]
      have a: "apply_execute_retry g action used spec after ?st1 =
          (st2, if endless_wait ?k oc then Retry_Raised sleep_overflow else Retry (used + 1) spec)"
        using True Failed nomut d(1) by (auto simp: apply_execute_retry_def can_retry_def retryable_def)
      show ?thesis
      proof (cases "endless_wait ?k oc")
        case endless: True
        then show ?thesis
          using Failed build s w a c True
          by (simp add: execute_loop.simps [of g used] final_attempt_simps Let_def)
      next
        case False
        have e: "execute_loop g used spec st = execute_loop g (used + 1) spec st2"
          using Failed build s a False by (simp add: execute_loop.simps [of g used])
        have n: "final_attempt ?k (max_retries g - used) (oc # outs) = Suc (final_attempt ?k (max_retries g - (used + 1)) outs)"
          using True False final_attempt_simps(4) [of ?k oc "max_retries g - used" outs] by (simp add: algebra_simps)
        have "nat (max_retries g - (used + 1)) < length (gs_world st2)" using True less.prems w d(2) by simp linarith
        with less.hyps [of "used + 1" st2] True have ih: "let n = final_attempt ?k (max_retries g - (used + 1)) outs; last_outcome = outs ! n;
            endless = (int n < max_retries g - (used + 1) \<and> endless_wait ?k last_outcome); st' = fst (execute_loop g (used + 1) spec st2)
          in snd (execute_loop g (used + 1) spec st2) = (if endless then Inl sleep_overflow else Inr (outcome_result ?k last_outcome))
            \<and> gs_requests_total st' = gs_requests_total st2 + n + 1
            \<and> gs_retries_total st' = gs_retries_total st2 + n + (if endless then 1 else 0)"
          by (simp add: d(2))
        have lt: "int (Suc k) < max_retries g - used \<longleftrightarrow> int k < max_retries g - (used + 1)" for k by linarith
        show ?thesis
          using ih c unfolding e w n Let_def lt by (simp add: nth_Cons_Suc)
      qed
    qed
  qed
qed

section \<open>The tables of the kernel\<close>

lemma compile_all_tables:
  "compile_all reg ops k = Inr k' \<Longrightarrow> k_spec k' = k_spec k \<and> k_fault_by_status k' = k_fault_by_status k
     \<and> k_fault_by_range k' = k_fault_by_range k \<and> k_fault_by_code k' = k_fault_by_code k"
  by (induction reg ops k rule: compile_all.induct) (auto simp: bind_r_Inr_iff split: if_splits)

lemma make_kernel_tables:
  "make_kernel spec reg = Inr k \<Longrightarrow> k_spec k = spec \<and> k_fault_by_status k = fault_by_status (ts_fault_rules spec)
     \<and> k_fault_by_range k = fault_by_range (ts_fault_rules spec) \<and> k_fault_by_code k = fault_by_code (ts_fault_rules spec)"
  unfolding make_kernel_def by (drule compile_all_tables) simp

text \<open>A table filled in rule order holds the last rule of a key.\<close>

lemma map_of_rule_table:
  "map_of (fold (\<lambda>r d. case key r of None \<Rightarrow> d | Some k \<Rightarrow> AList.update k (v r) d) rules d) k =
     (case find (\<lambda>r. key r = Some k) (rev rules) of Some r \<Rightarrow> Some (v r) | None \<Rightarrow> map_of d k)"
proof (induction rules rule: rev_induct)
  case (snoc r rules)
  then show ?case by (cases "key r") (auto simp: update_conv' split: option.split)
qed simp

lemma range_table:
  "find (\<lambda>(low, high, kind). low \<le> s \<and> s \<le> high) (fault_by_range rules) =
     map_option (\<lambda>r. (fst (the (fr_match_range r)), snd (the (fr_match_range r)), fr_fault_kind r))
       (find (\<lambda>r. \<exists>low high. fr_match_range r = Some (low, high) \<and> low \<le> s \<and> s \<le> high) rules)"
  by (induction rules) (auto simp: fault_by_range_def split: option.split)

section \<open>Properties\<close>

text \<open>
  The tables of the kernel classify as the rules read: a rule for the driver's error code decides
  first, then the last rule for the exact status, then the first rule whose range has the status; without
  one the fault is unknown.
\<close>

theorem classify_by_rules:
  assumes "make_kernel spec reg = Inr k"
  shows "classify_fault k status code =
    (case (if code = None \<or> code = Some [] then None
           else find (\<lambda>r. fr_match_code r = code) (rev (ts_fault_rules spec))) of
       Some r \<Rightarrow> fr_fault_kind r
     | None \<Rightarrow>
        (case status of
           None \<Rightarrow> Fault_UNKNOWN
         | Some s \<Rightarrow>
            (case find (\<lambda>r. fr_match_status r = Some s) (rev (ts_fault_rules spec)) of
               Some r \<Rightarrow> fr_fault_kind r
             | None \<Rightarrow>
                (case find (\<lambda>r. \<exists>low high. fr_match_range r = Some (low, high) \<and> low \<le> s \<and> s \<le> high) (ts_fault_rules spec) of
                   Some r \<Rightarrow> fr_fault_kind r
                 | None \<Rightarrow> Fault_UNKNOWN))))"
proof -
  note t = make_kernel_tables [OF assms]
  have code_table: "map_of (k_fault_by_code k) c =
      map_option fr_fault_kind (find (\<lambda>r. fr_match_code r = Some c) (rev (ts_fault_rules spec)))" for c
    using t map_of_rule_table [where key = fr_match_code and v = fr_fault_kind and rules = "ts_fault_rules spec" and d = "[]" and k = c]
    by (simp add: fault_by_code_def split: option.split)
  have status_table: "map_of (k_fault_by_status k) s =
      map_option fr_fault_kind (find (\<lambda>r. fr_match_status r = Some s) (rev (ts_fault_rules spec)))" for s
    using t map_of_rule_table [where key = fr_match_status and v = fr_fault_kind and rules = "ts_fault_rules spec" and d = "[]" and k = s]
    by (simp add: fault_by_status_def split: option.split)
  have ranges: "find (\<lambda>(low, high, kind). low \<le> s \<and> s \<le> high) (k_fault_by_range k) =
      map_option (\<lambda>r. (fst (the (fr_match_range r)), snd (the (fr_match_range r)), fr_fault_kind r))
       (find (\<lambda>r. \<exists>low high. fr_match_range r = Some (low, high) \<and> low \<le> s \<and> s \<le> high) (ts_fault_rules spec))" for s
    using t range_table by simp
  show ?thesis
    unfolding classify_fault_def Let_def code_table status_table ranges
    by (cases code; cases status) (simp_all split: option.split)
qed

definition example_target :: target_spec where
  "example_target = \<lparr>ts_target_type = ''ankey'', ts_capabilities = [Cap_check, Cap_execute, Cap_read_paged],
     ts_fault_rules = [\<lparr>fr_fault_kind = Fault_TRANSIENT, fr_match_status = None, fr_match_range = Some (500, 599), fr_match_code = None\<rparr>,
       \<lparr>fr_fault_kind = Fault_THROTTLE, fr_match_status = Some 503, fr_match_range = None, fr_match_code = Some ''BUSY''\<rparr>],
     ts_retry_rules = [\<lparr>ry_directive = RETRY_BACKOFF, ry_match_fault = Some Fault_TRANSIENT, ry_match_status = None,
       ry_match_reason = None, ry_mutation = None\<rparr>],
     ts_retry_config = \<lparr>rc_max_attempts = 2, rc_backoff_base = 1, rc_backoff_max = 30, rc_jitter = False\<rparr>,
     ts_redaction = \<lparr>rd_forbidden_metadata_keys = [], rd_forbidden_fields = [], rd_body_mode = Body_truncated\<rparr>,
     ts_health_alias = ''health'',
     ts_operations = [(''health'', \<lparr>os_alias = ''health'', os_kind = ''http'', os_expected_statuses = [200], os_data = [(''x'', PNone)]\<rparr>)]\<rparr>"

definition example_registry :: "string compiler_registry" where
  "example_registry = [(''http'', \<lambda>op. Inr (\<lambda>alias params query. Inr alias))]"

definition example_kernel :: "string kernel" where
  "example_kernel = \<lparr>k_spec = example_target, k_fault_by_status = [(503, Fault_THROTTLE)],
     k_fault_by_range = [(500, 599, Fault_TRANSIENT)], k_fault_by_code = [(''BUSY'', Fault_THROTTLE)],
     k_operations = ts_operations example_target, k_compiled = [(''health'', \<lambda>alias params query. Inr alias)]\<rparr>"

lemma example_kernel_made: "make_kernel example_target example_registry = Inr example_kernel"
  by (simp add: make_kernel_def example_target_def example_registry_def example_kernel_def fault_by_status_def
      fault_by_range_def fault_by_code_def compile_operation_def)

lemma classify_by_rules_witness:
  "classify_fault example_kernel (Some 503) None = Fault_THROTTLE
   \<and> classify_fault example_kernel (Some 502) None = Fault_TRANSIENT
   \<and> classify_fault example_kernel (Some 404) (Some ''BUSY'') = Fault_THROTTLE"
  by (simp add: classify_by_rules [OF example_kernel_made] example_target_def)

text \<open>
  C29. Whatever the driver does, the counters are exact: as many requests are counted as the driver was called for,
  at most one more than the retry budget; every call after the first is one counted retry, and a retry that was
  counted last was not sent only where its request could not be built or its sleep raised; a result that is not ok
  is one failure, and nothing else is.
\<close>

theorem execute_counts_exactly:
  assumes "\<And>req p w. calls (fst (g_execute g req p w)) = Suc (calls w)" "\<And>n w. calls (fst (g_wait g n w)) = calls w"
    and "\<And>name m req w. map_of (g_mutations g) name = Some m \<Longrightarrow> calls (fst (m req w)) = calls w"
    and "gateway_execute g spec st = (st', r)"
  shows "\<exists>sent again. calls (gs_world st') = calls (gs_world st) + sent
    \<and> gs_requests_total st' = gs_requests_total st + sent \<and> sent \<le> nat (max_retries g) + 1
    \<and> gs_retries_total st' = gs_retries_total st + again \<and> again \<le> nat (max_retries g)
    \<and> (if sent = 0 then again = 0 else again + 1 = sent \<or> again = sent \<and> ends_unsent g r)
    \<and> gs_failures_total st' = gs_failures_total st + failed_count r"
proof (cases "require_capability (g_kernel g) Cap_execute")
  case (Inl e)
  then show ?thesis using assms(4) by (intro exI [of _ 0]) (auto simp: gateway_execute_def failed_count_def count_failure_def)
next
  case (Inr u)
  then have l: "execute_loop g 0 spec st = (st', r)" using assms(4) by (simp add: gateway_execute_def)
  have "calls (gs_world st') + gs_requests_total st = calls (gs_world st) + gs_requests_total st'"
    by (rule execute_loop_calls [OF _ _ _ l]) (use assms(1-3) in auto)
  note counts = execute_loop_counts [OF l] this
  show ?thesis
    by (rule exI [of _ "gs_requests_total st' - gs_requests_total st"], rule exI [of _ "gs_retries_total st' - gs_retries_total st"])
      (use counts in auto)
qed

text \<open>
  Execution ends with a result, or with the exception of a sleep that is too long, when the registered mutations raise
  at most value errors; an error of the preparation, the driver or a mutation is a result that is not ok.
\<close>

lemma execute_raises_overflow:
  assumes "quiet_mutations (g_mutations g)"
  shows "(\<exists>res. snd (gateway_execute g spec st) = Inr res) \<or> snd (gateway_execute g spec st) = Inl sleep_overflow"
proof (cases "require_capability (g_kernel g) Cap_execute")
  case (Inr u)
  obtain st' r where l: "execute_loop g 0 spec st = (st', r)" by fastforce
  then show ?thesis using Inr execute_loop_quiet [OF assms] by (cases r) (auto simp: gateway_execute_def)
qed (simp add: gateway_execute_def)

text \<open>A driver that answers from a script.\<close>

definition scripted_gateway :: "(string, driver_outcome list) gateway" where
  "scripted_gateway = \<lparr>g_kernel = example_kernel,
     g_mutations = [(''fix'', \<lambda>req w. (w, Inl (ValueError ''no'')))],
     g_execute = (\<lambda>req payload w. (tl w, hd w)), g_iter_batches = (\<lambda>req n m w. (w, [], Exhausted)),
     g_wait = (\<lambda>n w. (w, 1)), g_latency_ms = (\<lambda>w w'. 0)\<rparr>"

definition status_response :: "int \<Rightarrow> driver_outcome" where
  "status_response s = Responded \<lparr>dr_ok = (s = 200), dr_answer_code = PInt s, dr_payload = PNone,
     dr_content_preview = None, dr_payload_format = ''none'', dr_error_reason = None, dr_retry_after_s = None\<rparr>"

definition start_state :: "driver_outcome list \<Rightarrow> driver_outcome list gw_state" where
  "start_state outs = \<lparr>gs_requests_total = 0, gs_retries_total = 0, gs_failures_total = 0, gs_slept = [], gs_world = outs\<rparr>"

definition health_request :: request_spec where
  "health_request = \<lparr>rs_operation_alias = ''health'', rs_payload = PNone, rs_operation_params = None\<rparr>"

definition counting_gateway :: "(string, nat) gateway" where
  "counting_gateway = \<lparr>g_kernel = example_kernel, g_mutations = [],
     g_execute = (\<lambda>req payload w. (w + 1, status_response (if w < 2 then 500 else 200))),
     g_iter_batches = (\<lambda>req n m w. (w, [], Exhausted)), g_wait = (\<lambda>n w. (w, 1)), g_latency_ms = (\<lambda>w w'. 0)\<rparr>"

lemma execute_counts_exactly_witness:
  "\<exists>st' r. gateway_execute counting_gateway health_request
       \<lparr>gs_requests_total = 0, gs_retries_total = 0, gs_failures_total = 0, gs_slept = [], gs_world = 0\<rparr> = (st', r)
     \<and> gs_requests_total st' = gs_world st' \<and> gs_failures_total st' = failed_count r"
proof -
  let ?st = "\<lparr>gs_requests_total = 0, gs_retries_total = 0, gs_failures_total = 0, gs_slept = [], gs_world = 0 :: nat\<rparr>"
  obtain st' r where e: "gateway_execute counting_gateway health_request ?st = (st', r)" by fastforce
  have "\<exists>sent again. id (gs_world st') = id (gs_world ?st) + sent
    \<and> gs_requests_total st' = gs_requests_total ?st + sent \<and> sent \<le> nat (max_retries counting_gateway) + 1
    \<and> gs_retries_total st' = gs_retries_total ?st + again \<and> again \<le> nat (max_retries counting_gateway)
    \<and> (if sent = 0 then again = 0 else again + 1 = sent \<or> again = sent \<and> ends_unsent counting_gateway r)
    \<and> gs_failures_total st' = gs_failures_total ?st + failed_count r"
    by (rule execute_counts_exactly [OF _ _ _ e]) (simp_all add: counting_gateway_def)
  with e show ?thesis by auto
qed

text \<open>
  C1. Without mutations execution is the retry policy: the result is that of the first attempt
  whose outcome the rules do not retry, or of the attempt that uses up the budget, and exactly the attempts
  up to it are sent.  An outcome that asks for a wait longer than any sleep ends it with the exception of the sleep,
  after its retry was counted.
\<close>

theorem execute_refines_policy:
  assumes "\<And>req p w. g_execute g req p w = (tl w, hd w)"
    and "\<And>n w. fst (g_wait g n w) = w" "\<And>n w. snd (g_wait g n w) < SLEEP_LIMIT"
    and "\<forall>r \<in> set (ts_retry_rules (k_spec (g_kernel g))). ry_mutation r = None"
    and "has_capability (g_kernel g) Cap_execute" and "build_request g spec = Inr req"
    and "nat (max_retries g) < length (gs_world st)"
  shows "let n = final_attempt (g_kernel g) (max_retries g) (gs_world st); last_outcome = gs_world st ! n;
      endless = (int n < max_retries g \<and> endless_wait (g_kernel g) last_outcome); st' = fst (gateway_execute g spec st)
    in snd (gateway_execute g spec st) = (if endless then Inl sleep_overflow else Inr (outcome_result (g_kernel g) last_outcome))
      \<and> gs_requests_total st' = gs_requests_total st + n + 1
      \<and> gs_retries_total st' = gs_retries_total st + n + (if endless then 1 else 0)"
  using execute_loop_scripted [OF assms(1,2,3,4,6), where used = 0 and st = st] assms(5,7)
  by (simp add: gateway_execute_def require_capability_def)

lemma execute_refines_policy_witness:
  "gs_requests_total (fst (gateway_execute scripted_gateway health_request
       (start_state [status_response 502, status_response 500, status_response 200, status_response 500]))) = 3"
proof -
  let ?outs = "[status_response 502, status_response 500, status_response 200, status_response 500]"
  have n: "final_attempt example_kernel 2 ?outs = 2"
    by code_simp
  have limit: "(1 :: rat) < SLEEP_LIMIT" by (simp add: SLEEP_LIMIT_def)
  show ?thesis
    using execute_refines_policy [of scripted_gateway health_request "''health''" "start_state ?outs"] n limit
    by (simp add: scripted_gateway_def start_state_def max_retries_def example_kernel_def example_target_def
        has_capability_def build_request_def health_request_def get_compiled_operation_def resolve_operation_def Let_def)
qed

text \<open>A Retry-After that no sleep can give leaves the gateway as an exception.\<close>

definition after_rule :: "string kernel" where
  "after_rule = example_kernel\<lparr>k_spec := example_target\<lparr>ts_retry_rules := [\<lparr>ry_directive = RETRY_AFTER,
     ry_match_fault = Some Fault_TRANSIENT, ry_match_status = None, ry_match_reason = None, ry_mutation = None\<rparr>]\<rparr>\<rparr>"

lemma endless_retry_after_escapes:
  "snd (gateway_execute (scripted_gateway\<lparr>g_kernel := after_rule\<rparr>) health_request (start_state [Responded
      \<lparr>dr_ok = False, dr_answer_code = PInt 502, dr_payload = PNone, dr_content_preview = None, dr_payload_format = ''none'',
       dr_error_reason = None, dr_retry_after_s = Some Plus_Infinity\<rparr>])) = Inl sleep_overflow"
  by code_simp

text \<open>
  C30. No value under a sensitive key of a response or of the details of a driver exception reaches the
  caller of an execution: in the payload and in the details of the result only None and three
  asterisks stand under such keys.
\<close>

theorem execute_result_redacted:
  assumes "snd (gateway_execute g spec st) = Inr res"
  shows "redacted DEFAULT_SENSITIVE_FIELD_KEYS (er_response_payload res)
    \<and> redacted DEFAULT_SENSITIVE_FIELD_KEYS (case er_error_details res of None \<Rightarrow> PNone | Some d \<Rightarrow> PDict d)"
proof (cases "require_capability (g_kernel g) Cap_execute")
  case (Inl e)
  then show ?thesis using assms by (auto simp: gateway_execute_def spec_error_def result_failure_def)
next
  case (Inr u)
  then obtain st' where "execute_loop g 0 spec st = (st', Inr res)"
    using assms by (cases "execute_loop g 0 spec st") (auto simp: gateway_execute_def)
  from execute_loop_result [OF this] show ?thesis
    by (auto simp: spec_error_def unexpected_failure_def result_failure_def dest: judge_attempt_redacted)
qed

lemma execute_result_redacted_witness:
  "\<exists>res. snd (gateway_execute scripted_gateway health_request (start_state [Responded
      \<lparr>dr_ok = True, dr_answer_code = PInt 200, dr_payload = PDict [(''token'', PStr ''abc''), (''id'', PInt 7)],
       dr_content_preview = None, dr_payload_format = ''json'', dr_error_reason = None, dr_retry_after_s = None\<rparr>])) = Inr res
    \<and> redacted DEFAULT_SENSITIVE_FIELD_KEYS (er_response_payload res)"
proof -
  let ?out = "snd (gateway_execute scripted_gateway health_request (start_state [Responded
      \<lparr>dr_ok = True, dr_answer_code = PInt 200, dr_payload = PDict [(''token'', PStr ''abc''), (''id'', PInt 7)],
       dr_content_preview = None, dr_payload_format = ''json'', dr_error_reason = None, dr_retry_after_s = None\<rparr>]))"
  have "\<not> isl ?out" by code_simp
  then obtain res where "?out = Inr res" using not_isl_Inr by blast
  with execute_result_redacted [OF this] show ?thesis by blast
qed

text \<open>
  A health check raises exactly when the preparation of its request raises something other than a value
  error; execution and paged reading turn the same exception into a failed result.
\<close>

theorem health_check_raises:
  "snd (health_check g st) = Inl e \<longleftrightarrow>
     \<not> is_value_error e \<and>
     bind_r (require_capability (g_kernel g) Cap_check) (\<lambda>_.
       bind_r (get_compiled_operation (g_kernel g) (ts_health_alias (k_spec (g_kernel g)))) (\<lambda>(_, compiled).
         compiled (ts_health_alias (k_spec (g_kernel g))) None None)) = Inl e"
  by (auto simp: health_check_def Let_def split: sum.split prod.split)

end
