(* ===== verification/Py_Time.thy ===== *)
theory Py_Time
  imports Nexus_Prelude
begin

text \<open>
  The parts of Python's \<open>datetime\<close> and of SQLite's \<open>CURRENT_TIMESTAMP\<close> that the program
  uses: a timestamp is its calendar fields and an optional offset (in minutes east of UTC; a naive
  timestamp has none), rendered by \<open>isoformat\<close> and compared through its distance in
  microseconds on the proleptic Gregorian calendar.
\<close>

record py_datetime =
  dt_year :: nat
  dt_month :: nat
  dt_day :: nat
  dt_hour :: nat
  dt_minute :: nat
  dt_second :: nat
  dt_micro :: nat
  dt_offset :: "int option"

section \<open>Rendering\<close>

definition date_text :: "py_datetime \<Rightarrow> string" where
  "date_text t = pad_left 4 (dt_year t) @ ''-'' @ pad_left 2 (dt_month t) @ ''-'' @ pad_left 2 (dt_day t)"

definition time_text :: "py_datetime \<Rightarrow> string" where
  "time_text t = pad_left 2 (dt_hour t) @ '':'' @ pad_left 2 (dt_minute t) @ '':'' @ pad_left 2 (dt_second t)"

definition offset_text :: "int option \<Rightarrow> string" where
  "offset_text off = (case off of
      None \<Rightarrow> []
    | Some m \<Rightarrow> (if m < 0 then ''-'' else ''+'')
        @ pad_left 2 (nat \<bar>m\<bar> div 60) @ '':'' @ pad_left 2 (nat \<bar>m\<bar> mod 60))"

text \<open>\<open>t.isoformat()\<close>: the fraction is omitted when it is zero.\<close>

definition isoformat :: "py_datetime \<Rightarrow> string" where
  "isoformat t = date_text t @ ''T'' @ time_text t
     @ (if dt_micro t = 0 then [] else ''.'' @ pad_left 6 (dt_micro t)) @ offset_text (dt_offset t)"

text \<open>\<open>CURRENT_TIMESTAMP\<close> of SQLite at the instant \<open>t\<close>, given in UTC.\<close>

definition sqlite_timestamp :: "py_datetime \<Rightarrow> string" where
  "sqlite_timestamp t = date_text t @ '' '' @ time_text t"

section \<open>Instants\<close>

definition is_leap :: "nat \<Rightarrow> bool" where
  "is_leap y = (y mod 4 = 0 \<and> (y mod 100 \<noteq> 0 \<or> y mod 400 = 0))"

definition days_before_year :: "nat \<Rightarrow> int" where
  "days_before_year y = (let k = int y - 1 in k * 365 + k div 4 - k div 100 + k div 400)"

definition days_before_month :: "nat \<Rightarrow> nat \<Rightarrow> int" where
  "days_before_month y m =
     sum_list (take (m - 1) [31, if is_leap y then 29 else 28, 31, 30, 31, 30, 31, 31, 30, 31, 30, 31])"

definition ordinal :: "py_datetime \<Rightarrow> int" where
  "ordinal t = days_before_year (dt_year t) + days_before_month (dt_year t) (dt_month t) + int (dt_day t)"

text \<open>Microseconds of the instant in UTC; a naive timestamp is read as UTC, as the callers do.\<close>

definition utc_micros :: "py_datetime \<Rightarrow> int" where
  "utc_micros t =
     (((ordinal t * 24 + int (dt_hour t)) * 60 + int (dt_minute t)
         - (case dt_offset t of None \<Rightarrow> 0 | Some m \<Rightarrow> m)) * 60 + int (dt_second t)) * 1000000
     + int (dt_micro t)"

text \<open>\<open>int((a - b).total_seconds())\<close>: the quotient, truncated toward zero.\<close>

definition seconds_between :: "py_datetime \<Rightarrow> py_datetime \<Rightarrow> int" where
  "seconds_between a b =
     (let d = utc_micros a - utc_micros b
      in if 0 \<le> d then d div 1000000 else - ((- d) div 1000000))"

lemma seconds_between_bounds:
  "0 \<le> utc_micros a - utc_micros b \<Longrightarrow>
     seconds_between a b * 1000000 \<le> utc_micros a - utc_micros b
     \<and> utc_micros a - utc_micros b < (seconds_between a b + 1) * 1000000"
  unfolding seconds_between_def Let_def by simp linarith

text \<open>On the same date the separator decides the comparison of the two renderings.\<close>

lemma sqlite_before_iso_same_day:
  assumes "date_text a = date_text b"
  shows "sqlite_timestamp a \<le> isoformat b"
proof -
  have "x @ '' '' @ ys \<le> x @ ''T'' @ zs" for x ys zs :: string
  proof (induction x)
    case Nil
    have "CHR '' '' < CHR ''T''" by code_simp
    then show ?case by simp
  next
    case (Cons c x)
    then show ?case by simp
  qed
  then show ?thesis
    using assms by (simp add: sqlite_timestamp_def isoformat_def)
qed

end
