(* ===== verification/Http_Transport.thy ===== *)
theory Http_Transport
  imports Target_Gateway Py_Time
begin

text \<open>
  Model of the HTTP transport (\<open>connector/infra/target/transports/http\<close>) and of the Ankey
  provider (\<open>infra/target/providers/ankey_rest\<close>): compilation of an operation, the request
  builder, one attempt over the client, its normalisation, the driver with its paging and the gateway the
  provider puts together.

  The httpx client is an argument: a request yields a response with its text and, if it is JSON, its
  value; a transport error; or another exception.  Parsing of floats and of HTTP dates, pydantic's reading
  of the raw operation data and \<open>uuid4\<close> are arguments.  \<open>str.format\<close> is modelled on templates
  whose replacement fields are names; a template with other fields goes to an argument.  The
  printed traces have no effect.
\<close>

section \<open>Requests\<close>

record http_operation =
  ho_method :: string
  ho_path_template :: string
  ho_query_defaults :: "(string, pyval) dict"
  ho_header_defaults :: "(string, string) dict"

record http_request =
  hr_method :: string
  hr_path :: string
  hr_query :: "(string, pyval) dict"
  hr_headers :: "(string, string) dict"
  hr_json :: pyval
  hr_timeout_s :: "rat option"
  hr_expected_statuses :: "int list"

definition validate_http_operation :: "http_operation \<Rightarrow> http_operation result" where
  "validate_http_operation op =
     (if take 1 (ho_path_template op) \<noteq> ''/'' then Inl (ValueError (''path_template must start with '' @ repr_string ''/'')) else Inr op)"

definition ident_start :: "char \<Rightarrow> bool" where
  "ident_start c = (let n = (of_char c :: nat) in (97 \<le> n \<and> n \<le> 122) \<or> (65 \<le> n \<and> n \<le> 90) \<or> n = 95)"

definition ident_char :: "char \<Rightarrow> bool" where
  "ident_char c = (ident_start c \<or> (let n = (of_char c :: nat) in 48 \<le> n \<and> n \<le> 57))"

text \<open>What follows an opening brace: a name, the closing brace and the rest.\<close>

definition match_param :: "string \<Rightarrow> (string \<times> string) option" where
  "match_param s =
     (let name = takeWhile ident_char s; rest = dropWhile ident_char s
      in if name \<noteq> [] \<and> ident_start (hd name) \<and> take 1 rest = ''}'' then Some (name, drop 1 rest) else None)"

lemma match_param_length: "match_param s = Some (name, rest) \<Longrightarrow> length rest < length s"
proof -
  assume "match_param s = Some (name, rest)"
  then have "rest = drop 1 (dropWhile ident_char s)" "takeWhile ident_char s \<noteq> []"
    by (auto simp: match_param_def Let_def split: if_splits)
  moreover have "length (takeWhile ident_char s) + length (dropWhile ident_char s) = length s"
    by (metis length_append takeWhile_dropWhile_id)
  ultimately show ?thesis by (cases "takeWhile ident_char s") auto
qed

text \<open>\<open>_PATH_TEMPLATE_PARAM_RE.findall\<close>: leftmost matches that do not overlap.\<close>

function find_params :: "string \<Rightarrow> string list" where
  "find_params [] = []"
| "find_params (c # s) =
     (if c = CHR ''{''
      then (case match_param s of Some (name, rest) \<Rightarrow> name # find_params rest | None \<Rightarrow> find_params s)
      else find_params s)"
  by pat_completeness auto
termination
  by (relation "measure length") (auto dest: match_param_length)

text \<open>\<open>None\<close>: the template has a replacement field that is not a name, or a single brace.\<close>

function format_template :: "string \<Rightarrow> (string, pyval) dict \<Rightarrow> string result option" where
  "format_template [] params = Some (Inr [])"
| "format_template (c # s) params =
     (if c = CHR ''{'' then
        (if take 1 s = ''{'' then map_option (\<lambda>r. bind_r r (\<lambda>t. Inr (CHR ''{'' # t))) (format_template (drop 1 s) params)
         else (case match_param s of
             None \<Rightarrow> None
           | Some (name, rest) \<Rightarrow>
              (case map_of params name of
                 None \<Rightarrow> Some (Inl (KeyError name))
               | Some v \<Rightarrow> map_option (\<lambda>r. bind_r r (\<lambda>t. Inr (py_str v @ t))) (format_template rest params))))
      else if c = CHR ''}'' then
        (if take 1 s = ''}'' then map_option (\<lambda>r. bind_r r (\<lambda>t. Inr (CHR ''}'' # t))) (format_template (drop 1 s) params)
         else None)
      else map_option (\<lambda>r. bind_r r (\<lambda>t. Inr (c # t))) (format_template s params))"
  by pat_completeness auto
termination
  by (relation "measure (\<lambda>(s, params). length s)") (auto dest: match_param_length)

declare find_params.simps(2) [simp del] format_template.simps(2) [simp del]

definition render_path_template ::
    "(string \<Rightarrow> (string, pyval) dict \<Rightarrow> string result) \<Rightarrow> string \<Rightarrow> string \<Rightarrow> (string, pyval) dict option \<Rightarrow> string result" where
  "render_path_template other alias path_template params =
     (let ps = (case params of None \<Rightarrow> [] | Some d \<Rightarrow> d);
          missing = filter (\<lambda>name. map_of ps name = None) (find_params path_template)
      in if missing \<noteq> []
         then Inl (ValueError (''operation '' @ repr_string alias @ '' missing path params: '' @ py_join '', '' (sort missing)))
         else (case (case format_template path_template ps of None \<Rightarrow> other path_template ps | Some r \<Rightarrow> r) of
             Inl (KeyError name) \<Rightarrow> Inl (ValueError (''operation '' @ repr_string alias @ '' missing path param: '' @ repr_string name))
           | r \<Rightarrow> r))"

definition dict_update :: "('k, 'v) dict \<Rightarrow> ('k, 'v) dict \<Rightarrow> ('k, 'v) dict" where
  "dict_update d other = fold (\<lambda>(k, v). AList.update k v) other d"

definition build_http_request ::
    "(string \<Rightarrow> (string, pyval) dict \<Rightarrow> string result) \<Rightarrow> string \<Rightarrow> http_operation \<Rightarrow> (string, pyval) dict option
     \<Rightarrow> (string, pyval) dict option \<Rightarrow> (string, string) dict option \<Rightarrow> http_request result" where
  "build_http_request other alias op params query_overrides header_overrides =
     bind_r (render_path_template other alias (ho_path_template op) params) (\<lambda>path.
       Inr \<lparr>hr_method = ho_method op, hr_path = path,
         hr_query = dict_update (ho_query_defaults op) (case query_overrides of None \<Rightarrow> [] | Some q \<Rightarrow> q),
         hr_headers = dict_update (ho_header_defaults op) (case header_overrides of None \<Rightarrow> [] | Some h \<Rightarrow> h),
         hr_json = PNone, hr_timeout_s = None, hr_expected_statuses = [200]\<rparr>)"

text \<open>\<open>CompiledHttpOperation.build\<close> and \<open>compile_http_operation\<close>; \<open>read\<close> is pydantic's reading.\<close>

definition build_compiled ::
    "(string \<Rightarrow> (string, pyval) dict \<Rightarrow> string result) \<Rightarrow> http_operation \<Rightarrow> int list \<Rightarrow> http_request compiled_operation" where
  "build_compiled other op expected alias params query_overrides =
     bind_r (build_http_request other alias op params query_overrides None) (\<lambda>req.
       Inr (req\<lparr>hr_expected_statuses := expected\<rparr>))"

definition compile_http_operation ::
    "(string \<Rightarrow> (string, pyval) dict \<Rightarrow> string result) \<Rightarrow> ((string, pyval) dict \<Rightarrow> http_operation result) \<Rightarrow> operation_spec
     \<Rightarrow> http_request compiled_operation result" where
  "compile_http_operation other read op =
     (if os_kind op \<noteq> ''http'' then Inl (ValueError (''operation '' @ repr_string (os_alias op) @ '' is not http''))
      else if os_data op = [] then Inl (ValueError (''operation '' @ repr_string (os_alias op) @ '' requires transport payload''))
      else bind_r (bind_r (read (os_data op)) validate_http_operation) (\<lambda>data.
        Inr (build_compiled other data (os_expected_statuses op))))"

section \<open>One attempt\<close>

record raw_response =
  rw_status_code :: int
  rw_headers :: "(string, string) dict"
  rw_text :: string
  rw_json :: "pyval option"

datatype client_result =
    Client_Response raw_response
  | Client_Network_Error string
  | Client_Raised string

record http_response =
  hp_status_code :: int
  hp_headers :: "(string, string) dict"
  hp_body :: pyval
  hp_body_snippet :: "string option"

record http_error =
  he_code :: string
  he_message :: string

record http_outcome =
  hc_response :: "http_response option"
  hc_error :: "http_error option"

definition BODY_SNIPPET_LIMIT :: nat where
  "BODY_SNIPPET_LIMIT = 200"

definition parse_body :: "raw_response \<Rightarrow> pyval \<times> string option" where
  "parse_body r =
     (if rw_text r = [] then (PNone, None)
      else (let snippet = Some (take BODY_SNIPPET_LIMIT (rw_text r))
            in case rw_json r of Some v \<Rightarrow> (v, snippet) | None \<Rightarrow> (PStr (rw_text r), snippet)))"

text \<open>\<open>request_once\<close>; \<open>Inl\<close> is an exception it does not catch.\<close>

definition request_once ::
    "(http_request \<Rightarrow> 'w \<Rightarrow> 'w \<times> client_result) \<Rightarrow> http_request \<Rightarrow> 'w \<Rightarrow> 'w \<times> (string + http_outcome)" where
  "request_once client req w =
     (case client req w of
        (w', Client_Network_Error m) \<Rightarrow>
          (w', Inr \<lparr>hc_response = None, hc_error = Some \<lparr>he_code = ''NETWORK_ERROR'', he_message = m\<rparr>\<rparr>)
      | (w', Client_Raised m) \<Rightarrow> (w', Inl m)
      | (w', Client_Response r) \<Rightarrow>
          (let (body, snippet) = parse_body r
           in (w', Inr \<lparr>hc_response = Some \<lparr>hp_status_code = rw_status_code r, hp_headers = rw_headers r,
                          hp_body = body, hp_body_snippet = snippet\<rparr>, hc_error = None\<rparr>)))"

record http_normalized =
  hn_status_code :: "int option"
  hn_body :: pyval
  hn_body_snippet :: "string option"
  hn_error_code :: "string option"
  hn_error_message :: "string option"
  hn_retry_after_s :: "py_seconds option"

text \<open>The standard library's parsers and the clock.\<close>

record parsers =
  ps_float :: "string \<Rightarrow> py_seconds option"
  ps_http_date :: "string \<Rightarrow> py_datetime option"
  ps_now :: py_datetime

definition not_negative :: "py_seconds \<Rightarrow> bool" where
  "not_negative d = (case d of Seconds x \<Rightarrow> 0 \<le> x | Plus_Infinity \<Rightarrow> True | _ \<Rightarrow> False)"

definition parse_retry_after :: "parsers \<Rightarrow> string option \<Rightarrow> py_seconds option" where
  "parse_retry_after ps header =
     (case header of
        None \<Rightarrow> None
      | Some text \<Rightarrow>
         (let candidate = py_strip text
          in if candidate = [] then None
             else (case ps_float ps candidate of
                 Some seconds \<Rightarrow> if not_negative seconds then Some seconds else None
               | None \<Rightarrow>
                  (case ps_http_date ps candidate of
                     None \<Rightarrow> None
                   | Some when \<Rightarrow>
                      (let delta = rat_of_int (utc_micros when - utc_micros (ps_now ps)) / 1000000
                       in Some (Seconds (if 0 < delta then delta else 0)))))))"

definition header_value :: "(string, string) dict \<Rightarrow> string \<Rightarrow> string option" where
  "header_value headers name =
     map_option snd (find (\<lambda>(k, v). py_lower k = py_lower (py_strip name)) headers)"

definition normalize_http_outcome :: "parsers \<Rightarrow> http_outcome \<Rightarrow> http_normalized" where
  "normalize_http_outcome ps outcome =
     (case hc_error outcome of
        Some e \<Rightarrow> \<lparr>hn_status_code = None, hn_body = PNone, hn_body_snippet = None, hn_error_code = Some (he_code e),
                   hn_error_message = Some (he_message e), hn_retry_after_s = None\<rparr>
      | None \<Rightarrow>
         (case hc_response outcome of
            None \<Rightarrow> \<lparr>hn_status_code = None, hn_body = PNone, hn_body_snippet = None,
                     hn_error_code = Some ''HTTP_OUTCOME_EMPTY'', hn_error_message = Some ''empty http outcome'',
                     hn_retry_after_s = None\<rparr>
          | Some r \<Rightarrow> \<lparr>hn_status_code = Some (hp_status_code r), hn_body = hp_body r, hn_body_snippet = hp_body_snippet r,
                       hn_error_code = None, hn_error_message = None,
                       hn_retry_after_s = parse_retry_after ps (header_value (hp_headers r) ''Retry-After'')\<rparr>))"

section \<open>The driver\<close>

record 'w http_driver =
  hd_client :: "http_request \<Rightarrow> 'w \<Rightarrow> 'w \<times> client_result"
  hd_build_paged :: "http_request \<Rightarrow> int \<Rightarrow> int \<Rightarrow> http_request"
  hd_extract_items :: "pyval \<Rightarrow> pyval list result"
  hd_error_reason :: "(pyval \<Rightarrow> string option \<Rightarrow> string option) option"
  hd_parsers :: parsers

definition driver_error_of ::
    "http_normalized \<Rightarrow> string option \<Rightarrow> string \<Rightarrow> string \<Rightarrow> (string, pyval) dict \<Rightarrow> driver_error" where
  "driver_error_of n reason message code details =
     \<lparr>de_message = message, de_code = code, de_answer_code = opt_int (hn_status_code n),
      de_content_preview = hn_body_snippet n, de_details = details, de_retry_after_s = hn_retry_after_s n,
      de_error_reason = reason\<rparr>"

definition bare_driver_error :: "string \<Rightarrow> string \<Rightarrow> driver_error" where
  "bare_driver_error message code =
     \<lparr>de_message = message, de_code = code, de_answer_code = PNone, de_content_preview = None, de_details = [],
      de_retry_after_s = None, de_error_reason = None\<rparr>"

definition error_reason_of :: "'w http_driver \<Rightarrow> http_normalized \<Rightarrow> string option" where
  "error_reason_of d n = (case hd_error_reason d of None \<Rightarrow> None | Some f \<Rightarrow> f (hn_body n) (hn_body_snippet n))"

text \<open>One attempt as the driver sees it: the exception's text, or the normalised outcome and its reason.\<close>

definition attempt_http :: "'w http_driver \<Rightarrow> http_request \<Rightarrow> 'w \<Rightarrow> 'w \<times> (string + http_normalized \<times> string option)" where
  "attempt_http d req w =
     (case request_once (hd_client d) req w of
        (w', Inl m) \<Rightarrow> (w', Inl m)
      | (w', Inr outcome) \<Rightarrow>
          (let n = normalize_http_outcome (hd_parsers d) outcome in (w', Inr (n, error_reason_of d n))))"

definition http_execute :: "'w http_driver \<Rightarrow> http_request \<Rightarrow> pyval \<Rightarrow> 'w \<Rightarrow> 'w \<times> driver_outcome" where
  "http_execute d req payload w =
     (case attempt_http d (req\<lparr>hr_json := payload\<rparr>) w of
        (w', Inl m) \<Rightarrow> (w', Driver_Crashed m)
      | (w', Inr (n, reason)) \<Rightarrow>
          (w', case hn_error_code n of
             Some code \<Rightarrow> Driver_Failed (driver_error_of n reason (str_or (hn_error_message n) code) code [])
           | None \<Rightarrow>
              (case hn_status_code n of
                 None \<Rightarrow> Driver_Failed (bare_driver_error ''empty http response'' ''HTTP_OUTCOME_EMPTY'')
               | Some status \<Rightarrow>
                  Responded (make_driver_response
                    \<lparr>dr_ok = (status \<in> set (hr_expected_statuses req)), dr_answer_code = PInt status, dr_payload = hn_body n,
                     dr_content_preview = hn_body_snippet n,
                     dr_payload_format = infer_response_payload_format (hn_body n), dr_error_reason = reason,
                     dr_retry_after_s = hn_retry_after_s n\<rparr>))))"

text \<open>What one page attempt gives: an exception, or the items.\<close>

definition page_items ::
    "'w http_driver \<Rightarrow> http_request \<Rightarrow> http_normalized \<Rightarrow> string option \<Rightarrow> driver_error + pyval list" where
  "page_items d req n reason =
     (case hn_error_code n of
        Some code \<Rightarrow> Inl (driver_error_of n reason (str_or (hn_error_message n) code) code [])
      | None \<Rightarrow>
         (if \<not> (case hn_status_code n of None \<Rightarrow> False | Some s \<Rightarrow> s \<in> set (hr_expected_statuses req))
          then Inl (driver_error_of n reason (''target answer '' @ py_str (opt_int (hn_status_code n)))
                     (''HTTP_'' @ py_str (opt_int (hn_status_code n)))
                     (case hn_body_snippet n of Some (c # cs) \<Rightarrow> [(''content_preview'', PStr (c # cs))] | _ \<Rightarrow> []))
          else (case hd_extract_items d (hn_body n) of
              Inl e \<Rightarrow> Inl (bare_driver_error (exn_text e) ''INVALID_ITEMS_FORMAT'')
            | Inr items \<Rightarrow> Inr items)))"

text \<open>\<open>taken\<close> is the number of times the consumer asks for a page.\<close>

fun batches_from ::
    "'w http_driver \<Rightarrow> http_request \<Rightarrow> int \<Rightarrow> int option \<Rightarrow> nat \<Rightarrow> int \<Rightarrow> 'w \<Rightarrow> 'w \<times> (int \<times> pyval) list \<times> batch_end" where
  "batches_from d req bsize max_batches 0 page w = (w, [], Consumer_Stopped)"
| "batches_from d req bsize max_batches (Suc taken) page w =
     (if (case max_batches of None \<Rightarrow> False | Some k \<Rightarrow> k < page) then (w, [], Exhausted)
      else (case attempt_http d (hd_build_paged d req page bsize) w of
          (w', Inl m) \<Rightarrow> (w', [], Batch_Crashed m)
        | (w', Inr (n, reason)) \<Rightarrow>
            (case page_items d req n reason of
               Inl e \<Rightarrow> (w', [], Batch_Failed e)
             | Inr items \<Rightarrow>
                 if items = [] then (w', [], Exhausted)
                 else if int (length items) < bsize then (w', [(page, PList items)], Exhausted)
                 else (let (w'', pages, fin) = batches_from d req bsize max_batches taken (page + 1) w'
                       in (w'', (page, PList items) # pages, fin)))))"

definition http_iter_batches ::
    "'w http_driver \<Rightarrow> nat \<Rightarrow> http_request \<Rightarrow> int \<Rightarrow> int option \<Rightarrow> 'w \<Rightarrow> 'w \<times> (int \<times> pyval) list \<times> batch_end" where
  "http_iter_batches d taken req bsize max_batches w = batches_from d req bsize max_batches taken 1 w"

lemma batches_from_pages:
  "batches_from d req bsize m taken page w = (w', pages, fin) \<Longrightarrow>
     map fst pages = [page .. page + int (length pages) - 1] \<and> (\<forall>k. m = Some k \<longrightarrow> int (length pages) \<le> max 0 (k - page + 1))"
proof (induction taken arbitrary: page w w' pages fin)
  case (Suc taken)
  from Suc.prems show ?case
  proof (cases "pages = []")
    case False
    then obtain items w1 rest fin' where split: "pages = (page, PList items) # rest"
        "rest = [] \<or> batches_from d req bsize m taken (page + 1) w1 = (w', rest, fin')"
        "\<not> (case m of None \<Rightarrow> False | Some k \<Rightarrow> k < page)"
      using Suc.prems by (auto simp: Let_def split: if_splits prod.splits sum.splits)
    show ?thesis
    proof (cases "rest = []")
      case True
      then show ?thesis using split by (auto split: option.splits)
    next
      case False
      with split(2) have "batches_from d req bsize m taken (page + 1) w1 = (w', rest, fin')" by blast
      from Suc.IH [OF this] have "map fst rest = [page + 1 .. page + int (length rest)]"
        "\<forall>k. m = Some k \<longrightarrow> int (length rest) \<le> max 0 (k - page)" by simp_all
      then show ?thesis using split by (auto simp: upto_rec1 split: option.splits)
    qed
  qed (auto simp: upto_empty)
qed (auto simp: upto_empty)

interpretation http_paging: paged_driver "http_iter_batches d taken" for d :: "'w http_driver" and taken
proof
  fix req n w w' pages fin and m :: "int option"
  assume "http_iter_batches d taken req n m w = (w', pages, fin)"
  from batches_from_pages [OF this [unfolded http_iter_batches_def]]
  show "map fst pages = [1 .. int (length pages)]" by simp
next
  fix req n w w' pages fin and k :: int
  assume "http_iter_batches d taken req n (Some k) w = (w', pages, fin)"
  from batches_from_pages [OF this [unfolded http_iter_batches_def]]
  show "int (length pages) \<le> max 0 k" by simp
qed

text \<open>A read with a page limit ends by itself.\<close>

lemma batches_from_ends:
  "max 0 (k - page + 1) < int taken \<Longrightarrow> batches_from d req bsize (Some k) taken page w = (w', pages, fin) \<Longrightarrow> fin \<noteq> Consumer_Stopped"
proof (induction taken arbitrary: page w w' pages fin)
  case (Suc taken)
  show ?case
  proof (cases "k < page")
    case False
    then have "max 0 (k - (page + 1) + 1) < int taken" using Suc.prems(1) by simp
    from Suc.IH [OF this] Suc.prems(2) False show ?thesis
      by (auto simp: Let_def split: if_splits prod.splits sum.splits)
  qed (use Suc.prems in auto)
qed simp

end
