(* ===== verification/Ankey_Provider.thy ===== *)
theory Ankey_Provider
  imports Http_Transport
begin

text \<open>
  Model of the Ankey REST provider (\<open>connector/infra/target/providers/ankey_rest\<close>): paging, the
  detection of error reasons, the retry mutation and the gateway put together from them, with the
  properties of the target layer as a whole.  The YAML specification and \<open>uuid4\<close> are arguments.
\<close>

section \<open>Provider\<close>

definition ITEMS_KEYS :: "string list" where
  "ITEMS_KEYS = [''items'', ''data'', ''users'', ''organizations'', ''orgs'', ''result'']"

definition ankey_build_paged :: "http_request \<Rightarrow> int \<Rightarrow> int \<Rightarrow> http_request" where
  "ankey_build_paged base_req page batch_size =
     base_req\<lparr>hr_query := dict_setdefault
       (AList.update ''rows'' (PInt batch_size) (AList.update ''page'' (PInt page) (hr_query base_req)))
       ''_queryFilter'' (PStr ''true'')\<rparr>"

fun first_list :: "(string, pyval) dict \<Rightarrow> string list \<Rightarrow> pyval list option" where
  "first_list d [] = None"
| "first_list d (k # ks) = (case map_of d k of Some (PList l) \<Rightarrow> Some l | _ \<Rightarrow> first_list d ks)"

definition ankey_extract_items :: "pyval \<Rightarrow> pyval list result" where
  "ankey_extract_items body =
     (case body of
        PList l \<Rightarrow> Inr l
      | PDict d \<Rightarrow> (case first_list d ITEMS_KEYS of
           Some l \<Rightarrow> Inr l
         | None \<Rightarrow> Inl (ValueError ''Unexpected response format: no items array''))
      | _ \<Rightarrow> Inl (ValueError ''Unexpected response format: no items array''))"

definition detect_ankey_error_reason :: "pyval \<Rightarrow> string option \<Rightarrow> string option" where
  "detect_ankey_error_reason payload content_preview =
     (let haystacks = (case payload of PStr s \<Rightarrow> [s] | PDict d \<Rightarrow> map (\<lambda>(k, v). py_str v) d | _ \<Rightarrow> [])
            @ (case content_preview of Some (c # cs) \<Rightarrow> [c # cs] | _ \<Rightarrow> []);
          joined = py_lower (py_join '' '' haystacks)
      in if py_contains ''resourceexists'' joined \<or> py_contains ''resource exists'' joined
         then Some ''resourceexists'' else None)"

definition regenerate_target_id :: "('w \<Rightarrow> 'w \<times> string) \<Rightarrow> 'w mutation" where
  "regenerate_target_id uuid4 req w =
     (let (w', fresh) = uuid4 w;
          params = (case rs_operation_params req of None \<Rightarrow> [] | Some d \<Rightarrow> d)
      in (w', make_request_spec (rs_operation_alias req) (rs_payload req)
                (Some (AList.update ''target_id'' (PStr fresh) params))))"

definition build_ankey_mutations :: "('w \<Rightarrow> 'w \<times> string) \<Rightarrow> 'w mutation_registry" where
  "build_ankey_mutations uuid4 = [(''regenerate_target_id'', regenerate_target_id uuid4)]"

definition ankey_driver :: "(http_request \<Rightarrow> 'w \<Rightarrow> 'w \<times> client_result) \<Rightarrow> parsers \<Rightarrow> 'w http_driver" where
  "ankey_driver client ps = \<lparr>hd_client = client, hd_build_paged = ankey_build_paged, hd_extract_items = ankey_extract_items,
     hd_error_reason = Some detect_ankey_error_reason, hd_parsers = ps\<rparr>"

text \<open>What the composition takes from outside.\<close>

record 'w environment =
  en_client :: "http_request \<Rightarrow> 'w \<Rightarrow> 'w \<times> client_result"
  en_parsers :: parsers
  en_uuid4 :: "'w \<Rightarrow> 'w \<times> string"
  en_wait :: "int \<Rightarrow> 'w \<Rightarrow> 'w \<times> rat"
  en_latency :: "'w \<Rightarrow> 'w \<Rightarrow> int"
  en_read :: "(string, pyval) dict \<Rightarrow> http_operation result"
  en_format :: "string \<Rightarrow> (string, pyval) dict \<Rightarrow> string result"

definition build_transport_compiler_registry :: "'w environment \<Rightarrow> http_request compiler_registry result" where
  "build_transport_compiler_registry env = register_compiler ''http'' (compile_http_operation (en_format env) (en_read env)) []"

definition build_gateway :: "'w environment \<Rightarrow> nat \<Rightarrow> target_spec \<Rightarrow> int \<Rightarrow> rat \<Rightarrow> (http_request, 'w) gateway result" where
  "build_gateway env taken spec retries backoff =
     bind_r (build_transport_compiler_registry env) (\<lambda>reg.
     bind_r (make_kernel (apply_retry_overrides retries backoff spec) reg) (\<lambda>k.
       (let driver = ankey_driver (en_client env) (en_parsers env)
        in Inr \<lparr>g_kernel = k, g_mutations = build_ankey_mutations (en_uuid4 env), g_execute = http_execute driver,
                g_iter_batches = http_iter_batches driver taken, g_wait = en_wait env, g_latency_ms = en_latency env\<rparr>)))"

section \<open>Lemmas\<close>

lemma ankey_mutations_quiet: "quiet_mutations (build_ankey_mutations uuid4)"
  by (auto simp: quiet_mutations_def build_ankey_mutations_def regenerate_target_id_def make_request_spec_def Let_def
      split: prod.splits if_splits)

lemma build_gateway_Inr:
  "build_gateway env taken spec retries backoff = Inr g \<Longrightarrow>
     g_mutations g = build_ankey_mutations (en_uuid4 env)
     \<and> g_iter_batches g = http_iter_batches (ankey_driver (en_client env) (en_parsers env)) taken
     \<and> max_retries g = retries
     \<and> g_execute g = http_execute (ankey_driver (en_client env) (en_parsers env)) \<and> g_wait g = en_wait env"
  by (auto simp: build_gateway_def Let_def bind_r_Inr_iff max_retries_def apply_retry_overrides_def dest!: make_kernel_tables)

lemma batches_from_same:
  "max 0 (k - page + 1) < int t \<Longrightarrow> max 0 (k - page + 1) < int t' \<Longrightarrow>
     batches_from d req n (Some k) t page w = batches_from d req n (Some k) t' page w"
proof (induction t arbitrary: t' page w)
  case (Suc t)
  obtain u where u: "t' = Suc u" using Suc.prems(2) by (cases t') auto
  show ?case
  proof (cases "k < page")
    case False
    then have "max 0 (k - (page + 1) + 1) < int t" "max 0 (k - (page + 1) + 1) < int u"
      using Suc.prems u by simp_all
    note e = Suc.IH [OF this]
    show ?thesis using False unfolding u batches_from.simps e by simp
  qed (simp add: u)
qed simp

text \<open>Replacing the retry fields of a valid configuration need not give a valid one.\<close>

lemma retry_overrides_unchecked:
  assumes "validate_retry_config (ts_retry_config spec) = Inr (ts_retry_config spec)"
  shows "isl (validate_retry_config (ts_retry_config (apply_retry_overrides retries backoff spec))) \<longleftrightarrow>
    retries < 0 \<or> backoff < 0 \<or> rc_backoff_max (ts_retry_config spec) < backoff"
  using assms by (auto simp: validate_retry_config_def apply_retry_overrides_def split: if_splits)

text \<open>A template with escaped braces asks for a parameter that its text does not use.\<close>

lemma escaped_braces_required:
  "render_path_template other ''a'' ''/v/{{id}}'' None = Inl (ValueError (''operation '' @ repr_string ''a'' @ '' missing path params: id''))
   \<and> format_template ''/v/{{id}}'' [] = Some (Inr ''/v/{id}'')"
proof
  have "find_params ''/v/{{id}}'' = [''id'']" by code_simp
  then show "render_path_template other ''a'' ''/v/{{id}}'' None
      = Inl (ValueError (''operation '' @ repr_string ''a'' @ '' missing path params: id''))"
    by (simp add: render_path_template_def)
  show "format_template ''/v/{{id}}'' [] = Some (Inr ''/v/{id}'')" by code_simp
qed

text \<open>What an attempt of the driver asks to wait for is what the parser of Retry-After gives.\<close>

lemma ankey_outcome_short:
  assumes "g_execute g = http_execute (ankey_driver client ps)"
    and "\<And>header d. parse_retry_after ps header = Some d \<Longrightarrow> time_sleep (max_zero d) = Inr ()"
    and "judge_attempt k (snd (g_execute g req p w)) = Failed action (Some d) res"
  shows "time_sleep (max_zero d) = Inr ()"
proof -
  have "\<exists>header. parse_retry_after ps header = Some d"
    using assms(1,3)
    by (auto simp: http_execute_def attempt_http_def judge_attempt_def failed_response_def failed_exception_def Let_def
        driver_error_of_def bare_driver_error_def make_driver_response_def normalize_http_outcome_def ankey_driver_def
        split: prod.splits sum.splits if_splits option.splits)
  with assms(2) show ?thesis by blast
qed

section \<open>Properties\<close>

text \<open>A server that asks for no wait longer than a sleep can give, and wait strategies that give none.\<close>

definition waits_are_short :: "'w environment \<Rightarrow> bool" where
  "waits_are_short env \<longleftrightarrow> (\<forall>n w. snd (en_wait env n w) < SLEEP_LIMIT)
     \<and> (\<forall>header d. parse_retry_after (en_parsers env) header = Some d \<longrightarrow> time_sleep (max_zero d) = Inr ())"

text \<open>
  C31. Whatever the network does, at most \<open>retries\<close> + 1 requests are sent for a request given to the Ankey gateway, and
  it ends in a result, or in the OverflowError of a sleep after a counted retry - and always in a result where the
  Retry-After of the server and the wait strategy stay below what a sleep can take.
\<close>

theorem ankey_execute_returns:
  assumes "build_gateway env taken spec retries backoff = Inr g" "gateway_execute g req st = (st', r)"
  shows "gs_requests_total st' \<le> gs_requests_total st + nat retries + 1
    \<and> ((\<exists>res. r = Inr res) \<or> r = Inl sleep_overflow \<and> gs_retries_total st < gs_retries_total st')
    \<and> (waits_are_short env \<longrightarrow> (\<exists>res. r = Inr res))"
proof (cases "require_capability (g_kernel g) Cap_execute")
  case (Inl err)
  then show ?thesis using assms(2) by (auto simp: gateway_execute_def)
next
  case (Inr u)
  note g = build_gateway_Inr [OF assms(1)]
  have l: "execute_loop g 0 req st = (st', r)" using Inr assms(2) by (simp add: gateway_execute_def)
  have quiet: "quiet_mutations (g_mutations g)" using g ankey_mutations_quiet by metis
  have overflow: "e = sleep_overflow \<and> gs_retries_total st < gs_retries_total st'" if "r = Inl e" for e
    using execute_loop_quiet [OF quiet l [unfolded that]] execute_overflow_counted [OF _ quiet, of 0 req st st'] l that by simp
  have "\<exists>res. r = Inr res" if "waits_are_short env"
    proof (rule short_waits_return [OF _ _ quiet l])
    show "snd (g_wait g n w) < SLEEP_LIMIT" for n w using that g by (simp add: waits_are_short_def)
    show "time_sleep (max_zero d) = Inr ()" if j: "judge_attempt (g_kernel g) (snd (g_execute g q p w)) = Failed action (Some d) res" for q p w action d res
      using ankey_outcome_short [OF _ _ j] g \<open>waits_are_short env\<close> by (auto simp: waits_are_short_def)
  qed
  moreover have "gs_requests_total st' \<le> gs_requests_total st + nat retries + 1"
    using execute_loop_counts [OF l] g by auto
  ultimately show ?thesis using overflow by (cases r) auto
qed

definition example_environment :: "nat environment" where
  "example_environment = \<lparr>en_client = (\<lambda>req w. (w + 1, if w < 2 then Client_Network_Error ''down''
       else Client_Response \<lparr>rw_status_code = 200, rw_headers = [], rw_text = ''[1]'', rw_json = Some (PList [PInt 1])\<rparr>)),
     en_parsers = \<lparr>ps_float = (\<lambda>s. None), ps_http_date = (\<lambda>s. None), ps_now = \<lparr>dt_year = 2026, dt_month = 1, dt_day = 1,
       dt_hour = 0, dt_minute = 0, dt_second = 0, dt_micro = 0, dt_offset = Some 0\<rparr>\<rparr>,
     en_uuid4 = (\<lambda>w. (w + 1, ''uuid'' @ nat_str w)), en_wait = (\<lambda>n w. (w, 1)), en_latency = (\<lambda>w w'. int w' - int w),
     en_read = (\<lambda>d. Inr \<lparr>ho_method = ''GET'', ho_path_template = ''/health'', ho_query_defaults = [], ho_header_defaults = []\<rparr>),
     en_format = (\<lambda>t d. Inl (ValueError t))\<rparr>"

lemma example_gateway_built: "\<exists>g. build_gateway example_environment 5 example_target 2 1 = Inr g"
proof -
  have "\<not> isl (build_gateway example_environment 5 example_target 2 1)" by code_simp
  then show ?thesis by (rule not_isl_Inr)
qed

lemma ankey_execute_returns_witness:
  "\<exists>g st' res. build_gateway example_environment 5 example_target 2 1 = Inr g
     \<and> gateway_execute g health_request \<lparr>gs_requests_total = 0, gs_retries_total = 0, gs_failures_total = 0, gs_slept = [],
         gs_world = 0\<rparr> = (st', Inr res)
     \<and> gs_requests_total st' \<le> 3"
proof -
  obtain g where g: "build_gateway example_environment 5 example_target 2 1 = Inr g"
    using example_gateway_built by blast
  let ?st = "\<lparr>gs_requests_total = 0, gs_retries_total = 0, gs_failures_total = 0, gs_slept = [], gs_world = 0\<rparr>"
  obtain st' r where e: "gateway_execute g health_request ?st = (st', r)" by fastforce
  have "waits_are_short example_environment"
    by (auto simp: waits_are_short_def example_environment_def SLEEP_LIMIT_def parse_retry_after_def Let_def split: option.splits if_splits)
  with ankey_execute_returns [OF g e] g e show ?thesis by auto
qed

text \<open>
  C32. A paged read gives the pages 1, 2, ... of one attempt, each once and in order, with their
  sensitive values masked, followed by at most one failed page that has the number of the last page given;
  with a page limit it gives no more pages than the limit.  Only the sleep before a retry can raise, and then nothing
  was given.
\<close>

theorem ankey_read_pages:
  assumes "build_gateway env taken spec retries backoff = Inr g"
    and "iter_pages g alias page_size max_pages params st = (st', results, raised)"
  shows "\<exists>pages. map fst pages = [1 .. int (length pages)]
    \<and> (raised \<noteq> None \<longrightarrow> raised = Some sleep_overflow \<and> pages = [] \<and> results = [])
    \<and> (results = map (\<lambda>(p, items). ok_page p items) pages
       \<or> (\<exists>code message details. results = map (\<lambda>(p, items). ok_page p items) pages
             @ [fail_page (int (length pages)) code message details]))
    \<and> (\<forall>k. max_pages = Some k \<longrightarrow> int (length pages) \<le> max 0 k)
    \<and> gs_requests_total st' = gs_requests_total st + length pages
    \<and> gs_retries_total st' \<le> gs_retries_total st + nat retries"
proof -
  note g = build_gateway_Inr [OF assms(1)]
  let ?prep = "bind_r (require_capability (g_kernel g) Cap_read_paged) (\<lambda>_.
      bind_r (get_compiled_operation (g_kernel g) alias) (\<lambda>(_, compiled). compiled alias None params))"
  show ?thesis
  proof (cases ?prep)
    case (Inl e)
    then have "results = map (\<lambda>(p, items). ok_page p items) [] @ [fail_page (int (length [])) (if is_value_error e then
        FAULT_TO_SYSTEM Fault_SPEC else INFRA_UNAVAILABLE) (truncate_default (exn_text e)) None]" "st' = count_failure st" "raised = None"
      using assms(2) by (simp_all add: iter_pages_def)
    then show ?thesis by (intro exI [of _ "[]"]) auto
  next
    case (Inr req)
    then have l: "read_loop g 0 req page_size max_pages st = (st', results, raised)"
      using assms(2) by (simp add: iter_pages_def)
    have i: "g_iter_batches g = http_iter_batches (ankey_driver (en_client env) (en_parsers env)) taken" using g by blast
    obtain w w' pages fin where b:
      "http_iter_batches (ankey_driver (en_client env) (en_parsers env)) taken req page_size max_pages w = (w', pages, fin)"
      and r: "map fst pages = [1 .. int (length pages)]" "gs_requests_total st' = gs_requests_total st + length pages"
        "gs_retries_total st' \<le> gs_retries_total st + nat (max_retries g - 0)"
        "raised \<noteq> None \<longrightarrow> raised = Some sleep_overflow \<and> pages = [] \<and> results = []"
        "raised = None \<and> (fin = Exhausted \<or> fin = Consumer_Stopped) \<longrightarrow> results = map (\<lambda>(p, items). ok_page p items) pages"
        "raised = None \<and> fin \<noteq> Exhausted \<and> fin \<noteq> Consumer_Stopped \<longrightarrow> (\<exists>code message details. results =
            map (\<lambda>(p, items). ok_page p items) pages @ [fail_page (int (length pages)) code message details])"
      using http_paging.read_loop_once [OF i l] by blast
    have "\<forall>k. max_pages = Some k \<longrightarrow> int (length pages) \<le> max 0 k"
      using http_paging.page_limit b by auto
    with r g show ?thesis by (intro exI [of _ pages]) (cases raised; cases fin; simp)
  qed
qed

lemma ankey_read_pages_witness:
  "\<exists>g pages. build_gateway example_environment 5 example_target 2 1 = Inr g
     \<and> map fst pages = [1 .. int (length pages)]
     \<and> take (length pages) (fst (snd (iter_pages g ''health'' 1 (Some 3) None \<lparr>gs_requests_total = 0, gs_retries_total = 0,
          gs_failures_total = 0, gs_slept = [], gs_world = 0\<rparr>))) = map (\<lambda>(p, items). ok_page p items) pages
     \<and> length pages \<le> 3"
proof -
  obtain g where g: "build_gateway example_environment 5 example_target 2 1 = Inr g"
    using example_gateway_built by blast
  let ?st = "\<lparr>gs_requests_total = 0, gs_retries_total = 0, gs_failures_total = 0, gs_slept = [], gs_world = 0\<rparr>"
  obtain pages where "map fst pages = [1 .. int (length pages)]" "int (length pages) \<le> 3"
    "take (length pages) (fst (snd (iter_pages g ''health'' 1 (Some 3) None ?st))) = map (\<lambda>(p, items). ok_page p items) pages"
  proof -
    obtain st' results raised where e: "iter_pages g ''health'' 1 (Some 3) None ?st = (st', results, raised)" by (metis prod_cases3)
    from ankey_read_pages [OF g e] e that show thesis by (auto simp: max_def)
  qed
  with g show ?thesis by auto
qed

text \<open>
  A read with a page limit ends: a consumer that asks once more than the limit has seen the end, and
  asking for more does not change what it got.
\<close>

theorem limited_read_ends:
  assumes "0 \<le> k" "k < int taken" "k < int taken'"
  shows "http_iter_batches d taken req n (Some k) w = http_iter_batches d taken' req n (Some k) w
    \<and> snd (snd (http_iter_batches d taken req n (Some k) w)) \<noteq> Consumer_Stopped"
proof
  show "http_iter_batches d taken req n (Some k) w = http_iter_batches d taken' req n (Some k) w"
    using assms batches_from_same [of k 1 taken taken'] by (simp add: http_iter_batches_def)
  obtain w' pages fin where "batches_from d req n (Some k) taken 1 w = (w', pages, fin)" by (metis prod_cases3)
  moreover from batches_from_ends [OF _ this] assms have "fin \<noteq> Consumer_Stopped" by simp
  ultimately show "snd (snd (http_iter_batches d taken req n (Some k) w)) \<noteq> Consumer_Stopped"
    by (simp add: http_iter_batches_def)
qed

definition example_request :: http_request where
  "example_request = \<lparr>hr_method = ''GET'', hr_path = ''/users'', hr_query = [], hr_headers = [], hr_json = PNone,
     hr_timeout_s = None, hr_expected_statuses = [200]\<rparr>"

lemma limited_read_ends_witness:
  "http_iter_batches (ankey_driver (en_client example_environment) (en_parsers example_environment)) 3 example_request 1 (Some 2) 5
   = http_iter_batches (ankey_driver (en_client example_environment) (en_parsers example_environment)) 9 example_request 1 (Some 2) 5"
  by (rule limited_read_ends [THEN conjunct1]) simp_all

end
