(* ===== verification/Cache_Graph.thy ===== *)
theory Cache_Graph
  imports Nexus_Prelude
begin

text \<open>
  Model of \<open>connector/domain/cache_core\<close>: the dependency graph of the cache datasets
  (\<open>cache_dependency_graph.py\<close>), the refresh and clear planners on top of it, the
  schema-drift comparison and the status evaluator.  The topological order is Kahn's
  algorithm over an in-degree table and a queue; the scope expansions are work lists.
\<close>

section \<open>Adjacency lists built by the two nested loops\<close>

type_synonym dep_map = "(string, string list) dict"

definition build_dependents :: "dep_map \<Rightarrow> dep_map" where
  "build_dependents deps =
     fold (\<lambda>(dataset, ds) rev_map. fold (\<lambda>dep r. dict_append r dep dataset) ds rev_map) deps []"

fun count_edges_of :: "string \<Rightarrow> string list \<Rightarrow> (string, int) dict \<times> dep_map \<Rightarrow> (string, int) dict \<times> dep_map" where
  "count_edges_of name [] st = st"
| "count_edges_of name (dep # ds) (indegree, edges) =
     count_edges_of name ds
       (AList.update name (dict_get_or indegree name 0 + 1) indegree, dict_append edges dep name)"

definition count_edges :: "string list \<Rightarrow> dep_map \<Rightarrow> (string, int) dict \<times> dep_map" where
  "count_edges datasets deps =
     fold (\<lambda>(name, ds) st. count_edges_of name ds st) deps (map (\<lambda>n. (n, 0)) datasets, [])"

section \<open>Kahn's queue\<close>

text \<open>The inner \<open>for nxt in edges.get(current, ())\<close> loop.\<close>

fun relax :: "string list \<Rightarrow> (string, int) dict \<Rightarrow> string list \<Rightarrow> (string, int) dict \<times> string list" where
  "relax [] indegree queue = (indegree, queue)"
| "relax (nxt # ns) indegree queue =
     (let d = dict_get_or indegree nxt 0 - 1;
          indegree' = AList.update nxt d indegree
      in relax ns indegree' (if d = 0 then queue @ [nxt] else queue))"

definition pos_in :: "string set \<Rightarrow> (string, int) dict \<Rightarrow> string set" where
  "pos_in U ind = {n \<in> U. 0 < dict_get_or ind n 0}"

lemma relax_measure:
  assumes "finite U" "set ns \<subseteq> U" "relax ns ind q = (ind', q')"
  shows "length q' + card (pos_in U ind') \<le> length q + card (pos_in U ind)"
  using assms(2,3)
proof (induction ns arbitrary: ind q)
  case Nil
  then show ?case by simp
next
  case (Cons n ns)
  let ?d = "dict_get_or ind n 0 - 1"
  let ?ind = "AList.update n ?d ind"
  let ?q = "if ?d = 0 then q @ [n] else q"
  have IH: "length q' + card (pos_in U ind') \<le> length ?q + card (pos_in U ?ind)"
    by (rule Cons.IH) (use Cons.prems in \<open>simp_all add: Let_def\<close>)
  have fin: "finite (pos_in U ind)"
    using assms(1) by (simp add: pos_in_def)
  have "length ?q + card (pos_in U ?ind) \<le> length q + card (pos_in U ind)"
  proof (cases "?d = 0")
    case True
    then have n: "n \<in> pos_in U ind" and eq: "pos_in U ?ind = pos_in U ind - {n}"
      using Cons.prems(1) by (auto simp: pos_in_def)
    have "card (pos_in U ind) = Suc (card (pos_in U ind - {n}))"
      by (rule card.remove [OF fin n])
    then show ?thesis
      using True eq by simp
  next
    case False
    have "pos_in U ?ind \<subseteq> pos_in U ind"
      by (auto simp: pos_in_def split: if_splits)
    then have "card (pos_in U ?ind) \<le> card (pos_in U ind)"
      by (rule card_mono [OF fin])
    then show ?thesis
      using False by simp
  qed
  with IH show ?case by linarith
qed

function kahn :: "dep_map \<Rightarrow> (string, int) dict \<Rightarrow> string list \<Rightarrow> string list \<Rightarrow> string list" where
  "kahn edges indegree [] ordered = ordered"
| "kahn edges indegree (current # queue) ordered =
     (let (indegree', queue') = relax (dict_get_or edges current []) indegree queue
      in kahn edges indegree' queue' (ordered @ [current]))"
  by pat_completeness auto
termination
proof (relation "measure (\<lambda>(es, ind, q, out). length q + card (pos_in (targets es) ind))", goal_cases)
  case 1
  show ?case by simp
next
  case (2 es ind x q out p ind' q')
  then have "relax (dict_get_or es x []) ind q = (ind', q')" by simp
  then have "length q' + card (pos_in (targets es) ind') \<le> length q + card (pos_in (targets es) ind)"
    by (rule relax_measure [OF finite_targets set_get_targets])
  then show ?case by simp
qed

definition topological_order :: "string list \<Rightarrow> dep_map \<Rightarrow> string list result" where
  "topological_order datasets deps =
     (let (indegree, edges) = count_edges datasets deps;
          queue = filter (\<lambda>n. dict_get_or indegree n 0 = 0) datasets;
          ordered = kahn edges indegree queue []
      in if length ordered \<noteq> length datasets
         then Inl (ValueError ''CacheDependencyGraph contains dependency cycle'')
         else Inr ordered)"

section \<open>Scope expansion\<close>

text \<open>
  \<open>_expand_dependencies\<close> and \<open>_expand_dependents\<close> are the same loop over two maps; the
  set \<open>scope\<close> is a list of its members in insertion order.
\<close>

fun push_new :: "string list \<Rightarrow> string list \<Rightarrow> string list \<Rightarrow> string list \<times> string list" where
  "push_new [] scope queue = (scope, queue)"
| "push_new (d # ds) scope queue =
     (if d \<in> set scope then push_new ds scope queue
      else push_new ds (scope @ [d]) (queue @ [d]))"

lemma push_new_measure:
  assumes "finite U" "set ds \<subseteq> U" "push_new ds scope q = (scope', q')"
  shows "length q' + card (U - set scope') \<le> length q + card (U - set scope)"
  using assms(2,3)
proof (induction ds arbitrary: scope q)
  case Nil
  then show ?case by simp
next
  case (Cons d ds)
  show ?case
  proof (cases "d \<in> set scope")
    case True
    with Cons show ?thesis by simp
  next
    case False
    with Cons have "length q' + card (U - set scope') \<le> length (q @ [d]) + card (U - set (scope @ [d]))"
      by (intro Cons.IH) simp_all
    moreover have "card (U - set scope) = Suc (card ((U - set scope) - {d}))"
      using False Cons.prems(1) assms(1) by (intro card.remove) auto
    moreover have "U - set (scope @ [d]) = (U - set scope) - {d}"
      by auto
    ultimately show ?thesis by simp
  qed
qed

function expand :: "dep_map \<Rightarrow> string list \<Rightarrow> string list \<Rightarrow> string list" where
  "expand m scope [] = scope"
| "expand m scope (current # queue) =
     (let (scope', queue') = push_new (dict_get_or m current []) scope queue
      in expand m scope' queue')"
  by pat_completeness auto
termination
proof (relation "measure (\<lambda>(m, scope, q). length q + card (targets m - set scope))", goal_cases)
  case 1
  show ?case by simp
next
  case (2 m scope x q p scope' q')
  then have "push_new (dict_get_or m x []) scope q = (scope', q')" by simp
  then have "length q' + card (targets m - set scope') \<le> length q + card (targets m - set scope)"
    by (rule push_new_measure [OF finite_targets set_get_targets])
  then show ?case by simp
qed

definition expand_dependencies :: "string list \<Rightarrow> dep_map \<Rightarrow> string list" where
  "expand_dependencies scope deps = expand deps scope scope"

definition expand_dependents :: "string list \<Rightarrow> dep_map \<Rightarrow> string list" where
  "expand_dependents scope dependents = expand dependents scope scope"

section \<open>The graph object\<close>

record cache_dependency_graph =
  cg_datasets :: "string list"
  cg_dependencies :: dep_map
  cg_dependents :: dep_map
  cg_topo :: "string list"

definition normalize_deps :: "string list \<Rightarrow> dep_map \<Rightarrow> dep_map" where
  "normalize_deps ordered raw = map (\<lambda>n. (n, dict_fromkeys (dict_get_or raw n []))) ordered"

definition unknown_deps :: "string list \<Rightarrow> dep_map \<Rightarrow> string list" where
  "unknown_deps datasets deps =
     concat (map (\<lambda>(name, ds). [name @ ''->'' @ dep. dep \<leftarrow> ds, dep \<notin> set datasets]) deps)"

definition make_graph :: "string list \<Rightarrow> dep_map option \<Rightarrow> cache_dependency_graph result" where
  "make_graph datasets dependencies =
     (let ordered = dict_fromkeys datasets;
          raw = (case dependencies of None \<Rightarrow> [] | Some d \<Rightarrow> d);
          dep_map = normalize_deps ordered raw;
          unknown = unknown_deps ordered dep_map
      in if ordered = []
         then Inl (ValueError ''CacheDependencyGraph requires at least one dataset'')
         else if unknown \<noteq> []
         then Inl (ValueError (''CacheDependencyGraph has unknown dependencies: '' @ py_join '', '' unknown))
         else (case topological_order ordered dep_map of
             Inl e \<Rightarrow> Inl e
           | Inr topo \<Rightarrow> Inr \<lparr>cg_datasets = ordered, cg_dependencies = dep_map,
                             cg_dependents = build_dependents dep_map, cg_topo = topo\<rparr>))"

definition ensure_dataset :: "cache_dependency_graph \<Rightarrow> string \<Rightarrow> unit result" where
  "ensure_dataset g dataset =
     (if dataset \<in> set (dict_keys (cg_dependencies g)) then Inr ()
      else Inl (ValueError (''Unsupported cache dataset: '' @ dataset)))"

definition refresh_order :: "cache_dependency_graph \<Rightarrow> string option \<Rightarrow> bool \<Rightarrow> string list result" where
  "refresh_order g dataset include_dependencies =
     (case dataset of
        None \<Rightarrow> Inr (cg_topo g)
      | Some d \<Rightarrow>
         (case ensure_dataset g d of
            Inl e \<Rightarrow> Inl e
          | Inr _ \<Rightarrow>
             if \<not> include_dependencies then Inr [d]
             else (let scope = expand_dependencies [d] (cg_dependencies g)
                   in Inr (filter (\<lambda>name. name \<in> set scope) (cg_topo g)))))"

definition clear_order :: "cache_dependency_graph \<Rightarrow> string option \<Rightarrow> bool \<Rightarrow> string list result" where
  "clear_order g dataset cascade =
     (case dataset of
        None \<Rightarrow> Inr (cg_topo g)
      | Some d \<Rightarrow>
         (case ensure_dataset g d of
            Inl e \<Rightarrow> Inl e
          | Inr _ \<Rightarrow>
             if \<not> cascade then Inr [d]
             else (let scope = expand_dependents [d] (cg_dependents g)
                   in Inr (filter (\<lambda>name. name \<in> set scope) (rev (cg_topo g))))))"


section \<open>The relation behind an adjacency dictionary\<close>

definition dep_rel :: "dep_map \<Rightarrow> (string \<times> string) set" where
  "dep_rel m = {(x, d). d \<in> set (dict_get_or m x [])}"

text \<open>Every element of the list comes after everything it depends on.\<close>

definition deps_first :: "dep_map \<Rightarrow> string list \<Rightarrow> bool" where
  "deps_first m xs \<longleftrightarrow> (\<forall>ys x zs. xs = ys @ x # zs \<longrightarrow> set (dict_get_or m x []) \<subseteq> set ys)"

definition wf_deps :: "string list \<Rightarrow> dep_map \<Rightarrow> bool" where
  "wf_deps datasets m \<longleftrightarrow> distinct datasets \<and> map fst m = datasets
     \<and> (\<forall>(n, ds) \<in> set m. distinct ds \<and> set ds \<subseteq> set datasets)"

lemma wf_deps_get:
  assumes "wf_deps V m" "(n, ds) \<in> set m"
  shows "dict_get_or m n [] = ds"
  using assms by (simp add: wf_deps_def dict_get_or_def map_of_is_SomeI)

lemma wf_deps_outside:
  assumes "wf_deps V m" "n \<notin> set V"
  shows "dict_get_or m n [] = []"
proof -
  have "n \<notin> fst ` set m"
    using assms by (force simp: wf_deps_def)
  then have "map_of m n = None"
    by (simp add: map_of_eq_None_iff)
  then show ?thesis by (simp add: dict_get_or_def)
qed

lemma wf_deps_pair:
  assumes "wf_deps V m" "n \<in> set V"
  shows "(n, dict_get_or m n []) \<in> set m"
proof -
  have "n \<in> fst ` set m"
    using assms by (force simp: wf_deps_def)
  then obtain ds where "(n, ds) \<in> set m" by force
  with wf_deps_get [OF assms(1) this] show ?thesis by simp
qed

lemma wf_deps_set:
  assumes "wf_deps V m"
  shows "distinct (dict_get_or m n []) \<and> set (dict_get_or m n []) \<subseteq> set V"
proof (cases "n \<in> set V")
  case True
  then show ?thesis
    using wf_deps_pair [OF assms True] assms by (fastforce simp: wf_deps_def)
next
  case False
  then show ?thesis by (simp add: wf_deps_outside [OF assms])
qed

lemma dep_rel_dom: "wf_deps V m \<Longrightarrow> dep_rel m \<subseteq> set V \<times> set V"
  using wf_deps_set [of V m] wf_deps_outside [of V m] by (fastforce simp: dep_rel_def)

section \<open>The tables the two loops build\<close>

lemma count_edges_of_edges:
  "dict_get_or (snd (count_edges_of name ds (ind, e))) d [] =
     dict_get_or e d [] @ replicate (count_list ds d) name"
  by (induction ds arbitrary: ind e) (auto simp: replicate_append_same simp flip: replicate_Suc)

lemma count_edges_of_indegree:
  "dict_get_or (fst (count_edges_of name ds (ind, e))) n 0 =
     dict_get_or ind n 0 + (if n = name then int (length ds) else 0)"
  by (induction ds arbitrary: ind e) auto

lemma replicate_count_distinct:
  "distinct ds \<Longrightarrow> replicate (count_list ds d) name = (if d \<in> set ds then [name] else [])"
  by (induction ds) (auto simp: count_list_0_iff)

lemma count_edges_fold_edges:
  assumes "\<forall>(n, ds) \<in> set m. distinct ds"
  shows "dict_get_or (snd (fold (\<lambda>(name, ds) st. count_edges_of name ds st) m st)) d []
    = dict_get_or (snd st) d [] @ map fst (filter (\<lambda>(n, ds). d \<in> set ds) m)"
  using assms
proof (induction m arbitrary: st)
  case Nil
  then show ?case by simp
next
  case (Cons p m)
  obtain name ds where p: "p = (name, ds)" by (cases p)
  have "dict_get_or (snd (count_edges_of name ds st)) d [] =
      dict_get_or (snd st) d [] @ (if d \<in> set ds then [name] else [])"
    using count_edges_of_edges [of name ds "fst st" "snd st" d] Cons.prems
    by (simp add: p replicate_count_distinct)
  with Cons show ?case by (simp add: p)
qed

lemma count_edges_fold_indegree:
  assumes "distinct (map fst m)"
  shows "dict_get_or (fst (fold (\<lambda>(name, ds) st. count_edges_of name ds st) m st)) n 0
    = dict_get_or (fst st) n 0 + int (length (dict_get_or m n []))"
  using assms
proof (induction m arbitrary: st)
  case Nil
  then show ?case by simp
next
  case (Cons p m)
  obtain name ds where p: "p = (name, ds)" by (cases p)
  have ind: "dict_get_or (fst (count_edges_of name ds st)) n 0 =
      dict_get_or (fst st) n 0 + (if n = name then int (length ds) else 0)"
    using count_edges_of_indegree [of name ds "fst st" "snd st" n] by simp
  have "map_of m name = None"
    using Cons.prems by (simp add: p map_of_eq_None_iff)
  with Cons ind show ?case by (simp add: p dict_get_or_def)
qed

lemma build_dependents_get:
  assumes "distinct (map fst m)" "\<forall>(n, ds) \<in> set m. distinct ds"
  shows "dict_get_or (build_dependents m) d [] = map fst (filter (\<lambda>(n, ds). d \<in> set ds) m)"
proof -
  have inner: "dict_get_or (fold (\<lambda>dep r. dict_append r dep name) ds r) d [] =
      dict_get_or r d [] @ replicate (count_list ds d) name" for name ds r
    by (induction ds arbitrary: r) (auto simp: replicate_append_same simp flip: replicate_Suc)
  have "dict_get_or (fold (\<lambda>(dataset, ds) rev_map. fold (\<lambda>dep r. dict_append r dep dataset) ds rev_map) m r) d []
      = dict_get_or r d [] @ map fst (filter (\<lambda>(n, ds). d \<in> set ds) m)" for r
    using assms(2)
  proof (induction m arbitrary: r)
    case Nil
    then show ?case by simp
  next
    case (Cons p m)
    obtain name ds where p: "p = (name, ds)" by (cases p)
    from Cons.prems have "distinct ds" by (simp add: p)
    with Cons show ?case by (simp add: p inner replicate_count_distinct)
  qed
  then show ?thesis by (simp add: build_dependents_def)
qed

lemma dependents_rel:
  assumes "wf_deps V m"
  shows "dep_rel (build_dependents m) = (dep_rel m)\<inverse>"
proof -
  have d: "distinct (map fst m)" "\<forall>(n, ds) \<in> set m. distinct ds"
    using assms by (auto simp: wf_deps_def)
  have "(n \<in> set (dict_get_or (build_dependents m) d [])) = (d \<in> set (dict_get_or m n []))" for n d
  proof -
    have "n \<in> set (dict_get_or (build_dependents m) d []) \<longleftrightarrow> (\<exists>ds. (n, ds) \<in> set m \<and> d \<in> set ds)"
      by (force simp: build_dependents_get [OF d])
    also have "\<dots> \<longleftrightarrow> d \<in> set (dict_get_or m n [])"
    proof
      assume "\<exists>ds. (n, ds) \<in> set m \<and> d \<in> set ds"
      then show "d \<in> set (dict_get_or m n [])"
        using wf_deps_get [OF assms] by auto
    next
      assume d: "d \<in> set (dict_get_or m n [])"
      then have "n \<in> set V" using wf_deps_outside [OF assms] by fastforce
      with d show "\<exists>ds. (n, ds) \<in> set m \<and> d \<in> set ds"
        using wf_deps_pair [OF assms] by blast
    qed
    finally show ?thesis .
  qed
  then show ?thesis by (auto simp: dep_rel_def)
qed

section \<open>Correctness of Kahn's queue\<close>

lemma relax_spec:
  assumes "distinct ns" "relax ns ind q = (ind', q')"
  shows "dict_get_or ind' k 0 = dict_get_or ind k 0 - (if k \<in> set ns then 1 else 0)
    \<and> q' = q @ filter (\<lambda>n. dict_get_or ind n 0 = 1) ns"
  using assms
proof (induction ns arbitrary: ind q)
  case Nil
  then show ?case by simp
next
  case (Cons n ns)
  let ?d = "dict_get_or ind n 0 - 1"
  let ?ind = "AList.update n ?d ind"
  have "dict_get_or ind' k 0 = dict_get_or ?ind k 0 - (if k \<in> set ns then 1 else 0)
    \<and> q' = (if ?d = 0 then q @ [n] else q) @ filter (\<lambda>k. dict_get_or ?ind k 0 = 1) ns"
    by (rule Cons.IH) (use Cons.prems in \<open>simp_all add: Let_def\<close>)
  moreover have "filter (\<lambda>k. dict_get_or ?ind k 0 = 1) ns = filter (\<lambda>k. dict_get_or ind k 0 = 1) ns"
    using Cons.prems(1) by (intro filter_cong) auto
  ultimately show ?case using Cons.prems(1) by auto
qed

lemma deps_first_Nil [simp]: "deps_first m []"
  by (simp add: deps_first_def)

lemma deps_first_snoc:
  "deps_first m (xs @ [x]) \<longleftrightarrow> deps_first m xs \<and> set (dict_get_or m x []) \<subseteq> set xs"
proof
  assume l: "deps_first m (xs @ [x])"
  then have "set (dict_get_or m x []) \<subseteq> set xs"
    unfolding deps_first_def by blast
  moreover have "deps_first m xs"
    unfolding deps_first_def
  proof (intro allI impI)
    fix ys y zs
    assume "xs = ys @ y # zs"
    then have "xs @ [x] = ys @ y # (zs @ [x])" by simp
    with l show "set (dict_get_or m y []) \<subseteq> set ys"
      unfolding deps_first_def by blast
  qed
  ultimately show "deps_first m xs \<and> set (dict_get_or m x []) \<subseteq> set xs" by simp
next
  assume r: "deps_first m xs \<and> set (dict_get_or m x []) \<subseteq> set xs"
  show "deps_first m (xs @ [x])"
    unfolding deps_first_def
  proof (intro allI impI)
    fix ys y zs
    assume eq: "xs @ [x] = ys @ y # zs"
    show "set (dict_get_or m y []) \<subseteq> set ys"
    proof (cases zs rule: rev_cases)
      case Nil
      with eq r show ?thesis by simp
    next
      case (snoc zs' z)
      with eq have "xs = ys @ y # zs'" by simp
      with r show ?thesis unfolding deps_first_def by blast
    qed
  qed
qed

definition kahn_inv :: "string list \<Rightarrow> dep_map \<Rightarrow> dep_map \<Rightarrow> (string, int) dict \<Rightarrow> string list \<Rightarrow> string list \<Rightarrow> bool" where
  "kahn_inv V m es ind q out \<longleftrightarrow> wf_deps V m
     \<and> (\<forall>d. distinct (dict_get_or es d []) \<and> set (dict_get_or es d []) = {n. d \<in> set (dict_get_or m n [])})
     \<and> distinct (out @ q) \<and> set (out @ q) \<subseteq> set V \<and> deps_first m out
     \<and> (\<forall>n \<in> set V. dict_get_or ind n 0 = int (card (set (dict_get_or m n []) - set out)))
     \<and> (\<forall>n \<in> set V. n \<in> set (out @ q) \<longleftrightarrow> set (dict_get_or m n []) \<subseteq> set out)"

lemma kahn_inv_step:
  assumes inv: "kahn_inv V m es ind (x # q) out"
    and r: "relax (dict_get_or es x []) ind q = (ind', q')"
  shows "kahn_inv V m es ind' q' (out @ [x])"
proof -
  let ?D = "\<lambda>n. set (dict_get_or m n [])"
  have E: "distinct (dict_get_or es x [])" "\<And>n. n \<in> set (dict_get_or es x []) \<longleftrightarrow> x \<in> ?D n"
    and wf: "wf_deps V m" and dist: "distinct (out @ x # q)"
    and sub: "set (out @ x # q) \<subseteq> set V" and df: "deps_first m out"
    and ind: "\<And>n. n \<in> set V \<Longrightarrow> dict_get_or ind n 0 = int (card (?D n - set out))"
    and mem: "\<And>n. n \<in> set V \<Longrightarrow> n \<in> set (out @ x # q) \<longleftrightarrow> ?D n \<subseteq> set out"
    using inv unfolding kahn_inv_def by auto
  have ind': "dict_get_or ind' k 0 = dict_get_or ind k 0 - (if x \<in> ?D k then 1 else 0)"
    and q': "q' = q @ filter (\<lambda>n. dict_get_or ind n 0 = 1) (dict_get_or es x [])" for k
    using relax_spec [OF E(1) r] E(2) by auto
  have x: "x \<notin> set out" "x \<in> set V" "?D x \<subseteq> set out"
    using dist sub mem [of x] by auto
  have inV: "n \<in> set V" if "x \<in> ?D n" for n
    using that wf_deps_outside [OF wf] by fastforce
  have one: "x \<in> ?D n \<and> dict_get_or ind n 0 = 1 \<longleftrightarrow> ?D n - set out = {x}" for n
  proof
    assume a: "x \<in> ?D n \<and> dict_get_or ind n 0 = 1"
    then have "card (?D n - set out) = 1" using ind [OF inV, of n] by simp
    then obtain y where y: "?D n - set out = {y}" by (rule card_1_singletonE)
    moreover have "x \<in> ?D n - set out" using a x(1) by simp
    ultimately show "?D n - set out = {x}" by simp
  next
    assume a: "?D n - set out = {x}"
    then have "x \<in> ?D n" by auto
    with ind [OF inV [OF this]] a show "x \<in> ?D n \<and> dict_get_or ind n 0 = 1" by simp
  qed
  then have new: "n \<in> set q' \<longleftrightarrow> n \<in> set q \<or> ?D n - set out = {x}" for n
    using E(2) by (auto simp: q')
  have fresh: "n \<notin> set (out @ x # q)" if "?D n - set out = {x}" for n
    using mem [of n] that sub by blast
  have "distinct (out @ [x] @ q')"
  proof -
    let ?f = "filter (\<lambda>n. dict_get_or ind n 0 = 1) (dict_get_or es x [])"
    have "n \<notin> set (out @ x # q)" if "n \<in> set ?f" for n
      using that E(2) one fresh by simp
    then have "set (out @ x # q) \<inter> set ?f = {}" by blast
    moreover have "distinct ?f" using E(1) by simp
    ultimately have "distinct ((out @ x # q) @ ?f)"
      using dist by (simp only: distinct_append)
    then show ?thesis by (simp add: q')
  qed
  moreover have "set (out @ [x] @ q') \<subseteq> set V"
  proof
    fix n assume "n \<in> set (out @ [x] @ q')"
    then have "n \<in> set (out @ x # q) \<or> x \<in> ?D n"
      using new [of n] one [of n] by (simp, blast)
    then show "n \<in> set V" using sub inV by blast
  qed
  moreover have "deps_first m (out @ [x])"
    using df x(3) by (simp add: deps_first_snoc)
  moreover have "\<forall>n \<in> set V. dict_get_or ind' n 0 = int (card (?D n - set (out @ [x])))"
  proof
    fix n assume n: "n \<in> set V"
    have eq: "?D n - set (out @ [x]) = (?D n - set out) - {x}" by auto
    show "dict_get_or ind' n 0 = int (card (?D n - set (out @ [x])))"
    proof (cases "x \<in> ?D n")
      case True
      then have "card (?D n - set out) = Suc (card ((?D n - set out) - {x}))"
        using x(1) by (intro card.remove) auto
      with True show ?thesis unfolding eq ind' ind [OF n] by simp
    next
      case False
      then show ?thesis unfolding eq ind' ind [OF n] by simp
    qed
  qed
  moreover have "\<forall>n \<in> set V. n \<in> set (out @ [x] @ q') \<longleftrightarrow> ?D n \<subseteq> set (out @ [x])"
  proof
    fix n assume n: "n \<in> set V"
    show "n \<in> set (out @ [x] @ q') \<longleftrightarrow> ?D n \<subseteq> set (out @ [x])"
    proof
      assume "n \<in> set (out @ [x] @ q')"
      then have "?D n \<subseteq> set out \<or> ?D n - set out = {x}"
        using mem [OF n] new [of n] by (simp, blast)
      then show "?D n \<subseteq> set (out @ [x])" by auto
    next
      assume "?D n \<subseteq> set (out @ [x])"
      then have "?D n \<subseteq> set out \<or> ?D n - set out = {x}" by auto
      then show "n \<in> set (out @ [x] @ q')"
        using mem [OF n] new [of n] by (simp, blast)
    qed
  qed
  ultimately show ?thesis
    using inv unfolding kahn_inv_def by simp
qed

lemma kahn_result:
  assumes "kahn_inv V m es ind q out"
  defines "r \<equiv> kahn es ind q out"
  shows "distinct r \<and> set r \<subseteq> set V \<and> deps_first m r
     \<and> (\<forall>n \<in> set V. n \<in> set r \<longleftrightarrow> set (dict_get_or m n []) \<subseteq> set r)"
  using assms(1) unfolding r_def
proof (induction es ind q out rule: kahn.induct)
  case (1 es ind out)
  then show ?case by (simp add: kahn_inv_def)
next
  case (2 es ind x q out)
  obtain ind2 q2 where r: "relax (dict_get_or es x []) ind q = (ind2, q2)"
    by (cases "relax (dict_get_or es x []) ind q")
  have "kahn es ind (x # q) out = kahn es ind2 q2 (out @ [x])"
    by (simp add: r)
  with "2.IH" [OF r [symmetric] refl] kahn_inv_step [OF "2.prems" r] show ?case
    by metis
qed

lemma kahn_inv_init:
  assumes "wf_deps V m" "count_edges V m = (ind, es)"
  shows "kahn_inv V m es ind (filter (\<lambda>n. dict_get_or ind n 0 = 0) V) []"
proof -
  have d: "distinct (map fst m)" "\<forall>(n, ds) \<in> set m. distinct ds"
    using assms(1) by (auto simp: wf_deps_def)
  have zero: "dict_get_or (map (\<lambda>n. (n, 0)) V) n (0 :: int) = 0" for n
    by (induction V) (auto simp: dict_get_or_def)
  have es: "dict_get_or es k [] = dict_get_or (build_dependents m) k []" for k
    using count_edges_fold_edges [OF d(2), of "(map (\<lambda>n. (n, 0)) V, [])" k] assms(2)
    by (simp add: count_edges_def build_dependents_get [OF d])
  have ind: "dict_get_or ind n 0 = int (card (set (dict_get_or m n [])))" for n
    using count_edges_fold_indegree [OF d(1), of "(map (\<lambda>n. (n, 0)) V, [])" n] assms(2)
      wf_deps_set [OF assms(1), of n]
    by (simp add: count_edges_def zero distinct_card)
  have "distinct (dict_get_or es k [])" for k
  proof -
    have "distinct (map fst (filter (\<lambda>(n, ds). k \<in> set ds) m))"
      using d(1) by (simp add: distinct_map inj_on_subset [of _ "set m"])
    then show ?thesis by (simp add: es build_dependents_get [OF d])
  qed
  moreover have "set (dict_get_or es k []) = {n. k \<in> set (dict_get_or m n [])}" for k
    using dependents_rel [OF assms(1)] by (auto simp: es dep_rel_def set_eq_iff)
  ultimately show ?thesis
    using assms(1) by (auto simp: kahn_inv_def ind wf_deps_def)
qed

lemma topological_order_Inr:
  assumes "wf_deps V m" "topological_order V m = Inr r"
  shows "distinct r \<and> set r = set V \<and> deps_first m r"
proof -
  obtain ind es where ce: "count_edges V m = (ind, es)" by (cases "count_edges V m")
  let ?q = "filter (\<lambda>n. dict_get_or ind n 0 = 0) V"
  have r: "r = kahn es ind ?q []" and len: "length r = length V"
    using assms(2) by (auto simp: topological_order_def ce Let_def split: if_splits)
  have "distinct r \<and> set r \<subseteq> set V \<and> deps_first m r"
    using kahn_result [OF kahn_inv_init [OF assms(1) ce]] r by blast
  moreover from this have "set r = set V"
    using distinct_length_eq_set [of r V] len assms(1) by (auto simp: wf_deps_def)
  ultimately show ?thesis by simp
qed

lemma deps_first_acyclic:
  assumes "deps_first m r" "distinct r" "dep_rel m \<subseteq> set r \<times> set r"
  shows "acyclic (dep_rel m)"
proof (rule acyclicI_order [where f = "\<lambda>x. length (takeWhile (\<lambda>y. y \<noteq> x) r)"])
  fix a b
  assume ab: "(a, b) \<in> dep_rel m"
  with assms(3) have "a \<in> set r" by auto
  then obtain ys zs where r: "r = ys @ a # zs" by (meson split_list)
  with ab assms(1) have "b \<in> set ys" unfolding deps_first_def dep_rel_def by blast
  moreover have "length (takeWhile (\<lambda>y. y \<noteq> a) r) = length ys"
  proof -
    have "\<forall>y \<in> set ys. y \<noteq> a" using assms(2) by (auto simp: r)
    then show ?thesis by (simp add: r)
  qed
  moreover have "length (takeWhile (\<lambda>y. y \<noteq> b) r) < length ys"
    using \<open>b \<in> set ys\<close> unfolding r
    by (induction ys) auto
  ultimately show "length (takeWhile (\<lambda>y. y \<noteq> b) r) < length (takeWhile (\<lambda>y. y \<noteq> a) r)"
    by simp
qed

lemma topological_order_Inl_cyclic:
  assumes "wf_deps V m" "topological_order V m = Inl e"
  shows "\<not> acyclic (dep_rel m)"
proof
  assume ac: "acyclic (dep_rel m)"
  obtain ind es where ce: "count_edges V m = (ind, es)" by (cases "count_edges V m")
  define r where "r = kahn es ind (filter (\<lambda>n. dict_get_or ind n 0 = 0) V) []"
  have res: "distinct r" "set r \<subseteq> set V"
      "\<And>n. n \<in> set V \<Longrightarrow> n \<in> set r \<longleftrightarrow> set (dict_get_or m n []) \<subseteq> set r"
    using kahn_result [OF kahn_inv_init [OF assms(1) ce]] unfolding r_def by blast+
  have "finite (dep_rel m)"
    using dep_rel_dom [OF assms(1)] by (rule finite_subset) simp
  then have wf: "wf ((dep_rel m)\<inverse>)"
    using ac by (rule finite_acyclic_wf_converse)
  have "n \<in> set V \<Longrightarrow> n \<in> set r" for n
    using wf
  proof (induction n rule: wf_induct_rule)
    case (less n)
    have "set (dict_get_or m n []) \<subseteq> set r"
    proof
      fix d assume d: "d \<in> set (dict_get_or m n [])"
      then have "(d, n) \<in> (dep_rel m)\<inverse>" by (simp add: dep_rel_def)
      moreover have "d \<in> set V" using d wf_deps_set [OF assms(1), of n] by blast
      ultimately show "d \<in> set r" using less.IH by blast
    qed
    with res(3) less.prems show ?case by blast
  qed
  with res(2) have "set r = set V" by blast
  then have "length r = length V"
    using res(1) assms(1) by (metis distinct_card wf_deps_def)
  with assms(2) show False
    by (simp add: topological_order_def ce r_def Let_def split: if_splits)
qed

section \<open>Scope expansion is the transitive closure\<close>

lemma push_new_spec:
  assumes "push_new ds scope q = (scope', q')"
  shows "set scope' = set scope \<union> set ds \<and> set q' = set q \<union> (set ds - set scope)
    \<and> (distinct scope \<longrightarrow> distinct scope')"
  using assms
proof (induction ds arbitrary: scope q)
  case Nil
  then show ?case by simp
next
  case (Cons d ds)
  show ?case
  proof (cases "d \<in> set scope")
    case True
    with Cons show ?thesis by fastforce
  next
    case False
    with Cons.prems have "push_new ds (scope @ [d]) (q @ [d]) = (scope', q')" by simp
    from Cons.IH [OF this] False show ?thesis by auto
  qed
qed

lemma expand_closed:
  assumes "set q \<subseteq> set scope"
    and "\<forall>x \<in> set scope - set q. set (dict_get_or m x []) \<subseteq> set scope"
  shows "set scope \<subseteq> set (expand m scope q)
    \<and> (\<forall>x \<in> set (expand m scope q). set (dict_get_or m x []) \<subseteq> set (expand m scope q))
    \<and> set (expand m scope q) \<subseteq> (dep_rel m)\<^sup>* `` set scope"
  using assms
proof (induction m scope q rule: expand.induct)
  case (1 m scope)
  then show ?case by auto
next
  case (2 m scope x q)
  obtain scope' q' where p: "push_new (dict_get_or m x []) scope q = (scope', q')"
    by (cases "push_new (dict_get_or m x []) scope q")
  have sc: "set scope' = set scope \<union> set (dict_get_or m x [])"
    and q': "set q' = set q \<union> (set (dict_get_or m x []) - set scope)"
    using push_new_spec [OF p] by auto
  have "set q' \<subseteq> set scope'"
    and "\<forall>y \<in> set scope' - set q'. set (dict_get_or m y []) \<subseteq> set scope'"
    using "2.prems" sc q' by fastforce+
  note IH = "2.IH" [OF p [symmetric] refl this]
  have "x \<in> set scope" using "2.prems" by simp
  then have "set scope' \<subseteq> (dep_rel m)\<^sup>* `` set scope"
    by (auto simp: sc dep_rel_def)
  then have "(dep_rel m)\<^sup>* `` set scope' \<subseteq> (dep_rel m)\<^sup>* `` ((dep_rel m)\<^sup>* `` set scope)"
    by (rule Image_mono [OF subset_refl])
  also have "\<dots> = (dep_rel m)\<^sup>* `` set scope"
    by (simp flip: relcomp_Image)
  finally have "(dep_rel m)\<^sup>* `` set scope' \<subseteq> (dep_rel m)\<^sup>* `` set scope" .
  with IH sc show ?case by (simp add: p) blast
qed

lemma expand_reachable:
  "set (expand m [d] [d]) = {x. (d, x) \<in> (dep_rel m)\<^sup>*}"
proof -
  let ?S = "set (expand m [d] [d])"
  have S: "d \<in> ?S" "\<And>x. x \<in> ?S \<Longrightarrow> set (dict_get_or m x []) \<subseteq> ?S"
      "?S \<subseteq> (dep_rel m)\<^sup>* `` {d}"
    using expand_closed [of "[d]" "[d]" m] by auto
  have "x \<in> ?S" if "(d, x) \<in> (dep_rel m)\<^sup>*" for x
    using that
  proof (induction rule: rtrancl_induct)
    case base
    then show ?case by (rule S(1))
  next
    case (step y z)
    then show ?case using S(2) [of y] by (auto simp: dep_rel_def)
  qed
  with S(3) show ?thesis by auto
qed

lemma deps_first_filter:
  assumes "deps_first m xs" "\<forall>x. P x \<longrightarrow> (\<forall>d \<in> set (dict_get_or m x []). P d)"
  shows "deps_first m (filter P xs)"
  using assms(1)
proof (induction xs rule: rev_induct)
  case Nil
  then show ?case by simp
next
  case (snoc x xs)
  then have "deps_first m (filter P xs)" "set (dict_get_or m x []) \<subseteq> set xs"
    by (simp_all add: deps_first_snoc)
  then show ?case using assms(2) by (auto simp: deps_first_snoc)
qed

lemma deps_first_reverse:
  assumes "wf_deps V m" "distinct r" "set r = set V" "deps_first m r"
  shows "deps_first (build_dependents m) (rev r)"
  unfolding deps_first_def
proof (intro allI impI subsetI)
  fix ys x zs n
  assume eq: "rev r = ys @ x # zs" and n: "n \<in> set (dict_get_or (build_dependents m) x [])"
  have r: "r = rev zs @ x # rev ys"
    using arg_cong [OF eq, of rev] by simp
  have x: "x \<in> set (dict_get_or m n [])"
    using n dependents_rel [OF assms(1)] by (auto simp: dep_rel_def set_eq_iff)
  then have "n \<in> set r"
    using dep_rel_dom [OF assms(1)] assms(3) by (auto simp: dep_rel_def)
  then obtain as bs where ab: "r = as @ n # bs" by (meson split_list)
  with assms(4) x have "x \<in> set as" unfolding deps_first_def by blast
  then obtain cs ds where as: "as = cs @ x # ds" by (meson split_list)
  have e: "cs @ x # (ds @ n # bs) = rev zs @ x # rev ys"
    using r ab as by simp
  have d: "distinct (cs @ x # (ds @ n # bs))"
    using assms(2) ab as by simp
  have "x \<notin> set cs" "x \<notin> set (ds @ n # bs)"
    using d by auto
  then have "ds @ n # bs = rev ys"
    using append_Cons_eq_iff [of x cs "ds @ n # bs" "rev zs" "rev ys"] e by blast
  then show "n \<in> set ys"
    by (metis in_set_conv_decomp set_rev)
qed

section \<open>What a constructed graph satisfies\<close>

definition graph_inv :: "cache_dependency_graph \<Rightarrow> bool" where
  "graph_inv g \<longleftrightarrow> cg_datasets g \<noteq> [] \<and> wf_deps (cg_datasets g) (cg_dependencies g)
     \<and> cg_dependents g = build_dependents (cg_dependencies g)
     \<and> distinct (cg_topo g) \<and> set (cg_topo g) = set (cg_datasets g)
     \<and> deps_first (cg_dependencies g) (cg_topo g)"

lemma normalize_deps_get:
  "n \<in> set V \<Longrightarrow> dict_get_or (normalize_deps V raw) n [] = dict_fromkeys (dict_get_or raw n [])"
  by (induction V) (auto simp: normalize_deps_def dict_get_or_def)

lemma unknown_deps_Nil:
  "unknown_deps V m = [] \<longleftrightarrow> (\<forall>(n, ds) \<in> set m. set ds \<subseteq> set V)"
  by (fastforce simp: unknown_deps_def split: if_splits)

lemma normalize_deps_wf:
  assumes "unknown_deps (dict_fromkeys V) (normalize_deps (dict_fromkeys V) raw) = []"
  shows "wf_deps (dict_fromkeys V) (normalize_deps (dict_fromkeys V) raw)"
proof -
  have "map fst (normalize_deps (dict_fromkeys V) raw) = dict_fromkeys V"
    by (simp add: normalize_deps_def comp_def)
  moreover have "\<forall>(n, ds) \<in> set (normalize_deps (dict_fromkeys V) raw). distinct ds"
    by (auto simp: normalize_deps_def)
  ultimately show ?thesis
    using assms by (fastforce simp: wf_deps_def unknown_deps_Nil)
qed

lemma make_graph_inv:
  assumes "make_graph ds deps = Inr g"
  shows "graph_inv g"
proof -
  let ?V = "dict_fromkeys ds" and ?m = "normalize_deps (dict_fromkeys ds) (case deps of None \<Rightarrow> [] | Some d \<Rightarrow> d)"
  from assms obtain topo where t: "topological_order ?V ?m = Inr topo" "unknown_deps ?V ?m = []" "ds \<noteq> []"
      "g = \<lparr>cg_datasets = ?V, cg_dependencies = ?m, cg_dependents = build_dependents ?m, cg_topo = topo\<rparr>"
    by (auto simp: make_graph_def Let_def split: if_splits sum.splits)
  from topological_order_Inr [OF normalize_deps_wf [OF t(2)] t(1)] normalize_deps_wf [OF t(2)] t(3)
  show ?thesis by (simp add: t(4) graph_inv_def)
qed

section \<open>The planners\<close>

record cache_refresh_plan =
  crp_datasets :: "string list"

record cache_clear_plan =
  ccp_datasets :: "string list"

definition plan_refresh :: "cache_dependency_graph \<Rightarrow> string option \<Rightarrow> bool \<Rightarrow> cache_refresh_plan result" where
  "plan_refresh g dataset include_dependencies =
     (case refresh_order g dataset include_dependencies of
        Inl e \<Rightarrow> Inl e
      | Inr datasets \<Rightarrow> Inr \<lparr>crp_datasets = datasets\<rparr>)"

definition plan_clear :: "cache_dependency_graph \<Rightarrow> string option \<Rightarrow> bool \<Rightarrow> cache_clear_plan result" where
  "plan_clear g dataset cascade =
     (case clear_order g dataset cascade of
        Inl e \<Rightarrow> Inl e
      | Inr datasets \<Rightarrow> Inr \<lparr>ccp_datasets = datasets\<rparr>)"

section \<open>Schema drift\<close>

datatype version_value = VersionInt int | VersionStr string

definition version_str :: "version_value \<Rightarrow> string" where
  "version_str v = (case v of VersionInt i \<Rightarrow> int_str i | VersionStr s \<Rightarrow> s)"

record cache_drift_result =
  has_drift :: bool
  expected :: "string option"
  actual :: "string option"
  reason :: "string option"

definition evaluate_schema_version :: "version_value option \<Rightarrow> string option \<Rightarrow> cache_drift_result" where
  "evaluate_schema_version expected_v actual_v =
     (let expected_norm = map_option version_str expected_v;
          actual_norm = actual_v
      in if expected_norm = None \<or> actual_norm = None
         then \<lparr>has_drift = False, expected = expected_norm, actual = actual_norm, reason = None\<rparr>
         else (let drift = (expected_norm \<noteq> actual_norm)
               in \<lparr>has_drift = drift, expected = expected_norm, actual = actual_norm,
                   reason = (if drift then Some ''schema_version_mismatch'' else None)\<rparr>))"

section \<open>The status evaluator\<close>

type_synonym meta_map = "(string, string option) dict"

record cache_dataset_snapshot =
  snap_dataset :: string
  snap_counts :: "(string, int) dict"
  snap_meta :: meta_map

record dataset_status =
  ds_count :: int
  ds_counts :: "(string, int) dict"
  ds_meta :: meta_map

text \<open>The two shapes of the dictionary \<open>evaluate\<close> returns.\<close>

datatype cache_status =
    OneDataset string "string option" "(string, int) dict" meta_map
  | AllDatasets "string option" meta_map "(string, dataset_status) dict" int

fun find_snapshot :: "cache_dataset_snapshot list \<Rightarrow> string \<Rightarrow> cache_dataset_snapshot result" where
  "find_snapshot [] dataset = Inl (ValueError (''Unsupported cache dataset: '' @ dataset))"
| "find_snapshot (snapshot # rest) dataset =
     (if snap_dataset snapshot = dataset then Inr snapshot else find_snapshot rest dataset)"

fun status_loop :: "cache_dataset_snapshot list \<Rightarrow> (string, dataset_status) dict \<Rightarrow> int \<Rightarrow> (string, dataset_status) dict \<times> int" where
  "status_loop [] by_dataset tot = (by_dataset, tot)"
| "status_loop (snapshot # rest) by_dataset tot =
     (let dataset_total = sum_list (map snd (snap_counts snapshot))
      in status_loop rest
           (AList.update (snap_dataset snapshot)
              \<lparr>ds_count = dataset_total, ds_counts = snap_counts snapshot, ds_meta = snap_meta snapshot\<rparr>
              by_dataset)
           (tot + dataset_total))"

definition evaluate_status ::
    "string option \<Rightarrow> meta_map \<Rightarrow> cache_dataset_snapshot list \<Rightarrow> string option \<Rightarrow> cache_status result" where
  "evaluate_status schema_version global_meta snapshots dataset =
     (case dataset of
        Some d \<Rightarrow>
          (case find_snapshot snapshots d of
             Inl e \<Rightarrow> Inl e
           | Inr snapshot \<Rightarrow>
               Inr (OneDataset d schema_version (snap_counts snapshot) (snap_meta snapshot)))
      | None \<Rightarrow>
          (let (by_dataset, tot) = status_loop snapshots [] 0
           in Inr (AllDatasets schema_version global_meta by_dataset tot)))"

lemma status_loop_distinct:
  assumes "distinct (map snap_dataset snaps)"
    and "set (map snap_dataset snaps) \<inter> fst ` set acc = {}"
    and "distinct (map fst acc)"
  shows "status_loop snaps acc t =
    (acc @ map (\<lambda>s. (snap_dataset s, \<lparr>ds_count = sum_list (map snd (snap_counts s)),
        ds_counts = snap_counts s, ds_meta = snap_meta s\<rparr>)) snaps,
     t + (\<Sum>s\<leftarrow>snaps. sum_list (map snd (snap_counts s))))"
  using assms
proof (induction snaps arbitrary: acc t)
  case Nil
  then show ?case by simp
next
  case (Cons s snaps)
  have u: "AList.update (snap_dataset s) v acc = acc @ [(snap_dataset s, v)]" for v
    using Cons.prems(2) by (intro update_fresh) auto
  show ?case
    using Cons.prems by (simp add: Let_def u, subst Cons.IH) auto
qed

section \<open>Reading the orders off a constructed graph\<close>

lemma ensure_dataset_graph:
  assumes "graph_inv g"
  shows "ensure_dataset g d =
    (if d \<in> set (cg_datasets g) then Inr () else Inl (ValueError (''Unsupported cache dataset: '' @ d)))"
  using assms by (simp add: ensure_dataset_def graph_inv_def wf_deps_def dict_keys_def)

lemma dep_rel_dependents:
  assumes "graph_inv g"
  shows "dep_rel (cg_dependents g) = (dep_rel (cg_dependencies g))\<inverse>"
  using assms unfolding graph_inv_def by (metis dependents_rel)

lemma reach_in_datasets:
  assumes "graph_inv g" "d \<in> set (cg_datasets g)" "(d, x) \<in> (dep_rel (cg_dependencies g))\<^sup>*"
  shows "x \<in> set (cg_datasets g)"
  using assms(3)
proof (induction rule: rtrancl_induct)
  case base
  then show ?case by (rule assms(2))
next
  case (step y z)
  then show ?case using assms(1) dep_rel_dom unfolding graph_inv_def by blast
qed

lemma reach_back_in_datasets:
  assumes "graph_inv g" "d \<in> set (cg_datasets g)" "(x, d) \<in> (dep_rel (cg_dependencies g))\<^sup>*"
  shows "x \<in> set (cg_datasets g)"
  using assms(3)
proof (induction rule: converse_rtrancl_induct)
  case base
  then show ?case by (rule assms(2))
next
  case (step y z)
  then show ?case using assms(1) dep_rel_dom unfolding graph_inv_def by blast
qed

section \<open>Properties\<close>

declare expand.simps [simp del]

definition known_deps :: "string list \<Rightarrow> dep_map \<Rightarrow> bool" where
  "known_deps datasets raw \<longleftrightarrow> (\<Union>n \<in> set datasets. set (dict_get_or raw n [])) \<subseteq> set datasets"

definition raw_rel :: "string list \<Rightarrow> dep_map \<Rightarrow> (string \<times> string) set" where
  "raw_rel datasets raw = {(n, d). n \<in> set datasets \<and> d \<in> set (dict_get_or raw n [])}"

lemma normalize_deps_outside: "n \<notin> set V \<Longrightarrow> dict_get_or (normalize_deps V raw) n [] = []"
  by (induction V) (auto simp: normalize_deps_def dict_get_or_def)

lemma dep_rel_normalize: "dep_rel (normalize_deps (dict_fromkeys ds) raw) = raw_rel ds raw"
proof -
  have "(n, d) \<in> dep_rel (normalize_deps (dict_fromkeys ds) raw) \<longleftrightarrow> (n, d) \<in> raw_rel ds raw" for n d
    by (cases "n \<in> set ds")
      (simp_all add: dep_rel_def raw_rel_def normalize_deps_get normalize_deps_outside)
  then show ?thesis by auto
qed

lemma unknown_deps_normalize:
  "unknown_deps (dict_fromkeys ds) (normalize_deps (dict_fromkeys ds) raw) = [] \<longleftrightarrow> known_deps ds raw"
  by (auto simp: unknown_deps_Nil normalize_deps_def known_deps_def)

text \<open>
  C26. The constructor of the dependency graph succeeds exactly on a non-empty list of datasets
  whose declared dependencies are all known and whose dependency relation is acyclic; every
  other input is rejected with an error, never accepted with a partial order.
\<close>

theorem make_graph_succeeds_iff:
  "(\<exists>g. make_graph ds (Some raw) = Inr g) \<longleftrightarrow>
     ds \<noteq> [] \<and> known_deps ds raw \<and> acyclic (raw_rel ds raw)"
proof -
  let ?V = "dict_fromkeys ds" and ?m = "normalize_deps (dict_fromkeys ds) raw"
  have topo: "(\<exists>t. topological_order ?V ?m = Inr t) \<longleftrightarrow> acyclic (raw_rel ds raw)"
    if "known_deps ds raw"
  proof -
    have wf: "wf_deps ?V ?m"
      using that by (intro normalize_deps_wf) (simp add: unknown_deps_normalize)
    show ?thesis
      using topological_order_Inr [OF wf] topological_order_Inl_cyclic [OF wf]
        deps_first_acyclic [of ?m] dep_rel_dom [OF wf]
      by (cases "topological_order ?V ?m") (fastforce simp: dep_rel_normalize)+
  qed
  show ?thesis
    using topo by (auto simp: make_graph_def Let_def unknown_deps_normalize split: sum.splits)
qed

text \<open>
  The full refresh order of a constructed graph lists every declared dataset exactly once,
  each one after all of its own dependencies.
\<close>

theorem refresh_order_all:
  assumes "make_graph ds deps = Inr g"
  shows "\<exists>xs. refresh_order g None b = Inr xs \<and> distinct xs \<and> set xs = set ds
    \<and> deps_first (cg_dependencies g) xs"
proof -
  have "set (cg_datasets g) = set ds"
    using assms by (auto simp: make_graph_def Let_def split: if_splits sum.splits)
  then show ?thesis
    using make_graph_inv [OF assms] by (simp add: refresh_order_def graph_inv_def)
qed

lemma refresh_order_all_witness:
  "\<exists>g xs. make_graph [''users'', ''orgs''] (Some [(''users'', [''orgs''])]) = Inr g
     \<and> refresh_order g None True = Inr xs \<and> set xs = {''users'', ''orgs''}
     \<and> deps_first (cg_dependencies g) xs"
proof -
  have "\<not> isl (make_graph [''users'', ''orgs''] (Some [(''users'', [''orgs''])]))"
    by code_simp
  then obtain g where g: "make_graph [''users'', ''orgs''] (Some [(''users'', [''orgs''])]) = Inr g"
    by (blast dest: not_isl_Inr)
  from refresh_order_all [OF g, of True] g show ?thesis by auto
qed

text \<open>
  C27. Refreshing one dataset with its dependencies visits exactly the datasets reachable from
  it through declared dependencies (itself included), each once, dependencies first.
\<close>

theorem refresh_order_with_dependencies:
  assumes "make_graph ds deps = Inr g" "d \<in> set ds"
  shows "\<exists>xs. refresh_order g (Some d) True = Inr xs \<and> distinct xs
    \<and> set xs = {x. (d, x) \<in> (dep_rel (cg_dependencies g))\<^sup>*}
    \<and> deps_first (cg_dependencies g) xs"
proof -
  have inv: "graph_inv g" by (rule make_graph_inv [OF assms(1)])
  have V: "set (cg_datasets g) = set ds"
    using assms by (auto simp: make_graph_def Let_def split: if_splits sum.splits)
  let ?P = "\<lambda>x. (d, x) \<in> (dep_rel (cg_dependencies g))\<^sup>*"
  have "refresh_order g (Some d) True = Inr (filter ?P (cg_topo g))"
    using assms(2) V
    by (simp add: refresh_order_def ensure_dataset_graph [OF inv] expand_dependencies_def
        expand_reachable)
  moreover have "set (filter ?P (cg_topo g)) = {x. ?P x}"
    using reach_in_datasets [OF inv, of d] assms(2) V inv by (auto simp: graph_inv_def)
  moreover have "deps_first (cg_dependencies g) (filter ?P (cg_topo g))"
    using inv by (intro deps_first_filter)
      (auto simp: graph_inv_def dep_rel_def intro: rtrancl_into_rtrancl)
  ultimately show ?thesis
    using inv by (auto simp: graph_inv_def)
qed

lemma refresh_order_with_dependencies_witness:
  "\<exists>g xs. make_graph [''u'', ''o'', ''x''] (Some [(''u'', [''o''])]) = Inr g
     \<and> refresh_order g (Some ''u'') True = Inr xs \<and> deps_first (cg_dependencies g) xs"
proof -
  have "\<not> isl (make_graph [''u'', ''o'', ''x''] (Some [(''u'', [''o''])]))"
    by code_simp
  then obtain g where g: "make_graph [''u'', ''o'', ''x''] (Some [(''u'', [''o''])]) = Inr g"
    by (blast dest: not_isl_Inr)
  from refresh_order_with_dependencies [OF g, of "''u''"] g show ?thesis by auto
qed

text \<open>
  C28. A cascading clear of one dataset removes exactly the datasets that depend on it, directly
  or through others (itself included), each once, and every dataset before the ones it depends
  on: no table is emptied while a table that refers to it still has its rows.
\<close>

theorem clear_order_cascade:
  assumes "make_graph ds deps = Inr g" "d \<in> set ds"
  shows "\<exists>xs. clear_order g (Some d) True = Inr xs \<and> distinct xs
    \<and> set xs = {x. (x, d) \<in> (dep_rel (cg_dependencies g))\<^sup>*}
    \<and> deps_first (cg_dependents g) xs"
proof -
  have inv: "graph_inv g" by (rule make_graph_inv [OF assms(1)])
  have V: "set (cg_datasets g) = set ds"
    using assms by (auto simp: make_graph_def Let_def split: if_splits sum.splits)
  let ?R = "dep_rel (cg_dependencies g)"
  let ?P = "\<lambda>x. (d, x) \<in> (?R\<inverse>)\<^sup>*"
  have P: "?P x \<longleftrightarrow> (x, d) \<in> ?R\<^sup>*" for x
    by (simp add: rtrancl_converse)
  have "clear_order g (Some d) True = Inr (filter ?P (rev (cg_topo g)))"
    using assms(2) V
    by (simp add: clear_order_def ensure_dataset_graph [OF inv] expand_dependents_def
        expand_reachable dep_rel_dependents [OF inv])
  moreover have "set (filter ?P (rev (cg_topo g))) = {x. (x, d) \<in> ?R\<^sup>*}"
    using reach_back_in_datasets [OF inv, of d] assms(2) V inv by (auto simp: P graph_inv_def)
  moreover have "deps_first (cg_dependents g) (rev (cg_topo g))"
    using inv deps_first_reverse [of "cg_datasets g" "cg_dependencies g" "cg_topo g"]
    by (simp add: graph_inv_def)
  then have "deps_first (cg_dependents g) (filter ?P (rev (cg_topo g)))"
  proof (rule deps_first_filter, intro allI impI ballI)
    fix x y assume "?P x" "y \<in> set (dict_get_or (cg_dependents g) x [])"
    then have "(x, y) \<in> ?R\<inverse>" by (metis dep_rel_dependents [OF inv] dep_rel_def mem_Collect_eq case_prodI)
    with \<open>?P x\<close> show "?P y" by (rule rtrancl_into_rtrancl)
  qed
  ultimately show ?thesis
    using inv by (auto simp: graph_inv_def)
qed

lemma clear_order_cascade_witness:
  "\<exists>g xs. make_graph [''u'', ''o'', ''x''] (Some [(''u'', [''o''])]) = Inr g
     \<and> clear_order g (Some ''o'') True = Inr xs \<and> deps_first (cg_dependents g) xs"
proof -
  have "\<not> isl (make_graph [''u'', ''o'', ''x''] (Some [(''u'', [''o''])]))"
    by code_simp
  then obtain g where g: "make_graph [''u'', ''o'', ''x''] (Some [(''u'', [''o''])]) = Inr g"
    by (blast dest: not_isl_Inr)
  from clear_order_cascade [OF g, of "''o''"] g show ?thesis by auto
qed

text \<open>
  A dataset the graph does not know is refused by both planners with the same error,
  whatever the flags.
\<close>

theorem planners_refuse_unknown:
  assumes "make_graph ds deps = Inr g" "d \<notin> set ds"
  shows "plan_refresh g (Some d) b = Inl (ValueError (''Unsupported cache dataset: '' @ d))
    \<and> plan_clear g (Some d) c = Inl (ValueError (''Unsupported cache dataset: '' @ d))"
proof -
  have inv: "graph_inv g" by (rule make_graph_inv [OF assms(1)])
  have V: "set (cg_datasets g) = set ds"
    using assms by (auto simp: make_graph_def Let_def split: if_splits sum.splits)
  show ?thesis
    using assms(2) V by (simp add: plan_refresh_def plan_clear_def refresh_order_def clear_order_def
        ensure_dataset_graph [OF inv])
qed

lemma planners_refuse_unknown_witness:
  "\<exists>g. make_graph [''u''] None = Inr g
     \<and> plan_clear g (Some ''v'') True = Inl (ValueError ''Unsupported cache dataset: v'')"
proof -
  have "\<not> isl (make_graph [''u''] None)"
    by code_simp
  then obtain g where g: "make_graph [''u''] None = Inr g"
    by (blast dest: not_isl_Inr)
  from planners_refuse_unknown [OF g, of "''v''"] g show ?thesis by auto
qed

text \<open>
  Schema drift is reported exactly when both versions are known and their renderings
  differ; the reason is present exactly with the drift, and integer versions never drift
  against their own decimal form.
\<close>

theorem drift_exact:
  "has_drift (evaluate_schema_version e a) =
     (\<exists>v s. e = Some v \<and> a = Some s \<and> version_str v \<noteq> s)
   \<and> (reason (evaluate_schema_version e a) \<noteq> None \<longleftrightarrow> has_drift (evaluate_schema_version e a))
   \<and> (has_drift (evaluate_schema_version (Some (VersionInt i)) (Some (int_str j))) \<longleftrightarrow> i \<noteq> j)"
  by (auto simp: evaluate_schema_version_def version_str_def Let_def)

text \<open>
  With pairwise distinct dataset names, the status report has one entry per snapshot in
  their order, each entry's count is the sum of its tables, and the total is the sum of the
  entries' counts.
\<close>

theorem status_totals:
  assumes "distinct (map snap_dataset snaps)"
  shows "\<exists>entries. evaluate_status v m snaps None = Inr (AllDatasets v m entries
        (sum_list (map (ds_count \<circ> snd) entries)))
    \<and> map fst entries = map snap_dataset snaps
    \<and> map (ds_count \<circ> snd) entries = map (\<lambda>s. sum_list (map snd (snap_counts s))) snaps"
  by (simp add: evaluate_status_def status_loop_distinct [OF assms] comp_def)

lemma status_totals_witness:
  "\<exists>entries. evaluate_status None []
       [\<lparr>snap_dataset = ''u'', snap_counts = [(''a'', 2), (''b'', 3)], snap_meta = []\<rparr>,
        \<lparr>snap_dataset = ''o'', snap_counts = [(''c'', 4)], snap_meta = []\<rparr>] None
     = Inr (AllDatasets None [] entries (sum_list (map (ds_count \<circ> snd) entries)))
     \<and> map (ds_count \<circ> snd) entries = [5, 4]"
  using status_totals [of "[\<lparr>snap_dataset = ''u'', snap_counts = [(''a'', 2), (''b'', 3)], snap_meta = []\<rparr>,
        \<lparr>snap_dataset = ''o'', snap_counts = [(''c'', 4)], snap_meta = []\<rparr>]" None "[]"]
  by auto

end
