(* ===== verification/Core_Catalog.thy ===== *)
theory Core_Catalog
  imports Diagnostics
begin

text \<open>
  The built-in catalog of \<open>connector/domain/diagnostics/core_catalog.py\<close>, entry by entry,
  and \<open>build_catalog\<close> of \<open>catalog.py\<close>.  The table is checked once here (its codes are
  distinct, so each lookup finds the entry as written), and the other theories use the lookups.
\<close>

section \<open>The core catalog\<close>

definition entry :: "string \<Rightarrow> system_error_code \<Rightarrow> diagnostic_severity option \<Rightarrow> catalog_entry" where
  "entry code sys sev = \<lparr>ce_diag_code = code, ce_system_code = sys, ce_default_message = None,
     ce_severity = sev, ce_retryable = False, ce_fatal = False\<rparr>"

definition core_entries_dsl :: "catalog_entry list" where
  "core_entries_dsl = [
    entry ''SOURCE_ERROR'' IO_ERROR (Some SEVERITY_ERROR),
    entry ''missing_source_column'' DATA_INVALID (Some SEVERITY_ERROR),
    entry ''DSL_REGISTRY_INVALID'' INTERNAL_ERROR (Some SEVERITY_ERROR),
    entry ''DSL_OP_UNKNOWN'' INTERNAL_ERROR (Some SEVERITY_ERROR),
    entry ''DSL_OP_FAILED'' DATA_INVALID (Some SEVERITY_ERROR),
    entry ''SOURCE_DSL_SPEC_INVALID'' DATA_INVALID (Some SEVERITY_ERROR),
    entry ''SOURCE_DSL_LOCATION_INVALID'' DATA_INVALID (Some SEVERITY_ERROR),
    entry ''MAP_DSL_SPEC_INVALID'' DATA_INVALID (Some SEVERITY_ERROR),
    entry ''MAP_DSL_COMPILE_INVALID'' INTERNAL_ERROR (Some SEVERITY_ERROR),
    entry ''NORMALIZE_DSL_SPEC_INVALID'' DATA_INVALID (Some SEVERITY_ERROR),
    entry ''NORMALIZE_DSL_COMPILE_INVALID'' INTERNAL_ERROR (Some SEVERITY_ERROR),
    entry ''ENRICH_DSL_SPEC_INVALID'' DATA_INVALID (Some SEVERITY_ERROR),
    entry ''ENRICH_DSL_TEMPLATE_INVALID'' DATA_INVALID (Some SEVERITY_ERROR),
    entry ''ENRICH_DSL_COMPILE_INVALID'' INTERNAL_ERROR (Some SEVERITY_ERROR),
    entry ''ENRICH_DSL_LOOKUP_PROVIDER_MISSING'' DATA_INVALID (Some SEVERITY_ERROR),
    entry ''ENRICH_DSL_LOOKUP_KEY_OP_FAILED'' DATA_INVALID (Some SEVERITY_ERROR),
    entry ''ENRICH_DSL_MERGE_POLICY_INVALID'' DATA_INVALID (Some SEVERITY_ERROR),
    entry ''DICT_DSL_REGISTRY_INVALID'' DATA_INVALID (Some SEVERITY_ERROR),
    entry ''DICT_DSL_SPEC_INVALID'' DATA_INVALID (Some SEVERITY_ERROR),
    entry ''DICT_SOURCE_READ_FAILED'' IO_ERROR (Some SEVERITY_ERROR),
    entry ''DICT_SOURCE_MANIFEST_MISSING'' DATA_INVALID (Some SEVERITY_ERROR),
    entry ''DICT_SOURCE_MANIFEST_INVALID'' DATA_INVALID (Some SEVERITY_ERROR),
    entry ''DICT_SOURCE_FINGERPRINT_MISMATCH'' DATA_INVALID (Some SEVERITY_ERROR),
    entry ''DICT_SCHEMA_INVALID'' DATA_INVALID (Some SEVERITY_ERROR),
    entry ''DICT_SOURCE_EMPTY'' DATA_INVALID (Some SEVERITY_WARNING),
    entry ''DICT_RUNTIME_INIT_FAILED'' INTERNAL_ERROR (Some SEVERITY_ERROR),
    entry ''VALIDATE_DSL_SPEC_INVALID'' DATA_INVALID (Some SEVERITY_ERROR),
    entry ''MATCH_DSL_SPEC_INVALID'' DATA_INVALID (Some SEVERITY_ERROR)]"

definition core_entries_pipeline :: "catalog_entry list" where
  "core_entries_pipeline = [
    entry ''MATCH_DSL_COMPILE_INVALID'' INTERNAL_ERROR (Some SEVERITY_ERROR),
    entry ''RESOLVE_DSL_SPEC_INVALID'' DATA_INVALID (Some SEVERITY_ERROR),
    entry ''RESOLVE_DSL_COMPILE_INVALID'' INTERNAL_ERROR (Some SEVERITY_ERROR),
    entry ''TOPOLOGY_DSL_SPEC_INVALID'' DATA_INVALID (Some SEVERITY_ERROR),
    entry ''TOPOLOGY_DSL_COMPILE_INVALID'' INTERNAL_ERROR (Some SEVERITY_ERROR),
    entry ''SINK_DSL_SPEC_INVALID'' DATA_INVALID (Some SEVERITY_ERROR),
    entry ''REQUIRED_FIELD_MISSING'' DATA_INVALID (Some SEVERITY_ERROR),
    entry ''SINK_REQUIRED_MISSING'' DATA_INVALID (Some SEVERITY_ERROR),
    entry ''SINK_TYPE_INVALID'' DATA_INVALID (Some SEVERITY_ERROR),
    entry ''MATCH_IDENTITY_MISSING'' DATA_INVALID (Some SEVERITY_ERROR),
    entry ''MATCH_CONFLICT_TARGET'' CONFLICT (Some SEVERITY_ERROR),
    entry ''MATCH_CONFLICT'' CONFLICT (Some SEVERITY_ERROR),
    entry ''MATCH_CONFLICT_SOURCE'' CONFLICT (Some SEVERITY_ERROR),
    entry ''MATCH_DUPLICATE_SOURCE'' DATA_INVALID (Some SEVERITY_WARNING),
    entry ''RESOLVE_AMBIGUOUS'' CONFLICT (Some SEVERITY_ERROR),
    entry ''RESOLVE_CONFLICT'' CONFLICT (Some SEVERITY_ERROR),
    entry ''RESOLVE_TARGET_ID_MISSING'' DATA_INVALID (Some SEVERITY_ERROR),
    entry ''RESOLVE_CONFIG_MISSING'' INTERNAL_ERROR (Some SEVERITY_ERROR),
    entry ''RESOLVE_MAX_ATTEMPTS'' CONFLICT (Some SEVERITY_ERROR),
    entry ''RESOLVE_PENDING'' CONFLICT (Some SEVERITY_WARNING),
    entry ''RESOLVE_EXPIRED'' CONFLICT (Some SEVERITY_ERROR),
    entry ''CACHE_ERROR'' CACHE_ERROR (Some SEVERITY_ERROR),
    entry ''CACHE_DSL_REGISTRY_INVALID'' CACHE_ERROR (Some SEVERITY_ERROR),
    entry ''CACHE_DSL_SPEC_INVALID'' CACHE_ERROR (Some SEVERITY_ERROR),
    entry ''CACHE_DSL_DEP_CYCLE'' CACHE_ERROR (Some SEVERITY_ERROR),
    entry ''CACHE_DSL_DEP_MISSING'' CACHE_ERROR (Some SEVERITY_ERROR),
    entry ''CACHE_DSL_HASH_MISMATCH'' CACHE_ERROR (Some SEVERITY_ERROR)]"

definition core_entries_topology :: "catalog_entry list" where
  "core_entries_topology = [
    entry ''CACHE_SCHEMA_ENSURE_FAILED'' CACHE_ERROR (Some SEVERITY_ERROR),
    entry ''CACHE_SCHEMA_REBUILD_FAILED'' CACHE_ERROR (Some SEVERITY_ERROR),
    entry ''TOPOLOGY_SOURCE_PATH_EMPTY'' DATA_INVALID (Some SEVERITY_ERROR),
    entry ''TOPOLOGY_SOURCE_PATH_MALFORMED'' DATA_INVALID (Some SEVERITY_WARNING),
    entry ''TOPOLOGY_SOURCE_COLLISION'' DATA_INVALID (Some SEVERITY_WARNING),
    entry ''TOPOLOGY_NORMALIZATION_CONFLICT'' DATA_INVALID (Some SEVERITY_ERROR),
    entry ''TOPOLOGY_DUPLICATE_NODE'' DATA_INVALID (Some SEVERITY_ERROR),
    entry ''TOPOLOGY_PARENT_MISSING'' DATA_INVALID (Some SEVERITY_ERROR),
    entry ''TOPOLOGY_CYCLE_DETECTED'' DATA_INVALID (Some SEVERITY_ERROR),
    entry ''TOPOLOGY_TARGET_EMPTY'' CACHE_ERROR (Some SEVERITY_ERROR),
    entry ''TOPOLOGY_TARGET_STALE'' CACHE_ERROR (Some SEVERITY_ERROR),
    entry ''TOPOLOGY_TARGET_CACHE_SPEC_MISSING'' CACHE_ERROR (Some SEVERITY_ERROR),
    entry ''TOPOLOGY_SNAPSHOT_NOT_AVAILABLE'' INTERNAL_ERROR (Some SEVERITY_ERROR),
    entry ''TOPOLOGY_SOURCE_TARGET_INCOMPATIBLE'' DATA_INVALID (Some SEVERITY_ERROR),
    entry ''TOPOLOGY_SOURCE_UNANCHORED'' DATA_INVALID (Some SEVERITY_ERROR),
    entry ''TOPOLOGY_CAPABILITY_DISABLED'' DATA_INVALID (Some SEVERITY_ERROR),
    entry ''settings.source.config_read_failed'' IO_ERROR (Some SEVERITY_ERROR),
    entry ''settings.parse.invalid_value'' DATA_INVALID (Some SEVERITY_ERROR),
    entry ''settings.validation.range'' DATA_INVALID (Some SEVERITY_ERROR),
    entry ''settings.validation.enum'' DATA_INVALID (Some SEVERITY_ERROR),
    entry ''settings.conflict.api_credentials'' CONFLICT (Some SEVERITY_ERROR),
    entry ''settings.unknown_key'' DATA_INVALID None,
    entry ''ENRICH_FATAL_POLICY_UNSET'' INTERNAL_ERROR (Some SEVERITY_WARNING),
    entry ''ENRICH_MULTI_TARGET_UNSUPPORTED'' INTERNAL_ERROR (Some SEVERITY_ERROR),
    entry ''ENRICH_MISSING_KEY'' DATA_INVALID (Some SEVERITY_ERROR),
    entry ''ENRICH_PROVIDER_ERROR'' INTERNAL_ERROR (Some SEVERITY_ERROR),
    entry ''ENRICH_NO_CANDIDATES'' DATA_INVALID (Some SEVERITY_WARNING),
    entry ''ENRICH_AMBIGUOUS'' CONFLICT (Some SEVERITY_WARNING)]"

definition core_entries_runtime :: "catalog_entry list" where
  "core_entries_runtime = [
    entry ''ENRICH_TARGET_MISMATCH'' INTERNAL_ERROR (Some SEVERITY_ERROR),
    entry ''SECRET_MATCH_KEY_MISSING'' DATA_INVALID (Some SEVERITY_ERROR),
    entry ''SECRET_STORE_ERROR'' IO_ERROR (Some SEVERITY_ERROR),
    entry ''SECRET_REQUIRED'' DATA_INVALID (Some SEVERITY_ERROR),
    entry ''SECRET_NOT_FOUND'' DATA_INVALID (Some SEVERITY_ERROR),
    entry ''SECRET_READ_ERROR'' IO_ERROR (Some SEVERITY_ERROR),
    entry ''SECRET_DECRYPTION_ERROR'' DATA_INVALID (Some SEVERITY_ERROR),
    entry ''SECRET_INTEGRITY_ERROR'' DATA_INVALID (Some SEVERITY_ERROR),
    entry ''VAULT_STARTUP_KEY_CONFIG_ERROR'' INTERNAL_ERROR (Some SEVERITY_ERROR),
    entry ''VAULT_STARTUP_KEY_VALIDATION_ERROR'' INTERNAL_ERROR (Some SEVERITY_ERROR),
    entry ''VAULT_STARTUP_PROBE_CORRUPTED'' INTERNAL_ERROR (Some SEVERITY_ERROR),
    entry ''VAULT_STARTUP_STORAGE_READONLY'' INTERNAL_ERROR (Some SEVERITY_ERROR),
    entry ''VAULT_STARTUP_UNINITIALIZED_READONLY'' INTERNAL_ERROR (Some SEVERITY_ERROR),
    entry ''INVALID_JSON'' IO_ERROR (Some SEVERITY_ERROR),
    entry ''INVALID_ITEMS_FORMAT'' IO_ERROR (Some SEVERITY_ERROR),
    entry ''NETWORK_ERROR'' INFRA_UNAVAILABLE (Some SEVERITY_ERROR),
    entry ''MAX_PAGES_EXCEEDED'' INTERNAL_ERROR (Some SEVERITY_ERROR),
    entry ''TARGET_ID_CONFLICT'' CONFLICT (Some SEVERITY_ERROR),
    entry ''INTERNAL_ERROR'' INTERNAL_ERROR (Some SEVERITY_ERROR),
    entry ''UNEXPECTED_ERROR'' INTERNAL_ERROR (Some SEVERITY_ERROR),
    entry ''API_ERROR'' INTERNAL_ERROR (Some SEVERITY_ERROR),
    entry ''SINK_HTTP_ERROR'' INFRA_UNAVAILABLE (Some SEVERITY_ERROR),
    entry ''SINK_TIMEOUT'' INFRA_TIMEOUT (Some SEVERITY_ERROR),
    entry ''SINK_IO_ERROR'' IO_ERROR (Some SEVERITY_ERROR),
    entry ''SINK_UNAVAILABLE'' INFRA_UNAVAILABLE (Some SEVERITY_ERROR),
    entry ''SINK_UNAUTHORIZED'' AUTH_UNAUTHORIZED (Some SEVERITY_ERROR),
    entry ''SINK_FORBIDDEN'' AUTH_FORBIDDEN (Some SEVERITY_ERROR),
    entry ''SINK_CONFLICT'' CONFLICT (Some SEVERITY_ERROR)]"

definition core_entries :: "catalog_entry list" where
  "core_entries = core_entries_dsl @ core_entries_pipeline @ core_entries_topology @ core_entries_runtime"

definition build_core_catalog :: "bool \<Rightarrow> error_catalog" where
  "build_core_catalog strict = make_catalog core_entries strict"

text \<open>
  \<open>build_catalog\<close> with the dataset's own catalog (or the error its lookup raises) as an
  argument: the registry that holds it is filled from configuration files.
\<close>

definition build_catalog :: "(bool \<Rightarrow> error_catalog result) option \<Rightarrow> bool \<Rightarrow> error_catalog result" where
  "build_catalog dataset_catalog strict =
     (let core = build_core_catalog strict
      in case dataset_catalog of
           None \<Rightarrow> Inr core
         | Some get \<Rightarrow> bind_r (get strict) (\<lambda>dc. merge_catalogs core dc ''error''))"

lemma contains_core: "catalog_contains (build_core_catalog b) c \<longleftrightarrow> c \<in> set (map ce_diag_code core_entries)"
  by (simp add: build_core_catalog_def make_catalog_def contains_register_many)
    (simp add: catalog_contains_def)

section \<open>The core catalog is a table\<close>

lemmas core_parts = core_entries_dsl_def core_entries_pipeline_def core_entries_topology_def
  core_entries_runtime_def entry_def

lemma core_distinct_within:
  "distinct (map ce_diag_code core_entries_dsl)" "distinct (map ce_diag_code core_entries_pipeline)"
  "distinct (map ce_diag_code core_entries_topology)" "distinct (map ce_diag_code core_entries_runtime)"
  by (simp_all add: core_parts)

lemma core_disjoint_dsl:
  "ce_diag_code ` set core_entries_dsl \<inter> ce_diag_code ` set core_entries_pipeline = {}"
  "ce_diag_code ` set core_entries_dsl \<inter> ce_diag_code ` set core_entries_topology = {}"
  "ce_diag_code ` set core_entries_dsl \<inter> ce_diag_code ` set core_entries_runtime = {}"
  by (simp_all add: core_parts)

lemma core_disjoint_rest:
  "ce_diag_code ` set core_entries_pipeline \<inter> ce_diag_code ` set core_entries_topology = {}"
  "ce_diag_code ` set core_entries_pipeline \<inter> ce_diag_code ` set core_entries_runtime = {}"
  "ce_diag_code ` set core_entries_topology \<inter> ce_diag_code ` set core_entries_runtime = {}"
  by (simp_all add: core_parts)

lemma core_distinct: "distinct (map ce_diag_code core_entries)"
  unfolding core_entries_def map_append distinct_append set_append set_map Int_Un_distrib
  by (simp only: core_distinct_within core_disjoint_dsl core_disjoint_rest Un_empty_left simp_thms)

lemma core_table: "cat_entries (build_core_catalog b) = map (\<lambda>e. (ce_diag_code e, e)) core_entries"
  by (simp add: build_core_catalog_def make_catalog_def register_many_distinct core_distinct)

lemma core_strict [simp]: "cat_strict (build_core_catalog b) = b"
  by (simp add: build_core_catalog_def make_catalog_def)

lemma core_lookup: "e \<in> set core_entries \<Longrightarrow> classify (build_core_catalog b) (ce_diag_code e) = Inr (ce_system_code e)"
proof -
  assume e: "e \<in> set core_entries"
  have "map_of (cat_entries (build_core_catalog b)) (ce_diag_code e) = Some e"
    using e core_distinct by (intro map_of_is_SomeI) (auto simp: core_table comp_def)
  then show ?thesis by (simp add: classify_def)
qed

lemma core_accepts: "e \<in> set core_entries \<Longrightarrow> accepts (build_core_catalog b) (ce_diag_code e)"
  using core_lookup classify_accepts by blast

definition sink_entries :: "catalog_entry list" where
  "sink_entries = map (\<lambda>(c, d). entry d c (Some SEVERITY_ERROR)) SYSTEM_TO_DIAG"

lemma sink_entries_core: "set sink_entries \<subseteq> set core_entries"
  by (simp add: sink_entries_def SYSTEM_TO_DIAG_def core_entries_def core_entries_runtime_def entry_def)

lemma http_error_entry_core: "entry ''SINK_HTTP_ERROR'' INFRA_UNAVAILABLE (Some SEVERITY_ERROR) \<in> set core_entries"
  by (simp add: core_entries_def core_entries_runtime_def entry_def)

lemma sink_classify:
  assumes "c \<in> set (map fst SYSTEM_TO_DIAG)"
  shows "classify (build_core_catalog b) (map_system_code (Some c)) = Inr c"
proof -
  have "entry (map_system_code (Some c)) c (Some SEVERITY_ERROR) \<in> set sink_entries"
    using assms by (auto simp: sink_entries_def SYSTEM_TO_DIAG_def map_system_code_def dict_get_or_def)
  then have "entry (map_system_code (Some c)) c (Some SEVERITY_ERROR) \<in> set core_entries"
    using sink_entries_core by blast
  from core_lookup [OF this] show ?thesis by (simp add: entry_def)
qed

lemma sink_accepts: "accepts (build_core_catalog b) (map_system_code c)"
proof (cases "\<exists>c'. c = Some c' \<and> c' \<in> set (map fst SYSTEM_TO_DIAG)")
  case True
  then show ?thesis using sink_classify classify_accepts by blast
next
  case False
  then have "map_system_code c = ''SINK_HTTP_ERROR''"
    by (cases c) (simp_all add: map_system_code_def dict_get_or_def map_of_eq_None_iff [THEN iffD2])
  then show ?thesis using core_accepts [OF http_error_entry_core, of b] by (simp add: entry_def)
qed

section \<open>Properties\<close>

text \<open>
  The core catalog declares each of its codes once, so that no entry silently replaces
  another, and adding a dataset's catalog succeeds exactly when the dataset's codes are distinct
  and none of them is a core code: a dataset cannot redefine the classification of a core code.
\<close>

theorem core_catalog_merge:
  "distinct (map ce_diag_code core_entries)
   \<and> ((\<exists>m. build_catalog (Some (\<lambda>b. Inr dc)) strict = Inr m) \<longleftrightarrow>
        distinct (map (ce_diag_code \<circ> snd) (cat_entries dc))
        \<and> (ce_diag_code \<circ> snd) ` set (cat_entries dc) \<inter> ce_diag_code ` set core_entries = {})"
proof -
  let ?core = "build_core_catalog strict"
  let ?base = "register_many (map snd (cat_entries ?core)) (make_catalog [] (strict \<or> cat_strict dc))"
  have "{c. catalog_contains ?base c} = ce_diag_code ` set core_entries"
    by (auto simp: contains_register_many core_table make_catalog_def)
      (auto simp: catalog_contains_def register_many_def)
  then show ?thesis
    using merge_loop_error [of "map snd (cat_entries dc)" ?base] core_distinct
    by (simp add: build_catalog_def merge_catalogs_def image_image comp_def)
qed

text \<open>
  An HTTP failure keeps its class through the translation to a diagnostic and back: on the
  core catalog, strict or not, translating a status never raises, and classifying the resulting
  diagnostic gives the system code of the status for 401, 403, 409 and every status from 500 on;
  exactly the latter are retried by the default retry policy while attempts are left.
\<close>

theorem http_status_roundtrip:
  "\<exists>d. translate_http (build_core_catalog strict) SINK (Some s) body rref = Inr d
    \<and> (s \<in> {401, 403, 409} \<union> {500..} \<longrightarrow>
         system_code_of (build_core_catalog strict) d = Inr (map_http_status (Some s)))
    \<and> (should_retry (default_retry_policy n) (map_http_status (Some s)) k \<longleftrightarrow> 500 \<le> s \<and> k < n)"
proof -
  have keys: "set (map fst SYSTEM_TO_DIAG) =
      {AUTH_UNAUTHORIZED, AUTH_FORBIDDEN, CONFLICT, INFRA_TIMEOUT, IO_ERROR, INFRA_UNAVAILABLE}"
    by (simp add: SYSTEM_TO_DIAG_def)
  have "map_http_status (Some s) \<in> set (map fst SYSTEM_TO_DIAG)" if "s \<in> {401, 403, 409} \<union> {500..}"
    unfolding keys using that by (auto simp: map_http_status_def)
  then have "s \<in> {401, 403, 409} \<union> {500..} \<longrightarrow>
      classify (build_core_catalog strict) (map_system_code (Some (map_http_status (Some s))))
        = Inr (map_http_status (Some s))"
    using sink_classify by blast
  moreover have "should_retry (default_retry_policy n) (map_http_status (Some s)) k \<longleftrightarrow> 500 \<le> s \<and> k < n"
    by (auto simp: should_retry_def default_retry_policy_def RETRYABLE_CODES_def map_http_status_def)
  ultimately show ?thesis
    by (simp add: translate_http_def Let_def system_code_of_def sink_accepts)
qed

lemma http_status_roundtrip_witness:
  "\<exists>d. translate_http (build_core_catalog True) SINK (Some 503) None None = Inr d
    \<and> system_code_of (build_core_catalog True) d = Inr INFRA_UNAVAILABLE"
  using http_status_roundtrip [of True 503 None None 3 0] by (auto simp: map_http_status_def)

end
