(* ===== verification/Topology.thy ===== *)
theory Topology
  imports Diagnostics
begin

text \<open>
  Model of \<open>connector/domain/dependency_tree/snapshot.py\<close>: the immutable topology snapshot
  and its queries, with the invariant of a well-formed snapshot and what the queries return on it.

  A query that climbs or descends the indices is a loop of the source that ends only on an
  acyclic snapshot, so it is a partial function into \<open>outcome\<close>; that it returns on every
  snapshot the builders produce is proved here.  The digest of a path (SHA-256 of a JSON text)
  is an argument of the definitions that use it.
\<close>

section \<open>Snapshot and queries\<close>

record topology_node =
  tn_node_id :: string
  tn_parent_id :: "string option"
  tn_display_name :: string
  tn_canonical_name :: string

record topology_snapshot =
  nodes_by_id :: "(string, topology_node) dict"
  parent_by_id :: "(string, string option) dict"
  children_by_id :: "(string, string list) dict"
  snapshot_roots :: "string list"

definition empty_snapshot :: topology_snapshot where
  "empty_snapshot = \<lparr>nodes_by_id = [], parent_by_id = [], children_by_id = [], snapshot_roots = []\<rparr>"

definition get_node :: "topology_snapshot \<Rightarrow> string \<Rightarrow> topology_node option" where
  "get_node s node_id = map_of (nodes_by_id s) node_id"

definition require_node :: "topology_snapshot \<Rightarrow> string \<Rightarrow> topology_node result" where
  "require_node s node_id =
     (case get_node s node_id of
        None \<Rightarrow> Inl (KeyError (''Unknown topology node: '' @ node_id))
      | Some node \<Rightarrow> Inr node)"

definition parent_id :: "topology_snapshot \<Rightarrow> string \<Rightarrow> string option result" where
  "parent_id s node_id =
     bind_r (require_node s node_id) (\<lambda>_. Inr (dict_get_or (parent_by_id s) node_id None))"

definition children_ids :: "topology_snapshot \<Rightarrow> string \<Rightarrow> string list result" where
  "children_ids s node_id =
     bind_r (require_node s node_id) (\<lambda>_. Inr (dict_get_or (children_by_id s) node_id []))"

text \<open>The loop \<open>while current is not None\<close> shared by \<open>ancestors\<close> and \<open>path_to_root\<close>.\<close>

partial_function (option) climb :: "topology_snapshot \<Rightarrow> string option \<Rightarrow> string list \<Rightarrow> string list outcome" where
  "climb s current acc =
     (case current of
        None \<Rightarrow> Some (Inr acc)
      | Some c \<Rightarrow>
         (case parent_id s c of
            Inl e \<Rightarrow> Some (Inl e)
          | Inr p \<Rightarrow> climb s p (acc @ [c])))"

definition ancestors :: "topology_snapshot \<Rightarrow> string \<Rightarrow> string list outcome" where
  "ancestors s node_id = bind_o (Some (parent_id s node_id)) (\<lambda>p. climb s p [])"

definition path_to_root :: "topology_snapshot \<Rightarrow> string \<Rightarrow> string list outcome" where
  "path_to_root s node_id =
     bind_o (Some (require_node s node_id)) (\<lambda>_.
     bind_o (Some (parent_id s node_id)) (\<lambda>p. climb s p [node_id]))"

text \<open>The stack of \<open>descendants\<close>, its top (the end of the Python list) first.\<close>

partial_function (option) descend :: "topology_snapshot \<Rightarrow> string list \<Rightarrow> string list \<Rightarrow> string list outcome" where
  "descend s stack acc =
     (case stack of
        [] \<Rightarrow> Some (Inr acc)
      | current # rest \<Rightarrow>
         (case children_ids s current of
            Inl e \<Rightarrow> Some (Inl e)
          | Inr children \<Rightarrow> descend s (sort children @ rest) (acc @ [current])))"

definition descendants :: "topology_snapshot \<Rightarrow> string \<Rightarrow> string list outcome" where
  "descendants s node_id =
     bind_o (Some (require_node s node_id)) (\<lambda>_.
     bind_o (Some (children_ids s node_id)) (\<lambda>children. descend s (sort children) []))"

definition depth :: "topology_snapshot \<Rightarrow> string \<Rightarrow> nat outcome" where
  "depth s node_id = bind_o (ancestors s node_id) (\<lambda>a. Some (Inr (length a)))"

definition root_id :: "topology_snapshot \<Rightarrow> string \<Rightarrow> string outcome" where
  "root_id s node_id = bind_o (path_to_root s node_id) (\<lambda>p. Some (Inr (last p)))"

definition canonical_path :: "topology_snapshot \<Rightarrow> string \<Rightarrow> string list outcome" where
  "canonical_path s node_id =
     bind_o (path_to_root s node_id) (\<lambda>p.
       Some (map_r (\<lambda>c. bind_r (require_node s c) (\<lambda>n. Inr (tn_canonical_name n))) (rev p)))"

definition signature_payload :: "string list \<Rightarrow> string \<Rightarrow> nat \<Rightarrow> pyval" where
  "signature_payload path root d = PDict [
     (''kind'', PStr ''topology_structural_signature''),
     (''canonical_path'', str_list path),
     (''root_id'', PStr root),
     (''depth'', PInt (int d))]"

definition structural_signature :: "(pyval \<Rightarrow> string) \<Rightarrow> topology_snapshot \<Rightarrow> string \<Rightarrow> string outcome" where
  "structural_signature sha s node_id =
     bind_o (canonical_path s node_id) (\<lambda>p.
     bind_o (root_id s node_id) (\<lambda>r.
     bind_o (depth s node_id) (\<lambda>d. Some (Inr (sha (signature_payload p r d))))))"

section \<open>Well-formed snapshots\<close>


definition node_keys :: "topology_snapshot \<Rightarrow> string set" where
  "node_keys s = fst ` set (nodes_by_id s)"

definition parent_of :: "topology_snapshot \<Rightarrow> string \<Rightarrow> string option" where
  "parent_of s n = dict_get_or (parent_by_id s) n None"

definition up_rel :: "topology_snapshot \<Rightarrow> (string \<times> string) set" where
  "up_rel s = {(n, p). parent_of s n = Some p}"

definition snapshot_inv :: "topology_snapshot \<Rightarrow> bool" where
  "snapshot_inv s \<longleftrightarrow>
     distinct (map fst (nodes_by_id s))
   \<and> map fst (parent_by_id s) = map fst (nodes_by_id s)
   \<and> (\<forall>n p. parent_of s n = Some p \<longrightarrow> p \<in> node_keys s)
   \<and> acyclic (up_rel s)
   \<and> (\<forall>n \<in> node_keys s. dict_get_or (children_by_id s) n [] = sorted_list_of_set {m. parent_of s m = Some n})
   \<and> snapshot_roots s = sorted_list_of_set {n \<in> node_keys s. parent_of s n = None}
   \<and> (\<forall>n node. get_node s n = Some node \<longrightarrow> tn_node_id node = n \<and> tn_parent_id node = parent_of s n)"

lemma require_node_known:
  "n \<in> node_keys s \<Longrightarrow> \<exists>node. get_node s n = Some node \<and> require_node s n = Inr node"
  by (auto simp: node_keys_def get_node_def require_node_def map_of_eq_None_iff split: option.split)

lemma require_node_unknown:
  "n \<notin> node_keys s \<Longrightarrow> require_node s n = Inl (KeyError (''Unknown topology node: '' @ n))"
  by (simp add: node_keys_def get_node_def require_node_def map_of_eq_None_iff [THEN iffD2])

lemma parent_id_known [simp]: "n \<in> node_keys s \<Longrightarrow> parent_id s n = Inr (parent_of s n)"
  using require_node_known [of n s] by (auto simp: parent_id_def parent_of_def)

lemma children_ids_known:
  "snapshot_inv s \<Longrightarrow> n \<in> node_keys s \<Longrightarrow>
     children_ids s n = Inr (sorted_list_of_set {m. parent_of s m = Some n})"
  using require_node_known [of n s] by (auto simp: children_ids_def snapshot_inv_def)

lemma parent_child_known:
  assumes "snapshot_inv s" "parent_of s n = Some p"
  shows "n \<in> node_keys s" "p \<in> node_keys s"
proof -
  have "n \<in> fst ` set (parent_by_id s)"
    using assms(2) by (auto simp: parent_of_def dict_get_or_def split: option.splits dest: map_of_SomeD intro: rev_image_eqI)
  then show "n \<in> node_keys s"
    using assms(1) by (metis snapshot_inv_def node_keys_def set_map)
  show "p \<in> node_keys s" using assms by (simp add: snapshot_inv_def)
qed

lemma finite_node_keys [simp]: "finite (node_keys s)"
  by (simp add: node_keys_def)

lemma finite_up_rel: "snapshot_inv s \<Longrightarrow> finite (up_rel s)"
  by (rule finite_subset [of _ "node_keys s \<times> node_keys s"])
    (auto simp: up_rel_def dest: parent_child_known)

lemma wf_up: "snapshot_inv s \<Longrightarrow> wf ((up_rel s)\<inverse>)"
  by (rule finite_acyclic_wf_converse [OF finite_up_rel]) (simp_all add: snapshot_inv_def)

lemma wf_down: "snapshot_inv s \<Longrightarrow> wf (up_rel s)"
  by (rule finite_acyclic_wf [OF finite_up_rel]) (simp_all add: snapshot_inv_def)

lemma acyclic_empty [simp]: "acyclic {}"
  by (simp add: acyclic_def)

section \<open>Climbing\<close>

fun up_chain :: "topology_snapshot \<Rightarrow> string list \<Rightarrow> bool" where
  "up_chain s [] = False"
| "up_chain s [x] = (x \<in> node_keys s \<and> parent_of s x = None)"
| "up_chain s (x # y # ys) = (x \<in> node_keys s \<and> parent_of s x = Some y \<and> up_chain s (y # ys))"

lemma climb_from:
  assumes "snapshot_inv s" "n \<in> node_keys s"
  shows "\<exists>xs. climb s (Some n) acc = Some (Inr (acc @ n # xs)) \<and> up_chain s (n # xs)"
  using wf_up [OF assms(1)] assms(2)
proof (induction n arbitrary: acc rule: wf_induct_rule)
  case (less n)
  show ?case
  proof (cases "parent_of s n")
    case None
    then show ?thesis using less.prems
      by (intro exI [of _ "[]"]) (simp add: climb.simps [of s "Some n"] climb.simps [of s None])
  next
    case (Some p)
    then have "(p, n) \<in> (up_rel s)\<inverse>" by (simp add: up_rel_def)
    moreover have "p \<in> node_keys s" using parent_child_known [OF assms(1) Some] by simp
    ultimately obtain xs where "climb s (Some p) (acc @ [n]) = Some (Inr ((acc @ [n]) @ p # xs))"
        "up_chain s (p # xs)"
      using less.IH by blast
    then show ?thesis using less.prems Some
      by (intro exI [of _ "p # xs"]) (simp add: climb.simps [of s "Some n"])
  qed
qed

lemma up_chain_members:
  "up_chain s (n # xs) \<Longrightarrow> set xs = {a. (n, a) \<in> (up_rel s)\<^sup>+}"
proof (induction xs arbitrary: n)
  case Nil
  then show ?case by (auto simp: up_rel_def dest: tranclD)
next
  case (Cons y ys)
  then have par: "parent_of s n = Some y" and IH: "set ys = {a. (y, a) \<in> (up_rel s)\<^sup>+}" by auto
  have "(n, a) \<in> (up_rel s)\<^sup>+ \<longleftrightarrow> a = y \<or> (y, a) \<in> (up_rel s)\<^sup>+" for a
  proof
    assume "(n, a) \<in> (up_rel s)\<^sup>+"
    then obtain z where "(n, z) \<in> up_rel s" "(z, a) \<in> (up_rel s)\<^sup>*" by (meson tranclD)
    then show "a = y \<or> (y, a) \<in> (up_rel s)\<^sup>+" using par by (auto simp: up_rel_def rtrancl_eq_or_trancl)
  next
    have "(n, y) \<in> up_rel s" using par by (simp add: up_rel_def)
    moreover assume "a = y \<or> (y, a) \<in> (up_rel s)\<^sup>+"
    ultimately show "(n, a) \<in> (up_rel s)\<^sup>+" by (auto intro: trancl_into_trancl2)
  qed
  with IH show ?case by auto
qed

lemma up_chain_distinct:
  assumes "snapshot_inv s" "up_chain s (n # xs)"
  shows "distinct (n # xs)"
  using assms(2)
proof (induction xs arbitrary: n)
  case (Cons y ys)
  have "n \<notin> set (y # ys)"
    using up_chain_members [OF Cons.prems] assms(1) by (auto simp: snapshot_inv_def acyclic_def)
  moreover have "distinct (y # ys)" using Cons.IH [of y] Cons.prems by simp
  ultimately show ?case by simp
qed simp

lemma up_chain_last: "up_chain s (n # xs) \<Longrightarrow> last (n # xs) \<in> node_keys s \<and> parent_of s (last (n # xs)) = None"
  by (induction xs arbitrary: n) auto

lemma up_chain_known: "up_chain s xs \<Longrightarrow> set xs \<subseteq> node_keys s"
  by (induction s xs rule: up_chain.induct) auto

lemma up_chain_unique: "up_chain s (n # xs) \<Longrightarrow> up_chain s (n # ys) \<Longrightarrow> xs = ys"
proof (induction xs arbitrary: n ys)
  case Nil
  then show ?case by (cases ys) auto
next
  case (Cons x xs)
  then show ?case by (cases ys) auto
qed

lemma queries_on_chain:
  assumes "snapshot_inv s" "up_chain s (n # xs)"
  shows "ancestors s n = Some (Inr xs)" "path_to_root s n = Some (Inr (n # xs))"
    "depth s n = Some (Inr (length xs))" "root_id s n = Some (Inr (last (n # xs)))"
    "canonical_path s n = Some (Inr (map (\<lambda>c. tn_canonical_name (the (get_node s c))) (rev (n # xs))))"
proof -
  have n: "n \<in> node_keys s" using up_chain_known [OF assms(2)] by simp
  obtain node where node: "require_node s n = Inr node"
    using require_node_known [OF n] by blast
  have "climb s (parent_of s n) acc = Some (Inr (acc @ xs))" for acc
  proof (cases xs)
    case Nil
    then show ?thesis using assms(2) by (simp add: climb.simps [of s None])
  next
    case (Cons y ys)
    then have y: "parent_of s n = Some y" "y \<in> node_keys s" "up_chain s (y # ys)"
      using assms(2) up_chain_known [OF assms(2)] by auto
    from climb_from [OF assms(1) y(2), of acc] obtain zs where
      z: "climb s (Some y) acc = Some (Inr (acc @ y # zs))" "up_chain s (y # zs)" by blast
    with up_chain_unique [OF z(2) y(3)] show ?thesis by (simp add: y(1) Cons)
  qed
  then show a: "ancestors s n = Some (Inr xs)" and p: "path_to_root s n = Some (Inr (n # xs))"
    using n node by (simp_all add: ancestors_def path_to_root_def)
  then show "depth s n = Some (Inr (length xs))" "root_id s n = Some (Inr (last (n # xs)))"
    by (simp_all add: depth_def root_id_def)
  have "map_r (\<lambda>c. bind_r (require_node s c) (\<lambda>n. Inr (tn_canonical_name n))) (rev (n # xs))
      = Inr (map (\<lambda>c. tn_canonical_name (the (get_node s c))) (rev (n # xs)))"
  proof (rule map_r_Inr)
    fix c assume "c \<in> set (rev (n # xs))"
    then have "c \<in> node_keys s" using up_chain_known [OF assms(2)] by auto
    from require_node_known [OF this] show
      "bind_r (require_node s c) (\<lambda>n. Inr (tn_canonical_name n)) = Inr (tn_canonical_name (the (get_node s c)))"
      by auto
  qed
  then show "canonical_path s n = Some (Inr (map (\<lambda>c. tn_canonical_name (the (get_node s c))) (rev (n # xs))))"
    by (simp add: canonical_path_def p)
qed

section \<open>Descending\<close>

definition subtree :: "topology_snapshot \<Rightarrow> string \<Rightarrow> string set" where
  "subtree s n = {m. (m, n) \<in> (up_rel s)\<^sup>*}"

lemma subtree_self [simp]: "n \<in> subtree s n"
  by (simp add: subtree_def)

lemma subtree_unfold: "subtree s n = insert n (\<Union>c \<in> {m. parent_of s m = Some n}. subtree s c)"
proof (rule set_eqI)
  fix m
  show "m \<in> subtree s n \<longleftrightarrow> m \<in> insert n (\<Union>c \<in> {m. parent_of s m = Some n}. subtree s c)"
  proof
    assume "m \<in> subtree s n"
    then show "m \<in> insert n (\<Union>c \<in> {m. parent_of s m = Some n}. subtree s c)"
      unfolding subtree_def mem_Collect_eq by (cases rule: rtranclE) (auto simp: up_rel_def)
  next
    assume "m \<in> insert n (\<Union>c \<in> {m. parent_of s m = Some n}. subtree s c)"
    then show "m \<in> subtree s n"
      by (auto simp: subtree_def up_rel_def intro: rtrancl_into_rtrancl)
  qed
qed

lemma subtree_known:
  assumes "snapshot_inv s" "n \<in> node_keys s"
  shows "subtree s n \<subseteq> node_keys s"
proof
  fix m assume "m \<in> subtree s n"
  then have "(m, n) \<in> (up_rel s)\<^sup>*" by (simp add: subtree_def)
  then show "m \<in> node_keys s"
    using assms(2) by (cases rule: converse_rtranclE)
      (auto simp: up_rel_def dest: parent_child_known [OF assms(1)])
qed

lemma subtree_linear:
  assumes "m \<in> subtree s a" "m \<in> subtree s b"
  shows "a \<in> subtree s b \<or> b \<in> subtree s a"
proof -
  have "(m, a) \<in> (up_rel s)\<^sup>*" "(m, b) \<in> (up_rel s)\<^sup>*" using assms by (auto simp: subtree_def)
  moreover have "single_valued (up_rel s)" by (auto simp: single_valued_def up_rel_def)
  ultimately show ?thesis
    using single_valued_confluent [of "up_rel s" m a b] by (auto simp: subtree_def)
qed

lemma siblings_disjoint:
  assumes "snapshot_inv s" "parent_of s a = Some p" "parent_of s b = Some p" "a \<noteq> b"
  shows "subtree s a \<inter> subtree s b = {}"
proof -
  have False if "x \<in> subtree s y" "parent_of s x = Some p" "parent_of s y = Some p" "x \<noteq> y" for x y
  proof -
    have "(x, y) \<in> (up_rel s)\<^sup>*" using \<open>x \<in> subtree s y\<close> by (simp add: subtree_def)
    then obtain z where "(x, z) \<in> up_rel s" "(z, y) \<in> (up_rel s)\<^sup>*"
      using \<open>x \<noteq> y\<close> by (metis converse_rtranclE)
    moreover have "z = p" using calculation(1) \<open>parent_of s x = Some p\<close> by (simp add: up_rel_def)
    moreover have "(y, p) \<in> up_rel s" using \<open>parent_of s y = Some p\<close> by (simp add: up_rel_def)
    ultimately have "(p, p) \<in> (up_rel s)\<^sup>+" by (meson rtrancl_into_trancl1)
    then show False using assms(1) by (auto simp: snapshot_inv_def acyclic_def)
  qed
  then show ?thesis using subtree_linear assms by blast
qed

lemma subtree_not_below:
  assumes "snapshot_inv s" "parent_of s c = Some n"
  shows "n \<notin> subtree s c"
proof
  assume "n \<in> subtree s c"
  then have "(n, c) \<in> (up_rel s)\<^sup>*" by (simp add: subtree_def)
  moreover have "(c, n) \<in> up_rel s" using assms(2) by (simp add: up_rel_def)
  ultimately have "(n, n) \<in> (up_rel s)\<^sup>+" by (meson rtrancl_into_trancl1)
  then show False using assms(1) by (auto simp: snapshot_inv_def acyclic_def)
qed

lemma pairwise_union_card_step:
  assumes "finite A" "x \<in> A" shows "card (A - {x}) < card A"
  using assms by (meson card_Diff1_less)

text \<open>The subtrees hanging from the stack are pairwise disjoint.\<close>

fun disjoint_trees :: "topology_snapshot \<Rightarrow> string list \<Rightarrow> bool" where
  "disjoint_trees s [] = True"
| "disjoint_trees s (x # xs) = (subtree s x \<inter> (\<Union>y \<in> set xs. subtree s y) = {} \<and> disjoint_trees s xs)"

lemma disjoint_trees_append:
  "disjoint_trees s (xs @ ys) \<longleftrightarrow> disjoint_trees s xs \<and> disjoint_trees s ys
     \<and> (\<Union>x \<in> set xs. subtree s x) \<inter> (\<Union>y \<in> set ys. subtree s y) = {}"
  by (induction xs) auto

lemma disjoint_trees_children:
  assumes "snapshot_inv s" "distinct xs" "\<forall>x \<in> set xs. parent_of s x = Some p"
  shows "disjoint_trees s xs"
  using assms(2,3)
proof (induction xs)
  case (Cons x xs)
  have "subtree s x \<inter> subtree s y = {}" if "y \<in> set xs" for y
    using siblings_disjoint [OF assms(1)] Cons.prems that by auto
  then show ?case using Cons by auto
qed simp

lemma descend_collects:
  assumes "snapshot_inv s" "set stack \<subseteq> node_keys s" "disjoint_trees s stack"
  shows "\<exists>xs. descend s stack acc = Some (Inr (acc @ xs)) \<and> distinct xs
    \<and> set xs = (\<Union>x \<in> set stack. subtree s x)"
  using assms(2,3)
proof (induction "card (\<Union>x \<in> set stack. subtree s x)" arbitrary: stack acc rule: less_induct)
  case less
  show ?case
  proof (cases stack)
    case Nil
    then show ?thesis by (simp add: descend.simps [of s "[]"])
  next
    case (Cons n rest)
    let ?kids = "sorted_list_of_set {m. parent_of s m = Some n}"
    have fin: "finite {m. parent_of s m = Some n}"
      by (rule finite_subset [of _ "node_keys s"]) (auto dest: parent_child_known [OF assms(1)])
    then have kids: "set ?kids = {m. parent_of s m = Some n}" "distinct ?kids" "sort ?kids = ?kids"
      by (simp_all add: sorted_sort_id)
    have n: "n \<in> node_keys s" and rest: "set rest \<subseteq> node_keys s"
      using less.prems(1) Cons by auto
    let ?U = "\<lambda>xs. \<Union>x \<in> set xs. subtree s x"
    have below: "?U ?kids = subtree s n - {n}"
      using subtree_unfold [of s n] subtree_not_below [OF assms(1)] kids(1) by auto
    have apart: "subtree s n \<inter> ?U rest = {}" and dr: "disjoint_trees s rest"
      using less.prems(2) Cons by auto
    have known: "set (?kids @ rest) \<subseteq> node_keys s"
      using kids(1) rest by (auto dest: parent_child_known [OF assms(1)])
    have dis: "disjoint_trees s (?kids @ rest)"
      using disjoint_trees_children [OF assms(1) kids(2), of n] kids(1) dr below apart
      by (auto simp: disjoint_trees_append)
    have U: "?U (?kids @ rest) = ?U stack - {n}"
    proof -
      have "n \<notin> ?U rest" using apart subtree_self [of n s] by blast
      then show ?thesis using below subtree_self [of n s] unfolding Cons by auto
    qed
    have "finite (?U stack)"
      by (rule finite_subset [of _ "node_keys s"])
        (use less.prems(1) subtree_known [OF assms(1)] in auto)
    then have "card (?U (?kids @ rest)) < card (?U stack)"
      unfolding U by (rule pairwise_union_card_step) (auto simp: Cons)
    from less.hyps [OF this known dis, of "acc @ [n]"] obtain xs where
      xs: "descend s (?kids @ rest) (acc @ [n]) = Some (Inr ((acc @ [n]) @ xs))" "distinct xs"
        "set xs = ?U (?kids @ rest)" by blast
    have "descend s stack acc = Some (Inr (acc @ n # xs))"
      using xs(1) by (simp add: Cons descend.simps [of s "n # rest"] children_ids_known [OF assms(1) n] kids(3))
    moreover have "distinct (n # xs)" "set (n # xs) = ?U stack"
      using xs(2,3) U by (auto simp: Cons)
    ultimately show ?thesis by blast
  qed
qed

lemma descendants_known:
  assumes "snapshot_inv s" "n \<in> node_keys s"
  shows "\<exists>xs. descendants s n = Some (Inr xs) \<and> distinct xs \<and> set xs = {m. (m, n) \<in> (up_rel s)\<^sup>+}"
proof -
  let ?kids = "sorted_list_of_set {m. parent_of s m = Some n}"
  have fin: "finite {m. parent_of s m = Some n}"
    by (rule finite_subset [of _ "node_keys s"]) (auto dest: parent_child_known [OF assms(1)])
  then have kids: "set ?kids = {m. parent_of s m = Some n}" "distinct ?kids" "sort ?kids = ?kids"
    by (simp_all add: sorted_sort_id)
  have known: "set ?kids \<subseteq> node_keys s"
    using kids(1) by (auto dest: parent_child_known [OF assms(1)])
  have dis: "disjoint_trees s ?kids"
    using disjoint_trees_children [OF assms(1) kids(2), of n] kids(1) by auto
  from descend_collects [OF assms(1) known dis, of "[]"] obtain xs
    where xs: "descend s ?kids [] = Some (Inr ([] @ xs))" "distinct xs"
      "set xs = (\<Union>x \<in> set ?kids. subtree s x)"
    by blast
  have "m \<in> (\<Union>x \<in> set ?kids. subtree s x) \<longleftrightarrow> (m, n) \<in> (up_rel s)\<^sup>+" for m
  proof -
    have "m \<in> (\<Union>x \<in> set ?kids. subtree s x) \<longleftrightarrow> (\<exists>c. (m, c) \<in> (up_rel s)\<^sup>* \<and> (c, n) \<in> up_rel s)"
      unfolding kids(1) subtree_def by (auto simp: up_rel_def)
    then show ?thesis by (metis rtrancl_into_trancl1 tranclD2)
  qed
  then have "(\<Union>x \<in> set ?kids. subtree s x) = {m. (m, n) \<in> (up_rel s)\<^sup>+}" by blast
  moreover obtain node where "require_node s n = Inr node" using require_node_known [OF assms(2)] by blast
  ultimately show ?thesis
    using xs by (simp add: descendants_def children_ids_known [OF assms] kids(3))
qed

section \<open>Properties\<close>

text \<open>
  C38. On a well-formed snapshot every query about a known node returns: the ancestors are the
  nodes strictly above it, each once; the depth is their number; the path to the root starts at
  the node and ends at one of the declared roots; the descendants are the nodes strictly below
  it, each once.  The two loops end although nothing but the invariant bounds them.
\<close>

theorem queries_return:
  assumes "snapshot_inv s" "n \<in> node_keys s"
  shows "\<exists>as ds path. ancestors s n = Some (Inr as) \<and> descendants s n = Some (Inr ds)
    \<and> path_to_root s n = Some (Inr path)
    \<and> distinct as \<and> set as = {a. (n, a) \<in> (up_rel s)\<^sup>+}
    \<and> distinct ds \<and> set ds = {d. (d, n) \<in> (up_rel s)\<^sup>+}
    \<and> depth s n = Some (Inr (length as))
    \<and> path = n # as \<and> root_id s n = Some (Inr (last path)) \<and> last path \<in> set (snapshot_roots s)"
proof -
  obtain xs where xs: "up_chain s (n # xs)"
    using climb_from [OF assms] by blast
  obtain ds where ds: "descendants s n = Some (Inr ds)" "distinct ds" "set ds = {m. (m, n) \<in> (up_rel s)\<^sup>+}"
    using descendants_known [OF assms] by blast
  have "finite {n \<in> node_keys s. parent_of s n = None}"
    by (rule finite_subset [of _ "node_keys s"]) auto
  then have "set (snapshot_roots s) = {n \<in> node_keys s. parent_of s n = None}"
    using assms(1) by (simp add: snapshot_inv_def)
  with up_chain_last [OF xs] have root: "last (n # xs) \<in> set (snapshot_roots s)" by blast
  show ?thesis
    using queries_on_chain(1-4) [OF assms(1) xs] up_chain_members [OF xs] up_chain_distinct [OF assms(1) xs] ds root
    by (intro exI [of _ xs] exI [of _ ds] exI [of _ "n # xs"]) simp
qed

definition two_nodes :: topology_snapshot where
  "two_nodes = \<lparr>nodes_by_id = [(''r'', \<lparr>tn_node_id = ''r'', tn_parent_id = None, tn_display_name = ''R'', tn_canonical_name = ''R''\<rparr>),
      (''c'', \<lparr>tn_node_id = ''c'', tn_parent_id = Some ''r'', tn_display_name = ''C'', tn_canonical_name = ''C''\<rparr>)],
    parent_by_id = [(''r'', None), (''c'', Some ''r'')],
    children_by_id = [(''r'', [''c'']), (''c'', [])], snapshot_roots = [''r'']\<rparr>"

lemma two_nodes_inv: "snapshot_inv two_nodes"
proof -
  have par: "parent_of two_nodes n = (if n = ''c'' then Some ''r'' else None)" for n
    by (simp add: parent_of_def two_nodes_def dict_get_or_def)
  have up: "up_rel two_nodes = {(''c'', ''r'')}" by (auto simp: up_rel_def par split: if_splits)
  have keys: "node_keys two_nodes = {''r'', ''c''}" by (simp add: node_keys_def two_nodes_def)
  have kids: "{m. parent_of two_nodes m = Some n} = (if n = ''r'' then {''c''} else {})" for n
    by (auto simp: par)
  have "{n \<in> node_keys two_nodes. parent_of two_nodes n = None} = {''r''}"
    by (auto simp: keys par)
  then have roots: "snapshot_roots two_nodes = sorted_list_of_set {n \<in> node_keys two_nodes. parent_of two_nodes n = None}"
    by (simp add: two_nodes_def)
  show ?thesis
    unfolding snapshot_inv_def
  proof (intro conjI)
    show "distinct (map fst (nodes_by_id two_nodes))"
      "map fst (parent_by_id two_nodes) = map fst (nodes_by_id two_nodes)"
      by (simp_all add: two_nodes_def)
    show "\<forall>n p. parent_of two_nodes n = Some p \<longrightarrow> p \<in> node_keys two_nodes"
      by (simp add: par keys)
    show "acyclic (up_rel two_nodes)" by (simp add: up acyclic_insert)
    show "\<forall>n \<in> node_keys two_nodes. dict_get_or (children_by_id two_nodes) n []
        = sorted_list_of_set {m. parent_of two_nodes m = Some n}"
      unfolding keys kids by (simp add: two_nodes_def dict_get_or_def)
    show "snapshot_roots two_nodes = sorted_list_of_set {n \<in> node_keys two_nodes. parent_of two_nodes n = None}"
      by (rule roots)
    show "\<forall>n node. get_node two_nodes n = Some node \<longrightarrow> tn_node_id node = n \<and> tn_parent_id node = parent_of two_nodes n"
      by (simp add: par) (simp add: two_nodes_def get_node_def)
  qed
qed

lemma queries_return_witness:
  "\<exists>as ds. ancestors two_nodes ''c'' = Some (Inr as) \<and> descendants two_nodes ''c'' = Some (Inr ds)
     \<and> depth two_nodes ''c'' = Some (Inr (length as))"
  using queries_return [OF two_nodes_inv, of "''c''"] by (auto simp: node_keys_def two_nodes_def)

text \<open>
  A query about an id the snapshot does not hold raises the KeyError that names it, in every
  query of the port.
\<close>

theorem queries_refuse_unknown:
  assumes "n \<notin> node_keys s"
  shows "parent_id s n = Inl (KeyError (''Unknown topology node: '' @ n))
    \<and> children_ids s n = Inl (KeyError (''Unknown topology node: '' @ n))
    \<and> ancestors s n = Some (Inl (KeyError (''Unknown topology node: '' @ n)))
    \<and> descendants s n = Some (Inl (KeyError (''Unknown topology node: '' @ n)))
    \<and> canonical_path s n = Some (Inl (KeyError (''Unknown topology node: '' @ n)))
    \<and> depth s n = Some (Inl (KeyError (''Unknown topology node: '' @ n)))"
  using require_node_unknown [OF assms]
  by (simp add: parent_id_def children_ids_def ancestors_def descendants_def canonical_path_def
      path_to_root_def depth_def)

lemma queries_refuse_unknown_witness:
  "canonical_path empty_snapshot ''x'' = Some (Inl (KeyError ''Unknown topology node: x''))"
  using queries_refuse_unknown [of "''x''" empty_snapshot] by (simp add: node_keys_def empty_snapshot_def)

end
