(* ===== verification/Topology_Builders.thy ===== *)
theory Topology_Builders
  imports Topology
begin

text \<open>
  The two builders of \<open>connector/domain/dependency_tree\<close>: the source forest from canonical
  paths (\<open>source_builder.py\<close>, node ids of \<open>fingerprints.py\<close>) and the target forest from
  adjacency rows (\<open>target_builder.py\<close>).  Both freeze their tables to a snapshot; the lemmas
  show that the snapshot is well formed and holds exactly what was read.
\<close>

section \<open>Source forest from canonical paths\<close>

definition source_payload :: "string \<Rightarrow> string list \<Rightarrow> pyval" where
  "source_payload version segments = PDict [
     (''kind'', PStr ''source_topology_node''),
     (''normalization_version'', PStr version),
     (''canonical_segments'', str_list segments)]"

definition source_synthetic_id :: "(pyval \<Rightarrow> string) \<Rightarrow> string \<Rightarrow> string list \<Rightarrow> string" where
  "source_synthetic_id sha version segments = sha (source_payload version segments)"

record topology_tables =
  tt_nodes :: "(string, topology_node) dict"
  tt_parent :: "(string, string option) dict"
  tt_children :: "(string, string list) dict"

definition add_child :: "string \<Rightarrow> string \<Rightarrow> (string, string list) dict \<Rightarrow> (string, string list) dict" where
  "add_child parent child children =
     AList.update parent (List.insert child (dict_get_or children parent []))
       (dict_setdefault children parent [])"

fun ingest_loop :: "(string list \<Rightarrow> string) \<Rightarrow> string list \<Rightarrow> nat list \<Rightarrow> string option \<Rightarrow> topology_tables \<Rightarrow> topology_tables" where
  "ingest_loop sid segments [] parent t = t"
| "ingest_loop sid segments (d # ds) parent t =
     (let prefix = take d segments;
          node_id = sid prefix
      in if map_of (tt_nodes t) node_id = None
         then ingest_loop sid segments ds (Some node_id)
           (let children = dict_setdefault (tt_children t) node_id []
            in \<lparr>tt_nodes = AList.update node_id
                   \<lparr>tn_node_id = node_id, tn_parent_id = parent,
                    tn_display_name = last prefix, tn_canonical_name = last prefix\<rparr> (tt_nodes t),
                tt_parent = AList.update node_id parent (tt_parent t),
                tt_children = (case parent of None \<Rightarrow> children
                               | Some p \<Rightarrow> add_child p node_id children)\<rparr>)
         else ingest_loop sid segments ds (Some node_id) t)"

definition ingest_path :: "(string list \<Rightarrow> string) \<Rightarrow> string list \<Rightarrow> topology_tables \<Rightarrow> topology_tables" where
  "ingest_path sid segments t = ingest_loop sid segments [1..<length segments + 1] None t"

definition freeze_tables :: "topology_tables \<Rightarrow> topology_snapshot" where
  "freeze_tables t =
     \<lparr>nodes_by_id = tt_nodes t,
      parent_by_id = tt_parent t,
      children_by_id = map (\<lambda>(n, cs). (n, sort cs)) (tt_children t),
      snapshot_roots = sort (map fst (filter (\<lambda>(n, p). p = None) (tt_parent t)))\<rparr>"

definition blank :: "string \<Rightarrow> bool" where
  "blank segment = (py_strip segment = [])"

record source_build =
  sb_tables :: topology_tables
  sb_errors :: "diagnostic_item list"
  sb_warnings :: "diagnostic_item list"
  sb_seen :: "(string list, nat) dict"

definition empty_tables :: topology_tables where
  "empty_tables = \<lparr>tt_nodes = [], tt_parent = [], tt_children = []\<rparr>"

fun source_loop ::
    "error_catalog \<Rightarrow> (string list \<Rightarrow> string) \<Rightarrow> nat \<Rightarrow> string list list \<Rightarrow> source_build \<Rightarrow> source_build result" where
  "source_loop cat sid index [] b = Inr b"
| "source_loop cat sid index (segments # paths) b =
     (if segments = [] \<or> list_all blank segments then
        bind_r (build_error cat TOPOLOGY_BOOTSTRAP ''TOPOLOGY_SOURCE_PATH_EMPTY'' None None None
                  (Some [(''path_index'', PInt (int index))]) None)
          (\<lambda>d. source_loop cat sid (index + 1) paths (b\<lparr>sb_errors := sb_errors b @ [d]\<rparr>))
      else if list_ex blank segments then
        bind_r (build_warning cat TOPOLOGY_BOOTSTRAP ''TOPOLOGY_SOURCE_PATH_MALFORMED'' None None None
                  (Some [(''path_index'', PInt (int index)), (''canonical_segments'', str_list segments)]) None)
          (\<lambda>d. source_loop cat sid (index + 1) paths (b\<lparr>sb_warnings := sb_warnings b @ [d]\<rparr>))
      else case map_of (sb_seen b) segments of
        Some kept \<Rightarrow>
          bind_r (build_warning cat TOPOLOGY_BOOTSTRAP ''TOPOLOGY_SOURCE_COLLISION'' None None None
                    (Some [(''canonical_segments'', str_list segments),
                           (''kept_path_index'', PInt (int kept)),
                           (''dropped_path_index'', PInt (int index))]) None)
            (\<lambda>d. source_loop cat sid (index + 1) paths (b\<lparr>sb_warnings := sb_warnings b @ [d]\<rparr>))
      | None \<Rightarrow>
          source_loop cat sid (index + 1) paths
            (b\<lparr>sb_seen := AList.update segments index (sb_seen b),
               sb_tables := ingest_path sid segments (sb_tables b)\<rparr>))"

definition build_source ::
    "error_catalog \<Rightarrow> (pyval \<Rightarrow> string) \<Rightarrow> string \<Rightarrow> string list list
     \<Rightarrow> (topology_snapshot \<times> diagnostic_item list \<times> diagnostic_item list) result" where
  "build_source cat sha version paths =
     bind_r (source_loop cat (source_synthetic_id sha version) 0 paths
               \<lparr>sb_tables = empty_tables, sb_errors = [], sb_warnings = [], sb_seen = []\<rparr>)
       (\<lambda>b. Inr (freeze_tables (sb_tables b), sb_errors b, sb_warnings b))"

section \<open>Target forest from adjacency rows\<close>

record target_hierarchy_row =
  thr_node_id :: string
  thr_parent_id :: "string option"
  thr_label :: string

fun target_nodes_loop ::
    "error_catalog \<Rightarrow> target_hierarchy_row list \<Rightarrow> topology_tables \<Rightarrow> diagnostic_item list
     \<Rightarrow> (topology_tables \<times> diagnostic_item list) result" where
  "target_nodes_loop cat [] t errors = Inr (t, errors)"
| "target_nodes_loop cat (row # rows) t errors =
     (if map_of (tt_nodes t) (thr_node_id row) \<noteq> None then
        bind_r (build_error cat TOPOLOGY_BOOTSTRAP ''TOPOLOGY_DUPLICATE_NODE'' None None None
                  (Some [(''node_id'', PStr (thr_node_id row))]) None)
          (\<lambda>d. target_nodes_loop cat rows t (errors @ [d]))
      else target_nodes_loop cat rows
        \<lparr>tt_nodes = AList.update (thr_node_id row)
            \<lparr>tn_node_id = thr_node_id row, tn_parent_id = thr_parent_id row,
             tn_display_name = thr_label row, tn_canonical_name = thr_label row\<rparr> (tt_nodes t),
         tt_parent = AList.update (thr_node_id row) (thr_parent_id row) (tt_parent t),
         tt_children = dict_setdefault (tt_children t) (thr_node_id row) []\<rparr> errors)"

fun target_edges_loop ::
    "error_catalog \<Rightarrow> (string, topology_node) dict \<Rightarrow> (string \<times> string option) list
     \<Rightarrow> (string, string list) dict \<Rightarrow> diagnostic_item list
     \<Rightarrow> ((string, string list) dict \<times> diagnostic_item list) result" where
  "target_edges_loop cat nodes [] children errors = Inr (children, errors)"
| "target_edges_loop cat nodes ((node_id, parent) # rest) children errors =
     (case parent of
        None \<Rightarrow> target_edges_loop cat nodes rest children errors
      | Some p \<Rightarrow>
          if map_of nodes p = None then
            bind_r (build_error cat TOPOLOGY_BOOTSTRAP ''TOPOLOGY_PARENT_MISSING'' None None None
                      (Some [(''node_id'', PStr node_id), (''parent_id'', PStr p)]) None)
              (\<lambda>d. target_edges_loop cat nodes rest children (errors @ [d]))
          else target_edges_loop cat nodes rest (add_child p node_id children) errors)"

text \<open>
  \<open>graphlib.TopologicalSorter.static_order\<close> hands out, round by round, the nodes whose
  predecessors are all done, and raises \<open>CycleError\<close> when nodes are left and none is ready.
\<close>

function sorter_has_cycle :: "(string, string list) dict \<Rightarrow> string list \<Rightarrow> bool" where
  "sorter_has_cycle graph open_nodes =
     (let ready = filter (\<lambda>n. list_all (\<lambda>p. p \<notin> set open_nodes) (dict_get_or graph n [])) open_nodes
      in if open_nodes = [] then False
         else if ready = [] then True
         else sorter_has_cycle graph (filter (\<lambda>n. n \<notin> set ready) open_nodes))"
  by pat_completeness auto
termination
proof (relation "measure (\<lambda>(g, ns). length ns)", goal_cases)
  case 1
  show ?case by simp
next
  case (2 graph ns ready)
  then have "ready \<noteq> []" "set ready \<subseteq> set ns" by auto
  then obtain n where "n \<in> set ready" "n \<in> set ns" using hd_in_set by blast
  then have "length (filter (\<lambda>n. n \<notin> set ready) ns) < length ns"
    by (intro length_filter_less) auto
  then show ?case by simp
qed

declare sorter_has_cycle.simps [simp del]

definition predecessor_graph :: "(string, string option) dict \<Rightarrow> (string, string list) dict" where
  "predecessor_graph parents = map (\<lambda>(n, p). (n, case p of None \<Rightarrow> [] | Some q \<Rightarrow> [q])) parents"

text \<open>The sorter's nodes are the keys of the graph and everything named as a predecessor.\<close>

definition has_cycle :: "(string, string option) dict \<Rightarrow> bool" where
  "has_cycle parents =
     (let graph = predecessor_graph parents
      in sorter_has_cycle graph (dict_fromkeys (map fst graph @ concat (map snd graph))))"

definition build_target ::
    "error_catalog \<Rightarrow> target_hierarchy_row list
     \<Rightarrow> (topology_snapshot \<times> diagnostic_item list \<times> diagnostic_item list) result" where
  "build_target cat rows =
     bind_r (target_nodes_loop cat rows empty_tables []) (\<lambda>(t, errors).
     bind_r (target_edges_loop cat (tt_nodes t) (tt_parent t) (tt_children t) errors) (\<lambda>(children, errors).
       if errors \<noteq> [] then Inr (empty_snapshot, errors, [])
       else if has_cycle (tt_parent t) then
         bind_r (build_error cat TOPOLOGY_BOOTSTRAP ''TOPOLOGY_CYCLE_DETECTED'' None None None None None)
           (\<lambda>d. Inr (empty_snapshot, errors @ [d], []))
       else Inr (freeze_tables (t\<lparr>tt_children := children\<rparr>), [], [])))"

section \<open>Tables that freeze to a well-formed snapshot\<close>

definition table_parent :: "topology_tables \<Rightarrow> string \<Rightarrow> string option" where
  "table_parent t n = dict_get_or (tt_parent t) n None"

definition tables_inv :: "topology_tables \<Rightarrow> bool" where
  "tables_inv t \<longleftrightarrow>
     distinct (map fst (tt_nodes t))
   \<and> map fst (tt_parent t) = map fst (tt_nodes t)
   \<and> (\<forall>n p. table_parent t n = Some p \<longrightarrow> p \<in> fst ` set (tt_nodes t))
   \<and> acyclic {(n, p). table_parent t n = Some p}
   \<and> (\<forall>n \<in> fst ` set (tt_nodes t). distinct (dict_get_or (tt_children t) n [])
        \<and> set (dict_get_or (tt_children t) n []) = {m. table_parent t m = Some n})
   \<and> (\<forall>n node. map_of (tt_nodes t) n = Some node \<longrightarrow> tn_node_id node = n \<and> tn_parent_id node = table_parent t n)"

lemma sort_distinct: "distinct xs \<Longrightarrow> sort xs = sorted_list_of_set (set xs)"
  by (simp add: sorted_list_of_set_sort_remdups distinct_remdups_id)

lemma freeze_inv:
  assumes "tables_inv t"
  shows "snapshot_inv (freeze_tables t)"
proof -
  let ?s = "freeze_tables t"
  have par: "parent_of ?s = table_parent t"
    by (auto simp: parent_of_def table_parent_def freeze_tables_def)
  have keys: "node_keys ?s = fst ` set (tt_nodes t)"
    by (simp add: node_keys_def freeze_tables_def)
  have up: "up_rel ?s = {(n, p). table_parent t n = Some p}"
    by (simp add: up_rel_def par)
  have kids: "dict_get_or (children_by_id ?s) n [] = sorted_list_of_set {m. table_parent t m = Some n}"
    if "n \<in> fst ` set (tt_nodes t)" for n
  proof -
    have "dict_get_or (children_by_id ?s) n [] = sort (dict_get_or (tt_children t) n [])"
      by (simp add: freeze_tables_def frozen_children)
    also have "\<dots> = sorted_list_of_set (set (dict_get_or (tt_children t) n []))"
      using assms that unfolding tables_inv_def by (intro sort_distinct) blast
    also have "set (dict_get_or (tt_children t) n []) = {m. table_parent t m = Some n}"
      using assms that unfolding tables_inv_def by blast
    finally show ?thesis .
  qed
  have d: "distinct (map fst (tt_parent t))"
    using assms by (simp add: tables_inv_def)
  have get: "table_parent t n = q" if "(n, q) \<in> set (tt_parent t)" for n q
    using d that by (simp add: table_parent_def dict_get_or_def map_of_is_SomeI)
  have "distinct (map fst (filter (\<lambda>(n, p). p = None) (tt_parent t)))"
    using d by (rule distinct_map_filter)
  moreover have "set (map fst (filter (\<lambda>(n, p). p = None) (tt_parent t)))
      = {n \<in> fst ` set (tt_parent t). table_parent t n = None}"
    using get by force
  moreover have "fst ` set (tt_parent t) = fst ` set (tt_nodes t)"
    using assms by (metis set_map tables_inv_def)
  ultimately have roots: "snapshot_roots ?s = sorted_list_of_set {n \<in> fst ` set (tt_nodes t). table_parent t n = None}"
    using sort_distinct [of "map fst (filter (\<lambda>(n, p). p = None) (tt_parent t))"]
    by (simp add: freeze_tables_def del: set_map)
  show ?thesis
    unfolding snapshot_inv_def par keys up
    using assms kids roots by (simp add: tables_inv_def freeze_tables_def get_node_def)
qed

lemma add_child_get [simp]:
  "dict_get_or (add_child p c ch) n [] = (if n = p then List.insert c (dict_get_or ch p []) else dict_get_or ch n [])"
  by (simp add: add_child_def)

section \<open>The target builder\<close>

lemma sorter_has_cycle_iff:
  "sorter_has_cycle g ns \<longleftrightarrow> (\<exists>S. S \<noteq> {} \<and> S \<subseteq> set ns \<and> (\<forall>n \<in> S. \<exists>p \<in> S. p \<in> set (dict_get_or g n [])))"
proof (induction g ns rule: sorter_has_cycle.induct)
  case (1 g ns)
  define ready where "ready = filter (\<lambda>n. list_all (\<lambda>p. p \<notin> set ns) (dict_get_or g n [])) ns"
  show ?case (is "_ = ?stuck ns")
  proof (cases "ns = [] \<or> ready = []")
    case True
    show ?thesis
    proof (cases "ns = []")
      case True
      then show ?thesis by (subst sorter_has_cycle.simps) simp
    next
      case False
      with True have e: "ready = []" by simp
      have "?stuck ns"
      proof (intro exI [of _ "set ns"] conjI ballI)
        fix n assume n: "n \<in> set ns"
        have "\<not> list_all (\<lambda>p. p \<notin> set ns) (dict_get_or g n [])"
          using e n by (auto simp: ready_def filter_empty_conv)
        then show "\<exists>p \<in> set ns. p \<in> set (dict_get_or g n [])" by (auto simp: list_all_iff)
      qed (use False in auto)
      then show ?thesis using False e by (subst sorter_has_cycle.simps) (simp add: ready_def)
    qed
  next
    case False
    let ?rest = "filter (\<lambda>n. n \<notin> set ready) ns"
    have "sorter_has_cycle g ns \<longleftrightarrow> sorter_has_cycle g ?rest"
      using False by (subst sorter_has_cycle.simps) (simp add: Let_def flip: ready_def)
    also have "\<dots> \<longleftrightarrow> ?stuck ?rest"
      using False by (intro "1.IH" [OF ready_def]) simp_all
    also have "\<dots> \<longleftrightarrow> ?stuck ns"
    proof
      assume "?stuck ?rest"
      then obtain S where "S \<noteq> {}" "S \<subseteq> set ?rest" "\<forall>n \<in> S. \<exists>p \<in> S. p \<in> set (dict_get_or g n [])"
        by blast
      moreover have "set ?rest \<subseteq> set ns" by auto
      ultimately show "?stuck ns" by (intro exI [of _ S]) (meson subset_trans)
    next
      assume "?stuck ns"
      then obtain S where S: "S \<noteq> {}" "S \<subseteq> set ns" "\<forall>n \<in> S. \<exists>p \<in> S. p \<in> set (dict_get_or g n [])"
        by blast
      have "S \<inter> set ready = {}"
        using S(2,3) by (fastforce simp: ready_def list_all_iff)
      with S have "S \<subseteq> set ?rest" by auto
      with S show "?stuck ?rest" by blast
    qed
    finally show ?thesis .
  qed
qed

lemma acyclic_iff_no_core:
  assumes "finite R"
  shows "acyclic R \<longleftrightarrow> \<not> (\<exists>S. S \<noteq> {} \<and> (\<forall>n \<in> S. \<exists>p \<in> S. (n, p) \<in> R))"
proof
  assume "acyclic R"
  then have wf: "wf (R\<inverse>)" using assms by (rule finite_acyclic_wf_converse [rotated])
  show "\<not> (\<exists>S. S \<noteq> {} \<and> (\<forall>n \<in> S. \<exists>p \<in> S. (n, p) \<in> R))"
  proof
    assume "\<exists>S. S \<noteq> {} \<and> (\<forall>n \<in> S. \<exists>p \<in> S. (n, p) \<in> R)"
    then obtain S x where S: "x \<in> S" "\<forall>n \<in> S. \<exists>p \<in> S. (n, p) \<in> R" by blast
    obtain z where "z \<in> S" "\<And>y. (y, z) \<in> R\<inverse> \<Longrightarrow> y \<notin> S" using wfE_min [OF wf S(1)] by blast
    with S(2) show False by blast
  qed
next
  assume none: "\<not> (\<exists>S. S \<noteq> {} \<and> (\<forall>n \<in> S. \<exists>p \<in> S. (n, p) \<in> R))"
  show "acyclic R"
    unfolding acyclic_def
  proof (intro allI notI)
    fix x assume x: "(x, x) \<in> R\<^sup>+"
    let ?S = "{y. (x, y) \<in> R\<^sup>* \<and> (y, x) \<in> R\<^sup>*}"
    have step: "\<exists>p \<in> ?S. (n, p) \<in> R" if "n \<in> ?S" for n
    proof -
      have "(n, x) \<in> R\<^sup>*" using that by blast
      then have "(n, x) \<in> R\<^sup>+" using x by (rule rtrancl_trancl_trancl)
      then obtain p where "(n, p) \<in> R" "(p, x) \<in> R\<^sup>*" by (meson tranclD)
      moreover have "(x, p) \<in> R\<^sup>*"
        using that rtrancl_into_rtrancl [OF _ \<open>(n, p) \<in> R\<close>, of x] by blast
      ultimately show ?thesis by blast
    qed
    have "x \<in> ?S" by simp
    then have "?S \<noteq> {}" by blast
    with step none show False by (metis (no_types, lifting))
  qed
qed

lemma predecessor_graph_get:
  "p \<in> set (dict_get_or (predecessor_graph ps) n []) \<longleftrightarrow> dict_get_or ps n None = Some p"
  by (induction ps) (auto simp: predecessor_graph_def dict_get_or_def split: option.splits)

lemma dict_get_or_Some_in: "dict_get_or ps n None = Some p \<Longrightarrow> (n, Some p) \<in> set ps"
  by (auto simp: dict_get_or_def split: option.splits dest: map_of_SomeD)

lemma predecessor_graph_nodes:
  assumes "dict_get_or ps n None = Some p"
  shows "n \<in> fst ` set (predecessor_graph ps)" "p \<in> set (concat (map snd (predecessor_graph ps)))"
proof -
  have e: "(n, [p]) \<in> set (predecessor_graph ps)"
    using dict_get_or_Some_in [OF assms] by (auto simp: predecessor_graph_def intro!: rev_image_eqI)
  then show "n \<in> fst ` set (predecessor_graph ps)" by force
  show "p \<in> set (concat (map snd (predecessor_graph ps)))" using e by force
qed

lemma has_cycle_iff: "has_cycle ps \<longleftrightarrow> \<not> acyclic {(n, p). dict_get_or ps n None = Some p}"
proof -
  define R where "R = {(n, p). dict_get_or ps n None = Some p}"
  define V where "V = set (map fst (predecessor_graph ps) @ concat (map snd (predecessor_graph ps)))"
  have R: "n \<in> V" "p \<in> V" if "(n, p) \<in> R" for n p
    using that predecessor_graph_nodes by (simp_all add: R_def V_def)
  have fin: "finite R"
  proof (rule finite_subset)
    show "R \<subseteq> V \<times> V" using R by auto
    show "finite (V \<times> V)" by (simp add: V_def)
  qed
  have "has_cycle ps \<longleftrightarrow> (\<exists>S. S \<noteq> {} \<and> S \<subseteq> V \<and> (\<forall>n \<in> S. \<exists>p \<in> S. (n, p) \<in> R))"
    by (simp add: has_cycle_def Let_def sorter_has_cycle_iff predecessor_graph_get R_def V_def)
  also have "\<dots> \<longleftrightarrow> (\<exists>S. S \<noteq> {} \<and> (\<forall>n \<in> S. \<exists>p \<in> S. (n, p) \<in> R))"
  proof -
    have "S \<subseteq> V" if "\<forall>n \<in> S. \<exists>p \<in> S. (n, p) \<in> R" for S
      using that R(1) by auto
    then show ?thesis by (intro ex_cong1) auto
  qed
  also have "\<dots> \<longleftrightarrow> \<not> acyclic R"
    using acyclic_iff_no_core [OF fin] by simp
  finally show ?thesis by (simp only: R_def)
qed

definition row_node :: "target_hierarchy_row \<Rightarrow> topology_node" where
  "row_node r = \<lparr>tn_node_id = thr_node_id r, tn_parent_id = thr_parent_id r,
     tn_display_name = thr_label r, tn_canonical_name = thr_label r\<rparr>"

definition rows_tables :: "target_hierarchy_row list \<Rightarrow> topology_tables \<Rightarrow> topology_tables" where
  "rows_tables rows t =
     \<lparr>tt_nodes = tt_nodes t @ map (\<lambda>r. (thr_node_id r, row_node r)) rows,
      tt_parent = tt_parent t @ map (\<lambda>r. (thr_node_id r, thr_parent_id r)) rows,
      tt_children = tt_children t @ map (\<lambda>r. (thr_node_id r, [])) rows\<rparr>"

definition same_keys :: "topology_tables \<Rightarrow> bool" where
  "same_keys t \<longleftrightarrow> map fst (tt_parent t) = map fst (tt_nodes t) \<and> map fst (tt_children t) = map fst (tt_nodes t)"

lemma same_keys_empty [simp]: "same_keys empty_tables"
  by (simp add: same_keys_def empty_tables_def)

lemma same_keys_sets:
  assumes "same_keys t"
  shows "fst ` set (tt_parent t) = fst ` set (tt_nodes t)" "fst ` set (tt_children t) = fst ` set (tt_nodes t)"
  using assms by (metis same_keys_def set_map)+

lemma same_keys_fresh:
  "same_keys t \<Longrightarrow> map_of (tt_nodes t) n = None \<Longrightarrow>
    n \<notin> fst ` set (tt_nodes t) \<and> n \<notin> fst ` set (tt_parent t) \<and> n \<notin> fst ` set (tt_children t)"
  by (metis same_keys_def map_of_eq_None_iff set_map)

lemma target_nodes_loop_spec:
  assumes "accepts cat ''TOPOLOGY_DUPLICATE_NODE''" "same_keys t"
  shows "\<exists>t' errs'. target_nodes_loop cat rows t errs = Inr (t', errs @ errs')
    \<and> (errs' = [] \<longleftrightarrow> distinct (map thr_node_id rows) \<and> set (map thr_node_id rows) \<inter> fst ` set (tt_nodes t) = {})
    \<and> (errs' = [] \<longrightarrow> t' = rows_tables rows t)"
  using assms(2)
proof (induction rows arbitrary: t errs)
  case Nil
  then show ?case by (simp add: rows_tables_def)
next
  case (Cons r rows)
  show ?case
  proof (cases "map_of (tt_nodes t) (thr_node_id r)")
    case None
    note fresh = same_keys_fresh [OF Cons.prems None]
    have t: "\<lparr>tt_nodes = AList.update (thr_node_id r)
            \<lparr>tn_node_id = thr_node_id r, tn_parent_id = thr_parent_id r,
             tn_display_name = thr_label r, tn_canonical_name = thr_label r\<rparr> (tt_nodes t),
         tt_parent = AList.update (thr_node_id r) (thr_parent_id r) (tt_parent t),
         tt_children = dict_setdefault (tt_children t) (thr_node_id r) []\<rparr> = rows_tables [r] t" (is "?t = _")
      using fresh by (simp add: rows_tables_def row_node_def update_fresh dict_setdefault_def
          map_of_eq_None_iff [THEN iffD2])
    have "same_keys (rows_tables [r] t)"
      using Cons.prems by (simp add: same_keys_def rows_tables_def)
    from Cons.IH [OF this, of errs] obtain t' errs' where IH:
      "target_nodes_loop cat rows (rows_tables [r] t) errs = Inr (t', errs @ errs')"
        "errs' = [] \<longleftrightarrow> distinct (map thr_node_id rows) \<and>
           set (map thr_node_id rows) \<inter> fst ` set (tt_nodes (rows_tables [r] t)) = {}"
        "errs' = [] \<longrightarrow> t' = rows_tables rows (rows_tables [r] t)" by blast
    have "target_nodes_loop cat (r # rows) t errs = Inr (t', errs @ errs')"
      using None IH(1) by (simp add: t)
    moreover have "errs' = [] \<longleftrightarrow> distinct (map thr_node_id (r # rows)) \<and>
           set (map thr_node_id (r # rows)) \<inter> fst ` set (tt_nodes t) = {}"
      using IH(2) fresh by (auto simp: rows_tables_def)
    moreover have "rows_tables rows (rows_tables [r] t) = rows_tables (r # rows) t"
      by (simp add: rows_tables_def)
    ultimately show ?thesis using IH(3) by auto
  next
    case (Some node)
    let ?d = "item cat TOPOLOGY_BOOTSTRAP ''TOPOLOGY_DUPLICATE_NODE'' None None None
      (Some [(''node_id'', PStr (thr_node_id r))])
      (resolve_severity cat ''TOPOLOGY_DUPLICATE_NODE'' None SEVERITY_ERROR)"
    from Cons.IH [OF Cons.prems, of "errs @ [?d]"] obtain t' errs' where
      "target_nodes_loop cat rows t (errs @ [?d]) = Inr (t', (errs @ [?d]) @ errs')" by blast
    then have "target_nodes_loop cat (r # rows) t errs = Inr (t', errs @ (?d # errs'))"
      using Some assms(1) by simp
    moreover have "thr_node_id r \<in> fst ` set (tt_nodes t)"
      using map_of_SomeD [OF Some] by force
    ultimately show ?thesis
      by (intro exI [of _ t'] exI [of _ "?d # errs'"]) auto
  qed
qed

lemma target_edges_loop_spec:
  assumes "accepts cat ''TOPOLOGY_PARENT_MISSING''"
  shows "\<exists>ch' errs'. target_edges_loop cat nodes ps ch errs = Inr (ch', errs @ errs')
    \<and> (errs' = [] \<longleftrightarrow> (\<forall>n p. (n, Some p) \<in> set ps \<longrightarrow> map_of nodes p \<noteq> None))
    \<and> (errs' = [] \<longrightarrow> (\<forall>n. set (dict_get_or ch' n []) = set (dict_get_or ch n []) \<union> {m. (m, Some n) \<in> set ps}))
    \<and> ((\<forall>n. distinct (dict_get_or ch n [])) \<longrightarrow> (\<forall>n. distinct (dict_get_or ch' n [])))"
proof (induction ps arbitrary: ch errs)
  case Nil
  then show ?case by simp
next
  case (Cons q ps)
  obtain m op where q: "q = (m, op)" by (cases q)
  show ?case
  proof (cases op)
    case None
    with Cons.IH [of ch errs] show ?thesis by (simp add: q)
  next
    case (Some p)
    show ?thesis
    proof (cases "map_of nodes p")
      case None
      let ?d = "item cat TOPOLOGY_BOOTSTRAP ''TOPOLOGY_PARENT_MISSING'' None None None
        (Some [(''node_id'', PStr m), (''parent_id'', PStr p)])
        (resolve_severity cat ''TOPOLOGY_PARENT_MISSING'' None SEVERITY_ERROR)"
      from Cons.IH [of ch "errs @ [?d]"] obtain ch' errs' where
        IH: "target_edges_loop cat nodes ps ch (errs @ [?d]) = Inr (ch', (errs @ [?d]) @ errs')"
          "(\<forall>n. distinct (dict_get_or ch n [])) \<longrightarrow> (\<forall>n. distinct (dict_get_or ch' n []))" by blast
      then have "target_edges_loop cat nodes (q # ps) ch errs = Inr (ch', errs @ (?d # errs'))"
        using Some None assms by (simp add: q)
      with IH(2) show ?thesis
        by (intro exI [of _ ch'] exI [of _ "?d # errs'"]) (use None Some in \<open>auto simp: q\<close>)
    next
      case (Some node)
      from Cons.IH [of "add_child p m ch" errs] obtain ch' errs' where
        IH: "target_edges_loop cat nodes ps (add_child p m ch) errs = Inr (ch', errs @ errs')"
          "errs' = [] \<longleftrightarrow> (\<forall>n p. (n, Some p) \<in> set ps \<longrightarrow> map_of nodes p \<noteq> None)"
          "errs' = [] \<longrightarrow> (\<forall>n. set (dict_get_or ch' n []) = set (dict_get_or (add_child p m ch) n []) \<union> {m. (m, Some n) \<in> set ps})"
          "(\<forall>n. distinct (dict_get_or (add_child p m ch) n [])) \<longrightarrow> (\<forall>n. distinct (dict_get_or ch' n []))" by blast
      have "target_edges_loop cat nodes (q # ps) ch errs = Inr (ch', errs @ errs')"
        using \<open>op = Some p\<close> Some IH(1) by (simp add: q)
      then show ?thesis
        using IH(2-4) \<open>op = Some p\<close> Some
        by (intro exI [of _ ch'] exI [of _ errs'] conjI impI allI set_eqI) (auto simp: q)
    qed
  qed
qed

definition row_ids :: "target_hierarchy_row list \<Rightarrow> string set" where
  "row_ids rows = thr_node_id ` set rows"

definition row_rel :: "target_hierarchy_row list \<Rightarrow> (string \<times> string) set" where
  "row_rel rows = {(n, p). \<exists>r \<in> set rows. thr_node_id r = n \<and> thr_parent_id r = Some p}"

definition valid_rows :: "target_hierarchy_row list \<Rightarrow> bool" where
  "valid_rows rows \<longleftrightarrow> distinct (map thr_node_id rows)
     \<and> Range (row_rel rows) \<subseteq> row_ids rows \<and> acyclic (row_rel rows)"

lemma rows_parent:
  assumes "distinct (map thr_node_id rows)"
  shows "dict_get_or (map (\<lambda>r. (thr_node_id r, thr_parent_id r)) rows) n None = Some p \<longleftrightarrow> (n, p) \<in> row_rel rows"
proof -
  have d: "distinct (map fst (map (\<lambda>r. (thr_node_id r, thr_parent_id r)) rows))"
    using assms by (simp add: comp_def)
  show ?thesis
  proof
    assume "dict_get_or (map (\<lambda>r. (thr_node_id r, thr_parent_id r)) rows) n None = Some p"
    from dict_get_or_Some_in [OF this] show "(n, p) \<in> row_rel rows" by (auto simp: row_rel_def)
  next
    assume "(n, p) \<in> row_rel rows"
    then have "(n, Some p) \<in> set (map (\<lambda>r. (thr_node_id r, thr_parent_id r)) rows)"
      by (force simp: row_rel_def)
    with d show "dict_get_or (map (\<lambda>r. (thr_node_id r, thr_parent_id r)) rows) n None = Some p"
      by (simp add: dict_get_or_def map_of_is_SomeI del: set_map)
  qed
qed

definition target_codes :: "string list" where
  "target_codes = [''TOPOLOGY_DUPLICATE_NODE'', ''TOPOLOGY_PARENT_MISSING'', ''TOPOLOGY_CYCLE_DETECTED'']"

lemma rows_tables_children:
  "dict_get_or (map (\<lambda>r. (thr_node_id r, [])) rows) n [] = []"
  by (induction rows) (auto simp: dict_get_or_def)

text \<open>The tables after both loops, when the rows are valid.\<close>

definition adjacency_tables :: "target_hierarchy_row list \<Rightarrow> (string, string list) dict \<Rightarrow> topology_tables" where
  "adjacency_tables rows ch =
     \<lparr>tt_nodes = map (\<lambda>r. (thr_node_id r, row_node r)) rows,
      tt_parent = map (\<lambda>r. (thr_node_id r, thr_parent_id r)) rows,
      tt_children = ch\<rparr>"

lemma adjacency_parent:
  "distinct (map thr_node_id rows) \<Longrightarrow>
     table_parent (adjacency_tables rows ch) m = Some p \<longleftrightarrow> (m, p) \<in> row_rel rows"
  using rows_parent by (simp add: table_parent_def adjacency_tables_def)

lemma adjacency_node_row:
  assumes "distinct (map thr_node_id rows)" "map_of (tt_nodes (adjacency_tables rows ch)) n = Some node"
  shows "tn_node_id node = n \<and> tn_parent_id node = table_parent (adjacency_tables rows ch) n"
proof -
  have "(n, node) \<in> (\<lambda>r. (thr_node_id r, row_node r)) ` set rows"
    using map_of_SomeD [OF assms(2)] by (simp add: adjacency_tables_def)
  then obtain r where r: "r \<in> set rows" "n = thr_node_id r" "node = row_node r" by blast
  have "map_of (map (\<lambda>r. (thr_node_id r, thr_parent_id r)) rows) (thr_node_id r) = Some (thr_parent_id r)"
    using assms(1) r(1) by (intro map_of_is_SomeI) (simp_all add: comp_def)
  then show ?thesis
    using r by (simp add: row_node_def table_parent_def dict_get_or_def adjacency_tables_def)
qed

lemma adjacency_tables_inv:
  assumes "valid_rows rows" "\<And>n. distinct (dict_get_or ch n [])"
    "\<And>n. set (dict_get_or ch n []) = {m. (m, n) \<in> row_rel rows}"
  shows "tables_inv (adjacency_tables rows ch)"
proof -
  let ?t = "adjacency_tables rows ch"
  have d: "distinct (map thr_node_id rows)" using assms(1) by (simp add: valid_rows_def)
  note tp = adjacency_parent [OF d, of ch]
  have keys: "fst ` set (tt_nodes ?t) = row_ids rows"
    by (simp add: adjacency_tables_def row_ids_def image_image)
  have rel: "{(n, p). table_parent ?t n = Some p} = row_rel rows" by (auto simp: tp)
  show ?thesis
    unfolding tables_inv_def keys rel
  proof (intro conjI allI impI ballI)
    show "distinct (map fst (tt_nodes ?t))" using d by (simp add: adjacency_tables_def comp_def)
    show "map fst (tt_parent ?t) = map fst (tt_nodes ?t)" by (simp add: adjacency_tables_def comp_def)
    show "p \<in> row_ids rows" if "table_parent ?t n = Some p" for n p
      using that assms(1) by (auto simp: tp valid_rows_def)
    show "acyclic (row_rel rows)" using assms(1) by (simp add: valid_rows_def)
    have ch: "tt_children ?t = ch" by (simp add: adjacency_tables_def)
    show "distinct (dict_get_or (tt_children ?t) n [])" for n by (simp add: ch assms(2))
    show "set (dict_get_or (tt_children ?t) n []) = {m. table_parent ?t m = Some n}" for n
      by (simp add: ch assms(3) tp)
    show "tn_node_id node = n" "tn_parent_id node = table_parent ?t n"
      if "map_of (tt_nodes ?t) n = Some node" for n node
      using adjacency_node_row [OF d that] by simp_all
  qed
qed

lemma build_target_distinct:
  assumes acc: "list_all (accepts cat) target_codes" and d: "distinct (map thr_node_id rows)"
  shows "\<exists>ch es. build_target cat rows =
      (if es \<noteq> [] then Inr (empty_snapshot, es, [])
       else if has_cycle (map (\<lambda>r. (thr_node_id r, thr_parent_id r)) rows) then
         bind_r (build_error cat TOPOLOGY_BOOTSTRAP ''TOPOLOGY_CYCLE_DETECTED'' None None None None None)
           (\<lambda>d. Inr (empty_snapshot, es @ [d], []))
       else Inr (freeze_tables (adjacency_tables rows ch), [], []))
    \<and> (es = [] \<longleftrightarrow> Range (row_rel rows) \<subseteq> row_ids rows)
    \<and> (es = [] \<longrightarrow> (\<forall>n. distinct (dict_get_or ch n []) \<and> set (dict_get_or ch n []) = {m. (m, n) \<in> row_rel rows}))"
proof -
  have a: "accepts cat ''TOPOLOGY_DUPLICATE_NODE''" "accepts cat ''TOPOLOGY_PARENT_MISSING''"
    using acc by (simp_all add: target_codes_def)
  let ?t = "rows_tables rows empty_tables"
  have n: "target_nodes_loop cat rows empty_tables [] = Inr (?t, [])"
    using target_nodes_loop_spec [OF a(1) same_keys_empty, of rows "[]"] d by (auto simp: empty_tables_def)
  have nodes: "tt_nodes ?t = map (\<lambda>r. (thr_node_id r, row_node r)) rows"
    and par: "tt_parent ?t = map (\<lambda>r. (thr_node_id r, thr_parent_id r)) rows"
    and kids: "tt_children ?t = map (\<lambda>r. (thr_node_id r, [])) rows"
    by (simp_all add: rows_tables_def empty_tables_def)
  obtain ch es where e:
      "target_edges_loop cat (tt_nodes ?t) (tt_parent ?t) (tt_children ?t) [] = Inr (ch, [] @ es)"
      "es = [] \<longleftrightarrow> (\<forall>n p. (n, Some p) \<in> set (tt_parent ?t) \<longrightarrow> map_of (tt_nodes ?t) p \<noteq> None)"
      "es = [] \<longrightarrow> (\<forall>n. set (dict_get_or ch n []) = set (dict_get_or (tt_children ?t) n []) \<union> {m. (m, Some n) \<in> set (tt_parent ?t)})"
      "(\<forall>n. distinct (dict_get_or (tt_children ?t) n [])) \<longrightarrow> (\<forall>n. distinct (dict_get_or ch n []))"
    using target_edges_loop_spec [OF a(2), of "tt_nodes ?t" "tt_parent ?t" "tt_children ?t" "[]"]
    by (elim exE conjE) (rule that)
  have in_par: "(m, Some p) \<in> set (tt_parent ?t) \<longleftrightarrow> (m, p) \<in> row_rel rows" for m p
    by (auto simp: par row_rel_def)
  have known: "map_of (tt_nodes ?t) p \<noteq> None \<longleftrightarrow> p \<in> row_ids rows" for p
    by (simp add: map_of_eq_None_iff nodes row_ids_def image_image)
  have t': "?t\<lparr>tt_children := ch\<rparr> = adjacency_tables rows ch"
    by (simp add: rows_tables_def empty_tables_def adjacency_tables_def)
  show ?thesis
  proof (intro exI [of _ ch] exI [of _ es] conjI)
    show "build_target cat rows =
      (if es \<noteq> [] then Inr (empty_snapshot, es, [])
       else if has_cycle (map (\<lambda>r. (thr_node_id r, thr_parent_id r)) rows) then
         bind_r (build_error cat TOPOLOGY_BOOTSTRAP ''TOPOLOGY_CYCLE_DETECTED'' None None None None None)
           (\<lambda>d. Inr (empty_snapshot, es @ [d], []))
       else Inr (freeze_tables (adjacency_tables rows ch), [], []))"
      using n e(1) by (simp add: build_target_def par t')
    show "es = [] \<longleftrightarrow> Range (row_rel rows) \<subseteq> row_ids rows"
      unfolding e(2) in_par known by auto
    show "es = [] \<longrightarrow> (\<forall>n. distinct (dict_get_or ch n []) \<and> set (dict_get_or ch n []) = {m. (m, n) \<in> row_rel rows})"
      using e(3,4) by (simp add: kids rows_tables_children in_par)
  qed
qed

lemma build_target_cases:
  assumes acc: "list_all (accepts cat) target_codes"
  shows "if valid_rows rows
    then \<exists>s. build_target cat rows = Inr (s, [], []) \<and> snapshot_inv s
       \<and> nodes_by_id s = map (\<lambda>r. (thr_node_id r, row_node r)) rows \<and> up_rel s = row_rel rows
    else \<exists>errs. errs \<noteq> [] \<and> build_target cat rows = Inr (empty_snapshot, errs, [])"
proof (cases "distinct (map thr_node_id rows)")
  case False
  have a: "accepts cat ''TOPOLOGY_DUPLICATE_NODE''" "accepts cat ''TOPOLOGY_PARENT_MISSING''"
    using acc by (simp_all add: target_codes_def)
  obtain t es where n: "target_nodes_loop cat rows empty_tables [] = Inr (t, es)" "es \<noteq> []"
    using target_nodes_loop_spec [OF a(1) same_keys_empty, of rows "[]"] False by auto
  obtain ch es2 where "target_edges_loop cat (tt_nodes t) (tt_parent t) (tt_children t) es = Inr (ch, es @ es2)"
    using target_edges_loop_spec [OF a(2)] by blast
  with n False show ?thesis by (simp add: build_target_def valid_rows_def)
next
  case d: True
  have a3: "accepts cat ''TOPOLOGY_CYCLE_DETECTED''" using acc by (simp add: target_codes_def)
  have cyc: "has_cycle (map (\<lambda>r. (thr_node_id r, thr_parent_id r)) rows) \<longleftrightarrow> \<not> acyclic (row_rel rows)"
    using has_cycle_iff [of "map (\<lambda>r. (thr_node_id r, thr_parent_id r)) rows"] rows_parent [OF d] by simp
  obtain ch es where b: "build_target cat rows =
      (if es \<noteq> [] then Inr (empty_snapshot, es, [])
       else if has_cycle (map (\<lambda>r. (thr_node_id r, thr_parent_id r)) rows) then
         bind_r (build_error cat TOPOLOGY_BOOTSTRAP ''TOPOLOGY_CYCLE_DETECTED'' None None None None None)
           (\<lambda>d. Inr (empty_snapshot, es @ [d], []))
       else Inr (freeze_tables (adjacency_tables rows ch), [], []))"
      "es = [] \<longleftrightarrow> Range (row_rel rows) \<subseteq> row_ids rows"
      "es = [] \<longrightarrow> (\<forall>n. distinct (dict_get_or ch n []) \<and> set (dict_get_or ch n []) = {m. (m, n) \<in> row_rel rows})"
    using build_target_distinct [OF acc d] by blast
  show ?thesis
  proof (cases "valid_rows rows")
    case False
    then show ?thesis using d b cyc a3 by (auto simp: valid_rows_def)
  next
    case True
    then have es: "es = []" using b(2) by (simp add: valid_rows_def)
    have "tables_inv (adjacency_tables rows ch)"
      using adjacency_tables_inv [OF True] b(3) es by blast
    moreover have "up_rel (freeze_tables (adjacency_tables rows ch)) = row_rel rows"
      using adjacency_parent [OF d, of ch]
      by (auto simp: up_rel_def parent_of_def table_parent_def freeze_tables_def)
    moreover have "nodes_by_id (freeze_tables (adjacency_tables rows ch)) = map (\<lambda>r. (thr_node_id r, row_node r)) rows"
      by (simp add: freeze_tables_def adjacency_tables_def)
    moreover have "build_target cat rows = Inr (freeze_tables (adjacency_tables rows ch), [], [])"
      using b(1) es cyc True by (simp add: valid_rows_def)
    ultimately show ?thesis using True freeze_inv by auto
  qed
qed

section \<open>The source builder\<close>

definition path_prefixes :: "string list list \<Rightarrow> string list set" where
  "path_prefixes paths = {take d q | d q. q \<in> set paths \<and> 0 < d \<and> d \<le> length q}"

definition prefix_parent :: "(string list \<Rightarrow> string) \<Rightarrow> string list \<Rightarrow> string option" where
  "prefix_parent sid p = (if butlast p = [] then None else Some (sid (butlast p)))"

definition prefix_node :: "(string list \<Rightarrow> string) \<Rightarrow> string list \<Rightarrow> topology_node" where
  "prefix_node sid p = \<lparr>tn_node_id = sid p, tn_parent_id = prefix_parent sid p,
     tn_display_name = last p, tn_canonical_name = last p\<rparr>"

text \<open>The tables hold exactly the prefixes in \<open>P\<close>, under their ids.\<close>

definition holds_prefixes :: "(string list \<Rightarrow> string) \<Rightarrow> string list set \<Rightarrow> topology_tables \<Rightarrow> bool" where
  "holds_prefixes sid P t \<longleftrightarrow>
     [] \<notin> P \<and> (\<forall>p \<in> P. butlast p \<noteq> [] \<longrightarrow> butlast p \<in> P)
   \<and> distinct (map fst (tt_nodes t)) \<and> same_keys t
   \<and> fst ` set (tt_nodes t) = sid ` P
   \<and> (\<forall>p \<in> P. map_of (tt_nodes t) (sid p) = Some (prefix_node sid p)
        \<and> map_of (tt_parent t) (sid p) = Some (prefix_parent sid p)
        \<and> distinct (dict_get_or (tt_children t) (sid p) [])
        \<and> set (dict_get_or (tt_children t) (sid p) []) = sid ` {q \<in> P. butlast q = p})"

lemma holds_prefixes_empty: "holds_prefixes sid {} empty_tables"
  by (simp add: holds_prefixes_def) (simp add: empty_tables_def)

definition insert_prefix :: "(string list \<Rightarrow> string) \<Rightarrow> string list \<Rightarrow> topology_tables \<Rightarrow> topology_tables" where
  "insert_prefix sid p t =
     \<lparr>tt_nodes = AList.update (sid p) (prefix_node sid p) (tt_nodes t),
      tt_parent = AList.update (sid p) (prefix_parent sid p) (tt_parent t),
      tt_children = (case prefix_parent sid p of
          None \<Rightarrow> dict_setdefault (tt_children t) (sid p) []
        | Some q \<Rightarrow> add_child q (sid p) (dict_setdefault (tt_children t) (sid p) []))\<rparr>"

lemma insert_prefix_same_keys:
  assumes h: "holds_prefixes sid P t" and new: "sid p \<notin> sid ` P"
    and b: "butlast p = [] \<or> butlast p \<in> P"
  shows "same_keys (insert_prefix sid p t) \<and> tt_nodes (insert_prefix sid p t) = tt_nodes t @ [(sid p, prefix_node sid p)]"
proof -
  have sk: "same_keys t" and keys: "fst ` set (tt_nodes t) = sid ` P"
    using h by (auto simp: holds_prefixes_def)
  have f: "sid p \<notin> fst ` set (tt_nodes t)" "sid p \<notin> fst ` set (tt_parent t)" "sid p \<notin> fst ` set (tt_children t)"
    using new by (simp_all only: same_keys_sets [OF sk] keys not_False_eq_True)
  have "map fst (add_child (sid (butlast p)) (sid p) (tt_children t @ [(sid p, [])])) = map fst (tt_children t) @ [sid p]"
    if "butlast p \<in> P"
  proof -
    have "sid (butlast p) \<in> fst ` set (tt_children t)"
      using that by (simp only: same_keys_sets [OF sk] keys imageI)
    then have m: "map_of (tt_children t @ [(sid p, [])]) (sid (butlast p)) \<noteq> None"
      by (simp add: map_of_eq_None_iff del: map_of_append)
    then have "dict_setdefault (tt_children t @ [(sid p, [])]) (sid (butlast p)) [] = tt_children t @ [(sid p, [])]"
      using not_None_eq [THEN iffD1, OF m] by (auto simp: dict_setdefault_def simp del: map_of_append)
    moreover have "sid (butlast p) \<in> set (map fst (tt_children t @ [(sid p, [])]))"
      using \<open>sid (butlast p) \<in> fst ` set (tt_children t)\<close> by simp
    ultimately show ?thesis by (simp add: add_child_def update_keys)
  qed
  then show ?thesis
    using f sk b by (auto simp: insert_prefix_def same_keys_def update_fresh dict_setdefault_def
        prefix_parent_def map_of_eq_None_iff [THEN iffD2])
qed

lemma insert_prefix_holds:
  assumes h: "holds_prefixes sid P t" and inj: "inj_on sid (insert p P)" and new: "p \<notin> P"
    and p: "p \<noteq> []" and b: "butlast p = [] \<or> butlast p \<in> P"
  shows "holds_prefixes sid (insert p P) (insert_prefix sid p t)"
proof -
  have fresh: "sid p \<notin> sid ` P" using inj new by (auto simp: inj_on_def)
  note sk = insert_prefix_same_keys [OF h fresh b]
  have diff: "sid q \<noteq> sid p" if "q \<in> P" for q using fresh that by (metis image_eqI)
  have ids: "sid q = sid r \<longleftrightarrow> q = r" if "q \<in> insert p P" "r \<in> insert p P" for q r
    by (rule inj_on_eq_iff [OF inj that])
  have keys: "fst ` set (tt_nodes t) = sid ` P" and skt: "same_keys t" using h by (auto simp: holds_prefixes_def)
  have noch: "dict_get_or (tt_children t) (sid p) [] = []"
  proof -
    have "sid p \<notin> fst ` set (tt_children t)"
      using fresh by (simp only: same_keys_sets [OF skt] keys not_False_eq_True)
    then show ?thesis by (simp add: dict_get_or_def map_of_eq_None_iff [THEN iffD2])
  qed
  have ch: "dict_get_or (tt_children (insert_prefix sid p t)) (sid q) [] =
      (if butlast p = q then List.insert (sid p) (dict_get_or (tt_children t) (sid q) [])
       else dict_get_or (tt_children t) (sid q) [])" if "q \<in> insert p P" for q
  proof (cases "butlast p = []")
    case True
    have "q \<noteq> []" using that p h by (auto simp: holds_prefixes_def)
    with True show ?thesis by (simp add: insert_prefix_def prefix_parent_def)
  next
    case False
    then have "sid q = sid (butlast p) \<longleftrightarrow> q = butlast p" using b that by (intro ids) auto
    with False show ?thesis by (simp add: insert_prefix_def prefix_parent_def eq_commute)
  qed
  have nob: "{q \<in> insert p P. butlast q = p} = {}"
  proof -
    have "butlast q \<noteq> p" if "q \<in> P" for q using h that new p by (auto simp: holds_prefixes_def)
    moreover have "butlast p \<noteq> p" using p by (metis append_butlast_last_id append_self_conv not_Cons_self2)
    ultimately show ?thesis by auto
  qed
  have kids: "distinct (dict_get_or (tt_children (insert_prefix sid p t)) (sid q) [])
      \<and> set (dict_get_or (tt_children (insert_prefix sid p t)) (sid q) []) = sid ` {r \<in> insert p P. butlast r = q}"
    if q: "q \<in> insert p P" for q
  proof (cases "q = p")
    case True
    have "butlast p \<noteq> p" using p by (metis append_butlast_last_id append_self_conv not_Cons_self2)
    then show ?thesis using ch [OF q] noch nob True by simp
  next
    case False
    then have old: "distinct (dict_get_or (tt_children t) (sid q) [])"
        "set (dict_get_or (tt_children t) (sid q) []) = sid ` {r \<in> P. butlast r = q}"
      using h q by (auto simp: holds_prefixes_def)
    show ?thesis
    proof (cases "butlast p = q")
      case True
      then have "{r \<in> insert p P. butlast r = q} = insert p {r \<in> P. butlast r = q}" by auto
      with True ch [OF q] old show ?thesis by simp
    next
      case ne: False
      then have "{r \<in> insert p P. butlast r = q} = {r \<in> P. butlast r = q}" by auto
      with ne ch [OF q] old show ?thesis by simp
    qed
  qed
  have look: "map_of (tt_nodes (insert_prefix sid p t)) (sid q) = Some (prefix_node sid q)
      \<and> map_of (tt_parent (insert_prefix sid p t)) (sid q) = Some (prefix_parent sid q)" if "q \<in> insert p P" for q
    using that h diff by (auto simp: insert_prefix_def update_conv' holds_prefixes_def)
  show ?thesis
    unfolding holds_prefixes_def
    using h p b sk fresh keys kids look by (auto simp: holds_prefixes_def)
qed

lemma ingest_loop_prefixes:
  assumes "holds_prefixes sid P t" "inj_on sid (P \<union> {take d q | d. 0 < d \<and> d \<le> length q})"
    "k \<le> length q" "k = 0 \<or> take k q \<in> P" "par = (if k = 0 then None else Some (sid (take k q)))"
  shows "holds_prefixes sid (P \<union> {take d q | d. k < d \<and> d \<le> length q})
    (ingest_loop sid q [k + 1..<length q + 1] par t)"
  using assms
proof (induction "length q - k" arbitrary: k P t par)
  case 0
  then have k: "k = length q" by simp
  have "{take d q | d. length q < d \<and> d \<le> length q} = {}" by auto
  then have "P \<union> {take d q | d. k < d \<and> d \<le> length q} = P" using k by blast
  moreover have "ingest_loop sid q [k + 1..<length q + 1] par t = t" using k by simp
  ultimately show ?case using 0 by (simp only:)
next
  case (Suc m)
  then have k: "k < length q" by simp
  let ?p = "take (k + 1) q"
  have p: "?p \<noteq> []" "butlast ?p = take k q" using k by (auto simp: butlast_take)
  have par: "par = prefix_parent sid ?p"
    unfolding prefix_parent_def p(2) using Suc.prems(5) k by auto
  have split: "{take d q | d. k < d \<and> d \<le> length q} = insert ?p {take d q | d. k + 1 < d \<and> d \<le> length q}"
    using k by (auto simp: Suc_lessI) (metis Suc_lessI)
  have up: "[k + 1..<length q + 1] = (k + 1) # [(k + 1) + 1..<length q + 1]"
    using k by (simp add: upt_conv_Cons)
  have IH: "holds_prefixes sid (insert ?p P \<union> {take d q | d. k + 1 < d \<and> d \<le> length q})
      (ingest_loop sid q [(k + 1) + 1..<length q + 1] (Some (sid ?p)) t')"
    if "holds_prefixes sid (insert ?p P) t'" for t'
  proof (rule Suc.hyps(1) [OF _ that])
    have "insert ?p P \<union> {take d q | d. 0 < d \<and> d \<le> length q} = P \<union> {take d q | d. 0 < d \<and> d \<le> length q}"
      using k by auto
    then show "inj_on sid (insert ?p P \<union> {take d q | d. 0 < d \<and> d \<le> length q})"
      using Suc.prems(2) by simp
  qed (use Suc.hyps(2) k in auto)
  have mem: "?p \<in> P \<union> {take d q | d. 0 < d \<and> d \<le> length q}" using k by auto
  have set: "insert ?p P \<union> {take d q | d. k + 1 < d \<and> d \<le> length q}
      = P \<union> {take d q | d. k < d \<and> d \<le> length q}" by (simp add: split)
  show ?case
  proof (cases "?p \<in> P")
    case True
    then have "map_of (tt_nodes t) (sid ?p) \<noteq> None"
      using Suc.prems(1) by (auto simp: holds_prefixes_def)
    then have "ingest_loop sid q [k + 1..<length q + 1] par t
        = ingest_loop sid q [(k + 1) + 1..<length q + 1] (Some (sid ?p)) t"
      unfolding up by (auto simp: Let_def simp del: upt_Suc)
    moreover have "insert ?p P = P" using True by blast
    ultimately show ?thesis using IH [of t] Suc.prems(1) set by simp
  next
    case False
    have inj: "inj_on sid (insert ?p P)" by (rule inj_on_subset [OF Suc.prems(2)]) (use mem in auto)
    then have "sid ?p \<notin> sid ` P" using False by (auto simp: inj_on_def)
    then have "map_of (tt_nodes t) (sid ?p) = None"
      using Suc.prems(1) by (simp add: map_of_eq_None_iff holds_prefixes_def)
    then have "ingest_loop sid q [k + 1..<length q + 1] par t
        = ingest_loop sid q [(k + 1) + 1..<length q + 1] (Some (sid ?p)) (insert_prefix sid ?p t)"
      unfolding up by (simp add: Let_def par insert_prefix_def prefix_node_def del: upt_Suc)
    moreover have "holds_prefixes sid (insert ?p P) (insert_prefix sid ?p t)"
      using insert_prefix_holds [OF Suc.prems(1) inj False p(1)] p(2) Suc.prems(4) by auto
    ultimately show ?thesis using IH set by simp
  qed
qed

lemma ingest_path_prefixes:
  assumes "holds_prefixes sid P t" "inj_on sid (P \<union> path_prefixes [q])"
  shows "holds_prefixes sid (P \<union> path_prefixes [q]) (ingest_path sid q t)"
proof -
  have "path_prefixes [q] = {take d q | d. 0 < d \<and> d \<le> length q}" by (auto simp: path_prefixes_def)
  then show ?thesis
    using ingest_loop_prefixes [OF assms(1), of q 0 None] assms(2) by (simp add: ingest_path_def)
qed

definition usable :: "string list \<Rightarrow> bool" where
  "usable q \<longleftrightarrow> q \<noteq> [] \<and> \<not> list_ex blank q"

lemma path_prefixes_Cons: "path_prefixes (q # qs) = path_prefixes [q] \<union> path_prefixes qs"
  by (auto simp: path_prefixes_def)

lemma path_prefixes_Nil [simp]: "path_prefixes [] = {}"
  by (simp add: path_prefixes_def)

lemma path_prefixes_mono: "set xs \<subseteq> set ys \<Longrightarrow> path_prefixes xs \<subseteq> path_prefixes ys"
  unfolding path_prefixes_def by blast

definition source_codes :: "string list" where
  "source_codes = [''TOPOLOGY_SOURCE_PATH_EMPTY'', ''TOPOLOGY_SOURCE_PATH_MALFORMED'', ''TOPOLOGY_SOURCE_COLLISION'']"

definition dropped_count :: "source_build \<Rightarrow> nat" where
  "dropped_count b = length (sb_errors b) + length (sb_warnings b)"

lemma source_loop_spec:
  assumes acc: "list_all (accepts cat) source_codes"
    and "holds_prefixes sid P (sb_tables b)"
    and "inj_on sid (P \<union> path_prefixes (filter usable paths))"
    and "path_prefixes (map fst (sb_seen b)) \<subseteq> P"
  shows "\<exists>b'. source_loop cat sid i paths b = Inr b'
    \<and> holds_prefixes sid (P \<union> path_prefixes (filter usable paths)) (sb_tables b')
    \<and> dropped_count b' + length (sb_seen b') = dropped_count b + length (sb_seen b) + length paths
    \<and> set (map fst (sb_seen b')) = set (map fst (sb_seen b)) \<union> set (filter usable paths)"
  using assms(2-4)
proof (induction paths arbitrary: P b i)
  case Nil
  then show ?case by simp
next
  case (Cons q qs)
  have a: "accepts cat ''TOPOLOGY_SOURCE_PATH_EMPTY''" "accepts cat ''TOPOLOGY_SOURCE_PATH_MALFORMED''"
      "accepts cat ''TOPOLOGY_SOURCE_COLLISION''"
    using acc by (simp_all add: source_codes_def)
  have drop: ?case if "\<exists>b1. sb_tables b1 = sb_tables b \<and> sb_seen b1 = sb_seen b
      \<and> dropped_count b1 = dropped_count b + 1 \<and> source_loop cat sid i (q # qs) b = source_loop cat sid (i + 1) qs b1"
    and "usable q \<Longrightarrow> q \<in> fst ` set (sb_seen b)"
  proof -
    from that(1) obtain b1 where b1: "sb_tables b1 = sb_tables b" "sb_seen b1 = sb_seen b"
      "dropped_count b1 = dropped_count b + 1" "source_loop cat sid i (q # qs) b = source_loop cat sid (i + 1) qs b1"
      by blast
    have pre: "P \<union> path_prefixes (filter usable (q # qs)) = P \<union> path_prefixes (filter usable qs)"
    proof (cases "usable q")
      case True
      have "path_prefixes [q] \<subseteq> path_prefixes (map fst (sb_seen b))"
        using that(2) [OF True] by (intro path_prefixes_mono) simp
      moreover have "path_prefixes (filter usable (q # qs)) = path_prefixes [q] \<union> path_prefixes (filter usable qs)"
        using True path_prefixes_Cons [of q "filter usable qs"] by simp
      ultimately show ?thesis using Cons.prems(3) by blast
    qed simp
    have "\<exists>b'. source_loop cat sid (i + 1) qs b1 = Inr b'
      \<and> holds_prefixes sid (P \<union> path_prefixes (filter usable qs)) (sb_tables b')
      \<and> dropped_count b' + length (sb_seen b') = dropped_count b1 + length (sb_seen b1) + length qs
      \<and> set (map fst (sb_seen b')) = set (map fst (sb_seen b1)) \<union> set (filter usable qs)"
      using Cons.prems b1(1,2) pre by (intro Cons.IH) simp_all
    then show ?thesis using b1 pre that(2) by auto
  qed
  consider (empty) "q = [] \<or> list_all blank q" | (malformed) "q \<noteq> []" "\<not> list_all blank q" "list_ex blank q"
    | (usable) "usable q" "\<not> list_all blank q"
    by (cases q) (auto simp: usable_def list_all_iff list_ex_iff)
  then show ?case
  proof cases
    case empty
    then have "\<not> usable q" by (cases q) (auto simp: usable_def)
    with empty a show ?thesis
      by (intro drop exI [of _ "b\<lparr>sb_errors := sb_errors b @ [_]\<rparr>"]) (auto simp: dropped_count_def)
  next
    case malformed
    then show ?thesis using a
      by (intro drop exI [of _ "b\<lparr>sb_warnings := sb_warnings b @ [_]\<rparr>"]) (auto simp: dropped_count_def usable_def)
  next
    case usable
    show ?thesis
    proof (cases "map_of (sb_seen b) q")
      case (Some kept)
      then show ?thesis using a usable map_of_SomeD [OF Some]
        by (intro drop exI [of _ "b\<lparr>sb_warnings := sb_warnings b @ [_]\<rparr>"])
          (auto simp: dropped_count_def usable_def intro: rev_image_eqI)
    next
      case None
      then have fresh: "q \<notin> fst ` set (sb_seen b)" by (simp add: map_of_eq_None_iff)
      let ?b = "b\<lparr>sb_seen := AList.update q i (sb_seen b), sb_tables := ingest_path sid q (sb_tables b)\<rparr>"
      have pre: "P \<union> path_prefixes (filter usable (q # qs)) = (P \<union> path_prefixes [q]) \<union> path_prefixes (filter usable qs)"
        using usable(1) path_prefixes_Cons [of q "filter usable qs"] by auto
      have inj: "inj_on sid (P \<union> path_prefixes [q])"
        by (rule inj_on_subset [OF Cons.prems(2)]) (unfold pre, blast)
      have "\<exists>b'. source_loop cat sid (i + 1) qs ?b = Inr b'
        \<and> holds_prefixes sid ((P \<union> path_prefixes [q]) \<union> path_prefixes (filter usable qs)) (sb_tables b')
        \<and> dropped_count b' + length (sb_seen b') = dropped_count ?b + length (sb_seen ?b) + length qs
        \<and> set (map fst (sb_seen b')) = set (map fst (sb_seen ?b)) \<union> set (filter usable qs)"
      proof (rule Cons.IH)
        show "holds_prefixes sid (P \<union> path_prefixes [q]) (sb_tables ?b)"
          using ingest_path_prefixes [OF Cons.prems(1) inj] by simp
        show "inj_on sid (P \<union> path_prefixes [q] \<union> path_prefixes (filter usable qs))"
          using Cons.prems(2) by (simp only: pre)
        have "path_prefixes (map fst (sb_seen ?b)) = path_prefixes (map fst (sb_seen b)) \<union> path_prefixes [q]"
          using fresh by (auto simp: update_fresh path_prefixes_def)
        then show "path_prefixes (map fst (sb_seen ?b)) \<subseteq> P \<union> path_prefixes [q]"
          using Cons.prems(3) by blast
      qed
      moreover have "source_loop cat sid i (q # qs) b = source_loop cat sid (i + 1) qs ?b"
        using usable None by (simp add: usable_def)
      ultimately show ?thesis
        unfolding pre using usable(1) fresh
        by (auto simp: update_fresh dropped_count_def simp del: source_loop.simps)
    qed
  qed
qed

lemma holds_prefixes_parent:
  assumes "holds_prefixes sid P t"
  shows "table_parent t n = Some p \<longleftrightarrow> (\<exists>q \<in> P. n = sid q \<and> butlast q \<noteq> [] \<and> p = sid (butlast q))"
proof
  assume a: "table_parent t n = Some p"
  then have "n \<in> fst ` set (tt_parent t)"
    using dict_get_or_Some_in [of "tt_parent t" n p] by (force simp: table_parent_def)
  then obtain q where q: "q \<in> P" "n = sid q"
    using assms same_keys_sets(1) [of t] by (auto simp: holds_prefixes_def)
  then have "map_of (tt_parent t) n = Some (prefix_parent sid q)"
    using assms by (simp add: holds_prefixes_def)
  with a q show "\<exists>q \<in> P. n = sid q \<and> butlast q \<noteq> [] \<and> p = sid (butlast q)"
    by (auto simp: table_parent_def dict_get_or_def prefix_parent_def split: if_splits)
next
  assume "\<exists>q \<in> P. n = sid q \<and> butlast q \<noteq> [] \<and> p = sid (butlast q)"
  then show "table_parent t n = Some p"
    using assms by (auto simp: holds_prefixes_def table_parent_def dict_get_or_def prefix_parent_def)
qed

lemma holds_prefixes_inv:
  assumes h: "holds_prefixes sid P t" and inj: "inj_on sid P"
  shows "tables_inv t"
proof -
  note par = holds_prefixes_parent [OF h]
  have keys: "fst ` set (tt_nodes t) = sid ` P" and closed: "\<And>q. q \<in> P \<Longrightarrow> butlast q \<noteq> [] \<Longrightarrow> butlast q \<in> P"
    using h by (auto simp: holds_prefixes_def)
  let ?R = "{(n, p). table_parent t n = Some p}"
  let ?f = "\<lambda>n. length (the_inv_into P sid n)"
  have "?R\<inverse> \<subseteq> measure ?f"
  proof (clarsimp simp: par)
    fix q assume q: "q \<in> P" "butlast q \<noteq> []"
    then show "?f (sid (butlast q)) < ?f (sid q)"
      using closed [OF q] by (cases q) (simp_all add: the_inv_into_f_f [OF inj])
  qed
  then have "wf (?R\<inverse>)" using wf_measure wf_subset by blast
  then have acyc: "acyclic ?R" using wf_acyclic acyclic_converse by blast
  have kids: "{m. table_parent t m = Some (sid q)} = sid ` {r \<in> P. butlast r = q}" if "q \<in> P" for q
  proof -
    have "q \<noteq> []" using that h by (auto simp: holds_prefixes_def)
    moreover have "sid q = sid (butlast r) \<longleftrightarrow> q = butlast r" if "r \<in> P" "butlast r \<noteq> []" for r
      using \<open>q \<in> P\<close> closed [OF that] inj_on_eq_iff [OF inj] by blast
    ultimately show ?thesis by (auto simp: par)
  qed
  show ?thesis
    unfolding tables_inv_def keys
  proof (intro conjI allI impI ballI)
    show "distinct (map fst (tt_nodes t))" "map fst (tt_parent t) = map fst (tt_nodes t)"
      using h by (auto simp: holds_prefixes_def same_keys_def)
    show "p \<in> sid ` P" if "table_parent t n = Some p" for n p
      using that closed by (auto simp: par)
    show "acyclic ?R" by (rule acyc)
    show "distinct (dict_get_or (tt_children t) n [])" if "n \<in> sid ` P" for n
      using that h by (auto simp: holds_prefixes_def)
    show "set (dict_get_or (tt_children t) n []) = {m. table_parent t m = Some n}" if "n \<in> sid ` P" for n
    proof -
      obtain q where q: "q \<in> P" "n = sid q" using \<open>n \<in> sid ` P\<close> by blast
      then have "set (dict_get_or (tt_children t) n []) = sid ` {r \<in> P. butlast r = q}"
        using h by (simp add: holds_prefixes_def)
      with q show ?thesis by (simp only: kids)
    qed
    fix n node assume "map_of (tt_nodes t) n = Some node"
    then have "n \<in> sid ` P" using keys by (metis map_of_SomeD fst_conv image_eqI)
    then obtain q where q: "q \<in> P" "n = sid q" by blast
    with h \<open>map_of (tt_nodes t) n = Some node\<close> have "node = prefix_node sid q"
      by (simp add: holds_prefixes_def)
    moreover have "table_parent t n = prefix_parent sid q"
      using h q by (simp add: holds_prefixes_def table_parent_def dict_get_or_def)
    ultimately show "tn_node_id node = n" "tn_parent_id node = table_parent t n"
      using q by (simp_all add: prefix_node_def)
  qed
qed

lemma prefix_chain:
  assumes h: "holds_prefixes sid P t" and "q \<in> P"
  shows "\<exists>xs. up_chain (freeze_tables t) (sid q # xs) \<and> length (sid q # xs) = length q
    \<and> map (\<lambda>c. tn_canonical_name (the (get_node (freeze_tables t) c))) (rev (sid q # xs)) = q"
  using assms(2)
proof (induction q rule: rev_induct)
  case Nil
  then show ?case using h by (simp add: holds_prefixes_def)
next
  case (snoc x q)
  let ?s = "freeze_tables t" and ?q = "q @ [x]"
  have node: "get_node ?s (sid ?q) = Some (prefix_node sid ?q)"
    using h snoc.prems by (simp add: holds_prefixes_def get_node_def freeze_tables_def)
  then have known: "sid ?q \<in> node_keys ?s"
    by (auto simp: get_node_def node_keys_def dest: map_of_SomeD intro: rev_image_eqI)
  have par: "parent_of ?s (sid ?q) = prefix_parent sid ?q"
    using h snoc.prems by (simp add: holds_prefixes_def parent_of_def dict_get_or_def freeze_tables_def)
  show ?case
  proof (cases "q = []")
    case True
    then show ?thesis using node known par
      by (intro exI [of _ "[]"]) (simp add: prefix_parent_def prefix_node_def)
  next
    case False
    then have "q \<in> P" using h snoc.prems by (auto simp: holds_prefixes_def)
    from snoc.IH [OF this] obtain xs where xs: "up_chain ?s (sid q # xs)" "length (sid q # xs) = length q"
      "map (\<lambda>c. tn_canonical_name (the (get_node ?s c))) (rev (sid q # xs)) = q" by blast
    then show ?thesis using node known par False
      by (intro exI [of _ "sid q # xs"]) (simp add: prefix_parent_def prefix_node_def)
  qed
qed

lemma source_loop_seen_distinct:
  assumes "source_loop cat sid i paths b = Inr b'" "distinct (map fst (sb_seen b))"
  shows "distinct (map fst (sb_seen b'))"
  using assms
proof (induction paths arbitrary: b i)
  case Nil
  then show ?case by simp
next
  case (Cons q qs)
  then show ?case
    by (auto simp: bind_r_Inr_iff distinct_update split: if_splits option.splits)
qed

section \<open>Properties\<close>

text \<open>
  C21. The target builder accepts a list of adjacency rows exactly when the node ids are
  distinct, every parent is one of the rows and no node is its own ancestor; it then returns a
  well-formed snapshot with one node per row in their order and the rows' parent relation, and
  no diagnostic.  On any other list it returns the empty snapshot with at least one error, so no
  partial hierarchy is ever published.
\<close>

theorem build_target_exact:
  assumes "list_all (accepts cat) target_codes"
  shows "if valid_rows rows
    then \<exists>s. build_target cat rows = Inr (s, [], []) \<and> snapshot_inv s
       \<and> nodes_by_id s = map (\<lambda>r. (thr_node_id r, row_node r)) rows \<and> up_rel s = row_rel rows
    else \<exists>errs. errs \<noteq> [] \<and> build_target cat rows = Inr (empty_snapshot, errs, [])"
  by (rule build_target_cases [OF assms])

lemma build_target_exact_witness:
  "\<exists>s. build_target (make_catalog [] False)
       [\<lparr>thr_node_id = ''b'', thr_parent_id = Some ''a'', thr_label = ''x''\<rparr>,
        \<lparr>thr_node_id = ''a'', thr_parent_id = None, thr_label = ''y''\<rparr>] = Inr (s, [], [])
     \<and> snapshot_inv s \<and> up_rel s = {(''b'', ''a'')}"
proof -
  let ?rows = "[\<lparr>thr_node_id = ''b'', thr_parent_id = Some ''a'', thr_label = ''x''\<rparr>,
        \<lparr>thr_node_id = ''a'', thr_parent_id = None, thr_label = ''y''\<rparr>]"
  have acc: "list_all (accepts (make_catalog [] False)) target_codes"
    by (simp add: target_codes_def accepts_def make_catalog_def)
  have rel: "row_rel ?rows = {(''b'', ''a'')}" by (auto simp: row_rel_def)
  have "valid_rows ?rows" by (simp add: valid_rows_def rel row_ids_def acyclic_insert)
  with build_target_exact [OF acc, of ?rows] rel show ?thesis by auto
qed

text \<open>
  C37. The source builder never fails on canonical paths: every path is either kept or reported
  by exactly one diagnostic.  As long as the digest separates the prefixes of the usable paths,
  the snapshot is well formed, its nodes are exactly those prefixes, and the canonical path of
  the node of a prefix is that prefix again: the segments a path was built from can always be
  read back from its id.
\<close>

theorem build_source_roundtrip:
  assumes "list_all (accepts cat) source_codes"
    and "inj_on (source_synthetic_id sha version) (path_prefixes (filter usable paths))"
  shows "\<exists>s errs warns. build_source cat sha version paths = Inr (s, errs, warns) \<and> snapshot_inv s
    \<and> length errs + length warns + card (set (filter usable paths)) = length paths
    \<and> node_keys s = source_synthetic_id sha version ` path_prefixes (filter usable paths)
    \<and> (\<forall>q. q \<in> path_prefixes (filter usable paths) \<longrightarrow>
         canonical_path s (source_synthetic_id sha version q) = Some (Inr q)
         \<and> depth s (source_synthetic_id sha version q) = Some (Inr (length q - 1)))"
proof -
  let ?sid = "source_synthetic_id sha version" and ?P = "path_prefixes (filter usable paths)"
  let ?b = "\<lparr>sb_tables = empty_tables, sb_errors = [], sb_warnings = [], sb_seen = []\<rparr>"
  obtain b' where b': "source_loop cat ?sid 0 paths ?b = Inr b'" "holds_prefixes ?sid ?P (sb_tables b')"
      "dropped_count b' + length (sb_seen b') = length paths"
      "set (map fst (sb_seen b')) = set (filter usable paths)"
    using source_loop_spec [OF assms(1), of ?sid "{}" ?b paths 0] assms(2) holds_prefixes_empty
    by (auto simp: dropped_count_def)
  have d: "length (sb_seen b') = card (set (filter usable paths))"
    using source_loop_seen_distinct [OF b'(1)] b'(4) distinct_card [of "map fst (sb_seen b')"] by simp
  let ?s = "freeze_tables (sb_tables b')"
  have inv: "snapshot_inv ?s" by (rule freeze_inv [OF holds_prefixes_inv [OF b'(2) assms(2)]])
  have "node_keys ?s = ?sid ` ?P"
    using b'(2) by (simp add: holds_prefixes_def node_keys_def freeze_tables_def)
  moreover have "canonical_path ?s (?sid q) = Some (Inr q) \<and> depth ?s (?sid q) = Some (Inr (length q - 1))"
    if q: "q \<in> ?P" for q
  proof -
    obtain xs where xs: "up_chain ?s (?sid q # xs)" "length (?sid q # xs) = length q"
      "map (\<lambda>c. tn_canonical_name (the (get_node ?s c))) (rev (?sid q # xs)) = q"
      using prefix_chain [OF b'(2) q] by blast
    from xs(2) have "length xs = length q - 1" by simp
    with queries_on_chain [OF inv xs(1)] xs(3) show ?thesis by simp
  qed
  ultimately show ?thesis
    using inv b'(1,3) d by (simp add: build_source_def dropped_count_def)
qed

lemma path_prefixes_image: "path_prefixes ps = (\<Union>q \<in> set ps. (\<lambda>d. take d q) ` set [1..<length q + 1])"
proof -
  have "set [1..<length q + 1] = {d. 0 < d \<and> d \<le> length q}" for q :: "string list"
    by auto
  then show ?thesis unfolding path_prefixes_def by blast
qed

text \<open>A digest that separates the two prefixes of the witness: the segments side by side.\<close>

definition join_digest :: "pyval \<Rightarrow> string" where
  "join_digest v = (case v of
      PDict [_, _, (_, PList ss)] \<Rightarrow> concat (map (\<lambda>x. case x of PStr t \<Rightarrow> t | _ \<Rightarrow> []) ss)
    | _ \<Rightarrow> [])"

lemma build_source_roundtrip_witness:
  "\<exists>s errs warns. build_source (make_catalog [] False)
      join_digest
      ''v1'' [[''a'', ''b''], [''a'', ''b'']] = Inr (s, errs, warns)
     \<and> length errs + length warns = 1 \<and> canonical_path s ''ab'' = Some (Inr [''a'', ''b''])"
proof -
  let ?paths = "[[''a'', ''b''], [''a'', ''b'']]"
  have acc: "list_all (accepts (make_catalog [] False)) source_codes"
    by (simp add: source_codes_def accepts_def make_catalog_def)
  have use: "filter usable ?paths = ?paths" by code_simp
  have pre: "path_prefixes ?paths = {[''a''], [''a'', ''b'']}"
    by (simp add: path_prefixes_image upt_rec)
  have id: "source_synthetic_id join_digest ''v1'' [''a''] = ''a''" "source_synthetic_id join_digest ''v1'' [''a'', ''b''] = ''ab''"
    by (simp_all add: join_digest_def source_synthetic_id_def source_payload_def str_list_def)
  have inj: "inj_on (source_synthetic_id join_digest ''v1'') (path_prefixes (filter usable ?paths))"
    by (simp add: use pre id)
  from build_source_roundtrip [OF acc inj] obtain s errs warns where
    r: "build_source (make_catalog [] False) join_digest ''v1'' ?paths = Inr (s, errs, warns)"
      "length errs + length warns + card (set (filter usable ?paths)) = length ?paths"
      "\<forall>q. q \<in> path_prefixes (filter usable ?paths) \<longrightarrow>
         canonical_path s (source_synthetic_id join_digest ''v1'' q) = Some (Inr q)
         \<and> depth s (source_synthetic_id join_digest ''v1'' q) = Some (Inr (length q - 1))"
    by blast
  have "canonical_path s (source_synthetic_id join_digest ''v1'' [''a'', ''b'']) = Some (Inr [''a'', ''b''])"
    using r(3) unfolding use pre by blast
  then have "canonical_path s ''ab'' = Some (Inr [''a'', ''b''])" by (simp only: id(2))
  moreover have "length errs + length warns = 1" using r(2) unfolding use by simp
  ultimately show ?thesis using r(1) by blast
qed

end
