(* ===== verification/Topology_Compare.thy ===== *)
theory Topology_Compare
  imports Topology_Builders
begin

text \<open>
  The comparison ladder of \<open>connector/domain/dependency_tree/comparison.py\<close>: a source path
  against target candidates, rung by rung, through the query port \<open>canonical_path\<close>.
\<close>

section \<open>The comparison ladder\<close>

datatype topology_match_mode =
  EXACT_CANONICAL_PATH | EXACT_LEAF_PARENT_CHAIN | EXACT_LEAF_ROOT_DEPTH | AMBIGUOUS | NO_MATCH

fun mode_value :: "topology_match_mode \<Rightarrow> string" where
  "mode_value EXACT_CANONICAL_PATH = ''exact_canonical_path''"
| "mode_value EXACT_LEAF_PARENT_CHAIN = ''exact_leaf_parent_chain''"
| "mode_value EXACT_LEAF_ROOT_DEPTH = ''exact_leaf_root_depth''"
| "mode_value AMBIGUOUS = ''ambiguous''"
| "mode_value NO_MATCH = ''no_match''"

record comparison_result =
  matched_candidate_ids :: "string list"
  comparison_mode :: topology_match_mode
  comparison_reason :: "string option"
  comparison_evidence :: "(string, pyval) dict"

definition is_ambiguous :: "comparison_result \<Rightarrow> bool" where
  "is_ambiguous r = (comparison_mode r = AMBIGUOUS)"

definition matched_candidate_id :: "comparison_result \<Rightarrow> string option" where
  "matched_candidate_id r =
     (if length (matched_candidate_ids r) \<noteq> 1 then None else Some (matched_candidate_ids r ! 0))"

text \<open>\<open>xs[-2:]\<close>.\<close>

definition last_two :: "'a list \<Rightarrow> 'a list" where
  "last_two xs = drop (length xs - 2) xs"

fun path_matches :: "string list \<Rightarrow> string list \<Rightarrow> topology_match_mode \<Rightarrow> bool" where
  "path_matches source path EXACT_CANONICAL_PATH = (path = source)"
| "path_matches source path EXACT_LEAF_PARENT_CHAIN =
     (if length source < 2 \<or> length path < 2 then False else last_two path = last_two source)"
| "path_matches source path EXACT_LEAF_ROOT_DEPTH =
     (if source = [] \<or> path = [] then False
      else last path = last source \<and> hd path = hd source \<and> length path = length source)"
| "path_matches source path _ = False"

text \<open>The snapshot is the query port's \<open>canonical_path\<close>.\<close>

definition candidate_matches_mode ::
    "(string \<Rightarrow> string list outcome) \<Rightarrow> string list \<Rightarrow> string \<Rightarrow> topology_match_mode \<Rightarrow> bool outcome" where
  "candidate_matches_mode canonical source candidate mode =
     bind_o (canonical candidate) (\<lambda>path. Some (Inr (path_matches source path mode)))"

fun match_candidates_for_mode ::
    "(string \<Rightarrow> string list outcome) \<Rightarrow> string list \<Rightarrow> string list \<Rightarrow> topology_match_mode \<Rightarrow> string list
     \<Rightarrow> string list outcome" where
  "match_candidates_for_mode canonical source [] mode matched = Some (Inr matched)"
| "match_candidates_for_mode canonical source (c # cs) mode matched =
     bind_o (candidate_matches_mode canonical source c mode) (\<lambda>hit.
       match_candidates_for_mode canonical source cs mode (if hit then matched @ [c] else matched))"

definition rung_record :: "topology_match_mode \<Rightarrow> string list \<Rightarrow> pyval" where
  "rung_record mode ids = PDict [
     (''mode'', PStr (mode_value mode)),
     (''matched_candidate_ids'', str_list ids),
     (''matched_count'', PInt (int (length ids)))]"

definition comparison_evidence_of :: "string list \<Rightarrow> string list \<Rightarrow> pyval list \<Rightarrow> (string, pyval) dict" where
  "comparison_evidence_of source candidates rungs = [
     (''source_segments'', str_list source),
     (''candidate_ids'', str_list candidates),
     (''rungs'', PList rungs)]"

fun compare_ladder ::
    "(string \<Rightarrow> string list outcome) \<Rightarrow> string list \<Rightarrow> string list \<Rightarrow> topology_match_mode list \<Rightarrow> pyval list
     \<Rightarrow> comparison_result outcome" where
  "compare_ladder canonical source candidates [] rungs =
     Some (Inr \<lparr>matched_candidate_ids = [], comparison_mode = NO_MATCH,
       comparison_reason = Some ''no_topology_confirmation'',
       comparison_evidence = comparison_evidence_of source candidates rungs\<rparr>)"
| "compare_ladder canonical source candidates (mode # ladder) rungs =
     bind_o (match_candidates_for_mode canonical source candidates mode []) (\<lambda>ids.
       let rungs' = rungs @ [rung_record mode ids]
       in if length ids = 1 then
            Some (Inr \<lparr>matched_candidate_ids = ids, comparison_mode = mode,
              comparison_reason = Some (''resolved_by_'' @ mode_value mode),
              comparison_evidence = comparison_evidence_of source candidates rungs'\<rparr>)
          else if length ids > 1 then
            Some (Inr \<lparr>matched_candidate_ids = ids, comparison_mode = AMBIGUOUS,
              comparison_reason = Some (''ambiguous_on_'' @ mode_value mode),
              comparison_evidence = comparison_evidence_of source candidates rungs'\<rparr>)
          else compare_ladder canonical source candidates ladder rungs')"

definition compare_topology_candidates ::
    "(string \<Rightarrow> string list outcome) \<Rightarrow> string list \<Rightarrow> string list \<Rightarrow> topology_match_mode list
     \<Rightarrow> comparison_result outcome" where
  "compare_topology_candidates canonical source candidates ladder =
     (let normalized = dict_fromkeys candidates
      in if source = [] \<or> normalized = [] then
           Some (Inr \<lparr>matched_candidate_ids = [], comparison_mode = NO_MATCH,
             comparison_reason = Some ''empty_source_or_candidates'',
             comparison_evidence = comparison_evidence_of source normalized []\<rparr>)
         else compare_ladder canonical source normalized ladder [])"

section \<open>The query interface\<close>

definition outcome_value :: "'a \<Rightarrow> 'a outcome \<Rightarrow> 'a" where
  "outcome_value d r = (case r of Some (Inr v) \<Rightarrow> v | _ \<Rightarrow> d)"

text \<open>The candidates a rung confirms, in their order.\<close>

definition rung_hits :: "(string \<Rightarrow> string list outcome) \<Rightarrow> string list \<Rightarrow> string list \<Rightarrow> topology_match_mode \<Rightarrow> string list" where
  "rung_hits canonical source candidates mode =
     filter (\<lambda>c. path_matches source (outcome_value [] (canonical c)) mode) candidates"

text \<open>What the comparison relies on: a known node has a canonical path.\<close>

locale topology_query =
  fixes known :: "'s \<Rightarrow> string \<Rightarrow> bool"
    and canonical :: "'s \<Rightarrow> string \<Rightarrow> string list outcome"
  assumes canonical_known: "known s n \<Longrightarrow> \<exists>p. canonical s n = Some (Inr p)"
begin

lemma match_candidates_known:
  assumes "\<forall>c \<in> set cs. known s c"
  shows "match_candidates_for_mode (canonical s) source cs mode acc
    = Some (Inr (acc @ rung_hits (canonical s) source cs mode))"
  using assms
proof (induction cs arbitrary: acc)
  case Nil
  then show ?case by (simp add: rung_hits_def)
next
  case (Cons c cs)
  obtain path where "canonical s c = Some (Inr path)" using canonical_known Cons.prems by force
  with Cons show ?case
    by (simp add: rung_hits_def candidate_matches_mode_def outcome_value_def)
qed

lemma ladder_known:
  assumes "\<forall>c \<in> set cs. known s c"
  shows "\<exists>r. compare_ladder (canonical s) source cs ladder rungs = Some (Inr r)
    \<and> (case find (\<lambda>m. rung_hits (canonical s) source cs m \<noteq> []) ladder of
         None \<Rightarrow> comparison_mode r = NO_MATCH \<and> matched_candidate_ids r = []
       | Some m \<Rightarrow> matched_candidate_ids r = rung_hits (canonical s) source cs m
           \<and> comparison_mode r = (if length (matched_candidate_ids r) = 1 then m else AMBIGUOUS))"
proof (induction ladder arbitrary: rungs)
  case Nil
  then show ?case by simp
next
  case (Cons m ladder)
  let ?h = "rung_hits (canonical s) source cs m"
  have m: "match_candidates_for_mode (canonical s) source cs m [] = Some (Inr ?h)"
    using match_candidates_known [OF assms] by simp
  show ?case
  proof (cases "?h = []")
    case True
    with Cons.IH [of "rungs @ [rung_record m []]"] show ?thesis by (simp add: m)
  next
    case False
    then have "length ?h = 1 \<or> 1 < length ?h" by (cases ?h) auto
    with False show ?thesis by (auto simp: m Let_def)
  qed
qed

lemma compare_known:
  assumes "\<forall>c \<in> set cs. known s c" "source \<noteq> []" "cs \<noteq> []"
  shows "\<exists>r. compare_topology_candidates (canonical s) source cs ladder = Some (Inr r)
    \<and> (case find (\<lambda>m. rung_hits (canonical s) source (dict_fromkeys cs) m \<noteq> []) ladder of
         None \<Rightarrow> comparison_mode r = NO_MATCH \<and> matched_candidate_ids r = []
       | Some m \<Rightarrow> matched_candidate_ids r = rung_hits (canonical s) source (dict_fromkeys cs) m
           \<and> comparison_mode r = (if length (matched_candidate_ids r) = 1 then m else AMBIGUOUS))"
  using ladder_known [of "dict_fromkeys cs" s source ladder "[]"] assms
  by (simp add: compare_topology_candidates_def)

end

lemma canonical_path_known:
  assumes "snapshot_inv s" "n \<in> node_keys s"
  shows "\<exists>p. canonical_path s n = Some (Inr p)"
  using climb_from [OF assms] queries_on_chain(5) [OF assms(1)] by blast

interpretation snapshot_query: topology_query "\<lambda>s n. snapshot_inv s \<and> n \<in> node_keys s" canonical_path
  by unfold_locales (auto intro: canonical_path_known)

section \<open>Properties\<close>

text \<open>
  C20. Against a well-formed snapshot and known candidates the comparison returns, and its
  result is decided by the first rung of the ladder that confirms anything: a single confirmed
  candidate is returned with that rung's mode, several are returned together as AMBIGUOUS, and
  NO_MATCH means that no rung confirms any candidate.  No candidate is ever picked among equals.
\<close>

theorem comparison_first_rung:
  assumes "snapshot_inv s" "set cs \<subseteq> node_keys s" "source \<noteq> []" "cs \<noteq> []"
  shows "\<exists>r. compare_topology_candidates (canonical_path s) source cs ladder = Some (Inr r)
    \<and> (case find (\<lambda>m. rung_hits (canonical_path s) source (dict_fromkeys cs) m \<noteq> []) ladder of
         None \<Rightarrow> comparison_mode r = NO_MATCH \<and> matched_candidate_ids r = []
       | Some m \<Rightarrow> matched_candidate_ids r = rung_hits (canonical_path s) source (dict_fromkeys cs) m
           \<and> comparison_mode r = (if length (matched_candidate_ids r) = 1 then m else AMBIGUOUS))"
  using assms by (intro snapshot_query.compare_known) auto

lemma comparison_first_rung_witness:
  "\<exists>r. compare_topology_candidates (canonical_path two_nodes) [''R'', ''C''] [''r'', ''c'']
        [EXACT_CANONICAL_PATH, EXACT_LEAF_PARENT_CHAIN] = Some (Inr r)"
  using comparison_first_rung [OF two_nodes_inv, of "[''r'', ''c'']" "[''R'', ''C'']"
      "[EXACT_CANONICAL_PATH, EXACT_LEAF_PARENT_CHAIN]"]
  by (auto simp: node_keys_def two_nodes_def)

end
