(* ===== verification/Topology_Anchoring.thy ===== *)
theory Topology_Anchoring
  imports Topology
begin

text \<open>
  Model of \<open>connector/domain/dependency_tree/anchoring.py\<close>: source adjacency nodes are
  anchored against the set of target ids, and the nodes that cannot be are dropped with a
  verdict.  The recursive \<open>visit\<close> keeps its memo and the stack of the climb; the second pass
  drops everything below a dropped node.
\<close>

section \<open>Data\<close>

datatype anchoring_reason = MissingParent | UnanchoredSubtree | Cycle

record source_adjacency_node =
  san_node_id :: string
  san_parent_id :: "string option"
  san_label :: string

record anchoring_verdict =
  av_node_id :: string
  av_reason :: anchoring_reason
  av_broken_at :: "string option"

record anchoring_result =
  ar_anchored :: "string list"
  ar_dropped :: "(string, anchoring_verdict) dict"

type_synonym parent_map = "(string, string option) dict"
type_synonym memo = "(string, anchoring_verdict option) dict"

fun deduplicate_first :: "source_adjacency_node list \<Rightarrow> (string, source_adjacency_node) dict \<Rightarrow> (string, source_adjacency_node) dict" where
  "deduplicate_first [] result_map = result_map"
| "deduplicate_first (node # nodes) result_map =
     deduplicate_first nodes
       (if map_of result_map (san_node_id node) = None
        then AList.update (san_node_id node) node result_map else result_map)"

fun children_loop :: "(string \<times> string option) list \<Rightarrow> (string, string list) dict \<Rightarrow> (string, string list) dict" where
  "children_loop [] children = children"
| "children_loop ((node_id, parent) # rest) children =
     (case parent of
        None \<Rightarrow> children_loop rest children
      | Some p \<Rightarrow>
          if map_of children p \<noteq> None then children_loop rest (dict_append children p node_id)
          else children_loop rest children)"

definition build_children :: "parent_map \<Rightarrow> (string, string list) dict" where
  "build_children parents =
     map (\<lambda>(n, cs). (n, sort cs)) (children_loop parents (map (\<lambda>(n, _). (n, [])) parents))"

section \<open>The visit\<close>

text \<open>
  \<open>visit\<close> returns its verdict and the memo.  \<open>parent_by_id[node_id]\<close> raises on an unknown
  node; the callers only pass keys.
\<close>

function visit :: "parent_map \<Rightarrow> string set \<Rightarrow> string \<Rightarrow> string list \<Rightarrow> memo \<Rightarrow> (anchoring_verdict option \<times> memo) result" where
  "visit parents target_ids node_id stack m =
     (case map_of m node_id of
        Some v \<Rightarrow> Inr (v, m)
      | None \<Rightarrow>
          if node_id \<in> set stack then
            (let verdict = Some \<lparr>av_node_id = node_id, av_reason = Cycle, av_broken_at = Some node_id\<rparr>
             in Inr (verdict, AList.update node_id verdict m))
          else (case map_of parents node_id of
             None \<Rightarrow> Inl (KeyError node_id)
           | Some None \<Rightarrow> Inr (None, AList.update node_id None m)
           | Some (Some p) \<Rightarrow>
               if p \<in> target_ids then Inr (None, AList.update node_id None m)
               else if map_of parents p = None then
                 (let verdict = Some \<lparr>av_node_id = node_id, av_reason = MissingParent, av_broken_at = Some p\<rparr>
                  in Inr (verdict, AList.update node_id verdict m))
               else (case visit parents target_ids p (stack @ [node_id]) m of
                   Inl e \<Rightarrow> Inl e
                 | Inr (None, m') \<Rightarrow> Inr (None, AList.update node_id None m')
                 | Inr (Some pv, m') \<Rightarrow>
                     (let verdict = Some \<lparr>av_node_id = node_id,
                            av_reason = (if av_reason pv = Cycle then Cycle else UnanchoredSubtree),
                            av_broken_at = av_broken_at pv\<rparr>
                      in Inr (verdict, AList.update node_id verdict m')))))"
  by pat_completeness auto
termination
proof (relation "measure (\<lambda>(parents, T, n, stack, m). card (fst ` set parents - set stack))", goal_cases)
  case 1
  show ?case by simp
next
  case (2 parents T n stack m q p)
  have "n \<in> fst ` set parents" using 2 by (auto dest: map_of_SomeD intro: rev_image_eqI)
  then have "fst ` set parents - set (stack @ [n]) \<subset> fst ` set parents - set stack"
    using 2(2) by auto
  then show ?case by (simp add: psubset_card_mono)
qed

declare visit.simps [simp del]

fun visit_all :: "parent_map \<Rightarrow> string set \<Rightarrow> string list \<Rightarrow> memo \<Rightarrow> memo result" where
  "visit_all parents target_ids [] m = Inr m"
| "visit_all parents target_ids (n # ns) m =
     bind_r (visit parents target_ids n [] m) (\<lambda>(_, m'). visit_all parents target_ids ns m')"

section \<open>Dropping the subtrees\<close>

text \<open>The stack of \<open>_descendants\<close>, its top first.\<close>

function below_loop :: "(string, string list) dict \<Rightarrow> string list \<Rightarrow> string list \<Rightarrow> string list \<Rightarrow> string list" where
  "below_loop children visited [] acc = acc"
| "below_loop children visited (current # stack) acc =
     (if current \<in> set visited then below_loop children visited stack acc
      else below_loop children (current # visited) (dict_get_or children current [] @ stack) (acc @ [current]))"
  by pat_completeness auto
termination
proof (relation "measures [\<lambda>(ch, vis, st, acc). card ((set st \<union> targets ch) - set vis),
      \<lambda>(ch, vis, st, acc). length st]", goal_cases)
  case 1
  show ?case by simp
next
  case (2 ch vis x st acc)
  then have "(set (x # st) \<union> targets ch) - set vis = (set st \<union> targets ch) - set vis" by auto
  then show ?case by simp
next
  case (3 ch vis x st acc)
  then have "(set (dict_get_or ch x [] @ st) \<union> targets ch) - set (x # vis)
      \<subset> (set (x # st) \<union> targets ch) - set vis"
    using set_get_targets [of ch x] by auto
  then have "card ((set (dict_get_or ch x [] @ st) \<union> targets ch) - set (x # vis))
      < card ((set (x # st) \<union> targets ch) - set vis)"
    by (intro psubset_card_mono) simp_all
  then show ?case by simp
qed

text \<open>The list passed as \<open>visited\<close> grows by its front; the source's set starts as \<open>{node_id}\<close>.\<close>

definition descendants_below :: "string \<Rightarrow> (string, string list) dict \<Rightarrow> string list" where
  "descendants_below node_id children =
     below_loop children [node_id] (dict_get_or children node_id []) []"

fun drop_below :: "string list \<Rightarrow> anchoring_verdict \<Rightarrow> (string, anchoring_verdict) dict \<Rightarrow> (string, anchoring_verdict) dict" where
  "drop_below [] v dropped = dropped"
| "drop_below (d # ds) v dropped =
     drop_below ds v
       (if map_of dropped d \<noteq> None then dropped
        else AList.update d \<lparr>av_node_id = d,
              av_reason = (if av_reason v = Cycle then Cycle else UnanchoredSubtree),
              av_broken_at = av_broken_at v\<rparr> dropped)"

fun drop_subtrees ::
    "(string, string list) dict \<Rightarrow> (string \<times> anchoring_verdict) list \<Rightarrow> (string, anchoring_verdict) dict
     \<Rightarrow> (string, anchoring_verdict) dict" where
  "drop_subtrees children [] dropped = dropped"
| "drop_subtrees children ((root, v) # rest) dropped =
     drop_subtrees children rest (drop_below (descendants_below root children) v dropped)"

definition verdicts_of :: "memo \<Rightarrow> (string, anchoring_verdict) dict" where
  "verdicts_of m = concat (map (\<lambda>(n, v). case v of None \<Rightarrow> [] | Some w \<Rightarrow> [(n, w)]) m)"

definition source_parents :: "source_adjacency_node list \<Rightarrow> parent_map" where
  "source_parents nodes = map (\<lambda>(n, node). (n, san_parent_id node)) (deduplicate_first nodes [])"

definition anchor_parents :: "parent_map \<Rightarrow> string set \<Rightarrow> anchoring_result result" where
  "anchor_parents parents target_ids =
     bind_r (visit_all parents target_ids (sort (map fst parents)) []) (\<lambda>m.
       let dropped = drop_subtrees (build_children parents) (verdicts_of m) (verdicts_of m)
       in Inr \<lparr>ar_anchored = filter (\<lambda>n. map_of dropped n = None) (map fst parents),
              ar_dropped = dropped\<rparr>)"

definition anchor_source_nodes :: "source_adjacency_node list \<Rightarrow> string set \<Rightarrow> anchoring_result result" where
  "anchor_source_nodes nodes target_ids = anchor_parents (source_parents nodes) target_ids"

section \<open>Anchored nodes\<close>

text \<open>A node from which the climb reaches a root or a target id.\<close>

inductive reaches :: "parent_map \<Rightarrow> string set \<Rightarrow> string \<Rightarrow> bool" for parents T where
  at_root: "map_of parents n = Some None \<Longrightarrow> reaches parents T n"
| at_target: "map_of parents n = Some (Some p) \<Longrightarrow> p \<in> T \<Longrightarrow> reaches parents T n"
| above: "map_of parents n = Some (Some p) \<Longrightarrow> reaches parents T p \<Longrightarrow> reaches parents T n"

inductive_cases reachesE: "reaches parents T n"

text \<open>A stack of the climb: each element's parent is the next one, the last one's is \<open>n\<close>.\<close>

fun climbing :: "parent_map \<Rightarrow> string set \<Rightarrow> string list \<Rightarrow> string \<Rightarrow> bool" where
  "climbing parents T [] n = True"
| "climbing parents T [x] n = (map_of parents x = Some (Some n) \<and> n \<notin> T)"
| "climbing parents T (x # y # ys) n = (map_of parents x = Some (Some y) \<and> y \<notin> T \<and> climbing parents T (y # ys) n)"

lemma climbing_snoc:
  "climbing parents T stack n \<Longrightarrow> map_of parents n = Some (Some p) \<Longrightarrow> p \<notin> T \<Longrightarrow>
     climbing parents T (stack @ [n]) p"
  by (induction parents T stack n rule: climbing.induct) auto

lemma climbing_suffix: "climbing parents T (xs @ ys) n \<Longrightarrow> climbing parents T ys n"
proof (induction xs)
  case (Cons x xs)
  then show ?case by (cases "xs @ ys") auto
qed simp

lemma climbing_step:
  "climbing parents T stack n \<Longrightarrow> x \<in> set stack \<Longrightarrow>
     \<exists>y. map_of parents x = Some (Some y) \<and> y \<notin> T \<and> y \<in> set stack \<union> {n}"
  by (induction parents T stack n rule: climbing.induct) auto

lemma closed_not_reaches:
  assumes "\<forall>x \<in> C. \<exists>y \<in> C. map_of parents x = Some (Some y) \<and> y \<notin> T" "reaches parents T n"
  shows "n \<notin> C"
  using assms(2)
proof (induction rule: reaches.induct)
  case (at_root n)
  then show ?case using assms(1) by fastforce
next
  case (at_target n p)
  then show ?case using assms(1) by fastforce
next
  case (above n p)
  then show ?case using assms(1) by fastforce
qed

lemma cycle_not_reaches:
  assumes "climbing parents T stack n" "n \<in> set stack"
  shows "\<not> reaches parents T n"
proof -
  obtain xs ys where "stack = xs @ n # ys" using split_list [OF assms(2)] by blast
  then have c: "climbing parents T (n # ys) n" using climbing_suffix assms(1) by blast
  have "\<forall>x \<in> set (n # ys). \<exists>y \<in> set (n # ys). map_of parents x = Some (Some y) \<and> y \<notin> T"
    using climbing_step [OF c] by force
  then show ?thesis using closed_not_reaches [of "set (n # ys)" parents T n] by auto
qed

definition memo_ok :: "parent_map \<Rightarrow> string set \<Rightarrow> memo \<Rightarrow> bool" where
  "memo_ok parents T m \<longleftrightarrow> distinct (map fst m) \<and> (\<forall>n v. map_of m n = Some v \<longrightarrow> n \<in> fst ` set parents \<and> (v = None \<longleftrightarrow> reaches parents T n))"

lemma memo_ok_update:
  "memo_ok parents T m \<Longrightarrow> n \<in> fst ` set parents \<Longrightarrow> (v = None \<longleftrightarrow> reaches parents T n) \<Longrightarrow>
     memo_ok parents T (AList.update n v m)"
  by (simp add: memo_ok_def update_conv' distinct_update)

lemma reaches_up:
  assumes "map_of parents n = Some (Some p)" "p \<notin> T"
  shows "reaches parents T n \<longleftrightarrow> reaches parents T p"
  using assms by (auto intro: reaches.above elim: reachesE)

lemma reaches_known: "reaches parents T n \<Longrightarrow> map_of parents n \<noteq> None"
  by (erule reaches.cases) auto

lemma visit_spec:
  assumes "memo_ok parents T m" "n \<in> fst ` set parents" "climbing parents T stack n"
  shows "\<exists>v m'. visit parents T n stack m = Inr (v, m') \<and> memo_ok parents T m'
    \<and> map_of m' n = Some v \<and> (v = None \<longleftrightarrow> reaches parents T n) \<and> dom (map_of m) \<subseteq> dom (map_of m')"
  using assms
proof (induction parents T n stack m rule: visit.induct)
  case (1 parents T n stack m)
  show ?case
  proof (cases "map_of m n")
    case (Some v)
    with "1.prems"(1) show ?thesis
      by (subst visit.simps) (auto simp: memo_ok_def)
  next
    case nomemo: None
    show ?thesis
    proof (cases "n \<in> set stack")
      case True
      then show ?thesis
        using nomemo "1.prems" cycle_not_reaches [OF "1.prems"(3) True]
        by (subst visit.simps) (auto simp: Let_def update_conv' intro!: memo_ok_update)
    next
      case nostack: False
      obtain q where q: "map_of parents n = Some q"
        using "1.prems"(2) by (cases "map_of parents n") (auto simp: map_of_eq_None_iff)
      show ?thesis
      proof (cases q)
        case None
        then have "reaches parents T n" using q by (auto intro: reaches.at_root)
        then show ?thesis using nomemo nostack q None "1.prems"
          by (subst visit.simps) (auto simp: Let_def update_conv' intro!: memo_ok_update)
      next
        case (Some p)
        show ?thesis
        proof (cases "p \<in> T")
          case True
          then have "reaches parents T n" using q Some by (auto intro: reaches.at_target)
          then show ?thesis using nomemo nostack q Some True "1.prems"
            by (subst visit.simps) (auto simp: Let_def update_conv' intro!: memo_ok_update)
        next
          case noT: False
          note up = reaches_up [OF q [unfolded Some] noT]
          show ?thesis
          proof (cases "map_of parents p")
            case None
            then have "\<not> reaches parents T n" unfolding up by (auto elim: reachesE)
            then show ?thesis using nomemo nostack q Some noT None "1.prems"
              by (subst visit.simps) (auto simp: Let_def update_conv' intro!: memo_ok_update)
          next
            case (Some pq)
            then have "p \<in> fst ` set parents" by (auto dest: map_of_SomeD intro: rev_image_eqI)
            then obtain v m' where v: "visit parents T p (stack @ [n]) m = Inr (v, m')"
              "memo_ok parents T m'" "v = None \<longleftrightarrow> reaches parents T p" "dom (map_of m) \<subseteq> dom (map_of m')"
              using "1.IH" [OF nomemo nostack q \<open>q = Some p\<close> noT] Some "1.prems"
                climbing_snoc [OF "1.prems"(3) q [unfolded \<open>q = Some p\<close>] noT] by auto
            show ?thesis
              using nomemo nostack q \<open>q = Some p\<close> noT Some v "1.prems"(2) up
              by (subst visit.simps) (cases v; auto simp: Let_def update_conv' intro!: memo_ok_update)
          qed
        qed
      qed
    qed
  qed
qed

lemma visit_all_spec:
  assumes "memo_ok parents T m" "set ns \<subseteq> fst ` set parents"
  shows "\<exists>m'. visit_all parents T ns m = Inr m' \<and> memo_ok parents T m'
    \<and> dom (map_of m) \<union> set ns \<subseteq> dom (map_of m')"
  using assms
proof (induction ns arbitrary: m)
  case Nil
  then show ?case by simp
next
  case (Cons n ns)
  then obtain v m1 where v: "visit parents T n [] m = Inr (v, m1)" "memo_ok parents T m1"
      "map_of m1 n = Some v" "dom (map_of m) \<subseteq> dom (map_of m1)"
    using visit_spec [OF Cons.prems(1), of n "[]"] by auto
  from Cons.IH [OF v(2)] Cons.prems obtain m' where
    "visit_all parents T ns m1 = Inr m'" "memo_ok parents T m'" "dom (map_of m1) \<union> set ns \<subseteq> dom (map_of m')"
    by auto
  then show ?case using v by auto
qed

section \<open>The second pass\<close>

definition child_rel :: "(string, string list) dict \<Rightarrow> (string \<times> string) set" where
  "child_rel ch = {(x, c). c \<in> set (dict_get_or ch x [])}"

lemma below_loop_spec:
  assumes "\<forall>x \<in> set vis. set (dict_get_or ch x []) \<subseteq> set vis \<union> set st"
    and "set acc = set vis - {n}" "n \<in> set vis"
    and "set vis \<union> set st \<subseteq> (child_rel ch)\<^sup>* `` {n}"
  shows "set (below_loop ch vis st acc) = (child_rel ch)\<^sup>* `` {n} - {n}"
  using assms
proof (induction ch vis st acc rule: below_loop.induct)
  case (1 ch vis acc)
  have "x \<in> set vis" if "(n, x) \<in> (child_rel ch)\<^sup>*" for x
    using that
  proof (induction rule: rtrancl_induct)
    case base
    then show ?case using "1.prems" by simp
  next
    case (step y z)
    then show ?case using "1.prems"(1) by (auto simp: child_rel_def)
  qed
  then show ?case using "1.prems" by auto
next
  case (2 ch vis x st acc)
  show ?case
  proof (cases "x \<in> set vis")
    case True
    then have "set vis \<union> set (x # st) = set vis \<union> set st" by auto
    then show ?thesis using True 2 by simp
  next
    case False
    have "x \<noteq> n" using False "2.prems"(3) by auto
    have "\<forall>c \<in> set (dict_get_or ch x []). (n, c) \<in> (child_rel ch)\<^sup>*"
      using "2.prems"(4) by (auto simp: child_rel_def intro: rtrancl_into_rtrancl)
    then have "set (below_loop ch (x # vis) (dict_get_or ch x [] @ st) (acc @ [x])) = (child_rel ch)\<^sup>* `` {n} - {n}"
      using "2.prems" \<open>x \<noteq> n\<close> by (intro "2.IH"(2) [OF False]) auto
    then show ?thesis using False by simp
  qed
qed

lemma descendants_below_set: "set (descendants_below n ch) = (child_rel ch)\<^sup>* `` {n} - {n}"
  unfolding descendants_below_def
  by (rule below_loop_spec) (auto simp: child_rel_def)

lemma drop_below_dom: "dom (map_of (drop_below ds v dropped)) = dom (map_of dropped) \<union> set ds"
  by (induction ds arbitrary: dropped) (auto simp: update_conv')

lemma drop_subtrees_dom:
  "dom (map_of (drop_subtrees ch roots dropped)) =
     dom (map_of dropped) \<union> (\<Union>(r, v) \<in> set roots. (child_rel ch)\<^sup>* `` {r} - {r})"
proof (induction roots arbitrary: dropped)
  case (Cons q roots)
  then show ?case by (cases q) (simp add: drop_below_dom descendants_below_set Un_assoc)
qed simp

lemma children_loop_get:
  "set (dict_get_or (children_loop ps ch) p []) =
     set (dict_get_or ch p []) \<union> (if map_of ch p = None then {} else {n. (n, Some p) \<in> set ps})
   \<and> dom (map_of (children_loop ps ch)) = dom (map_of ch)"
proof (induction ps arbitrary: ch)
  case Nil
  then show ?case by simp
next
  case (Cons q ps)
  obtain n op where q: "q = (n, op)" by (cases q)
  show ?case
  proof (cases op)
    case None
    then show ?thesis using Cons.IH [of ch] by (auto simp: q)
  next
    case (Some r)
    show ?thesis
    proof (cases "map_of ch r")
      case None
      then show ?thesis using Cons.IH [of ch] Some by (auto simp: q)
    next
      case (Some vs)
      then have "dom (map_of (dict_append ch r n)) = dom (map_of ch)"
        by (auto simp: dict_append_def update_conv')
      moreover from this have "map_of (dict_append ch r n) p = None \<longleftrightarrow> map_of ch p = None"
        by (metis domIff)
      ultimately show ?thesis
        using Cons.IH [of "dict_append ch r n"] \<open>op = Some r\<close> Some by (auto simp: q)
    qed
  qed
qed

definition above_rel :: "parent_map \<Rightarrow> (string \<times> string) set" where
  "above_rel parents = {(n, p). map_of parents n = Some (Some p) \<and> map_of parents p \<noteq> None}"

lemma build_children_rel:
  assumes "distinct (map fst parents)"
  shows "child_rel (build_children parents) = (above_rel parents)\<inverse>"
proof -
  let ?ch = "map (\<lambda>(n, _). (n, [])) parents :: (string, string list) dict"
  have e: "dict_get_or ?ch p [] = []" for p by (induction parents) (auto simp: dict_get_or_def)
  have k: "map_of ?ch p = None \<longleftrightarrow> map_of parents p = None" for p
    by (induction parents) auto
  have "set (dict_get_or (build_children parents) p []) = set (dict_get_or (children_loop parents ?ch) p [])" for p
    by (simp add: build_children_def frozen_children)
  then have "c \<in> set (dict_get_or (build_children parents) p []) \<longleftrightarrow> (c, p) \<in> above_rel parents" for c p
    using children_loop_get [of parents ?ch p] e k assms
    by (auto simp: above_rel_def)
  then show ?thesis by (auto simp: child_rel_def)
qed

lemma verdicts_of_keys: "fst ` set (verdicts_of m) = {n. \<exists>v. (n, Some v) \<in> set m}"
  by (force simp: verdicts_of_def split: option.splits)

lemma deduplicate_first_keys:
  "distinct (map fst d) \<Longrightarrow> distinct (map fst (deduplicate_first nodes d))
     \<and> set (map fst (deduplicate_first nodes d)) = set (map fst d) \<union> san_node_id ` set nodes"
proof (induction nodes arbitrary: d)
  case Nil
  then show ?case by simp
next
  case (Cons x nodes)
  show ?case
    using Cons.IH [of d] Cons.IH [of "AList.update (san_node_id x) x d"] Cons.prems
    by (auto simp: distinct_update dom_update simp flip: map_of_eq_None_iff dest: map_of_SomeD intro: rev_image_eqI)
qed

section \<open>Properties\<close>

lemma source_parents_keys:
  "distinct (map fst (source_parents nodes)) \<and> fst ` set (source_parents nodes) = san_node_id ` set nodes"
  using deduplicate_first_keys [of "[]" nodes]
  by (simp add: source_parents_def comp_def case_prod_beta image_image)

lemma anchor_dropped:
  assumes "memo_ok ps T m" "dom (map_of m) = fst ` set ps" "distinct (map fst ps)"
  shows "dom (map_of (drop_subtrees (build_children ps) (verdicts_of m) (verdicts_of m)))
    = {n \<in> fst ` set ps. \<exists>a \<in> fst ` set ps. (n, a) \<in> (above_rel ps)\<^sup>* \<and> \<not> reaches ps T a}" (is "?L = ?R")
proof -
  let ?D = "{n \<in> fst ` set ps. \<not> reaches ps T n}"
  have "(n, Some v) \<in> set m \<longleftrightarrow> map_of m n = Some (Some v)" for n v
    using assms(1) by (simp add: memo_ok_def)
  then have mem: "n \<in> fst ` set (verdicts_of m) \<longleftrightarrow> (\<exists>v. map_of m n = Some (Some v))" for n
    by (simp add: verdicts_of_keys)
  have D: "fst ` set (verdicts_of m) = ?D"
  proof (rule set_eqI)
    fix n
    have ok: "map_of m n = Some v \<Longrightarrow> n \<in> fst ` set ps \<and> (v = None \<longleftrightarrow> reaches ps T n)" for v
      using assms(1) by (simp add: memo_ok_def)
    show "n \<in> fst ` set (verdicts_of m) \<longleftrightarrow> n \<in> ?D"
    proof (cases "map_of m n")
      case None
      then have "n \<notin> fst ` set ps" using assms(2) by (metis domIff)
      then show ?thesis unfolding mem using None by simp
    next
      case (Some v)
      then show ?thesis unfolding mem using ok [OF Some] by (cases v) auto
    qed
  qed
  have "?L = dom (map_of (verdicts_of m)) \<union> (\<Union>(r, v) \<in> set (verdicts_of m). ((above_rel ps)\<inverse>)\<^sup>* `` {r} - {r})"
    by (simp only: drop_subtrees_dom build_children_rel [OF assms(3)])
  also have "\<dots> = fst ` set (verdicts_of m) \<union> (\<Union>r \<in> fst ` set (verdicts_of m). ((above_rel ps)\<inverse>)\<^sup>* `` {r} - {r})"
    by (simp add: dom_map_of_conv_image_fst case_prod_beta)
  also have "\<dots> = ?D \<union> (\<Union>r \<in> ?D. ((above_rel ps)\<inverse>)\<^sup>* `` {r} - {r})"
    by (simp only: D)
  also have "\<dots> = {n. \<exists>a \<in> ?D. (n, a) \<in> (above_rel ps)\<^sup>*}"
    by (auto simp: rtrancl_converse)
  also have "\<dots> = ?R"
  proof -
    have "n \<in> fst ` set ps" if "(n, a) \<in> (above_rel ps)\<^sup>*" "a \<in> fst ` set ps" for n a
      using that by (cases rule: converse_rtranclE)
        (auto simp: above_rel_def dest!: map_of_SomeD intro: rev_image_eqI)
    then show ?thesis by blast
  qed
  finally show ?thesis .
qed

lemma anchor_spec:
  "\<exists>r. anchor_source_nodes nodes T = Inr r
    \<and> set (ar_anchored r) = {n \<in> san_node_id ` set nodes. \<forall>a \<in> san_node_id ` set nodes.
         (n, a) \<in> (above_rel (source_parents nodes))\<^sup>* \<longrightarrow> reaches (source_parents nodes) T a}
    \<and> fst ` set (ar_dropped r) = san_node_id ` set nodes - set (ar_anchored r)"
proof -
  let ?ps = "source_parents nodes"
  have d: "distinct (map fst ?ps)" and keys: "fst ` set ?ps = san_node_id ` set nodes"
    using source_parents_keys by auto
  have "memo_ok ?ps T []" by (simp add: memo_ok_def)
  then obtain m where m: "visit_all ?ps T (sort (map fst ?ps)) [] = Inr m" "memo_ok ?ps T m"
      "set (sort (map fst ?ps)) \<subseteq> dom (map_of m)"
    using visit_all_spec [of ?ps T "[]" "sort (map fst ?ps)"] by auto
  have dom: "dom (map_of m) = fst ` set ?ps"
    using m(2,3) by (force simp: memo_ok_def dom_def)
  let ?dr = "drop_subtrees (build_children ?ps) (verdicts_of m) (verdicts_of m)"
  have r: "anchor_source_nodes nodes T =
      Inr \<lparr>ar_anchored = filter (\<lambda>n. map_of ?dr n = None) (map fst ?ps), ar_dropped = ?dr\<rparr>"
    using m(1) by (simp add: anchor_source_nodes_def anchor_parents_def Let_def)
  note dr = anchor_dropped [OF m(2) dom d, unfolded keys]
  have none: "map_of ?dr n = None \<longleftrightarrow> n \<notin> dom (map_of ?dr)" for n by (simp add: domIff)
  have A: "set (filter (\<lambda>n. map_of ?dr n = None) (map fst ?ps)) = san_node_id ` set nodes - dom (map_of ?dr)"
    unfolding none using keys by auto
  have "fst ` set ?dr = dom (map_of ?dr)" by (simp add: dom_map_of_conv_image_fst)
  then show ?thesis
    unfolding r using A dr by (intro exI conjI) (simp_all, auto)
qed

text \<open>
  C22. Anchoring never raises and splits the distinct source ids into anchored and dropped ones.
  A node is anchored exactly when it and every source node above it climb to a root or to a
  target id; cycles and missing parents are never anchored, and the recursion and both work
  lists end on every input, cyclic ones included.
\<close>

theorem anchoring_exact:
  "\<exists>r. anchor_source_nodes nodes T = Inr r
    \<and> set (ar_anchored r) = {n \<in> san_node_id ` set nodes. \<forall>a \<in> san_node_id ` set nodes.
         (n, a) \<in> (above_rel (source_parents nodes))\<^sup>* \<longrightarrow> reaches (source_parents nodes) T a}
    \<and> fst ` set (ar_dropped r) = san_node_id ` set nodes - set (ar_anchored r)"
  by (rule anchor_spec)

lemma anchoring_exact_witness:
  "\<exists>r. anchor_source_nodes [\<lparr>san_node_id = ''a'', san_parent_id = Some ''b'', san_label = ''A''\<rparr>] {} = Inr r
    \<and> fst ` set (ar_dropped r) = {''a''} - set (ar_anchored r)"
  using anchoring_exact [of "[\<lparr>san_node_id = ''a'', san_parent_id = Some ''b'', san_label = ''A''\<rparr>]" "{}"]
  by auto

text \<open>
  The contract in the documentation of \<open>anchor_source_nodes\<close> (a node is valid when its
  climb reaches a root or a target id) does not decide the result: a node whose parent is a
  target id is dropped when that target id is also a source node without its own anchor.
\<close>

theorem anchoring_drops_below_target:
  "\<exists>nodes T n r. anchor_source_nodes nodes T = Inr r \<and> n \<in> san_node_id ` set nodes
     \<and> reaches (source_parents nodes) T n \<and> n \<notin> set (ar_anchored r)"
proof -
  let ?nodes = "[\<lparr>san_node_id = ''t'', san_parent_id = Some ''gone'', san_label = ''T''\<rparr>,
      \<lparr>san_node_id = ''n'', san_parent_id = Some ''t'', san_label = ''N''\<rparr>]"
  have ps: "source_parents ?nodes = [(''t'', Some ''gone''), (''n'', Some ''t'')]"
    by (simp add: source_parents_def)
  let ?ps = "source_parents ?nodes"
  have n: "reaches ?ps {''t''} ''n''"
    unfolding ps by (rule reaches.at_target [of _ _ "''t''"]) simp_all
  have "map_of ?ps ''gone'' = None" by (simp add: ps)
  then have "\<not> reaches ?ps {''t''} ''gone''" using reaches_known by blast
  moreover have "reaches ?ps {''t''} ''t'' \<longleftrightarrow> reaches ?ps {''t''} ''gone''"
    by (rule reaches_up) (simp_all add: ps)
  ultimately have t: "\<not> reaches ?ps {''t''} ''t''" by simp
  have "(''n'', ''t'') \<in> above_rel ?ps" by (simp add: ps above_rel_def)
  then have up: "(''n'', ''t'') \<in> (above_rel ?ps)\<^sup>*" by (rule r_into_rtrancl)
  have mem: "''t'' \<in> san_node_id ` set ?nodes" "''n'' \<in> san_node_id ` set ?nodes" by simp_all
  obtain r where r: "anchor_source_nodes ?nodes {''t''} = Inr r"
      "set (ar_anchored r) = {n \<in> san_node_id ` set ?nodes. \<forall>a \<in> san_node_id ` set ?nodes.
         (n, a) \<in> (above_rel ?ps)\<^sup>* \<longrightarrow> reaches ?ps {''t''} a}"
    using anchor_spec [of ?nodes "{''t''}"] that by metis
  have "''n'' \<notin> set (ar_anchored r)"
  proof
    assume "''n'' \<in> set (ar_anchored r)"
    then have "\<forall>a \<in> san_node_id ` set ?nodes. (''n'', a) \<in> (above_rel ?ps)\<^sup>* \<longrightarrow> reaches ?ps {''t''} a"
      unfolding r(2) mem_Collect_eq by (rule conjunct2)
    from bspec [OF this mem(1)] up have "reaches ?ps {''t''} ''t''" by (rule mp)
    with t show False by (rule notE)
  qed
  from r(1) mem(2) n this show ?thesis
    by (intro exI [of _ ?nodes] exI [of _ "{''t''}"] exI [of _ "''n''"] exI [of _ r] conjI)
qed

end
