(* ===== verification/Identity_Store.thy ===== *)
theory Identity_Store
  imports Py_Time "HOL-Library.Product_Lexorder"
begin

text \<open>
  Model of the identity database: \<open>pending_links\<close>, \<open>identity_index\<close> and
  \<open>identity_runtime_state\<close> of \<open>connector/infra/identity/sqlite\<close> with the operations of
  the two repositories, and the services that use it: the post-write synchronisation
  (\<open>usecases/common/identity_sync.py\<close>), the expiry service
  (\<open>transform/resolver/pending_expiry_service.py\<close>) and the retention purge of
  \<open>usecases/resolve_usecase.py\<close>.

  A table is the list of its rows in the order of their row id.  Each statement that writes
  CURRENT_TIMESTAMP takes its text as an argument; texts compare by code point, as SQLite's
  BINARY collation does.  A SELECT without ORDER BY lists rows in table order.
\<close>

section \<open>Tables\<close>

datatype pending_status = PENDING | RESOLVED | LINK_CONFLICT | EXPIRED

record pending_link =
  pl_id :: int
  pl_dataset :: string
  pl_source_row_id :: string
  pl_field :: string
  pl_lookup_key :: string
  pl_status :: pending_status
  pl_attempts :: int
  pl_created_at :: string
  pl_last_attempt_at :: "string option"
  pl_expires_at :: "string option"
  pl_reason :: "string option"
  pl_payload :: "string option"

record identity_db =
  db_pending :: "pending_link list"
  db_sequence :: int
  db_index :: "(string \<times> string \<times> string, string) dict"
  db_runtime :: "(string \<times> string \<times> string, string \<times> string) dict"

definition empty_db :: identity_db where
  "empty_db = \<lparr>db_pending = [], db_sequence = 0, db_index = [], db_runtime = []\<rparr>"

definition map_pending :: "(pending_link \<Rightarrow> bool) \<Rightarrow> (pending_link \<Rightarrow> pending_link) \<Rightarrow> identity_db \<Rightarrow> identity_db" where
  "map_pending P f db = db\<lparr>db_pending := map (\<lambda>r. if P r then f r else r) (db_pending db)\<rparr>"

section \<open>Pending links\<close>

definition pending_key :: "pending_link \<Rightarrow> string \<times> string \<times> string \<times> string" where
  "pending_key r = (pl_dataset r, pl_source_row_id r, pl_field r, pl_lookup_key r)"

definition coalesce :: "'a option \<Rightarrow> 'a option \<Rightarrow> 'a option" where
  "coalesce a b = (case a of None \<Rightarrow> b | Some _ \<Rightarrow> a)"

definition add_pending ::
    "string \<Rightarrow> string \<Rightarrow> string \<Rightarrow> string \<Rightarrow> string \<Rightarrow> string option \<Rightarrow> string option \<Rightarrow> identity_db
     \<Rightarrow> identity_db \<times> int" where
  "add_pending now dataset source_row_id fld lookup_key expires_at payload db =
     (case find (\<lambda>r. pending_key r = (dataset, source_row_id, fld, lookup_key) \<and> pl_status r = PENDING)
             (db_pending db) of
        Some existing \<Rightarrow>
          ((if payload \<noteq> None \<or> expires_at \<noteq> None
            then map_pending (\<lambda>r. pl_id r = pl_id existing)
              (\<lambda>r. r\<lparr>pl_payload := coalesce payload (pl_payload r),
                     pl_expires_at := coalesce expires_at (pl_expires_at r),
                     pl_last_attempt_at := Some now\<rparr>) db
            else db), pl_id existing)
      | None \<Rightarrow>
          (let new_id = db_sequence db + 1
           in (db\<lparr>db_sequence := new_id,
                  db_pending := db_pending db @ [\<lparr>pl_id = new_id, pl_dataset = dataset,
                    pl_source_row_id = source_row_id, pl_field = fld, pl_lookup_key = lookup_key,
                    pl_status = PENDING, pl_attempts = 0, pl_created_at = now,
                    pl_last_attempt_at = None, pl_expires_at = expires_at, pl_reason = None,
                    pl_payload = payload\<rparr>]\<rparr>, new_id)))"

definition list_pending_for_key :: "string \<Rightarrow> string \<Rightarrow> identity_db \<Rightarrow> pending_link list" where
  "list_pending_for_key dataset lookup_key db =
     filter (\<lambda>r. pl_dataset r = dataset \<and> pl_lookup_key r = lookup_key \<and> pl_status r = PENDING) (db_pending db)"

text \<open>\<open>COALESCE(last_attempt_at, created_at)\<close>.\<close>

definition last_touch :: "pending_link \<Rightarrow> string" where
  "last_touch r = (case pl_last_attempt_at r of None \<Rightarrow> pl_created_at r | Some t \<Rightarrow> t)"

text \<open>
  A query without ORDER BY gives its rows in any order; here and in \<open>find_candidates\<close> it is that of the table, and a list
  of such rows below stands for its members and their number.  The window function numbers the rows of a source row by (last touch, id) descending; the row
  numbered 1 is the one no other row of its partition exceeds.
\<close>

definition list_pending_rows :: "string \<Rightarrow> identity_db \<Rightarrow> (string \<times> string \<times> string) list" where
  "list_pending_rows dataset db =
     (let rows = filter (\<lambda>r. pl_dataset r = dataset \<and> pl_status r = PENDING \<and> pl_payload r \<noteq> None) (db_pending db)
      in map (\<lambda>r. (pl_dataset r, pl_source_row_id r, the (pl_payload r)))
           (filter (\<lambda>r. list_all (\<lambda>q. pl_source_row_id q = pl_source_row_id r \<longrightarrow>
                (last_touch q, pl_id q) \<le> (last_touch r, pl_id r)) rows) rows))"

definition set_status :: "pending_status \<Rightarrow> string option \<Rightarrow> string \<Rightarrow> pending_link \<Rightarrow> pending_link" where
  "set_status st reason now r = r\<lparr>pl_status := st, pl_reason := reason, pl_last_attempt_at := Some now\<rparr>"

definition mark_resolved :: "string \<Rightarrow> int \<Rightarrow> identity_db \<Rightarrow> identity_db" where
  "mark_resolved now pid db = map_pending (\<lambda>r. pl_id r = pid) (set_status RESOLVED None now) db"

definition mark_resolved_for_source :: "string \<Rightarrow> string \<Rightarrow> identity_db \<Rightarrow> identity_db" where
  "mark_resolved_for_source now source_row_id db =
     map_pending (\<lambda>r. pl_source_row_id r = source_row_id \<and> pl_status r = PENDING) (set_status RESOLVED None now) db"

definition mark_conflict :: "string \<Rightarrow> int \<Rightarrow> string option \<Rightarrow> identity_db \<Rightarrow> identity_db" where
  "mark_conflict now pid reason db = map_pending (\<lambda>r. pl_id r = pid) (set_status LINK_CONFLICT reason now) db"

definition mark_expired :: "string \<Rightarrow> int \<Rightarrow> string option \<Rightarrow> identity_db \<Rightarrow> identity_db" where
  "mark_expired now pid reason db = map_pending (\<lambda>r. pl_id r = pid) (set_status EXPIRED reason now) db"

definition touch_attempt :: "string \<Rightarrow> int \<Rightarrow> identity_db \<Rightarrow> identity_db \<times> int" where
  "touch_attempt now pid db =
     (let db' = map_pending (\<lambda>r. pl_id r = pid)
          (\<lambda>r. r\<lparr>pl_attempts := pl_attempts r + 1, pl_last_attempt_at := Some now\<rparr>) db
      in (db', case find (\<lambda>r. pl_id r = pid) (db_pending db') of Some r \<Rightarrow> pl_attempts r | None \<Rightarrow> 0))"

definition expired_at :: "string \<Rightarrow> pending_link \<Rightarrow> bool" where
  "expired_at cutoff r =
     (pl_status r = PENDING \<and> (case pl_expires_at r of None \<Rightarrow> False | Some e \<Rightarrow> e \<le> cutoff))"

definition sweep_expired :: "string \<Rightarrow> string \<Rightarrow> string option \<Rightarrow> identity_db \<Rightarrow> identity_db \<times> pending_link list" where
  "sweep_expired now cutoff reason db =
     (let pending = filter (expired_at cutoff) (db_pending db)
      in if pending = [] then (db, [])
         else (map_pending (\<lambda>r. pl_id r \<in> set (map pl_id pending)) (set_status EXPIRED reason now) db, pending))"

text \<open>\<open>statuses or (...)\<close>: an empty tuple counts as absent.\<close>

definition purge_stale :: "string \<Rightarrow> pending_status list \<Rightarrow> identity_db \<Rightarrow> identity_db \<times> nat" where
  "purge_stale cutoff statuses db =
     (let eff = (if statuses = [] then [RESOLVED, EXPIRED, LINK_CONFLICT] else statuses);
          stale = (\<lambda>r. pl_status r \<in> set eff \<and> last_touch r \<le> cutoff)
      in (db\<lparr>db_pending := filter (\<lambda>r. \<not> stale r) (db_pending db)\<rparr>, length (filter stale (db_pending db))))"

section \<open>Identity index and runtime state\<close>

definition upsert_identity :: "string \<Rightarrow> string \<Rightarrow> string \<Rightarrow> string \<Rightarrow> identity_db \<Rightarrow> identity_db" where
  "upsert_identity now dataset identity_key resolved_id db =
     db\<lparr>db_index := AList.update (dataset, identity_key, resolved_id) now (db_index db)\<rparr>"

text \<open>The candidates come without an order, here in that of the table.\<close>

definition find_candidates :: "string \<Rightarrow> string \<Rightarrow> identity_db \<Rightarrow> string list" where
  "find_candidates dataset identity_key db =
     map (\<lambda>((d, k, r), _). r) (filter (\<lambda>((d, k, r), _). d = dataset \<and> k = identity_key) (db_index db))"

definition set_runtime_state :: "string \<Rightarrow> string \<Rightarrow> string \<Rightarrow> string \<Rightarrow> string \<Rightarrow> identity_db \<Rightarrow> identity_db" where
  "set_runtime_state now scope dataset state_key state_value db =
     db\<lparr>db_runtime := AList.update (scope, dataset, state_key) (state_value, now) (db_runtime db)\<rparr>"

definition get_runtime_state :: "string \<Rightarrow> string \<Rightarrow> string \<Rightarrow> identity_db \<Rightarrow> string option" where
  "get_runtime_state scope dataset state_key db =
     map_option fst (map_of (db_runtime db) (scope, dataset, state_key))"

definition clear_runtime_scope :: "string \<Rightarrow> identity_db \<Rightarrow> identity_db" where
  "clear_runtime_scope scope db =
     db\<lparr>db_runtime := filter (\<lambda>((s, d, k), v). s \<noteq> scope) (db_runtime db)\<rparr>"

section \<open>Synchronisation after a write\<close>

definition format_identity_key :: "string \<Rightarrow> string \<Rightarrow> string" where
  "format_identity_key name v = name @ '':'' @ v"

record identity_syncer =
  is_identity_keys :: "(string, string list) dict"
  is_id_fields :: "(string, string) dict"

definition id_field_for :: "identity_syncer \<Rightarrow> string \<Rightarrow> string" where
  "id_field_for s dataset = dict_get_or (is_id_fields s) dataset ''_id''"

definition normalize_value :: "pyval \<Rightarrow> string option" where
  "normalize_value v =
     (if v = PNone then None
      else (let s = py_strip (py_str v) in if s = [] then None else Some s))"

definition resolve_pending_for_key :: "string \<Rightarrow> string \<Rightarrow> string \<Rightarrow> identity_db \<Rightarrow> identity_db" where
  "resolve_pending_for_key now dataset identity_key db =
     fold (\<lambda>item. mark_resolved now (pl_id item)) (list_pending_for_key dataset identity_key db) db"

text \<open>The set of key names is the list of its members in some order.\<close>

fun sync_keys :: "string \<Rightarrow> string \<Rightarrow> string \<Rightarrow> (string, pyval) dict \<Rightarrow> string list \<Rightarrow> identity_db \<Rightarrow> identity_db" where
  "sync_keys now dataset rid values [] db = db"
| "sync_keys now dataset rid values (key_name # names) db =
     (case normalize_value (dict_get_or values key_name PNone) of
        None \<Rightarrow> sync_keys now dataset rid values names db
      | Some v \<Rightarrow>
          (let key = format_identity_key key_name v
           in sync_keys now dataset rid values names
                (resolve_pending_for_key now dataset key (upsert_identity now dataset key rid db))))"

definition sync_identity ::
    "identity_syncer \<Rightarrow> string \<Rightarrow> string \<Rightarrow> pyval \<Rightarrow> (string, pyval) dict option \<Rightarrow> identity_db \<Rightarrow> identity_db" where
  "sync_identity s now dataset resolved_id key_values db =
     (case map_of (is_identity_keys s) dataset of
        None \<Rightarrow> db
      | Some names \<Rightarrow>
          if names = [] then db
          else (case normalize_value resolved_id of
              None \<Rightarrow> db
            | Some rid \<Rightarrow>
                sync_keys now dataset rid (case key_values of None \<Rightarrow> [] | Some d \<Rightarrow> d) names db))"

section \<open>Expiry and retention\<close>

record resolver_settings =
  rs_pending_ttl_seconds :: int
  rs_pending_max_attempts :: int
  rs_pending_sweep_interval_seconds :: int
  rs_pending_on_expire :: string
  rs_pending_allow_partial :: bool
  rs_pending_retention_days :: int

record expiry_service =
  es_last_sweep_at :: "py_datetime option"
  es_expired :: "pending_link list"

text \<open>\<open>stamp\<close> is the text CURRENT_TIMESTAMP has when the update runs.\<close>

definition sweep ::
    "resolver_settings option \<Rightarrow> py_datetime \<Rightarrow> string \<Rightarrow> expiry_service \<times> identity_db \<Rightarrow> expiry_service \<times> identity_db" where
  "sweep settings now stamp st =
     (let (svc, db) = st;
          interval = (case settings of None \<Rightarrow> 0 | Some s \<Rightarrow> rs_pending_sweep_interval_seconds s)
      in if interval \<le> 0 then (svc, db)
         else if (case es_last_sweep_at svc of None \<Rightarrow> False
                  | Some prev \<Rightarrow> utc_micros now - utc_micros prev < interval * 1000000)
         then (svc, db)
         else (let (db', expired) = sweep_expired stamp (isoformat now) (Some ''expired'') db
               in (\<lparr>es_last_sweep_at = Some now, es_expired = es_expired svc @ expired\<rparr>, db')))"

definition drain_expired :: "expiry_service \<Rightarrow> expiry_service \<times> pending_link list" where
  "drain_expired svc = (svc\<lparr>es_expired := []\<rparr>, es_expired svc)"

text \<open>\<open>cutoff\<close> is \<open>now - timedelta(days=pending_retention_days)\<close>.\<close>

definition purge_pending :: "resolver_settings option \<Rightarrow> py_datetime \<Rightarrow> identity_db \<Rightarrow> identity_db" where
  "purge_pending settings cutoff db =
     (case settings of
        None \<Rightarrow> db
      | Some s \<Rightarrow>
          if rs_pending_retention_days s \<le> 0 then db
          else fst (purge_stale (isoformat cutoff) [] db))"

section \<open>The invariant of the pending table\<close>

definition pending_rows_of :: "identity_db \<Rightarrow> pending_link list" where
  "pending_rows_of db = filter (\<lambda>r. pl_status r = PENDING) (db_pending db)"

definition db_inv :: "identity_db \<Rightarrow> bool" where
  "db_inv db \<longleftrightarrow> 0 \<le> db_sequence db \<and> sorted_wrt (<) (map pl_id (db_pending db))
     \<and> (\<forall>r \<in> set (db_pending db). 0 < pl_id r \<and> pl_id r \<le> db_sequence db \<and> 0 \<le> pl_attempts r)
     \<and> distinct (map pending_key (pending_rows_of db))"

text \<open>An update that keeps the identity of a row and never reopens it.\<close>

definition closing :: "(pending_link \<Rightarrow> pending_link) \<Rightarrow> bool" where
  "closing f \<longleftrightarrow> (\<forall>r. pl_id (f r) = pl_id r \<and> pending_key (f r) = pending_key r
     \<and> (0 \<le> pl_attempts r \<longrightarrow> 0 \<le> pl_attempts (f r))
     \<and> (pl_status (f r) = PENDING \<longrightarrow> pl_status r = PENDING))"

lemma closing_set_status [simp]: "st \<noteq> PENDING \<Longrightarrow> closing (set_status st reason now)"
  by (simp add: closing_def set_status_def pending_key_def)

lemma closing_if: "closing f \<Longrightarrow> closing (\<lambda>r. if P r then f r else r)"
  by (simp add: closing_def)

lemma closing_ids: "closing f \<Longrightarrow> map pl_id (map f rs) = map pl_id rs"
  by (simp add: closing_def)

lemma closing_pending_keys:
  assumes "closing f"
  shows "pending_key ` set (filter (\<lambda>r. pl_status r = PENDING) (map f rs))
    \<subseteq> pending_key ` set (filter (\<lambda>r. pl_status r = PENDING) rs)"
proof (intro subsetI, elim imageE, hypsubst)
  fix r assume "r \<in> set (filter (\<lambda>r. pl_status r = PENDING) (map f rs))"
  then obtain q where "q \<in> set rs" "r = f q" "pl_status (f q) = PENDING" by auto
  with assms show "pending_key r \<in> pending_key ` set (filter (\<lambda>r. pl_status r = PENDING) rs)"
    by (auto simp: closing_def intro!: rev_image_eqI)
qed

lemma closing_distinct:
  assumes "closing f" "distinct (map pending_key (filter (\<lambda>r. pl_status r = PENDING) rs))"
  shows "distinct (map pending_key (filter (\<lambda>r. pl_status r = PENDING) (map f rs)))"
  using assms(2)
proof (induction rs)
  case (Cons r rs)
  show ?case
  proof (cases "pl_status (f r) = PENDING")
    case True
    then have "pl_status r = PENDING" "pending_key (f r) = pending_key r"
      using assms(1) by (auto simp: closing_def)
    then have "pending_key (f r) \<notin> pending_key ` set (filter (\<lambda>r. pl_status r = PENDING) (map f rs))"
      using closing_pending_keys [OF assms(1), of rs] Cons.prems by auto
    then show ?thesis using True Cons \<open>pl_status r = PENDING\<close> by simp
  next
    case False
    then show ?thesis using Cons by (simp split: if_splits)
  qed
qed simp

lemma map_pending_inv:
  assumes "closing f" "db_inv db"
  shows "db_inv (map_pending P f db)"
proof -
  let ?g = "\<lambda>r. if P r then f r else r"
  have g: "closing ?g" by (rule closing_if [OF assms(1)])
  have pend: "db_pending (map_pending P f db) = map ?g (db_pending db)" by (simp add: map_pending_def)
  show ?thesis
    unfolding db_inv_def pending_rows_of_def pend closing_ids [OF g]
  proof (intro conjI)
    show "\<forall>r \<in> set (map ?g (db_pending db)). 0 < pl_id r \<and> pl_id r \<le> db_sequence (map_pending P f db) \<and> 0 \<le> pl_attempts r"
      using assms by (auto simp: map_pending_def db_inv_def closing_def)
    show "distinct (map pending_key (filter (\<lambda>r. pl_status r = PENDING) (map ?g (db_pending db))))"
      using assms(2) by (intro closing_distinct [OF g]) (simp add: db_inv_def pending_rows_of_def)
  qed (use assms(2) in \<open>simp_all add: db_inv_def map_pending_def\<close>)
qed

lemma map_pending_sequence [simp]: "db_sequence (map_pending P f db) = db_sequence db"
  by (simp add: map_pending_def)

lemma db_inv_other_tables [simp]:
  "db_inv (db\<lparr>db_index := x\<rparr>) = db_inv db" "db_inv (db\<lparr>db_runtime := y\<rparr>) = db_inv db"
  by (simp_all add: db_inv_def pending_rows_of_def)

lemma filter_pending_inv:
  assumes "db_inv db"
  shows "db_inv (db\<lparr>db_pending := filter Q (db_pending db)\<rparr>)"
proof -
  have "sorted_wrt (<) (map pl_id (filter Q rs))" if "sorted_wrt (<) (map pl_id rs)" for rs
    using that by (induction rs) auto
  moreover have "distinct (map pending_key (filter (\<lambda>r. pl_status r = PENDING) (filter Q rs)))"
    if "distinct (map pending_key (filter (\<lambda>r. pl_status r = PENDING) rs))" for rs
    using that by (induction rs) auto
  ultimately show ?thesis
    using assms by (simp add: db_inv_def pending_rows_of_def)
qed

lemma add_pending_cases:
  assumes "db_inv db" "add_pending now d s f k e p db = (db', i)"
  shows "(\<exists>r \<in> set (db_pending db'). pending_key r = (d, s, f, k) \<and> pl_status r = PENDING \<and> pl_id r = i) \<and> ((\<exists>r \<in> set (db_pending db). pending_key r = (d, s, f, k) \<and> pl_status r = PENDING \<and> pl_id r = i
           \<and> db_sequence db' = db_sequence db \<and> map pl_id (db_pending db') = map pl_id (db_pending db)
           \<and> map pl_attempts (db_pending db') = map pl_attempts (db_pending db) \<and> db_inv db')
    \<or> ((\<forall>r \<in> set (db_pending db). \<not> (pending_key r = (d, s, f, k) \<and> pl_status r = PENDING))
         \<and> i = db_sequence db + 1 \<and> db_sequence db' = i \<and> map pl_id (db_pending db') = map pl_id (db_pending db) @ [i]
         \<and> db_inv db'))"
proof (cases "find (\<lambda>r. pending_key r = (d, s, f, k) \<and> pl_status r = PENDING) (db_pending db)")
  case None
  then have none: "\<forall>r \<in> set (db_pending db). \<not> (pending_key r = (d, s, f, k) \<and> pl_status r = PENDING)"
    by (auto simp: find_None_iff)
  have "sorted_wrt (<) (map pl_id (db_pending db) @ [db_sequence db + 1])"
    using assms(1) by (fastforce simp: db_inv_def sorted_wrt_append)
  moreover have "\<forall>r \<in> set (db_pending db). pl_id r \<le> db_sequence db + 1"
    using assms(1) by (force simp: db_inv_def)
  moreover have "(d, s, f, k) \<notin> pending_key ` set (filter (\<lambda>r. pl_status r = PENDING) (db_pending db))"
    using none by auto
  moreover obtain new where new: "db_pending db' = db_pending db @ [new]" "db_sequence db' = db_sequence db + 1"
      "pl_id new = db_sequence db + 1" "pending_key new = (d, s, f, k)" "pl_status new = PENDING" "pl_attempts new = 0"
    using None assms(2) by (auto simp: add_pending_def Let_def pending_key_def)
  ultimately have "db_inv db'"
    using assms(1) by (simp add: db_inv_def pending_rows_of_def)
  then show ?thesis
    using None assms(2) none by (auto simp: add_pending_def Let_def pending_key_def)
next
  case (Some r)
  then have r: "r \<in> set (db_pending db)" "pending_key r = (d, s, f, k)" "pl_status r = PENDING"
    by (auto simp: find_Some_iff)
  let ?f = "\<lambda>r. r\<lparr>pl_payload := coalesce p (pl_payload r), pl_expires_at := coalesce e (pl_expires_at r),
      pl_last_attempt_at := Some now\<rparr>"
  have cl: "closing ?f" by (simp add: closing_def pending_key_def)
  have db': "db' = (if p \<noteq> None \<or> e \<noteq> None then map_pending (\<lambda>q. pl_id q = pl_id r) ?f db else db)" "i = pl_id r"
    using Some assms(2) by (auto simp: add_pending_def)
  have "map pl_attempts (db_pending db') = map pl_attempts (db_pending db)"
    "map pl_id (db_pending db') = map pl_id (db_pending db)" "db_sequence db' = db_sequence db"
    by (auto simp: db'(1) map_pending_def)
  moreover have "db_inv db'" using map_pending_inv [OF cl assms(1)] assms(1) by (simp add: db'(1))
  moreover have "\<exists>q \<in> set (db_pending db'). pending_key q = (d, s, f, k) \<and> pl_status q = PENDING \<and> pl_id q = i"
  proof (cases "p \<noteq> None \<or> e \<noteq> None")
    case True
    then have "?f r \<in> set (db_pending db')" using r(1) by (auto simp: db'(1) map_pending_def)
    moreover have "pending_key (?f r) = pending_key r" by (simp add: pending_key_def)
    ultimately show ?thesis using r db'(2) by (intro bexI [of _ "?f r"]) simp_all
  next
    case False
    then show ?thesis using r db' by auto
  qed
  ultimately show ?thesis
    using r db'(2) by (intro conjI disjI1 rev_bexI [of r "set (db_pending db)"]) simp_all
qed

section \<open>Every sequence of operations\<close>

datatype pending_op =
    AddPending string string string string string "string option" "string option"
  | MarkResolved string int
  | MarkResolvedForSource string string
  | MarkConflict string int "string option"
  | MarkExpired string int "string option"
  | TouchAttempt string int
  | SweepExpired string string "string option"
  | PurgeStale string "pending_status list"
  | UpsertIdentity string string string string
  | SetRuntime string string string string string
  | ClearScope string

fun run_op :: "pending_op \<Rightarrow> identity_db \<Rightarrow> identity_db" where
  "run_op (AddPending now d s f k e p) db = fst (add_pending now d s f k e p db)"
| "run_op (MarkResolved now i) db = mark_resolved now i db"
| "run_op (MarkResolvedForSource now s) db = mark_resolved_for_source now s db"
| "run_op (MarkConflict now i r) db = mark_conflict now i r db"
| "run_op (MarkExpired now i r) db = mark_expired now i r db"
| "run_op (TouchAttempt now i) db = fst (touch_attempt now i db)"
| "run_op (SweepExpired now c r) db = fst (sweep_expired now c r db)"
| "run_op (PurgeStale c sts) db = fst (purge_stale c sts db)"
| "run_op (UpsertIdentity now d k r) db = upsert_identity now d k r db"
| "run_op (SetRuntime now s d k v) db = set_runtime_state now s d k v db"
| "run_op (ClearScope s) db = clear_runtime_scope s db"

lemma run_op_inv:
  assumes "db_inv db"
  shows "db_inv (run_op op db) \<and> db_sequence db \<le> db_sequence (run_op op db)"
proof (cases op)
  case (AddPending now d s f k e p)
  obtain db' i where "add_pending now d s f k e p db = (db', i)" by fastforce
  with add_pending_cases [OF assms this] show ?thesis by (auto simp: AddPending)
next
  case (TouchAttempt now i)
  have "closing (\<lambda>r. r\<lparr>pl_attempts := pl_attempts r + 1, pl_last_attempt_at := Some now\<rparr>)"
    by (simp add: closing_def pending_key_def)
  from map_pending_inv [OF this assms] show ?thesis
    by (simp add: TouchAttempt touch_attempt_def Let_def)
next
  case (PurgeStale c sts)
  then show ?thesis using filter_pending_inv [OF assms] by (simp add: purge_stale_def Let_def)
qed (simp_all add: assms map_pending_inv mark_resolved_def mark_resolved_for_source_def mark_conflict_def
    mark_expired_def sweep_expired_def Let_def upsert_identity_def set_runtime_state_def clear_runtime_scope_def)

definition reached :: "pending_op list \<Rightarrow> identity_db" where
  "reached ops = fold run_op ops empty_db"

lemma reached_inv: "db_inv (reached ops)"
proof -
  have keep: "db_inv db \<Longrightarrow> db_inv (fold run_op ops db)" for db
    by (induction ops arbitrary: db) (simp_all add: run_op_inv [THEN conjunct1])
  have "db_inv empty_db" by (simp add: db_inv_def empty_db_def pending_rows_of_def)
  then show ?thesis unfolding reached_def by (rule keep)
qed

section \<open>What the operations do\<close>

lemma find_Some_in_list: "find P xs = Some x \<Longrightarrow> x \<in> set xs \<and> P x"
  by (auto simp: find_Some_iff)

lemma pending_by_id:
  assumes "db_inv db" "r \<in> set (db_pending db)" "q \<in> set (db_pending db)" "pl_id r = pl_id q"
  shows "r = q"
proof -
  have "distinct (map pl_id (db_pending db))"
    using assms(1) strict_sorted_iff by (auto simp: db_inv_def)
  then show ?thesis using assms(2-4) by (auto simp: distinct_map inj_on_def)
qed

lemma pending_by_key:
  assumes "db_inv db" "r \<in> set (db_pending db)" "q \<in> set (db_pending db)"
    "pl_status r = PENDING" "pl_status q = PENDING" "pending_key r = pending_key q"
  shows "r = q"
proof -
  have "inj_on pending_key (set (pending_rows_of db))"
    using assms(1) by (simp add: db_inv_def distinct_map)
  then show ?thesis using assms(2-6) by (auto simp: inj_on_def pending_rows_of_def)
qed

lemma expired_ids:
  assumes "db_inv db" "r \<in> set (db_pending db)"
  shows "pl_id r \<in> set (map pl_id (filter (expired_at c) (db_pending db))) \<longleftrightarrow> expired_at c r"
  using pending_by_id [OF assms(1)] assms(2) by fastforce

lemma sweep_spec:
  assumes "db_inv db"
  shows "snd (sweep_expired now c reason db) = filter (expired_at c) (db_pending db)
    \<and> db_pending (fst (sweep_expired now c reason db)) =
        map (\<lambda>r. if expired_at c r then set_status EXPIRED reason now r else r) (db_pending db)"
proof (cases "filter (expired_at c) (db_pending db) = []")
  case True
  then have "map (\<lambda>r. if expired_at c r then set_status EXPIRED reason now r else r) (db_pending db) = db_pending db"
    by (intro map_idI) (auto simp: filter_empty_conv)
  with True show ?thesis by (simp add: sweep_expired_def)
next
  case False
  then show ?thesis
    using expired_ids [OF assms, of _ c] by (auto simp: sweep_expired_def Let_def map_pending_def)
qed

lemma mark_resolved_many:
  "db_pending (fold (\<lambda>item. mark_resolved now (pl_id item)) items db) =
     map (\<lambda>r. if pl_id r \<in> pl_id ` set items then set_status RESOLVED None now r else r) (db_pending db)"
proof (induction items arbitrary: db)
  case Nil
  then show ?case by simp
next
  case (Cons i items)
  have "set_status RESOLVED None now (set_status RESOLVED None now r) = set_status RESOLVED None now r"
    "pl_id (set_status RESOLVED None now r) = pl_id r" for r
    by (simp_all add: set_status_def)
  moreover have "db_pending (mark_resolved now (pl_id i) db)
      = map (\<lambda>r. if pl_id r = pl_id i then set_status RESOLVED None now r else r) (db_pending db)"
    by (simp add: mark_resolved_def map_pending_def)
  ultimately show ?case
    by (simp add: Cons.IH)
qed

lemma resolve_pending_for_key_spec:
  assumes "db_inv db"
  shows "db_inv (resolve_pending_for_key now d k db)
    \<and> db_pending (resolve_pending_for_key now d k db) =
        map (\<lambda>r. if pl_dataset r = d \<and> pl_lookup_key r = k \<and> pl_status r = PENDING
                 then set_status RESOLVED None now r else r) (db_pending db)
    \<and> db_index (resolve_pending_for_key now d k db) = db_index db"
proof (intro conjI)
  have fold_inv: "db_inv (fold (\<lambda>item. mark_resolved now (pl_id item)) items db)" if "db_inv db" for items db
    using that by (induction items arbitrary: db) (simp_all add: mark_resolved_def map_pending_inv)
  then show "db_inv (resolve_pending_for_key now d k db)"
    using assms by (simp add: resolve_pending_for_key_def)
  have "pl_id r \<in> pl_id ` set (list_pending_for_key d k db) \<longleftrightarrow>
      pl_dataset r = d \<and> pl_lookup_key r = k \<and> pl_status r = PENDING" if "r \<in> set (db_pending db)" for r
    using pending_by_id [OF assms] that by (fastforce simp: list_pending_for_key_def)
  then show "db_pending (resolve_pending_for_key now d k db) =
        map (\<lambda>r. if pl_dataset r = d \<and> pl_lookup_key r = k \<and> pl_status r = PENDING
                 then set_status RESOLVED None now r else r) (db_pending db)"
    by (simp add: resolve_pending_for_key_def mark_resolved_many)
  have "db_index (fold (\<lambda>item. mark_resolved now (pl_id item)) items db) = db_index db" for items db
    by (induction items arbitrary: db) (simp_all add: mark_resolved_def map_pending_def)
  then show "db_index (resolve_pending_for_key now d k db) = db_index db"
    by (simp add: resolve_pending_for_key_def)
qed

lemma list_pending_after_resolve:
  assumes "db_inv db"
  shows "list_pending_for_key d' k' (resolve_pending_for_key now d k db) =
    (if d' = d \<and> k' = k then [] else list_pending_for_key d' k' db)"
proof -
  note spec = resolve_pending_for_key_spec [OF assms, of now d k, THEN conjunct2, THEN conjunct1]
  have s: "pl_status (set_status RESOLVED None now r) = RESOLVED" for r by (simp add: set_status_def)
  have "filter (\<lambda>r. pl_dataset r = d' \<and> pl_lookup_key r = k' \<and> pl_status r = PENDING)
      (map (\<lambda>r. if pl_dataset r = d \<and> pl_lookup_key r = k \<and> pl_status r = PENDING
        then set_status RESOLVED None now r else r) rs)
    = (if d' = d \<and> k' = k then [] else filter (\<lambda>r. pl_dataset r = d' \<and> pl_lookup_key r = k' \<and> pl_status r = PENDING) rs)" for rs
    by (induction rs) (auto simp: s)
  then show ?thesis by (simp add: list_pending_for_key_def spec)
qed

lemma find_candidates_upsert:
  "set (find_candidates d k (upsert_identity now d' k' r db)) =
     set (find_candidates d k db) \<union> (if d = d' \<and> k = k' then {r} else {})"
proof -
  have c: "x \<in> set (find_candidates d k db) \<longleftrightarrow> (d, k, x) \<in> fst ` set (db_index db)" for x db
    by (force simp: find_candidates_def)
  show ?thesis
    by (rule set_eqI) (auto simp: c upsert_identity_def dom_update)
qed

lemma find_candidates_resolve [simp]:
  "db_inv db \<Longrightarrow> find_candidates d k (resolve_pending_for_key now d' k' db) = find_candidates d k db"
  using resolve_pending_for_key_spec [of db now d' k'] by (simp add: find_candidates_def)

lemma list_pending_upsert [simp]:
  "list_pending_for_key d k (upsert_identity now d' k' r db) = list_pending_for_key d k db"
  by (simp add: list_pending_for_key_def upsert_identity_def)

lemma upsert_inv [simp]: "db_inv (upsert_identity now d k r db) = db_inv db"
  by (simp add: upsert_identity_def)

lemma sync_keys_spec:
  assumes "db_inv db" "key_name \<in> set names" "normalize_value (dict_get_or values key_name PNone) = Some v"
  shows "list_pending_for_key d (format_identity_key key_name v) (sync_keys now d rid values names db) = []
    \<and> rid \<in> set (find_candidates d (format_identity_key key_name v) (sync_keys now d rid values names db))"
proof -
  have keep: "db_inv db \<Longrightarrow> db_inv (sync_keys now d rid values ns db)
      \<and> (list_pending_for_key d k db = [] \<longrightarrow> list_pending_for_key d k (sync_keys now d rid values ns db) = [])
      \<and> set (find_candidates d k db) \<subseteq> set (find_candidates d k (sync_keys now d rid values ns db))" for ns k db
  proof (induction ns arbitrary: db)
    case (Cons n ns)
    let ?k = "\<lambda>w. format_identity_key n w"
    show ?case
    proof (cases "normalize_value (dict_get_or values n PNone)")
      case None
      then show ?thesis using Cons by simp
    next
      case (Some w)
      let ?db = "resolve_pending_for_key now d (?k w) (upsert_identity now d (?k w) rid db)"
      have "db_inv ?db" using Cons.prems resolve_pending_for_key_spec by simp
      from Cons.IH [OF this] show ?thesis
        using Some Cons.prems
        by (auto simp: Let_def list_pending_after_resolve find_candidates_upsert split: if_splits)
    qed
  qed simp
  show ?thesis
    using assms(1,2)
  proof (induction names arbitrary: db)
    case (Cons n ns)
    show ?case
    proof (cases "n = key_name")
      case True
      let ?k = "format_identity_key n v"
      let ?db = "resolve_pending_for_key now d ?k (upsert_identity now d ?k rid db)"
      have inv: "db_inv ?db" using Cons.prems resolve_pending_for_key_spec by simp
      have "list_pending_for_key d ?k ?db = []" "rid \<in> set (find_candidates d ?k ?db)"
        using Cons.prems by (simp_all add: list_pending_after_resolve find_candidates_upsert)
      with keep [OF inv, of ns ?k] show ?thesis using True assms(3) by (auto simp: Let_def)
    next
      case False
      then have "key_name \<in> set ns" using Cons.prems by simp
      moreover have "db_inv (resolve_pending_for_key now d k (upsert_identity now d k rid db))" for k
        using Cons.prems resolve_pending_for_key_spec by simp
      ultimately show ?thesis using Cons by (simp add: Let_def split: option.split)
    qed
  qed simp
qed

section \<open>Source de-duplication\<close>

text \<open>
  The two stores of \<open>transform/matcher/dedup_store.py\<close>: in memory for one run, and scoped,
  which also keeps the fingerprints in the runtime state of the identity database.
\<close>

datatype dedup_result = FIRST | DUPLICATE | DEDUP_CONFLICT

type_synonym local_dedup = "(string, string) dict"

definition local_check :: "string \<Rightarrow> string \<Rightarrow> local_dedup \<Rightarrow> local_dedup \<times> dedup_result" where
  "local_check key fingerprint seen =
     (case map_of seen key of
        None \<Rightarrow> (AList.update key fingerprint seen, FIRST)
      | Some prev \<Rightarrow> (seen, if prev = fingerprint then DUPLICATE else DEDUP_CONFLICT))"

definition local_reset :: "local_dedup \<Rightarrow> local_dedup" where
  "local_reset seen = []"

record scoped_dedup =
  sd_scope :: string
  sd_dataset :: string
  sd_seen :: "(string, string) dict"
  sd_db :: identity_db

definition scoped_lookup :: "scoped_dedup \<Rightarrow> string \<Rightarrow> string option" where
  "scoped_lookup s key =
     (case map_of (sd_seen s) key of
        Some prev \<Rightarrow> Some prev
      | None \<Rightarrow> get_runtime_state (sd_scope s) (sd_dataset s) key (sd_db s))"

definition scoped_check :: "string \<Rightarrow> string \<Rightarrow> string \<Rightarrow> scoped_dedup \<Rightarrow> scoped_dedup \<times> dedup_result" where
  "scoped_check now key fingerprint s =
     (case scoped_lookup s key of
        None \<Rightarrow> (s\<lparr>sd_seen := AList.update key fingerprint (sd_seen s),
                  sd_db := set_runtime_state now (sd_scope s) (sd_dataset s) key fingerprint (sd_db s)\<rparr>, FIRST)
      | Some prev \<Rightarrow> (s, if prev = fingerprint then DUPLICATE else DEDUP_CONFLICT))"

definition scoped_reset :: "scoped_dedup \<Rightarrow> scoped_dedup" where
  "scoped_reset s = s\<lparr>sd_seen := []\<rparr>"

fun check_all :: "(string \<Rightarrow> string \<Rightarrow> 's \<Rightarrow> 's \<times> dedup_result) \<Rightarrow> (string \<times> string) list \<Rightarrow> 's \<Rightarrow> 's \<times> dedup_result list" where
  "check_all check [] s = (s, [])"
| "check_all check ((k, f) # rest) s =
     (let (s', r) = check k f s; (s'', rs) = check_all check rest s' in (s'', r # rs))"

text \<open>What a store promises: the first fingerprint of a key is kept and decides the later ones.\<close>

locale dedup_store =
  fixes lookup :: "'s \<Rightarrow> string \<Rightarrow> string option"
    and check :: "string \<Rightarrow> string \<Rightarrow> 's \<Rightarrow> 's \<times> dedup_result"
  assumes check_result: "snd (check k f s) =
      (case lookup s k of None \<Rightarrow> FIRST | Some g \<Rightarrow> if g = f then DUPLICATE else DEDUP_CONFLICT)"
    and check_lookup: "lookup (fst (check k f s)) k' =
      (if k' = k \<and> lookup s k = None then Some f else lookup s k')"
begin

lemma check_all_result:
  assumes "i < length xs"
  shows "snd (check_all check xs s) ! i =
    (case coalesce (lookup s (fst (xs ! i))) (map_of (take i xs) (fst (xs ! i))) of
       None \<Rightarrow> FIRST | Some g \<Rightarrow> if g = snd (xs ! i) then DUPLICATE else DEDUP_CONFLICT)"
  using assms
proof (induction xs arbitrary: s i)
  case Nil
  then show ?case by simp
next
  case (Cons x xs)
  obtain k f where x: "x = (k, f)" by (cases x)
  show ?case
  proof (cases i)
    case 0
    then show ?thesis
      using check_result [of k f s] by (simp add: x coalesce_def case_prod_beta split: option.split)
  next
    case (Suc j)
    have e: "coalesce (lookup (fst (check k f s)) (fst (xs ! j))) (map_of (take j xs) (fst (xs ! j)))
        = coalesce (lookup s (fst (xs ! j))) (map_of (take (Suc j) (x # xs)) (fst (xs ! j)))"
      by (auto simp: check_lookup coalesce_def x split: option.split)
    have "snd (check_all check (x # xs) s) ! i = snd (check_all check xs (fst (check k f s))) ! j"
      by (simp add: x Suc case_prod_beta)
    with Cons.IH [of j "fst (check k f s)"] Cons.prems e show ?thesis
      unfolding Suc nth_Cons_Suc by (simp del: take_Suc_Cons)
  qed
qed

lemma check_all_length: "length (snd (check_all check xs s)) = length xs"
  by (induction xs arbitrary: s) (auto simp: case_prod_beta)

lemma check_all_same:
  assumes "\<And>k. lookup s k = lookup t k"
  shows "snd (check_all check xs s) = snd (check_all check xs t)"
  by (rule nth_equalityI) (simp_all add: check_all_length check_all_result assms)

end

interpretation local_store: dedup_store map_of local_check
  by unfold_locales (auto simp: local_check_def update_conv' split: option.splits)

interpretation scoped_store: dedup_store scoped_lookup "scoped_check now" for now
  by unfold_locales
    (auto simp: scoped_check_def scoped_lookup_def get_runtime_state_def set_runtime_state_def update_conv'
      split: option.splits)

text \<open>Every fingerprint the persistent store holds in memory is also in its table.\<close>

definition write_through :: "scoped_dedup \<Rightarrow> bool" where
  "write_through s \<longleftrightarrow> (\<forall>k f. map_of (sd_seen s) k = Some f
     \<longrightarrow> get_runtime_state (sd_scope s) (sd_dataset s) k (sd_db s) = Some f)"

lemma write_through_check: "write_through s \<Longrightarrow> write_through (fst (scoped_check now k f s))"
  by (auto simp: write_through_def scoped_check_def update_conv' get_runtime_state_def set_runtime_state_def
      split: option.split if_splits)

lemma write_through_check_all: "write_through s \<Longrightarrow> write_through (fst (check_all (scoped_check now) xs s))"
  by (induction xs arbitrary: s) (auto simp: case_prod_beta write_through_check)

section \<open>Properties\<close>

text \<open>
  C23. Whatever sequence of repository operations runs on a new identity database, ids are
  assigned in increasing order and never repeat, the attempt counters never go below zero, and
  there is at most one pending link for a dataset, source row, field and lookup key.
\<close>

theorem pending_table_invariant:
  "sorted_wrt (<) (map pl_id (db_pending (reached ops)))
   \<and> distinct (map pending_key (filter (\<lambda>r. pl_status r = PENDING) (db_pending (reached ops))))
   \<and> 0 \<le> Min (insert 0 (pl_attempts ` set (db_pending (reached ops))))
   \<and> Max (insert 0 (pl_id ` set (db_pending (reached ops)))) \<le> db_sequence (reached ops)"
  using reached_inv [of ops] by (auto simp: db_inv_def pending_rows_of_def)

text \<open>
  On every reachable database, adding a pending link leaves exactly one pending link for its
  key, the one whose id is returned; it is a new id, larger than every id ever assigned, exactly
  when no pending link had the key; and adding the same link again returns the same id.
\<close>

theorem add_pending_unique:
  assumes "add_pending now d s f k e p (reached ops) = (db', i)"
  shows "map pl_id (filter (\<lambda>r. pending_key r = (d, s, f, k) \<and> pl_status r = PENDING) (db_pending db')) = [i]
    \<and> (db_sequence (reached ops) < i \<longleftrightarrow>
         filter (\<lambda>r. pending_key r = (d, s, f, k) \<and> pl_status r = PENDING) (db_pending (reached ops)) = [])
    \<and> snd (add_pending now' d s f k e' p' db') = i"
proof -
  let ?P = "\<lambda>r. pending_key r = (d, s, f, k) \<and> pl_status r = PENDING"
  have unique: "map pl_id (filter ?P (db_pending db)) = [pl_id r]"
    if "db_inv db" and mem: "r \<in> set (db_pending db)" and "?P r" for db r
  proof -
    obtain xs ys where xy: "db_pending db = xs @ r # ys" using split_list [OF mem] by blast
    have "\<not> ?P q" if "q \<in> set xs \<union> set ys" for q
    proof
      assume "?P q"
      then have "q = r" using pending_by_key [OF \<open>db_inv db\<close>, of q r] that xy \<open>?P r\<close> by auto
      moreover have "distinct (map pl_id (db_pending db))"
        using \<open>db_inv db\<close> strict_sorted_iff by (auto simp: db_inv_def)
      then have "distinct (db_pending db)" by (simp add: distinct_map)
      ultimately show False using that xy by auto
    qed
    then have "filter ?P xs = []" "filter ?P ys = []" by (auto simp: filter_empty_conv)
    with xy \<open>?P r\<close> show ?thesis by simp
  qed
  note inv = reached_inv [of ops]
  have after: "db_inv db' \<and> (\<exists>r \<in> set (db_pending db'). ?P r \<and> pl_id r = i)"
    using add_pending_cases [OF inv assms] by auto
  then obtain r where r: "db_inv db'" "r \<in> set (db_pending db')" "?P r" "pl_id r = i" by blast
  have again: "snd (add_pending now' d s f k e' p' db') = i"
  proof -
    obtain db2 j where j: "add_pending now' d s f k e' p' db' = (db2, j)" by fastforce
    from add_pending_cases [OF r(1) j] r show ?thesis
      using pending_by_key [OF r(1)] j by fastforce
  qed
  have new: "db_sequence (reached ops) < i \<longleftrightarrow> filter ?P (db_pending (reached ops)) = []"
    using add_pending_cases [OF inv assms] inv by (fastforce simp: filter_empty_conv db_inv_def)
  show ?thesis using unique [OF r(1-3)] r(4) again new by simp
qed

lemma add_pending_unique_witness:
  "map pl_id (filter (\<lambda>r. pending_key r = (''users'', ''r1'', ''manager'', ''k'') \<and> pl_status r = PENDING)
     (db_pending (fst (add_pending ''t2'' ''users'' ''r1'' ''manager'' ''k'' (Some ''t9'') None
        (reached [AddPending ''t1'' ''users'' ''r1'' ''manager'' ''k'' None None]))))) =
   [snd (add_pending ''t2'' ''users'' ''r1'' ''manager'' ''k'' (Some ''t9'') None
        (reached [AddPending ''t1'' ''users'' ''r1'' ''manager'' ''k'' None None]))]"
  by (rule add_pending_unique [THEN conjunct1]) (rule prod.collapse [symmetric])

text \<open>
  C24. A sweep whose interval has elapsed queues exactly the pending links whose expiry text is not
  after the current time, in table order and behind those already queued, gives them status
  EXPIRED, and changes no other row; until the interval elapses again a second sweep does
  nothing, and draining hands out the queue once.
\<close>

theorem sweep_exact:
  assumes "sweep (Some cfg) now stamp (svc, reached ops) = (svc', db')"
    and "0 < rs_pending_sweep_interval_seconds cfg"
    and "es_last_sweep_at svc = None"
  shows "es_expired svc' = es_expired svc @ filter (expired_at (isoformat now)) (db_pending (reached ops))
    \<and> db_pending db' = map (\<lambda>r. if expired_at (isoformat now) r
          then r\<lparr>pl_status := EXPIRED, pl_reason := Some ''expired'', pl_last_attempt_at := Some stamp\<rparr> else r)
        (db_pending (reached ops))
    \<and> sweep (Some cfg) later stamp' (svc', db') =
        (if utc_micros later - utc_micros now < rs_pending_sweep_interval_seconds cfg * 1000000 then (svc', db')
         else sweep (Some cfg) later stamp' (svc'\<lparr>es_last_sweep_at := None\<rparr>, db'))
    \<and> snd (drain_expired svc') = es_expired svc' \<and> snd (drain_expired (fst (drain_expired svc'))) = []"
proof -
  note spec = sweep_spec [OF reached_inv [of ops], of stamp "isoformat now" "Some ''expired''"]
  have e: "svc' = \<lparr>es_last_sweep_at = Some now,
        es_expired = es_expired svc @ filter (expired_at (isoformat now)) (db_pending (reached ops))\<rparr>"
      "db' = fst (sweep_expired stamp (isoformat now) (Some ''expired'') (reached ops))"
    using assms spec by (auto simp: sweep_def Let_def case_prod_beta)
  show ?thesis
    using e spec assms(2) by (simp add: set_status_def drain_expired_def) (simp add: sweep_def Let_def case_prod_beta)
qed

definition noon :: "nat \<Rightarrow> nat \<Rightarrow> py_datetime" where
  "noon month day = \<lparr>dt_year = 2026, dt_month = month, dt_day = day, dt_hour = 12, dt_minute = 0, dt_second = 0,
     dt_micro = 0, dt_offset = Some 0\<rparr>"

definition example_settings :: resolver_settings where
  "example_settings = \<lparr>rs_pending_ttl_seconds = 120, rs_pending_max_attempts = 5, rs_pending_sweep_interval_seconds = 60,
     rs_pending_on_expire = ''error'', rs_pending_allow_partial = False, rs_pending_retention_days = 14\<rparr>"

definition example_add :: pending_op where
  "example_add = AddPending ''t1'' ''users'' ''r1'' ''manager'' ''k'' (Some ''2026-02-01T00:00:00'') None"

lemma sweep_exact_witness:
  "snd (drain_expired (fst (sweep (Some example_settings) (noon 3 1) ''t'' (\<lparr>es_last_sweep_at = None, es_expired = []\<rparr>, reached [example_add])))) =
   filter (expired_at (isoformat (noon 3 1))) (db_pending (reached [example_add]))"
  using sweep_exact [OF prod.collapse [symmetric], of example_settings "\<lparr>es_last_sweep_at = None, es_expired = []\<rparr>"
      "noon 3 1" "''t''" "[example_add]"]
  by (simp add: example_settings_def)

text \<open>
  C40. After a write of an object with identity \<open>rid\<close>, every configured key of the dataset that has
  a value is registered for \<open>rid\<close> and has no pending link left; a dataset without keys and
  an object without an identity leave the database as it was.
\<close>

theorem sync_closes_pending:
  assumes "map_of (is_identity_keys s) d = Some names" "key_name \<in> set names"
    and "normalize_value resolved_id = Some rid"
    and "normalize_value (dict_get_or values key_name PNone) = Some v"
  shows "list_pending_for_key d (format_identity_key key_name v)
           (sync_identity s now d resolved_id (Some values) (reached ops)) = []
    \<and> rid \<in> set (find_candidates d (format_identity_key key_name v)
           (sync_identity s now d resolved_id (Some values) (reached ops)))"
proof -
  have "sync_identity s now d resolved_id (Some values) (reached ops) = sync_keys now d rid values names (reached ops)"
    using assms by (auto simp: sync_identity_def)
  then show ?thesis
    using sync_keys_spec [OF reached_inv assms(2,4)] by simp
qed

definition example_syncer :: identity_syncer where
  "example_syncer = \<lparr>is_identity_keys = [(''users'', [''login'', ''name''])], is_id_fields = []\<rparr>"

lemma sync_closes_pending_witness:
  "list_pending_for_key ''users'' (format_identity_key ''login'' ''ann'')
     (sync_identity example_syncer ''t2'' ''users'' (PInt 7) (Some [(''login'', PStr '' ann '')])
        (reached [AddPending ''t1'' ''users'' ''r1'' ''manager'' ''login:ann'' None None])) = []"
  by (rule sync_closes_pending [where names = "[''login'', ''name'']" and rid = "''7''", THEN conjunct1])
    (simp add: example_syncer_def, simp, code_simp, code_simp)

text \<open>
  Retention compares a stored \<open>YYYY-MM-DD HH:MM:SS\<close> with an ISO text that has a T after the date, so
  a closed link last touched at any time on the day of the cutoff is deleted, also when it was touched
  after the cutoff; pending links are never deleted.
\<close>

theorem purge_takes_cutoff_day:
  assumes "0 < rs_pending_retention_days cfg"
  shows "filter (\<lambda>r. pl_status r = PENDING) (db_pending (purge_pending (Some cfg) cutoff db))
       = filter (\<lambda>r. pl_status r = PENDING) (db_pending db)
    \<and> filter (\<lambda>r. pl_status r \<noteq> PENDING \<and> last_touch r = sqlite_timestamp t) (db_pending (purge_pending (Some cfg) cutoff db))
       = (if date_text t = date_text cutoff then []
          else filter (\<lambda>r. pl_status r \<noteq> PENDING \<and> last_touch r = sqlite_timestamp t \<and> isoformat cutoff < last_touch r) (db_pending db))"
proof -
  have p: "db_pending (purge_pending (Some cfg) cutoff db) =
      filter (\<lambda>r. \<not> (pl_status r \<in> {RESOLVED, EXPIRED, LINK_CONFLICT} \<and> last_touch r \<le> isoformat cutoff)) (db_pending db)"
    using assms by (auto simp: purge_pending_def purge_stale_def Let_def intro!: filter_cong)
  have st: "pl_status r \<in> {RESOLVED, EXPIRED, LINK_CONFLICT} \<longleftrightarrow> pl_status r \<noteq> PENDING" for r
    by (cases "pl_status r") auto
  have day: "sqlite_timestamp t \<le> isoformat cutoff" if "date_text t = date_text cutoff"
    by (rule sqlite_before_iso_same_day [OF that])
  show ?thesis
  proof (intro conjI)
    show "filter (\<lambda>r. pl_status r = PENDING) (db_pending (purge_pending (Some cfg) cutoff db))
       = filter (\<lambda>r. pl_status r = PENDING) (db_pending db)"
      unfolding p st by (simp add: conj_commute) (rule filter_cong; auto)
    show "filter (\<lambda>r. pl_status r \<noteq> PENDING \<and> last_touch r = sqlite_timestamp t) (db_pending (purge_pending (Some cfg) cutoff db))
       = (if date_text t = date_text cutoff then []
          else filter (\<lambda>r. pl_status r \<noteq> PENDING \<and> last_touch r = sqlite_timestamp t \<and> isoformat cutoff < last_touch r) (db_pending db))"
      unfolding p st using day by (auto simp: filter_empty_conv not_le intro!: filter_cong)
  qed
qed

lemma purge_takes_cutoff_day_witness:
  "filter (\<lambda>r. pl_status r \<noteq> PENDING \<and> last_touch r = ''2026-03-01 23:59:59'')
     (db_pending (purge_pending (Some example_settings) (noon 3 1) (mark_resolved ''2026-03-01 23:59:59'' 1
        (reached [AddPending ''2026-03-01 08:00:00'' ''users'' ''r1'' ''manager'' ''k'' None None])))) = []"
proof -
  let ?t = "(noon 3 1)\<lparr>dt_hour := 23, dt_minute := 59, dt_second := 59\<rparr>"
  have "sqlite_timestamp ?t = ''2026-03-01 23:59:59''" by code_simp
  moreover have "date_text ?t = date_text (noon 3 1)" by code_simp
  moreover have "0 < rs_pending_retention_days example_settings" by (simp add: example_settings_def)
  ultimately show ?thesis
    using purge_takes_cutoff_day [of example_settings "noon 3 1" _ ?t] by simp
qed

text \<open>
  C25. On a cleared scope the persistent store answers every sequence of checks as the in-memory store
  does on a new run; after a reset the in-memory store has forgotten the keys, and the persistent
  one answers as if it had not been reset.
\<close>

theorem dedup_stores_agree:
  fixes scope d db now now'
  defines "fresh \<equiv> \<lparr>sd_scope = scope, sd_dataset = d, sd_seen = [], sd_db = clear_runtime_scope scope db\<rparr>"
  shows "snd (check_all (scoped_check now) xs fresh) = snd (check_all local_check xs [])
    \<and> check_all local_check ys (local_reset (fst (check_all local_check xs []))) = check_all local_check ys []
    \<and> snd (check_all (scoped_check now') ys (scoped_reset (fst (check_all (scoped_check now) xs fresh))))
        = snd (check_all (scoped_check now') ys (fst (check_all (scoped_check now) xs fresh)))"
proof (intro conjI)
  have cleared: "scoped_lookup fresh k = None" for k
  proof -
    have "map_of (filter (\<lambda>((s, d, k), v). s \<noteq> scope) rt) (scope, d, k) = None" for rt :: "(string \<times> string \<times> string, string \<times> string) dict"
      by (induction rt) auto
    then show ?thesis
      by (simp add: fresh_def scoped_lookup_def get_runtime_state_def clear_runtime_scope_def)
  qed
  show "snd (check_all (scoped_check now) xs fresh) = snd (check_all local_check xs [])"
    by (rule nth_equalityI)
      (simp_all add: scoped_store.check_all_length local_store.check_all_length scoped_store.check_all_result
        local_store.check_all_result cleared)
  show "check_all local_check ys (local_reset (fst (check_all local_check xs []))) = check_all local_check ys []"
    by (simp add: local_reset_def)
  have stored: "scoped_lookup (scoped_reset s) k = scoped_lookup s k" if "write_through s" for s k
    using that by (auto simp: write_through_def scoped_lookup_def scoped_reset_def split: option.split)
  have "write_through fresh" by (simp add: fresh_def write_through_def)
  then have w: "write_through (fst (check_all (scoped_check now) xs fresh))"
    by (rule write_through_check_all)
  show "snd (check_all (scoped_check now') ys (scoped_reset (fst (check_all (scoped_check now) xs fresh))))
        = snd (check_all (scoped_check now') ys (fst (check_all (scoped_check now) xs fresh)))"
    by (rule scoped_store.check_all_same) (simp add: stored [OF w])
qed

end
