(* ===== verification/Import_Apply.thy ===== *)
theory Import_Apply
  imports Planner Target_Gateway Identity_Store Step_Monad
begin

text \<open>
  Model of \<open>connector/usecases/import_apply_service.py\<close> with the models of \<open>usecases/apply\<close>: the
  loop over the items of a plan, the boundary around the executor, the side effects of a success, and
  the aggregation into the result.

  The adapter from items to requests, the executor and the retention hook are arguments; executor, identity
  index and hook share the outside world.  A step is a function of the state that returns the new state
  and a value or the exception it raised, so that what was recorded before an exception stays.  Telemetry
  calls are recorded in order.
\<close>

section \<open>State\<close>

record item_outcome =
  io_record_ref :: record_ref
  io_op :: string
  io_status :: string
  io_target_id :: string
  io_diagnostics :: "diagnostic_item list"

record apply_summary =
  ay_created :: nat
  ay_updated :: nat
  ay_failed :: nat
  ay_skipped :: int
  ay_items_total :: nat
  ay_rows_with_warnings :: nat
  ay_error_stats :: "(string, int) dict"
  ay_retention_stats :: "(string, int) dict"

record apply_result =
  ar_summary :: apply_summary
  ar_primary_code :: system_error_code
  ar_all_codes :: "system_error_code list"
  ar_fatal_error :: bool
  ar_item_outcomes :: "item_outcome list"
  ar_outcomes_truncated :: bool

datatype apply_event = Item_Ok record_ref string string | Item_Error record_ref string diagnostic_item

record 'w apply_state =
  as_error_stats :: "(string, int) dict"
  as_retention_stats :: "(string, int) dict"
  as_system_codes :: "system_error_code list"
  as_outcomes :: "item_outcome list"
  as_outcomes_dropped :: bool
  as_events :: "apply_event list"
  as_world :: 'w

record 'w sync_port =
  sy_id_field_for :: "string \<Rightarrow> string"
  sy_sync :: "string \<Rightarrow> pyval \<Rightarrow> (string, pyval) dict \<Rightarrow> 'w \<Rightarrow> 'w \<times> unit result"

record 'w apply_env =
  ap_catalog :: error_catalog
  ap_adapter :: "(plan_item \<Rightarrow> request_spec result) option"
  ap_execute :: "request_spec \<Rightarrow> 'w \<Rightarrow> 'w \<times> execution_result option result"
  ap_syncer :: "'w sync_port option"
  ap_retention :: "(string \<Rightarrow> plan_item \<Rightarrow> string option \<Rightarrow> 'w \<Rightarrow> 'w \<times> (string, int) dict result) option"
  ap_allow_side_effects :: bool
  ap_max_item_outcomes :: int
  ap_stop_policy :: stop_policy
  ap_run_id :: "string option"

section \<open>Processing one item\<close>

record item_result =
  ir_created :: nat
  ir_updated :: nat
  ir_failed :: nat
  ir_fatal :: bool

definition add_count :: "string \<Rightarrow> int \<Rightarrow> (string, int) dict \<Rightarrow> (string, int) dict" where
  "add_count k n d = AList.update k (dict_get_or d k 0 + n) d"

definition register_error :: "'w apply_env \<Rightarrow> record_ref \<Rightarrow> string \<Rightarrow> diagnostic_item \<Rightarrow> ('w apply_state, system_error_code) step" where
  "register_error env ref action diag =
     bind_s (update_s (\<lambda>st. st\<lparr>as_error_stats := add_count (di_code diag) 1 (as_error_stats st)\<rparr>)) (\<lambda>_.
     bind_s (lift_s (system_code_of (ap_catalog env) diag)) (\<lambda>c.
     bind_s (update_s (\<lambda>st. st\<lparr>as_system_codes := List.insert c (as_system_codes st),
                              as_events := as_events st @ [Item_Error ref action diag]\<rparr>)) (\<lambda>_.
       return_s c)))"

definition add_outcome :: "'w apply_env \<Rightarrow> item_outcome \<Rightarrow> ('w apply_state, unit) step" where
  "add_outcome env outcome = update_s (\<lambda>st.
     if int (length (as_outcomes st)) < ap_max_item_outcomes env
     then st\<lparr>as_outcomes := as_outcomes st @ [outcome]\<rparr> else st\<lparr>as_outcomes_dropped := True\<rparr>)"

definition add_failed_outcome :: "'w apply_env \<Rightarrow> plan_item \<Rightarrow> string \<Rightarrow> diagnostic_item list \<Rightarrow> ('w apply_state, unit) step" where
  "add_failed_outcome env itm action diags =
     add_outcome env \<lparr>io_record_ref = record_ref_of itm, io_op = action, io_status = ''FAILED'',
       io_target_id = pi_target_id itm, io_diagnostics = diags\<rparr>"

definition register_retention :: "(string, int) dict \<Rightarrow> ('w apply_state, unit) step" where
  "register_retention counters = update_s (\<lambda>st.
     st\<lparr>as_retention_stats := fold (\<lambda>(k, v). add_count k v) counters (as_retention_stats st)\<rparr>)"

definition failure :: "bool \<Rightarrow> item_result" where
  "failure fatal = \<lparr>ir_created = 0, ir_updated = 0, ir_failed = 1, ir_fatal = fatal\<rparr>"

definition handle_single_failure :: "'w apply_env \<Rightarrow> plan_item \<Rightarrow> diagnostic_item \<Rightarrow> bool \<Rightarrow> ('w apply_state, item_result) step" where
  "handle_single_failure env itm diag fatal =
     bind_s (register_error env (record_ref_of itm) (pi_op itm) diag) (\<lambda>_.
     bind_s (add_failed_outcome env itm (pi_op itm) [diag]) (\<lambda>_.
       return_s (failure fatal)))"

definition handle_exception_failure :: "'w apply_env \<Rightarrow> plan_item \<Rightarrow> string \<Rightarrow> string option \<Rightarrow> string \<Rightarrow> ('w apply_state, item_result) step" where
  "handle_exception_failure env itm code fld message =
     bind_s (lift_s (build_error (ap_catalog env) APPLY code fld (Some message) None None None)) (\<lambda>diag.
       handle_single_failure env itm diag False)"

text \<open>The result keeps the system code of the first error.\<close>

fun register_errors :: "'w apply_env \<Rightarrow> plan_item \<Rightarrow> diagnostic_item list \<Rightarrow> system_error_code option \<Rightarrow> ('w apply_state, system_error_code option) step" where
  "register_errors env itm [] first_code = return_s first_code"
| "register_errors env itm (d # ds) first_code =
     bind_s (register_error env (record_ref_of itm) (pi_op itm) d) (\<lambda>c.
       register_errors env itm ds (case first_code of None \<Rightarrow> Some c | Some f \<Rightarrow> Some f))"

definition handle_boundary_errors :: "'w apply_env \<Rightarrow> plan_item \<Rightarrow> diagnostic_item list \<Rightarrow> ('w apply_state, item_result) step" where
  "handle_boundary_errors env itm errs =
     bind_s (register_errors env itm errs None) (\<lambda>first_code.
     bind_s (add_failed_outcome env itm (pi_op itm) errs) (\<lambda>_.
       return_s (failure (case first_code of None \<Rightarrow> False | Some c \<Rightarrow> is_fatal (ap_stop_policy env) c))))"

text \<open>\<open>_sync_identity_index\<close>.\<close>

definition sync_identity_index :: "'w apply_env \<Rightarrow> string \<Rightarrow> plan_item \<Rightarrow> pyval \<Rightarrow> ('w apply_state, unit) step" where
  "sync_identity_index env dataset itm response_payload st =
     (case ap_syncer env of
        None \<Rightarrow> (st, Inr ())
      | Some sy \<Rightarrow>
         (let id_field = sy_id_field_for sy dataset;
              from_payload = (case response_payload of PDict d \<Rightarrow> dict_get_or d id_field PNone | _ \<Rightarrow> PNone);
              resolved_id = (if from_payload = PNone then dict_get_or (pi_desired_state itm) id_field PNone else from_payload);
              base = (case pi_source_ref itm of None \<Rightarrow> [] | Some d \<Rightarrow> fold (\<lambda>(k, v). AList.update k v) d []);
              key_values = fold (\<lambda>(k, v). AList.update k v) (pi_desired_state itm) base;
              (w, r) = sy_sync sy dataset resolved_id key_values (as_world st)
          in (st\<lparr>as_world := w\<rparr>, r)))"

definition run_retention :: "'w apply_env \<Rightarrow> string \<Rightarrow> plan_item \<Rightarrow> ('w apply_state, unit) step" where
  "run_retention env dataset itm st =
     (case ap_retention env of
        None \<Rightarrow> (st, Inr ())
      | Some hook \<Rightarrow>
         (let (w, r) = hook dataset itm (ap_run_id env) (as_world st)
          in bind_s (lift_s r) register_retention (st\<lparr>as_world := w\<rparr>)))"

text \<open>What follows a write: the identity index, then the retention hook.\<close>

definition side_effects :: "'w apply_env \<Rightarrow> string \<Rightarrow> plan_item \<Rightarrow> pyval \<Rightarrow> ('w apply_state, unit) step" where
  "side_effects env dataset itm response_payload =
     bind_s (sync_identity_index env dataset itm response_payload) (\<lambda>_. run_retention env dataset itm)"

definition handle_success_item :: "'w apply_env \<Rightarrow> string \<Rightarrow> plan_item \<Rightarrow> pyval \<Rightarrow> ('w apply_state, item_result) step" where
  "handle_success_item env dataset itm response_payload =
     bind_s (update_s (\<lambda>st. st\<lparr>as_events := as_events st @ [Item_Ok (record_ref_of itm) (pi_op itm) (pi_target_id itm)]\<rparr>)) (\<lambda>_.
     bind_s (if ap_allow_side_effects env then side_effects env dataset itm response_payload else return_s ()) (\<lambda>_.
       return_s \<lparr>ir_created = (if pi_op itm = op_CREATE then 1 else 0), ir_updated = (if pi_op itm = op_UPDATE then 1 else 0),
                 ir_failed = 0, ir_fatal = False\<rparr>))"

definition execute_item :: "'w apply_env \<Rightarrow> plan_item \<Rightarrow> ('w apply_state, execution_result option \<times> diagnostic_item list) step" where
  "execute_item env itm st =
     (case ap_adapter env of
        None \<Rightarrow> (st, Inl (ValueError ''Apply adapter is not configured''))
      | Some to_request \<Rightarrow>
         (case to_request itm of
            Inl e \<Rightarrow> (st, Inl e)
          | Inr req \<Rightarrow>
             (let (w, r) = ap_execute env req (as_world st)
              in (st\<lparr>as_world := w\<rparr>, diagnostic_boundary (ap_catalog env) APPLY None r))))"

definition process_body :: "'w apply_env \<Rightarrow> string \<Rightarrow> plan_item \<Rightarrow> ('w apply_state, item_result) step" where
  "process_body env dataset itm =
     bind_s (execute_item env itm) (\<lambda>(exec_result, errs).
       if errs \<noteq> [] then handle_boundary_errors env itm errs
       else (case exec_result of
           None \<Rightarrow>
             bind_s (lift_s (build_error (ap_catalog env) APPLY ''INTERNAL_ERROR'' None (Some ''empty execution result'') None None None))
               (\<lambda>diag. handle_single_failure env itm diag False)
         | Some res \<Rightarrow>
             if er_ok res then handle_success_item env dataset itm (er_response_payload res)
             else bind_s (lift_s (translate_execution_result (ap_catalog env) SINK res None)) (\<lambda>diag.
                  bind_s (lift_s (system_code_of (ap_catalog env) diag)) (\<lambda>c.
                    handle_single_failure env itm diag (is_fatal (ap_stop_policy env) c)))))"

definition process_item :: "'w apply_env \<Rightarrow> string \<Rightarrow> plan_item \<Rightarrow> ('w apply_state, item_result) step" where
  "process_item env dataset itm =
     try_s (process_body env dataset itm) (\<lambda>e.
       case e of
         MissingRequiredSecret code fld m \<Rightarrow> handle_exception_failure env itm code (Some fld) (exn_text e)
       | _ \<Rightarrow> handle_exception_failure env itm ''UNEXPECTED_ERROR'' None (exn_text e))"

section \<open>The plan\<close>

record apply_totals =
  at_created :: nat
  at_updated :: nat
  at_failed :: nat
  at_actions :: nat
  at_fatal :: bool

definition add_item_result :: "item_result \<Rightarrow> apply_totals \<Rightarrow> apply_totals" where
  "add_item_result r t =
     \<lparr>at_created = at_created t + ir_created r, at_updated = at_updated t + ir_updated r,
      at_failed = at_failed t + ir_failed r, at_actions = at_actions t + 1, at_fatal = (at_fatal t \<or> ir_fatal r)\<rparr>"

fun apply_items :: "'w apply_env \<Rightarrow> string \<Rightarrow> bool \<Rightarrow> int option \<Rightarrow> plan_item list \<Rightarrow> apply_totals \<Rightarrow> ('w apply_state, apply_totals) step" where
  "apply_items env dataset stop_first max_actions [] t = return_s t"
| "apply_items env dataset stop_first max_actions (itm # items) t =
     (if (case max_actions of None \<Rightarrow> False | Some m \<Rightarrow> m \<le> int (at_actions t)) then return_s t
      else bind_s (process_item env dataset itm) (\<lambda>r.
        if stop_first \<and> 0 < ir_failed r then return_s (add_item_result r t)
        else apply_items env dataset stop_first max_actions items (add_item_result r t)))"

definition no_totals :: apply_totals where
  "no_totals = \<lparr>at_created = 0, at_updated = 0, at_failed = 0, at_actions = 0, at_fatal = False\<rparr>"

definition start_apply :: "'w \<Rightarrow> 'w apply_state" where
  "start_apply w = \<lparr>as_error_stats = [], as_retention_stats = [], as_system_codes = [], as_outcomes = [],
     as_outcomes_dropped = False, as_events = [], as_world = w\<rparr>"

definition apply_plan :: "'w apply_env \<Rightarrow> bool \<Rightarrow> int option \<Rightarrow> plan \<Rightarrow> 'w \<Rightarrow> 'w apply_state \<times> apply_result result" where
  "apply_plan env stop_first max_actions p w =
     (let st0 = start_apply w; env = env\<lparr>ap_stop_policy := default_stop_policy, ap_run_id := pm_run_id (pl_meta p)\<rparr> in
      case str_or (pm_dataset (pl_meta p)) [] of
        [] \<Rightarrow> (st0, Inl (ValueError ''Plan meta.dataset is required for apply''))
      | dataset \<Rightarrow>
         bind_s (apply_items env dataset stop_first max_actions (pl_items p) no_totals) (\<lambda>t st.
           let codes = (if as_system_codes st = [] then [OK] else as_system_codes st)
           in (st, Inr
             \<lparr>ar_summary = \<lparr>ay_created = at_created t, ay_updated = at_updated t, ay_failed = at_failed t,
                ay_skipped = sm_skipped (pl_summary p), ay_items_total = at_actions t, ay_rows_with_warnings = 0,
                ay_error_stats = as_error_stats st, ay_retention_stats = as_retention_stats st\<rparr>,
              ar_primary_code = resolve_primary_code codes (ap_stop_policy env), ar_all_codes = sort codes,
              ar_fatal_error = at_fatal t, ar_item_outcomes = as_outcomes st,
              ar_outcomes_truncated = as_outcomes_dropped st\<rparr>)) st0)"

section \<open>What a step leaves\<close>

definition same_outcomes :: "'w apply_state \<Rightarrow> 'w apply_state \<Rightarrow> bool" where
  "same_outcomes st st' \<longleftrightarrow> as_outcomes st' = as_outcomes st \<and> as_outcomes_dropped st' = as_outcomes_dropped st
     \<and> set (as_system_codes st) \<subseteq> set (as_system_codes st')"

definition one_outcome :: "'w apply_env \<Rightarrow> 'w apply_state \<Rightarrow> 'w apply_state \<Rightarrow> bool" where
  "one_outcome env st st' \<longleftrightarrow> set (as_system_codes st) \<subseteq> set (as_system_codes st') \<and> as_system_codes st' \<noteq> []
     \<and> (if int (length (as_outcomes st)) < ap_max_item_outcomes env
        then length (as_outcomes st') = length (as_outcomes st) + 1 \<and> as_outcomes_dropped st' = as_outcomes_dropped st
        else as_outcomes st' = as_outcomes st \<and> as_outcomes_dropped st')"

text \<open>A failure leaves one outcome and a fatal one a fatal code; an exception leaves none.\<close>

definition item_step :: "'w apply_env \<Rightarrow> plan_item \<Rightarrow> 'w apply_state \<Rightarrow> 'w apply_state \<Rightarrow> item_result result \<Rightarrow> bool" where
  "item_step env itm st st' x \<longleftrightarrow>
     (case x of
        Inl e \<Rightarrow> same_outcomes st st'
      | Inr r \<Rightarrow>
         (same_outcomes st st' \<and> r = \<lparr>ir_created = (if pi_op itm = op_CREATE then 1 else 0),
            ir_updated = (if pi_op itm = op_UPDATE then 1 else 0), ir_failed = 0, ir_fatal = False\<rparr>)
         \<or> (\<exists>fatal. r = failure fatal \<and> one_outcome env st st'
              \<and> (fatal \<longrightarrow> (\<exists>c \<in> set (as_system_codes st'). is_fatal (ap_stop_policy env) c))))"

lemma same_outcomes_refl [simp]: "same_outcomes st st"
  by (simp add: same_outcomes_def)

lemma same_outcomes_world [simp]: "same_outcomes st (st\<lparr>as_world := w\<rparr>)" "same_outcomes st (st\<lparr>as_events := e\<rparr>)"
  "same_outcomes st (st\<lparr>as_retention_stats := d\<rparr>)"
  by (simp_all add: same_outcomes_def)

lemma same_outcomes_trans: "same_outcomes a b \<Longrightarrow> same_outcomes b c \<Longrightarrow> same_outcomes a c"
  by (auto simp: same_outcomes_def)

lemma item_step_before: "same_outcomes st st1 \<Longrightarrow> item_step env itm st1 st' x \<Longrightarrow> item_step env itm st st' x"
  by (auto simp: item_step_def same_outcomes_def one_outcome_def split: sum.splits if_splits)

lemma register_error_step:
  assumes "register_error env ref action diag st = (st', x)"
  shows "same_outcomes st st' \<and> (\<forall>c. x = Inr c \<longrightarrow> c \<in> set (as_system_codes st') \<and> system_code_of (ap_catalog env) diag = Inr c)"
  using assms by (cases "system_code_of (ap_catalog env) diag") (auto simp: register_error_def step_defs same_outcomes_def)

lemma register_errors_step:
  assumes "register_errors env itm ds f st = (st', x)" and "\<forall>c. f = Some c \<longrightarrow> c \<in> set (as_system_codes st)"
  shows "same_outcomes st st' \<and> (\<forall>f'. x = Inr f' \<longrightarrow> (\<forall>c. f' = Some c \<longrightarrow> c \<in> set (as_system_codes st')) \<and> (ds \<noteq> [] \<longrightarrow> as_system_codes st' \<noteq> []))"
  using assms
proof (induction ds arbitrary: f st)
  case (Cons d ds)
  obtain st1 y where r: "register_error env (record_ref_of itm) (pi_op itm) d st = (st1, y)" by fastforce
  note r1 = register_error_step [OF r]
  show ?case
  proof (cases y)
    case (Inl e)
    then show ?thesis using Cons.prems r r1 by (auto simp: bind_s_def)
  next
    case (Inr c)
    let ?f = "case f of None \<Rightarrow> Some c | Some f \<Rightarrow> Some f"
    have "register_errors env itm ds ?f st1 = (st', x)" using Cons.prems r Inr by (simp add: bind_s_def)
    moreover have "\<forall>c. ?f = Some c \<longrightarrow> c \<in> set (as_system_codes st1)"
      using r1 Inr Cons.prems(2) by (auto simp: same_outcomes_def split: option.splits)
    ultimately have "same_outcomes st1 st'" "\<forall>f'. x = Inr f' \<longrightarrow> (\<forall>c. f' = Some c \<longrightarrow> c \<in> set (as_system_codes st'))"
      using Cons.IH by blast+
    moreover have "as_system_codes st' \<noteq> []" using calculation(1) r1 Inr by (auto simp: same_outcomes_def)
    ultimately show ?thesis using r1 same_outcomes_trans by blast
  qed
qed (auto simp: return_s_def)

lemma add_failed_outcome_step:
  assumes "add_failed_outcome env itm action ds st1 = (st', x)" "same_outcomes st st1" "as_system_codes st1 \<noteq> []"
  shows "x = Inr () \<and> one_outcome env st st' \<and> as_system_codes st' = as_system_codes st1"
  using assms by (auto simp: add_failed_outcome_def add_outcome_def update_s_def one_outcome_def same_outcomes_def split: if_splits)

lemma handle_single_failure_step:
  assumes "handle_single_failure env itm diag fatal st = (st', x)"
    and "fatal \<Longrightarrow> \<forall>c. system_code_of (ap_catalog env) diag = Inr c \<longrightarrow> is_fatal (ap_stop_policy env) c"
  shows "item_step env itm st st' x"
proof -
  obtain st1 y where r: "register_error env (record_ref_of itm) (pi_op itm) diag st = (st1, y)" by fastforce
  note r1 = register_error_step [OF r]
  show ?thesis
  proof (cases y)
    case (Inl e)
    then show ?thesis using assms(1) r r1 by (auto simp: handle_single_failure_def bind_s_def item_step_def)
  next
    case (Inr c)
    obtain st2 z where a: "add_failed_outcome env itm (pi_op itm) [diag] st1 = (st2, z)" by fastforce
    have "as_system_codes st1 \<noteq> []" using r1 Inr by force
    from add_failed_outcome_step [OF a r1 [THEN conjunct1] this] have "z = Inr ()" "one_outcome env st st2"
      "as_system_codes st2 = as_system_codes st1" by simp_all
    moreover from this have "st' = st2" "x = Inr (failure fatal)"
      using assms(1) r Inr a by (auto simp: handle_single_failure_def bind_s_def return_s_def)
    ultimately show ?thesis using assms(2) r1 Inr by (auto simp: item_step_def)
  qed
qed

lemma handle_exception_failure_step:
  assumes "handle_exception_failure env itm code fld m st = (st', x)"
  shows "item_step env itm st st' x"
proof (cases "build_error (ap_catalog env) APPLY code fld (Some m) None None None")
  case (Inl e)
  then show ?thesis using assms by (auto simp: handle_exception_failure_def step_defs item_step_def)
next
  case (Inr diag)
  then have "handle_single_failure env itm diag False st = (st', x)"
    using assms by (simp add: handle_exception_failure_def step_defs)
  from handle_single_failure_step [OF this] show ?thesis by simp
qed

lemma handle_boundary_errors_step:
  assumes "handle_boundary_errors env itm errs st = (st', x)" "errs \<noteq> []"
  shows "item_step env itm st st' x"
proof -
  obtain st1 y where r: "register_errors env itm errs None st = (st1, y)" by fastforce
  note r1 = register_errors_step [OF r]
  show ?thesis
  proof (cases y)
    case (Inl e)
    then show ?thesis using assms(1) r r1 by (auto simp: handle_boundary_errors_def bind_s_def item_step_def)
  next
    case (Inr f)
    obtain st2 z where a: "add_failed_outcome env itm (pi_op itm) errs st1 = (st2, z)" by fastforce
    have s: "same_outcomes st st1" "as_system_codes st1 \<noteq> []" using r1 Inr assms(2) by auto
    from add_failed_outcome_step [OF a s] have "z = Inr ()" "one_outcome env st st2"
      "as_system_codes st2 = as_system_codes st1" by simp_all
    moreover from this have "st' = st2"
      "x = Inr (failure (case f of None \<Rightarrow> False | Some c \<Rightarrow> is_fatal (ap_stop_policy env) c))"
      using assms(1) r Inr a by (auto simp: handle_boundary_errors_def bind_s_def return_s_def)
    ultimately show ?thesis using r1 Inr by (auto simp: item_step_def split: option.splits)
  qed
qed

lemma side_effects_step:
  "same_outcomes st (fst (side_effects env dataset itm payload st))"
proof -
  obtain st1 y where s: "sync_identity_index env dataset itm payload st = (st1, y)" by fastforce
  have a: "same_outcomes st st1"
    using s by (auto simp: sync_identity_index_def Let_def case_prod_beta split: option.splits)
  have b: "same_outcomes st (fst (run_retention env dataset itm st))" for st
    by (auto simp: run_retention_def Let_def step_defs register_retention_def same_outcomes_def case_prod_beta
        split: option.split sum.split)
  show ?thesis
    using a same_outcomes_trans [OF a b] s by (cases y) (simp_all add: side_effects_def bind_s_def)
qed

lemma handle_success_item_step:
  assumes "handle_success_item env dataset itm payload st = (st', x)"
  shows "item_step env itm st st' x"
proof -
  let ?st1 = "st\<lparr>as_events := as_events st @ [Item_Ok (record_ref_of itm) (pi_op itm) (pi_target_id itm)]\<rparr>"
  obtain st2 y where s: "(if ap_allow_side_effects env
      then side_effects env dataset itm payload else return_s ()) ?st1 = (st2, y)"
    by fastforce
  have "same_outcomes ?st1 st2"
    using s side_effects_step [of ?st1 env dataset itm payload] by (auto simp: return_s_def split: if_splits)
  then have "same_outcomes st st2" by (rule same_outcomes_trans [rotated]) simp
  then show ?thesis
    using assms s by (cases y) (auto simp: handle_success_item_def bind_s_def update_s_def return_s_def item_step_def)
qed

lemma process_body_step:
  assumes "process_body env dataset itm st = (st', x)"
  shows "item_step env itm st st' x"
proof -
  obtain st1 y where e: "execute_item env itm st = (st1, y)" by fastforce
  have s: "same_outcomes st st1"
    using e by (auto simp: execute_item_def Let_def split: option.splits sum.splits prod.splits py_error.splits)
  show ?thesis
  proof (cases y)
    case (Inl err)
    then show ?thesis using assms e s by (auto simp: process_body_def bind_s_def item_step_def)
  next
    case (Inr p)
    obtain res errs where p: "p = (res, errs)" by fastforce
    have body: "item_step env itm st1 st' x"
    proof (cases "errs = []")
      case False
      then have "handle_boundary_errors env itm errs st1 = (st', x)"
        using assms e Inr p by (simp add: process_body_def bind_s_def)
      from handle_boundary_errors_step [OF this False] show ?thesis .
    next
      case errs: True
      show ?thesis
      proof (cases res)
        case None
        show ?thesis
        proof (cases "build_error (ap_catalog env) APPLY ''INTERNAL_ERROR'' None (Some ''empty execution result'') None None None")
          case (Inl err)
          then show ?thesis using assms e Inr p errs None by (auto simp: process_body_def step_defs item_step_def)
        next
          case (Inr diag)
          then have "handle_single_failure env itm diag False st1 = (st', x)"
            using assms e \<open>y = Inr p\<close> p errs None by (simp add: process_body_def step_defs)
          from handle_single_failure_step [OF this] show ?thesis by simp
        qed
      next
        case (Some r)
        show ?thesis
        proof (cases "er_ok r")
          case True
          then have "handle_success_item env dataset itm (er_response_payload r) st1 = (st', x)"
            using assms e Inr p errs Some by (simp add: process_body_def step_defs)
          from handle_success_item_step [OF this] show ?thesis .
        next
          case False
          let ?d = "translate_execution_result (ap_catalog env) SINK r None"
          show ?thesis
          proof (cases "bind_r ?d (\<lambda>diag. bind_r (system_code_of (ap_catalog env) diag) (\<lambda>c. Inr (diag, c)))")
            case (Inl err)
            then show ?thesis
              using assms e Inr p errs Some False
              by (auto simp: process_body_def step_defs item_step_def bind_r_def split: sum.splits)
          next
            case dc: (Inr q)
            then obtain diag c where d: "?d = Inr diag" "system_code_of (ap_catalog env) diag = Inr c"
              by (auto simp: bind_r_Inr_iff)
            then have "handle_single_failure env itm diag (is_fatal (ap_stop_policy env) c) st1 = (st', x)"
              using assms e Inr p errs Some False by (simp add: process_body_def step_defs)
            from handle_single_failure_step [OF this] d show ?thesis by simp
          qed
        qed
      qed
    qed
    from item_step_before [OF s this] show ?thesis .
  qed
qed

lemma process_item_step:
  assumes "process_item env dataset itm st = (st', x)"
  shows "item_step env itm st st' x"
proof -
  obtain st1 y where b: "process_body env dataset itm st = (st1, y)" by fastforce
  note b1 = process_body_step [OF b]
  show ?thesis
  proof (cases y)
    case (Inr r)
    then show ?thesis using assms b b1 by (simp add: process_item_def try_s_def)
  next
    case (Inl e)
    have "same_outcomes st st1" using b1 Inl by (simp add: item_step_def)
    moreover have "item_step env itm st1 st' x"
      using assms b Inl by (auto simp: process_item_def try_s_def intro: handle_exception_failure_step split: py_error.splits)
    ultimately show ?thesis by (rule item_step_before)
  qed
qed

section \<open>The loop\<close>

definition totals_inv :: "'w apply_env \<Rightarrow> apply_totals \<Rightarrow> 'w apply_state \<Rightarrow> bool" where
  "totals_inv env t st \<longleftrightarrow>
     length (as_outcomes st) = min (at_failed t) (nat (ap_max_item_outcomes env))
     \<and> (as_outcomes_dropped st \<longleftrightarrow> nat (ap_max_item_outcomes env) < at_failed t)
     \<and> (at_fatal t \<longrightarrow> (\<exists>c \<in> set (as_system_codes st). is_fatal (ap_stop_policy env) c))"

lemma item_step_totals:
  assumes "item_step env itm st st' (Inr r)" "totals_inv env t st"
  shows "totals_inv env (add_item_result r t) st' \<and> at_actions (add_item_result r t) = at_actions t + 1
    \<and> ir_failed r \<le> 1
    \<and> (pi_op itm \<in> {op_CREATE, op_UPDATE} \<longrightarrow> ir_created r + ir_updated r + ir_failed r = 1)"
  using assms unfolding item_step_def sum.case
proof (elim disjE exE conjE)
  fix fatal assume r: "r = failure fatal" and o: "one_outcome env st st'"
    and f: "fatal \<longrightarrow> (\<exists>c \<in> set (as_system_codes st'). is_fatal (ap_stop_policy env) c)"
  have "int (length (as_outcomes st)) < ap_max_item_outcomes env \<longleftrightarrow> at_failed t < nat (ap_max_item_outcomes env)"
    using assms(2) by (cases "0 \<le> ap_max_item_outcomes env") (auto simp: totals_inv_def min_def)
  then show ?thesis
    using assms(2) o f by (auto simp: totals_inv_def r failure_def add_item_result_def one_outcome_def split: if_splits)
qed (auto simp: totals_inv_def add_item_result_def same_outcomes_def)

lemma apply_items_step:
  assumes "apply_items env dataset stop mx items t st = (st', Inr t')" "totals_inv env t st"
  shows "totals_inv env t' st' \<and> at_actions t \<le> at_actions t' \<and> at_actions t' \<le> at_actions t + length items
    \<and> (\<forall>m. mx = Some m \<longrightarrow> int (at_actions t') \<le> max (int (at_actions t)) m)
    \<and> (stop \<longrightarrow> at_failed t' \<le> at_failed t + 1)
    \<and> (\<not> stop \<longrightarrow> mx = None \<longrightarrow> at_actions t' = at_actions t + length items)
    \<and> ((\<forall>itm \<in> set items. pi_op itm \<in> {op_CREATE, op_UPDATE}) \<longrightarrow>
        at_created t' + at_updated t' + at_failed t' + at_actions t = at_created t + at_updated t + at_failed t + at_actions t')"
  using assms
proof (induction items arbitrary: t st)
  case (Cons itm items)
  show ?case
  proof (cases "case mx of None \<Rightarrow> False | Some m \<Rightarrow> m \<le> int (at_actions t)")
    case True
    then show ?thesis using Cons.prems by (auto simp: return_s_def split: option.splits)
  next
    case go: False
    obtain st1 y where p: "process_item env dataset itm st = (st1, y)" by fastforce
    then obtain r where y: "y = Inr r" using Cons.prems go by (cases y) (auto simp: bind_s_def)
    note step = item_step_totals [OF process_item_step [OF p [unfolded y]] Cons.prems(2)]
    have limit: "\<forall>m. mx = Some m \<longrightarrow> int (at_actions t) < m" using go by (auto split: option.splits)
    show ?thesis
    proof (cases "stop \<and> 0 < ir_failed r")
      case True
      then have "st' = st1" "t' = add_item_result r t"
        using Cons.prems go p y by (auto simp: bind_s_def return_s_def)
      with step limit True show ?thesis by (auto simp: add_item_result_def)
    next
      case False
      then have l: "apply_items env dataset stop mx items (add_item_result r t) st1 = (st', Inr t')"
        using Cons.prems go p y by (simp add: bind_s_def split: if_splits)
      from Cons.IH [OF l] step limit False show ?thesis
        by (auto simp: add_item_result_def max_def)
    qed
  qed
qed (auto simp: return_s_def)

lemma default_fatal_exit:
  "is_fatal default_stop_policy c \<Longrightarrow> exit_code_of default_exit_policy c = 2"
  by (cases c) (simp_all add: is_fatal_def default_stop_policy_def FATAL_CODES_def exit_code_of_def default_exit_policy_def
      EXIT_CODE_MAP_def dict_get_or_def)

section \<open>Properties\<close>

text \<open>
  C9. The summary of an apply run accounts for every item it acted on: each is created, updated or failed; no
  more items are acted on than the plan has and the limit allows, all of them without limit and stop flag; with
  the stop flag at most one fails; the outcomes kept are as many as failed up to their limit, and the
  truncation flag says exactly whether some were left out; a fatal run has a fatal primary code and exits with 2.
\<close>

theorem apply_accounting:
  assumes "apply_plan env stop mx p w = (st', Inr res)"
    and "\<forall>itm \<in> set (pl_items p). pi_op itm \<in> {op_CREATE, op_UPDATE}"
  shows "let s = ar_summary res in
      ay_created s + ay_updated s + ay_failed s = ay_items_total s
    \<and> ay_items_total s \<le> length (pl_items p) \<and> (\<forall>m. mx = Some m \<longrightarrow> int (ay_items_total s) \<le> max 0 m)
    \<and> (\<not> stop \<longrightarrow> mx = None \<longrightarrow> ay_items_total s = length (pl_items p)) \<and> (stop \<longrightarrow> ay_failed s \<le> 1)
    \<and> length (ar_item_outcomes res) = min (ay_failed s) (nat (ap_max_item_outcomes env))
    \<and> (ar_outcomes_truncated res \<longleftrightarrow> nat (ap_max_item_outcomes env) < ay_failed s)
    \<and> (ar_fatal_error res \<longrightarrow> is_fatal default_stop_policy (ar_primary_code res)
         \<and> exit_code_of default_exit_policy (ar_primary_code res) = 2)"
proof -
  let ?env = "env\<lparr>ap_stop_policy := default_stop_policy, ap_run_id := pm_run_id (pl_meta p)\<rparr>"
  obtain dataset st t where l: "apply_items ?env dataset stop mx (pl_items p) no_totals (start_apply w) = (st, Inr t)"
    and res: "st' = st" "ar_summary res = \<lparr>ay_created = at_created t, ay_updated = at_updated t, ay_failed = at_failed t,
                ay_skipped = sm_skipped (pl_summary p), ay_items_total = at_actions t, ay_rows_with_warnings = 0,
                ay_error_stats = as_error_stats st, ay_retention_stats = as_retention_stats st\<rparr>"
      "ar_primary_code res = resolve_primary_code (if as_system_codes st = [] then [OK] else as_system_codes st) default_stop_policy"
      "ar_fatal_error res = at_fatal t" "ar_item_outcomes res = as_outcomes st" "ar_outcomes_truncated res = as_outcomes_dropped st"
    using assms(1) by (auto simp: apply_plan_def bind_s_def Let_def split: list.splits prod.splits sum.splits)
  have "totals_inv ?env no_totals (start_apply w)"
    by (simp add: totals_inv_def no_totals_def start_apply_def)
  note inv = apply_items_step [OF l this]
  have fatal: "is_fatal default_stop_policy (ar_primary_code res)" if at: "at_fatal t"
  proof -
    obtain c where c: "c \<in> set (as_system_codes st)" "is_fatal default_stop_policy c"
      using inv [THEN conjunct1] at unfolding totals_inv_def by auto
    have "\<not> is_fatal default_stop_policy OK" by (simp add: is_fatal_def default_stop_policy_def FATAL_CODES_def)
    from primary_fatal [OF c this] c res(3) show ?thesis by auto
  qed
  show ?thesis
    using inv fatal default_fatal_exit assms(2) res by (auto simp: no_totals_def totals_inv_def Let_def)
qed

definition example_item :: plan_item where
  "example_item = \<lparr>pi_row_id = ''r1'', pi_line_no = PInt 1, pi_op = op_CREATE, pi_target_id = [],
     pi_desired_state = [(''login'', PStr ''ann''), (''name'', PStr ''Ann'')], pi_changes = [], pi_source_ref = None,
     pi_secret_fields = [], pi_secret_lifecycle = None\<rparr>"

definition example_plan :: plan where
  "example_plan = \<lparr>pl_meta = \<lparr>pm_run_id = None, pm_generated_at = None, pm_dataset = Some ''users'', pm_csv_path = None,
       pm_plan_path = None, pm_include_deleted = PNone\<rparr>,
     pl_summary = \<lparr>sm_rows_total = 2, sm_valid_rows = 2, sm_failed_rows = 0, sm_planned_create = 2, sm_planned_update = 0,
       sm_skipped = 0\<rparr>, pl_items = [example_item, example_item]\<rparr>"

definition ok_result :: execution_result where
  "ok_result = \<lparr>er_ok = True, er_answer_code = PInt 201, er_response_payload = PDict [(''_id'', PStr ''u7'')], er_error_code = None,
     er_error_message = None, er_error_reason = None, er_error_details = None, er_response_format = ''json''\<rparr>"

definition example_apply :: "(request_spec \<Rightarrow> 'w \<Rightarrow> 'w \<times> execution_result option result) \<Rightarrow> 'w sync_port option \<Rightarrow> 'w apply_env" where
  "example_apply execute sync = \<lparr>ap_catalog = make_catalog [] False,
     ap_adapter = Some (\<lambda>itm. Inr \<lparr>rs_operation_alias = ''users.create'', rs_payload = PNone, rs_operation_params = None\<rparr>),
     ap_execute = execute, ap_syncer = sync, ap_retention = None, ap_allow_side_effects = True, ap_max_item_outcomes = 10,
     ap_stop_policy = default_stop_policy, ap_run_id = None\<rparr>"

lemma example_fields [simp]:
  "pi_op example_item = op_CREATE" "pi_target_id example_item = []" "pi_source_ref example_item = None"
  "pi_desired_state example_item = [(''login'', PStr ''ann''), (''name'', PStr ''Ann'')]"
  "pl_items example_plan = [example_item, example_item]"
  "er_ok ok_result" "er_response_payload ok_result = PDict [(''_id'', PStr ''u7'')]"
  by (simp_all add: example_item_def example_plan_def ok_result_def)

lemma example_apply_fields [simp]:
  "ap_catalog (example_apply e sy) = make_catalog [] False" "ap_execute (example_apply e sy) = e"
  "ap_adapter (example_apply e sy) = Some (\<lambda>itm. Inr \<lparr>rs_operation_alias = ''users.create'', rs_payload = PNone, rs_operation_params = None\<rparr>)"
  "ap_syncer (example_apply e sy) = sy" "ap_allow_side_effects (example_apply e sy)" "ap_retention (example_apply e sy) = None"
  by (simp_all add: example_apply_def)

lemma returned_pair: "\<not> isl (snd x) \<Longrightarrow> \<exists>st' r. x = (st', Inr r)"
  by (cases x; cases "snd x") auto

lemma start_apply_fields [simp]: "as_world (start_apply w) = w" "as_events (start_apply w) = []"
  by (simp_all add: start_apply_def)

lemma apply_accounting_witness:
  "\<exists>st' res. apply_plan (example_apply (\<lambda>req w. (w + 1, Inr (Some (if w = 0 then ok_result else spec_error ''down'')))) None)
        False None example_plan (0 :: nat) = (st', Inr res)
     \<and> ay_items_total (ar_summary res) = 2"
proof -
  let ?env = "example_apply (\<lambda>req w. (w + 1, Inr (Some (if w = 0 then ok_result else spec_error ''down'')))) None"
  have "\<not> isl (snd (apply_plan ?env False None example_plan (0 :: nat)))" by code_simp
  from returned_pair [OF this] obtain st' res where r: "apply_plan ?env False None example_plan (0 :: nat) = (st', Inr res)"
    by (elim exE)
  have "\<forall>itm \<in> set (pl_items example_plan). pi_op itm \<in> {op_CREATE, op_UPDATE}" by simp
  note acc = apply_accounting [OF r this, unfolded Let_def, THEN conjunct2, THEN conjunct2, THEN conjunct2, THEN conjunct1]
  have "ay_items_total (ar_summary res) = 2" using acc by simp
  with r show ?thesis by (intro exI conjI)
qed

text \<open>What the side effects leave alone.\<close>

lemma side_effects_keep:
  "as_events (fst (side_effects env dataset itm payload st)) = as_events st"
  "as_outcomes (fst (side_effects env dataset itm payload st)) = as_outcomes st"
  by (auto simp: side_effects_def sync_identity_index_def run_retention_def register_retention_def step_defs Let_def
      split: option.split prod.split sum.split)

text \<open>The code under which an exception of an item is reported.\<close>

definition exception_code :: "py_error \<Rightarrow> string" where
  "exception_code e = (case e of MissingRequiredSecret code fld m \<Rightarrow> code | _ \<Rightarrow> ''UNEXPECTED_ERROR'')"

lemma exception_reported:
  assumes "process_body env dataset itm st = (st1, Inl e)" "accepts (ap_catalog env) (exception_code e)"
  shows "\<exists>st' diag. process_item env dataset itm st = (st', Inr (failure False))
    \<and> as_events st' = as_events st1 @ [Item_Error (record_ref_of itm) (pi_op itm) diag] \<and> di_code diag = exception_code e
    \<and> as_world st' = as_world st1"
proof -
  obtain c where "classify (ap_catalog env) (exception_code e) = Inr c" using assms(2) classify_accepts by blast
  then show ?thesis
    using assms(2) unfolding exception_code_def
    by (cases e) (simp_all add: process_item_def try_s_def assms(1) handle_exception_failure_def handle_single_failure_def
        register_error_def step_defs system_code_of_def add_failed_outcome_def add_outcome_def failure_def)
qed

text \<open>
  C34. When the write of an item succeeded and one of its side effects then raises - the synchronisation of the
  identity index or the retention hook, whatever the exception - the item is reported both as done and as failed: it
  counts as failed, not as created or updated, under the code of the exception, it is not fatal, and what the side
  effects did before they raised stays.
\<close>

theorem written_item_counts_failed:
  assumes "ap_adapter env = Some to_request" "to_request itm = Inr req"
    and "ap_execute env req (as_world st) = (w, Inr (Some res))" "er_ok res" "ap_allow_side_effects env"
    and "side_effects env dataset itm (er_response_payload res)
      (st\<lparr>as_world := w, as_events := as_events st @ [Item_Ok (record_ref_of itm) (pi_op itm) (pi_target_id itm)]\<rparr>) = (st1, Inl e)"
    and "accepts (ap_catalog env) (exception_code e)"
  shows "\<exists>st' diag. process_item env dataset itm st = (st', Inr (failure False))
    \<and> as_events st' = as_events st @ [Item_Ok (record_ref_of itm) (pi_op itm) (pi_target_id itm),
         Item_Error (record_ref_of itm) (pi_op itm) diag]
    \<and> di_code diag = exception_code e \<and> as_world st' = as_world st1"
proof -
  have "execute_item env itm st = (st\<lparr>as_world := w\<rparr>, Inr (Some res, []))"
    using assms(1-3) by (simp add: execute_item_def diagnostic_boundary_def)
  then have body: "process_body env dataset itm st = (st1, Inl e)"
    using assms(4-6) by (simp add: process_body_def handle_success_item_def bind_s_def update_s_def)
  have "as_events st1 = as_events st @ [Item_Ok (record_ref_of itm) (pi_op itm) (pi_target_id itm)]"
    using side_effects_keep(1) [of env dataset itm "er_response_payload res"] assms(6) by (metis fst_conv apply_state.select_convs(6) apply_state.surjective apply_state.update_convs(6))
  with exception_reported [OF body assms(7)] show ?thesis by auto
qed

lemma written_item_counts_failed_witness:
  "\<exists>st' diag. process_item (example_apply (\<lambda>req w. (w, Inr (Some ok_result)))
        (Some \<lparr>sy_id_field_for = (\<lambda>d. ''_id''),
               sy_sync = (\<lambda>d v kv w. (w, Inl (OtherError ''OperationalError'' ''database is locked'')))\<rparr>))
        ''users'' example_item (start_apply ()) = (st', Inr (failure False))
     \<and> as_events st' = [Item_Ok (record_ref_of example_item) op_CREATE [], Item_Error (record_ref_of example_item) op_CREATE diag]
     \<and> di_code diag = ''UNEXPECTED_ERROR''"
proof -
  let ?e = "OtherError ''OperationalError'' ''database is locked''"
  let ?sy = "\<lparr>sy_id_field_for = (\<lambda>d. ''_id''), sy_sync = (\<lambda>d v kv w. (w, Inl ?e))\<rparr> :: unit sync_port"
  let ?env = "example_apply (\<lambda>req w. (w, Inr (Some ok_result))) (Some ?sy)"
  let ?req = "\<lparr>rs_operation_alias = ''users.create'', rs_payload = PNone, rs_operation_params = None\<rparr>"
  let ?st = "start_apply () \<lparr>as_world := (), as_events := as_events (start_apply ())
      @ [Item_Ok (record_ref_of example_item) (pi_op example_item) (pi_target_id example_item)]\<rparr>"
  have "side_effects ?env ''users'' example_item (er_response_payload ok_result) ?st = (?st, Inl ?e)"
    by (simp add: side_effects_def sync_identity_index_def bind_s_def Let_def)
  then have "\<exists>st' diag. process_item ?env ''users'' example_item (start_apply ()) = (st', Inr (failure False))
    \<and> as_events st' = as_events (start_apply ()) @ [Item_Ok (record_ref_of example_item) (pi_op example_item) (pi_target_id example_item),
         Item_Error (record_ref_of example_item) (pi_op example_item) diag]
    \<and> di_code diag = exception_code ?e \<and> as_world st' = as_world ?st"
    by (intro written_item_counts_failed [where to_request = "\<lambda>itm. Inr ?req" and req = ?req and w = "()" and res = ok_result])
      (simp_all add: accepts_def make_catalog_def exception_code_def)
  then show ?thesis by (simp add: exception_code_def)
qed

text \<open>The identity store as the syncer of a run whose world is the target's and the store.\<close>

definition identity_port :: "identity_syncer \<Rightarrow> string \<Rightarrow> ('g \<times> identity_db) sync_port" where
  "identity_port s now =
     \<lparr>sy_id_field_for = id_field_for s,
      sy_sync = (\<lambda>dataset rid values (g, db). ((g, sync_identity s now dataset rid (Some values) db), Inr ()))\<rparr>"

text \<open>The value an item carries for a key: its desired state comes before the reference to its source.\<close>

definition carried_value :: "plan_item \<Rightarrow> string \<Rightarrow> pyval" where
  "carried_value itm k =
     (case map_of (pi_desired_state itm) k of
        Some v \<Rightarrow> v
      | None \<Rightarrow> (case pi_source_ref itm of None \<Rightarrow> PNone | Some d \<Rightarrow> dict_get_or d k PNone))"

text \<open>The identity the target reported, or that of the item's own state.\<close>

definition reported_id :: "string \<Rightarrow> plan_item \<Rightarrow> pyval \<Rightarrow> pyval" where
  "reported_id id_field itm payload =
     (let reported = (case payload of PDict d \<Rightarrow> dict_get_or d id_field PNone | _ \<Rightarrow> PNone)
      in if reported = PNone then dict_get_or (pi_desired_state itm) id_field PNone else reported)"

lemma merged_value:
  assumes "distinct (map fst d)"
  shows "map_of (fold (\<lambda>(k, v). AList.update k v) d b) k = (case map_of d k of Some v \<Rightarrow> Some v | None \<Rightarrow> map_of b k)"
  using assms by (induction d arbitrary: b) (force simp: update_conv' split: option.splits dest: map_of_SomeD)+

lemma identity_sync_of_item:
  assumes "ap_syncer env = Some (identity_port s now)" "as_world st = (g, db)"
    and "distinct (map fst (pi_desired_state itm))" "\<And>d. pi_source_ref itm = Some d \<Longrightarrow> distinct (map fst d)"
  shows "\<exists>kvs. sync_identity_index env dataset itm payload st
      = (st\<lparr>as_world := (g, sync_identity s now dataset (reported_id (id_field_for s dataset) itm payload) (Some kvs) db)\<rparr>, Inr ())
    \<and> (\<forall>k. dict_get_or kvs k PNone = carried_value itm k)"
proof -
  let ?base = "case pi_source_ref itm of None \<Rightarrow> [] | Some d \<Rightarrow> fold (\<lambda>(k, v). AList.update k v) d []"
  let ?kvs = "fold (\<lambda>(k, v). AList.update k v) (pi_desired_state itm) ?base"
  have "map_of ?base k = (case pi_source_ref itm of None \<Rightarrow> None | Some d \<Rightarrow> map_of d k)" for k
    using assms(4) by (auto simp: merged_value split: option.split)
  then have "dict_get_or ?kvs k PNone = carried_value itm k" for k
    by (simp add: dict_get_or_def carried_value_def merged_value [OF assms(3)] split: option.split)
  moreover have "sync_identity_index env dataset itm payload st
      = (st\<lparr>as_world := (g, sync_identity s now dataset (reported_id (id_field_for s dataset) itm payload) (Some ?kvs) db)\<rparr>, Inr ())"
    using assms(1,2) by (simp add: sync_identity_index_def identity_port_def reported_id_def Let_def)
  ultimately show ?thesis by blast
qed

text \<open>A retention hook leaves the identity store alone; what it does elsewhere, and whether it raises, is open.\<close>

definition store_untouched :: "('g \<times> identity_db) apply_env \<Rightarrow> bool" where
  "store_untouched env \<longleftrightarrow> (\<forall>hook ds itm run w. ap_retention env = Some hook \<longrightarrow> snd (fst (hook ds itm run w)) = snd w)"

definition hook_raises :: "'w apply_env \<Rightarrow> string \<Rightarrow> plan_item \<Rightarrow> 'w \<Rightarrow> bool" where
  "hook_raises env dataset itm w =
     (case ap_retention env of None \<Rightarrow> False | Some hook \<Rightarrow> isl (snd (hook dataset itm (ap_run_id env) w)))"

lemma run_retention_store:
  assumes "store_untouched env" "run_retention env dataset itm st = (st1, out)"
  shows "snd (as_world st1) = snd (as_world st)" "isl out = hook_raises env dataset itm (as_world st)"
proof -
  have "snd (as_world st1) = snd (as_world st) \<and> isl out = hook_raises env dataset itm (as_world st)"
  proof (cases "ap_retention env")
    case None
    then show ?thesis using assms(2) by (auto simp: run_retention_def hook_raises_def)
  next
    case (Some hook)
    obtain w r where h: "hook dataset itm (ap_run_id env) (as_world st) = (w, r)" by fastforce
    then have "snd w = snd (as_world st)" using assms(1) Some unfolding store_untouched_def by (metis fst_conv)
    with h Some assms(2) show ?thesis
      by (cases r) (auto simp: run_retention_def hook_raises_def register_retention_def step_defs)
  qed
  then show "snd (as_world st1) = snd (as_world st)" "isl out = hook_raises env dataset itm (as_world st)" by blast+
qed

lemma run_retention_raises:
  "run_retention env dataset itm st = (st1, Inl e) \<Longrightarrow>
     \<exists>hook. ap_retention env = Some hook \<and> snd (hook dataset itm (ap_run_id env) (as_world st)) = Inl e"
  by (auto simp: run_retention_def register_retention_def step_defs Let_def split: option.splits prod.splits sum.splits)

text \<open>
  C33. When an item is applied with success, every identity key of its dataset whose value the item carries - in its
  desired state, or else in the reference to its source - has no pending link left and finds the object the target
  reported, or the one the item's own state names when the target reported none.  The item counts as done unless
  the retention hook raises, and then the links are resolved all the same.
\<close>

theorem applied_item_resolves_links:
  assumes "ap_syncer env = Some (identity_port s now)" "ap_allow_side_effects env" "store_untouched env"
    and "ap_adapter env = Some to_request" "to_request itm = Inr req"
    and "ap_execute env req (as_world st) = ((g, reached ops), Inr (Some res))" "er_ok res"
    and "distinct (map fst (pi_desired_state itm))" "\<And>d. pi_source_ref itm = Some d \<Longrightarrow> distinct (map fst d)"
    and "normalize_value (reported_id (id_field_for s dataset) itm (er_response_payload res)) = Some rid"
    and "map_of (is_identity_keys s) dataset = Some names" "key_name \<in> set names"
    and "normalize_value (carried_value itm key_name) = Some v"
    and "\<And>hook w e. \<lbrakk>ap_retention env = Some hook; snd (hook dataset itm (ap_run_id env) w) = Inl e\<rbrakk>
      \<Longrightarrow> accepts (ap_catalog env) (exception_code e)"
  shows "\<exists>st' r db'. process_item env dataset itm st = (st', Inr r) \<and> snd (as_world st') = db'
    \<and> list_pending_for_key dataset (format_identity_key key_name v) db' = []
    \<and> rid \<in> set (find_candidates dataset (format_identity_key key_name v) db')
    \<and> (ir_failed r = 0 \<longleftrightarrow> \<not> hook_raises env dataset itm (g, db'))"
proof -
  let ?rid = "reported_id (id_field_for s dataset) itm (er_response_payload res)"
  let ?st2 = "st\<lparr>as_world := (g, reached ops), as_events := as_events st @ [Item_Ok (record_ref_of itm) (pi_op itm) (pi_target_id itm)]\<rparr>"
  obtain kvs where sync: "sync_identity_index env dataset itm (er_response_payload res) ?st2
      = (?st2\<lparr>as_world := (g, sync_identity s now dataset ?rid (Some kvs) (reached ops))\<rparr>, Inr ())"
    and kvs: "\<forall>k. dict_get_or kvs k PNone = carried_value itm k"
    using identity_sync_of_item [OF assms(1) _ assms(8,9), of ?st2 g "reached ops" dataset "er_response_payload res"] by auto
  define db' where "db' = sync_identity s now dataset ?rid (Some kvs) (reached ops)"
  have keys: "list_pending_for_key dataset (format_identity_key key_name v) db' = []
      \<and> rid \<in> set (find_candidates dataset (format_identity_key key_name v) db')"
  proof -
    have "kvs \<noteq> []" using kvs assms(13) by (auto simp: dict_get_or_def normalize_value_def)
    then have "db' = sync_keys now dataset rid kvs names (reached ops)"
      using assms(10,11) by (auto simp: sync_identity_def db'_def)
    moreover have "normalize_value (dict_get_or kvs key_name PNone) = Some v" using kvs assms(13) by simp
    ultimately show ?thesis using sync_keys_spec [OF reached_inv assms(12)] by simp
  qed
  have exec: "execute_item env itm st = (st\<lparr>as_world := (g, reached ops)\<rparr>, Inr (Some res, []))"
    using assms(4-6) by (simp add: execute_item_def diagnostic_boundary_def)
  obtain st1 out where ret: "run_retention env dataset itm (?st2\<lparr>as_world := (g, db')\<rparr>) = (st1, out)" by fastforce
  note store = run_retention_store [OF assms(3) ret]
  have effects: "side_effects env dataset itm (er_response_payload res) ?st2 = (st1, out)"
    using sync ret by (simp add: side_effects_def bind_s_def db'_def)
  show ?thesis
  proof (cases out)
    case (Inl e)
    have "process_body env dataset itm st = (st1, Inl e)"
      using exec effects assms(2,7) Inl by (simp add: process_body_def handle_success_item_def bind_s_def update_s_def)
    moreover have "accepts (ap_catalog env) (exception_code e)"
      using run_retention_raises [OF ret [unfolded Inl]] assms(14) by blast
    ultimately obtain st' where "process_item env dataset itm st = (st', Inr (failure False))"
      "as_world st' = as_world st1" using exception_reported by blast
    with keys store Inl show ?thesis by (auto simp: failure_def)
  next
    case (Inr u)
    have "process_body env dataset itm st = (st1, Inr \<lparr>ir_created = (if pi_op itm = op_CREATE then 1 else 0),
        ir_updated = (if pi_op itm = op_UPDATE then 1 else 0), ir_failed = 0, ir_fatal = False\<rparr>)"
      using exec effects assms(2,7) Inr by (simp add: process_body_def handle_success_item_def bind_s_def update_s_def return_s_def)
    then have "process_item env dataset itm st = (st1, Inr \<lparr>ir_created = (if pi_op itm = op_CREATE then 1 else 0),
        ir_updated = (if pi_op itm = op_UPDATE then 1 else 0), ir_failed = 0, ir_fatal = False\<rparr>)"
      by (simp add: process_item_def try_s_def)
    with keys store Inr show ?thesis by auto
  qed
qed

lemma applied_item_resolves_links_witness:
  "\<exists>st' r db'. process_item ((example_apply (\<lambda>req w. (w, Inr (Some ok_result))) (Some (identity_port example_syncer ''t2'')))
           \<lparr>ap_retention := Some (\<lambda>ds itm run w. (w, Inr [(''deleted'', 1)]))\<rparr>)
        ''users'' example_item
        (start_apply ((), reached [AddPending ''t1'' ''users'' ''r1'' ''manager'' ''login:ann'' None None])) = (st', Inr r)
     \<and> ir_failed r = 0 \<and> list_pending_for_key ''users'' (format_identity_key ''login'' ''ann'') db' = []
     \<and> snd (as_world st') = db' \<and> ''u7'' \<in> set (find_candidates ''users'' (format_identity_key ''login'' ''ann'') db')"
proof -
  have v: "normalize_value (PStr ''u7'') = Some ''u7''" "normalize_value (PStr ''ann'') = Some ''ann''" by code_simp+
  let ?ops = "[AddPending ''t1'' ''users'' ''r1'' ''manager'' ''login:ann'' None None]"
  let ?req = "\<lparr>rs_operation_alias = ''users.create'', rs_payload = PNone, rs_operation_params = None\<rparr>"
  let ?env = "(example_apply (\<lambda>req w. (w, Inr (Some ok_result))) (Some (identity_port example_syncer ''t2'')))
      \<lparr>ap_retention := Some (\<lambda>ds itm run w. (w, Inr [(''deleted'', 1)]))\<rparr>"
  have "\<exists>st' r db'. process_item ?env ''users'' example_item (start_apply ((), reached ?ops)) = (st', Inr r)
     \<and> snd (as_world st') = db' \<and> list_pending_for_key ''users'' (format_identity_key ''login'' ''ann'') db' = []
     \<and> ''u7'' \<in> set (find_candidates ''users'' (format_identity_key ''login'' ''ann'') db')
     \<and> (ir_failed r = 0 \<longleftrightarrow> \<not> hook_raises ?env ''users'' example_item ((), db'))"
    by (rule applied_item_resolves_links [where s = example_syncer and now = "''t2''" and to_request = "\<lambda>itm. Inr ?req"
          and req = ?req and g = "()" and ops = ?ops and res = ok_result and names = "[''login'', ''name'']"])
      (simp_all add: v example_syncer_def id_field_for_def dict_get_or_def reported_id_def carried_value_def store_untouched_def
        accepts_def make_catalog_def)
  then show ?thesis by (auto simp: hook_raises_def)
qed

end
