(* ===== verification/Match_Models.thy ===== *)
theory Match_Models
  imports Planner Topology_Compare Json_Text
begin

text \<open>
  Model of \<open>connector/domain/transform/matcher/match_models.py\<close>: the decision of the match stage,
  its row, and the fingerprints.  The MD5 digest is an argument of the fingerprint functions.
\<close>

section \<open>Decisions and rows\<close>

datatype match_status = Match_MATCHED | Match_NOT_FOUND | Match_AMBIGUOUS | Match_CONFLICT_SOURCE

fun status_value :: "match_status \<Rightarrow> string" where
  "status_value Match_MATCHED = ''matched''"
| "status_value Match_NOT_FOUND = ''not_found''"
| "status_value Match_AMBIGUOUS = ''ambiguous''"
| "status_value Match_CONFLICT_SOURCE = ''conflict_source''"

text \<open>\<open>MatchDecisionStatus(raw)\<close>; \<open>None\<close> is the \<open>ValueError\<close>.\<close>

definition status_of :: "string \<Rightarrow> match_status option" where
  "status_of s = find (\<lambda>st. status_value st = s) [Match_MATCHED, Match_NOT_FOUND, Match_AMBIGUOUS, Match_CONFLICT_SOURCE]"

definition mode_of :: "string \<Rightarrow> topology_match_mode option" where
  "mode_of s = find (\<lambda>m. mode_value m = s)
     [EXACT_CANONICAL_PATH, EXACT_LEAF_PARENT_CHAIN, EXACT_LEAF_ROOT_DEPTH, AMBIGUOUS, NO_MATCH]"

lemma status_of_value [simp]: "status_of (status_value st) = Some st"
  by (cases st) (simp_all add: status_of_def)

lemma mode_of_value [simp]: "mode_of (mode_value m) = Some m"
  by (cases m) (simp_all add: mode_of_def)

record match_candidate =
  mc_target_id :: "string option"
  mc_identity :: "string option"
  mc_score :: "py_float option"
  mc_match_mode :: string
  mc_evidence :: "(string, pyval) dict option"

record match_decision =
  md_status :: match_status
  md_reason_code :: string
  md_message :: "string option"
  md_selected :: "match_candidate option"
  md_candidates :: "match_candidate list"
  md_score :: "py_float option"
  md_topology_match_mode :: "topology_match_mode option"
  md_topology_reason :: "string option"
  md_topology_evidence :: "(string, pyval) dict"
  md_meta :: "(string, pyval) dict"

record matched_row =
  mr_row_ref :: row_ref
  mr_identity :: identity
  mr_desired_state :: "(string, pyval) dict"
  mr_existing :: "(string, pyval) dict option"
  mr_fingerprint :: string
  mr_fingerprint_fields :: "string list"
  mr_match_decision :: match_decision
  mr_source_links :: "(string, identity) dict"
  mr_target_id :: "string option"

definition resolve_decision_status :: "matched_row \<Rightarrow> match_status" where
  "resolve_decision_status row = md_status (mr_match_decision row)"

section \<open>Reason codes\<close>

definition IDENTITY_EXACT :: string where "IDENTITY_EXACT = ''identity_exact''"
definition IDENTITY_NOT_FOUND :: string where "IDENTITY_NOT_FOUND = ''identity_not_found''"
definition FUZZY_NO_CANDIDATES :: string where "FUZZY_NO_CANDIDATES = ''fuzzy_no_candidates''"
definition FUZZY_NO_RANKED :: string where "FUZZY_NO_RANKED = ''fuzzy_no_ranked''"
definition FUZZY_TIE :: string where "FUZZY_TIE = ''fuzzy_tie''"
definition FUZZY_ACCEPT :: string where "FUZZY_ACCEPT = ''fuzzy_accept''"
definition FUZZY_REVIEW :: string where "FUZZY_REVIEW = ''fuzzy_review''"
definition FUZZY_REJECT :: string where "FUZZY_REJECT = ''fuzzy_reject''"
definition TOPOLOGY_AMBIGUOUS :: string where "TOPOLOGY_AMBIGUOUS = ''topology_ambiguous''"
definition TOPOLOGY_NO_MATCH :: string where "TOPOLOGY_NO_MATCH = ''topology_no_match''"

section \<open>Classes of values\<close>

fun type_name :: "pyval \<Rightarrow> string" where
  "type_name PNone = ''NoneType''"
| "type_name (PBool b) = ''bool''"
| "type_name (PInt i) = ''int''"
| "type_name (PFloat f) = ''float''"
| "type_name (PStr s) = ''str''"
| "type_name (PList l) = ''list''"
| "type_name (PDict d) = ''dict''"

section \<open>Equality of values\<close>

text \<open>
  \<open>==\<close> of Python: booleans are numbers, an integer equals the float with its value, dictionaries
  ignore the order of their keys.
\<close>

definition number_of :: "pyval \<Rightarrow> py_float option" where
  "number_of v =
     (case v of PBool b \<Rightarrow> Some (make_float (if b then 1 else 0) 0) | PInt i \<Rightarrow> Some (make_float i 0)
      | PFloat f \<Rightarrow> Some (make_float (mantissa f) (exp10 f)) | _ \<Rightarrow> None)"

lemma size_in_list: "x \<in> set xs \<Longrightarrow> size x < Suc (size_list size xs)"
  by (simp add: less_Suc_eq_le size_list_estimation')

lemma size_in_dict: "(k, v) \<in> set d \<Longrightarrow> size (v :: pyval) < Suc (size_list (size_prod f size) d)"
  by (induction d) (auto simp: trans_less_add1)

function (sequential) py_eq :: "pyval \<Rightarrow> pyval \<Rightarrow> bool" where
  "py_eq PNone b = (b = PNone)"
| "py_eq (PStr s) b = (b = PStr s)"
| "py_eq (PList xs) b =
     (case b of PList ys \<Rightarrow> length xs = length ys \<and> (\<forall>(x, y) \<in> set (zip xs ys). py_eq x y) | _ \<Rightarrow> False)"
| "py_eq (PDict d) b =
     (case b of
        PDict e \<Rightarrow> length d = length e \<and> (\<forall>(k, v) \<in> set d. case map_of e k of None \<Rightarrow> False | Some w \<Rightarrow> py_eq v w)
      | _ \<Rightarrow> False)"
| "py_eq a b = (number_of a = number_of b)"
  by pat_completeness auto
termination
proof (relation "measure (\<lambda>(a, b). size a)", goal_cases)
  case (2 xs b ys z x y)
  then have "(x, y) \<in> set (zip xs ys)" by simp
  then show ?case using size_in_list [of x xs] by (simp add: set_zip_leftD)
next
  case (3 d b e z k v w)
  then have "(k, v) \<in> set d" by simp
  then show ?case using size_in_dict [of k v d] by simp
qed simp

section \<open>Fingerprints\<close>

fun sort_keys :: "pyval \<Rightarrow> pyval" where
  "sort_keys (PList vs) = PList (map sort_keys vs)"
| "sort_keys (PDict d) = PDict (sort_key fst (map (\<lambda>(k, v). (k, sort_keys v)) d))"
| "sort_keys v = v"

definition hash_payload :: "(string \<Rightarrow> string) \<Rightarrow> (string, pyval) dict \<Rightarrow> string" where
  "hash_payload md5 payload = md5 (json_dumps (sort_keys (PDict payload)))"

definition build_fingerprint ::
    "(string \<Rightarrow> string) \<Rightarrow> (string, pyval) dict \<Rightarrow> string list \<Rightarrow> string \<times> string list" where
  "build_fingerprint md5 desired_state ignored =
     (let payload = filter (\<lambda>(k, v). k \<notin> set ignored) desired_state
      in (hash_payload md5 payload, sort (dict_keys payload)))"

definition build_fingerprint_for_keys :: "(string \<Rightarrow> string) \<Rightarrow> (string, pyval) dict option \<Rightarrow> string list \<Rightarrow> string" where
  "build_fingerprint_for_keys md5 payload keys =
     (let d = (case payload of None \<Rightarrow> [] | Some d \<Rightarrow> d)
      in hash_payload md5 (map (\<lambda>k. (k, dict_get_or d k PNone)) (dict_fromkeys keys)))"

end
