(* ===== verification/Pending_Codec.thy ===== *)
theory Pending_Codec
  imports Match_Models
begin

text \<open>
  Model of \<open>connector/domain/transform/resolver/pending_codec.py\<close>: the text a matched row is parked as
  while one of its links is unresolved, and the rows that are read back for the next run.

  Writing and reading go through the JSON text.  A mapping that is no dictionary is dumped through
  \<open>default=str\<close>.  \<open>payload.get\<close> raises when the text is JSON but no object.
\<close>

section \<open>Writing\<close>

definition opt_float :: "py_float option \<Rightarrow> pyval" where
  "opt_float f = (case f of None \<Rightarrow> PNone | Some x \<Rightarrow> PFloat x)"

definition identity_data :: "identity \<Rightarrow> pyval" where
  "identity_data i = PDict [(''primary'', PStr (id_primary i)), (''values'', PDict (map (\<lambda>(k, v). (k, PStr v)) (id_values i)))]"

definition serialize_source_links :: "matched_row \<Rightarrow> pyval" where
  "serialize_source_links m = PDict (map (\<lambda>(fld, i). (fld, identity_data i)) (mr_source_links m))"

definition serialize_candidate :: "match_candidate option \<Rightarrow> pyval" where
  "serialize_candidate c =
     (case c of
        None \<Rightarrow> PNone
      | Some c \<Rightarrow> PDict [(''target_id'', opt_str (mc_target_id c)), (''identity'', opt_str (mc_identity c)),
          (''score'', opt_float (mc_score c)), (''match_mode'', PStr (mc_match_mode c)), (''evidence'', opt_dict (mc_evidence c))])"

definition serialize_match_decision :: "match_decision \<Rightarrow> pyval" where
  "serialize_match_decision d = PDict [
     (''status'', PStr (status_value (md_status d))), (''reason_code'', PStr (md_reason_code d)),
     (''message'', opt_str (md_message d)), (''score'', opt_float (md_score d)),
     (''topology_match_mode'', opt_str (map_option mode_value (md_topology_match_mode d))),
     (''topology_reason'', opt_str (md_topology_reason d)), (''topology_evidence'', PDict (md_topology_evidence d)),
     (''meta'', PDict (md_meta d)), (''selected'', serialize_candidate (md_selected d)),
     (''candidates'', PList (map (\<lambda>c. serialize_candidate (Some c)) (md_candidates d)))]"

text \<open>\<open>meta or {}\<close>, as \<open>json.dumps(..., default=str)\<close> sees it.\<close>

definition dumped_meta :: "py_mapping option \<Rightarrow> pyval" where
  "dumped_meta meta =
     (case meta of
        None \<Rightarrow> PDict []
      | Some m \<Rightarrow>
          if mapping_items m = [] then PDict []
          else (case m of
              Plain_Dict d \<Rightarrow> PDict d
            | Frozen_Mapping d \<Rightarrow> PStr (''mappingproxy('' @ py_repr (PDict d) @ '')'')))"

definition pending_payload :: "matched_row \<Rightarrow> (string, pyval) dict \<Rightarrow> py_mapping option \<Rightarrow> pyval" where
  "pending_payload m desired_state meta = PDict [
     (''identity'', identity_data (mr_identity m)),
     (''row_ref'', PDict [(''line_no'', opt_int (rr_line_no (mr_row_ref m))), (''row_id'', PStr (rr_row_id (mr_row_ref m))),
        (''identity_primary'', rr_identity_primary (mr_row_ref m)), (''identity_value'', rr_identity_value (mr_row_ref m))]),
     (''desired_state'', PDict desired_state), (''existing'', opt_dict (mr_existing m)),
     (''fingerprint'', PStr (mr_fingerprint m)), (''fingerprint_fields'', str_list (mr_fingerprint_fields m)),
     (''match_decision'', serialize_match_decision (mr_match_decision m)),
     (''source_links'', serialize_source_links m), (''target_id'', opt_str (mr_target_id m)),
     (''meta'', dumped_meta meta)]"

definition serialize_pending :: "matched_row \<Rightarrow> (string, pyval) dict \<Rightarrow> py_mapping option \<Rightarrow> string" where
  "serialize_pending m desired_state meta = json_dumps (pending_payload m desired_state meta)"

section \<open>Reading\<close>

text \<open>Values of the classes the reader asks for: \<open>None\<close> is the failed \<open>isinstance\<close> check.\<close>

definition nonempty_str :: "pyval \<Rightarrow> string option" where
  "nonempty_str v = (case v of PStr (c # s) \<Rightarrow> Some (c # s) | _ \<Rightarrow> None)"

definition list_or_none :: "pyval \<Rightarrow> pyval list option" where
  "list_or_none v = (case v of PList l \<Rightarrow> Some l | _ \<Rightarrow> None)"

definition optional :: "(pyval \<Rightarrow> 'a option) \<Rightarrow> pyval \<Rightarrow> 'a option option" where
  "optional f v = (if v = PNone then Some None else map_option Some (f v))"

definition str_or_none :: "pyval \<Rightarrow> string option" where
  "str_or_none v = (case v of PStr s \<Rightarrow> Some s | _ \<Rightarrow> None)"

text \<open>\<open>float(x)\<close> of an \<open>int\<close> or \<open>float\<close>; integers are taken as exact, as they are below 2 ^ 53.\<close>

definition float_or_none :: "pyval \<Rightarrow> py_float option" where
  "float_or_none v =
     (case v of PInt i \<Rightarrow> Some (make_float i 0) | PBool b \<Rightarrow> Some (make_float (if b then 1 else 0) 0) | PFloat f \<Rightarrow> Some f | _ \<Rightarrow> None)"

definition int_or_none :: "pyval \<Rightarrow> int option" where
  "int_or_none v =
     (case v of PStr s \<Rightarrow> parse_int s | PInt i \<Rightarrow> Some i | PBool b \<Rightarrow> Some (if b then 1 else 0) | _ \<Rightarrow> None)"

definition text_values :: "(string, pyval) dict \<Rightarrow> (string, string) dict" where
  "text_values d = map (\<lambda>(k, v). (k, py_str v)) (filter (\<lambda>(k, v). v \<noteq> PNone) d)"

definition deserialize_candidate :: "pyval \<Rightarrow> match_candidate option" where
  "deserialize_candidate payload =
     (case payload of
        PDict d \<Rightarrow>
          (let field = (\<lambda>k. dict_get_or d k PNone) in
           case (nonempty_str (field ''match_mode''), optional float_or_none (field ''score''),
                 optional dict_or_none (field ''evidence'')) of
             (Some mode, Some score, Some evidence) \<Rightarrow>
               Some \<lparr>mc_target_id = get_str (field ''target_id''), mc_identity = get_str (field ''identity''),
                     mc_score = score, mc_match_mode = mode, mc_evidence = evidence\<rparr>
           | _ \<Rightarrow> None)
      | _ \<Rightarrow> None)"

fun deserialize_candidates :: "pyval list \<Rightarrow> match_candidate list option" where
  "deserialize_candidates [] = Some []"
| "deserialize_candidates (p # ps) =
     (case deserialize_candidate p of
        None \<Rightarrow> None
      | Some c \<Rightarrow> map_option (\<lambda>cs. c # cs) (deserialize_candidates ps))"

definition deserialize_match_decision :: "(string, pyval) dict \<Rightarrow> match_decision option" where
  "deserialize_match_decision d =
     (let field = (\<lambda>k. dict_get_or d k PNone) in
      case (Option.bind (str_or_none (field ''status'')) status_of, nonempty_str (field ''reason_code'')) of
        (Some status, Some reason) \<Rightarrow>
          (case (optional deserialize_candidate (field ''selected''),
                 Option.bind (list_or_none (field ''candidates'')) deserialize_candidates) of
             (Some selected, Some candidates) \<Rightarrow>
               (case (optional float_or_none (field ''score''), optional str_or_none (field ''topology_reason''),
                      optional str_or_none (field ''message''),
                      optional (\<lambda>v. Option.bind (str_or_none v) mode_of) (field ''topology_match_mode'')) of
                  (Some score, Some reason_text, Some message, Some mode) \<Rightarrow>
                    Some \<lparr>md_status = status, md_reason_code = reason, md_message = message, md_selected = selected,
                          md_candidates = candidates, md_score = score, md_topology_match_mode = mode,
                          md_topology_reason = reason_text, md_topology_evidence = dict_of (field ''topology_evidence''),
                          md_meta = dict_of (field ''meta'')\<rparr>
                | _ \<Rightarrow> None)
           | _ \<Rightarrow> None)
      | _ \<Rightarrow> None)"

definition deserialize_identity :: "pyval \<Rightarrow> identity option" where
  "deserialize_identity v =
     (case v of
        PDict d \<Rightarrow>
          (case (nonempty_str (dict_get_or d ''primary'' PNone), dict_or_none (dict_get_or d ''values'' PNone)) of
             (Some primary, Some vals) \<Rightarrow> Some \<lparr>id_primary = primary, id_values = text_values vals\<rparr>
           | _ \<Rightarrow> None)
      | _ \<Rightarrow> None)"

fun deserialize_links :: "(string, pyval) dict \<Rightarrow> (string, identity) dict option" where
  "deserialize_links [] = Some []"
| "deserialize_links ((fld, raw) # rest) =
     (case deserialize_identity raw of
        None \<Rightarrow> None
      | Some i \<Rightarrow> map_option (\<lambda>ls. (fld, i) # ls) (deserialize_links rest))"

definition deserialize_source_links :: "pyval \<Rightarrow> (string, identity) dict option" where
  "deserialize_source_links payload =
     (case payload of PNone \<Rightarrow> Some [] | PDict d \<Rightarrow> deserialize_links d | _ \<Rightarrow> None)"

definition deserialize_row_ref :: "(string, pyval) dict \<Rightarrow> row_ref option" where
  "deserialize_row_ref d =
     (case (nonempty_str (dict_get_or d ''row_id'' PNone), int_or_none (dict_get_or d ''line_no'' PNone)) of
        (Some row_id, Some line_no) \<Rightarrow>
          Some \<lparr>rr_line_no = Some line_no, rr_row_id = row_id,
                rr_identity_primary = dict_get_or d ''identity_primary'' PNone,
                rr_identity_value = dict_get_or d ''identity_value'' PNone\<rparr>
      | _ \<Rightarrow> None)"

definition deserialize_matched_row :: "(string, pyval) dict \<Rightarrow> (matched_row \<times> (string, pyval) dict) option" where
  "deserialize_matched_row d =
     (let field = (\<lambda>k. dict_get_or d k PNone) in
      case (deserialize_identity (field ''identity''), Option.bind (dict_or_none (field ''row_ref'')) deserialize_row_ref,
            dict_or_none (field ''desired_state''), optional dict_or_none (field ''existing'')) of
        (Some i, Some rref, Some desired, Some existing) \<Rightarrow>
          (case (nonempty_str (field ''fingerprint''), list_or_none (field ''fingerprint_fields''),
                 Option.bind (dict_or_none (field ''match_decision'')) deserialize_match_decision,
                 deserialize_source_links (field ''source_links'')) of
             (Some fingerprint, Some fps, Some decision, Some links) \<Rightarrow>
               if primary_value i = [] then None
               else Some (\<lparr>mr_row_ref = rref, mr_identity = i, mr_desired_state = desired, mr_existing = existing,
                           mr_fingerprint = fingerprint, mr_fingerprint_fields = map py_str fps,
                           mr_match_decision = decision, mr_source_links = links,
                           mr_target_id = get_str (field ''target_id'')\<rparr>, dict_of (field ''meta''))
           | _ \<Rightarrow> None)
      | _ \<Rightarrow> None)"

definition replayed_result :: "matched_row \<Rightarrow> (string, pyval) dict \<Rightarrow> matched_row transform_result" where
  "replayed_result m meta =
     \<lparr>tr_record = \<lparr>src_line_no = (case rr_line_no (mr_row_ref m) of None \<Rightarrow> 0 | Some n \<Rightarrow> n), src_record_id = rr_row_id (mr_row_ref m), src_values = []\<rparr>,
      tr_row = Some m, tr_row_ref = Some (mr_row_ref m), tr_match_key = None, tr_meta = meta, tr_secret_candidates = [],
      tr_errors = [], tr_warnings = []\<rparr>"

text \<open>The stored rows are (dataset, source row, payload); \<open>int\<close> counts the skipped ones.\<close>

fun load_pending_rows :: "(string \<times> string \<times> string) list \<Rightarrow> (matched_row transform_result list \<times> int) result" where
  "load_pending_rows [] = Inr ([], 0)"
| "load_pending_rows ((dataset, source_row_id, payload) # rows) =
     (case json_loads payload of
        None \<Rightarrow> map_sum id (\<lambda>(rs, skipped). (rs, skipped + 1)) (load_pending_rows rows)
      | Some (PDict d) \<Rightarrow>
          (case deserialize_matched_row d of
             None \<Rightarrow> map_sum id (\<lambda>(rs, skipped). (rs, skipped + 1)) (load_pending_rows rows)
           | Some (m, meta) \<Rightarrow> map_sum id (\<lambda>(rs, skipped). (replayed_result m meta # rs, skipped)) (load_pending_rows rows))
      | Some v \<Rightarrow> Inl (OtherError ''AttributeError'' (repr_string (type_name v) @ '' object has no attribute '' @ repr_string ''get'')))"

section \<open>Well-formed rows\<close>

definition float_ok :: "py_float option \<Rightarrow> bool" where
  "float_ok f \<longleftrightarrow> (case f of None \<Rightarrow> True | Some x \<Rightarrow> json_ok (PFloat x))"

definition identity_ok :: "identity \<Rightarrow> bool" where
  "identity_ok i \<longleftrightarrow> id_primary i \<noteq> [] \<and> distinct (map fst (id_values i))"

definition candidate_ok :: "match_candidate \<Rightarrow> bool" where
  "candidate_ok c \<longleftrightarrow> mc_match_mode c \<noteq> [] \<and> float_ok (mc_score c) \<and> (\<forall>d. mc_evidence c = Some d \<longrightarrow> dict_ok d)"

definition decision_ok :: "match_decision \<Rightarrow> bool" where
  "decision_ok d \<longleftrightarrow> md_reason_code d \<noteq> [] \<and> float_ok (md_score d) \<and> dict_ok (md_topology_evidence d) \<and> dict_ok (md_meta d)
     \<and> (\<forall>c. md_selected d = Some c \<longrightarrow> candidate_ok c) \<and> (\<forall>c \<in> set (md_candidates d). candidate_ok c)"

definition row_ok :: "matched_row \<Rightarrow> bool" where
  "row_ok m \<longleftrightarrow> rr_line_no (mr_row_ref m) \<noteq> None \<and> rr_row_id (mr_row_ref m) \<noteq> []
     \<and> json_ok (rr_identity_primary (mr_row_ref m)) \<and> json_ok (rr_identity_value (mr_row_ref m))
     \<and> identity_ok (mr_identity m) \<and> primary_value (mr_identity m) \<noteq> [] \<and> dict_ok (mr_desired_state m)
     \<and> (\<forall>d. mr_existing m = Some d \<longrightarrow> dict_ok d) \<and> mr_fingerprint m \<noteq> [] \<and> decision_ok (mr_match_decision m)
     \<and> distinct (map fst (mr_source_links m)) \<and> (\<forall>(fld, i) \<in> set (mr_source_links m). identity_ok i)"

lemmas ok_defs = float_ok_def identity_ok_def candidate_ok_def decision_ok_def

subsection \<open>What is written is JSON data\<close>

lemma json_ok_simps [simp]:
  "json_ok (opt_str s)" "json_ok (opt_int i)" "json_ok (str_list ss)" "float_ok f \<Longrightarrow> json_ok (opt_float f)"
  "(\<And>d. x = Some d \<Longrightarrow> dict_ok d) \<Longrightarrow> json_ok (opt_dict x)"
  by (auto simp: opt_str_def opt_int_def str_list_def opt_float_def opt_dict_def ok_defs split: option.splits)

lemma json_ok_identity: "identity_ok i \<Longrightarrow> json_ok (identity_data i)"
  by (auto simp: identity_data_def dict_ok_def identity_ok_def comp_def case_prod_beta)

lemma json_ok_candidate: "(\<And>c. x = Some c \<Longrightarrow> candidate_ok c) \<Longrightarrow> json_ok (serialize_candidate x)"
  by (cases x) (simp_all add: serialize_candidate_def candidate_ok_def)

lemma json_ok_decision: "decision_ok d \<Longrightarrow> json_ok (serialize_match_decision d)"
  by (auto simp: serialize_match_decision_def decision_ok_def intro!: json_ok_candidate)

lemma json_ok_payload:
  assumes "row_ok m" "dict_ok desired" "\<And>d. meta = Some (Plain_Dict d) \<Longrightarrow> dict_ok d"
  shows "json_ok (pending_payload m desired meta)"
proof -
  have "json_ok (serialize_source_links m)"
    using assms(1) json_ok_identity
    by (auto simp: serialize_source_links_def row_ok_def dict_ok_def comp_def case_prod_beta)
  moreover have "json_ok (dumped_meta meta)"
    using assms(3) by (simp add: dumped_meta_def split: option.split py_mapping.split)
  ultimately show ?thesis
    using assms by (simp add: pending_payload_def row_ok_def json_ok_identity json_ok_decision)
qed

subsection \<open>Reading what was written\<close>

lemma optional_simps [simp]:
  "optional f PNone = Some None"
  "optional float_or_none (opt_float x) = Some x"
  "optional dict_or_none (opt_dict d) = Some d"
  "optional str_or_none (opt_str s) = Some s"
  "get_str (opt_str s) = s"
  by (auto simp: optional_def opt_float_def opt_dict_def opt_str_def float_or_none_def dict_or_none_def str_or_none_def
      get_str_def py_str_def split: option.split)

lemma nonempty_str_PStr [simp]: "nonempty_str (PStr s) = (if s = [] then None else Some s)"
  by (cases s) (simp_all add: nonempty_str_def)

lemma accessor_simps [simp]:
  "dict_or_none (PDict d) = Some d" "list_or_none (PList l) = Some l" "str_or_none (PStr s) = Some s"
  "dict_of (PDict d) = d" "dict_of (PStr s) = []"
  by (simp_all add: dict_or_none_def list_or_none_def str_or_none_def dict_of_def)

lemma text_values_PStr [simp]: "text_values (map (\<lambda>(k, v). (k, PStr v)) d) = d"
  by (induction d) (auto simp: text_values_def py_str_def)

lemma deserialize_identity_data [simp]: "id_primary i \<noteq> [] \<Longrightarrow> deserialize_identity (identity_data i) = Some i"
  by (simp add: deserialize_identity_def identity_data_def dict_get_or_def)

lemma deserialize_candidate_data:
  "candidate_ok c \<Longrightarrow> deserialize_candidate (serialize_candidate (Some c)) = Some c"
  by (simp add: deserialize_candidate_def serialize_candidate_def dict_get_or_def candidate_ok_def)

lemma deserialize_candidates_data:
  "\<forall>c \<in> set cs. candidate_ok c \<Longrightarrow> deserialize_candidates (map (\<lambda>c. serialize_candidate (Some c)) cs) = Some cs"
  by (induction cs) (simp_all add: deserialize_candidate_data)

lemma deserialize_links_data:
  "\<forall>(fld, i) \<in> set ls. identity_ok i \<Longrightarrow> deserialize_links (map (\<lambda>(fld, i). (fld, identity_data i)) ls) = Some ls"
  by (induction ls) (auto simp: identity_ok_def)

lemma deserialize_decision_data:
  assumes "decision_ok d"
  shows "deserialize_match_decision (dict_of (serialize_match_decision d)) = Some d"
proof -
  have sel: "optional deserialize_candidate (serialize_candidate (md_selected d)) = Some (md_selected d)"
    using assms by (cases "md_selected d")
      (auto simp: serialize_candidate_def [of None] decision_ok_def deserialize_candidate_data optional_def, simp add: serialize_candidate_def)
  have mode: "optional (\<lambda>v. Option.bind (str_or_none v) mode_of) (opt_str (map_option mode_value m)) = Some m" for m
    by (cases m) (simp_all add: optional_def opt_str_def)
  show ?thesis
    using assms deserialize_candidates_data [of "md_candidates d"] sel mode
    by (simp add: deserialize_match_decision_def serialize_match_decision_def dict_get_or_def Let_def decision_ok_def)
qed

lemma deserialize_payload:
  assumes "row_ok m"
  shows "deserialize_matched_row (dict_of (pending_payload m desired meta))
    = Some (m\<lparr>mr_desired_state := desired\<rparr>, dict_of (dumped_meta meta))"
proof -
  have ref: "Option.bind (dict_or_none (PDict [(''line_no'', opt_int (rr_line_no (mr_row_ref m))), (''row_id'', PStr (rr_row_id (mr_row_ref m))),
        (''identity_primary'', rr_identity_primary (mr_row_ref m)), (''identity_value'', rr_identity_value (mr_row_ref m))])) deserialize_row_ref
      = Some (mr_row_ref m)"
    using assms by (cases "rr_line_no (mr_row_ref m)")
      (auto simp: row_ok_def deserialize_row_ref_def dict_get_or_def opt_int_def int_or_none_def)
  have dec: "Option.bind (dict_or_none (serialize_match_decision (mr_match_decision m))) deserialize_match_decision = Some (mr_match_decision m)"
    using deserialize_decision_data assms by (simp add: row_ok_def serialize_match_decision_def)
  have links: "deserialize_source_links (serialize_source_links m) = Some (mr_source_links m)"
    using assms deserialize_links_data [of "mr_source_links m"]
    by (simp add: deserialize_source_links_def serialize_source_links_def row_ok_def)
  have "map py_str (map PStr ss) = ss" for ss by (simp add: comp_def py_str_def)
  then show ?thesis
    using assms ref dec links
    by (simp add: deserialize_matched_row_def pending_payload_def dict_get_or_def Let_def row_ok_def identity_ok_def str_list_def
        del: bind_eq_Some_conv)
qed


subsection \<open>What is read is well-formed\<close>

lemma dict_ok_get: "dict_ok d \<Longrightarrow> json_ok (dict_get_or d k PNone)"
  by (force simp: dict_ok_def dict_get_or_def split: option.split dest: map_of_SomeD)

lemma dict_ok_some: "dict_or_none v = Some d \<Longrightarrow> json_ok v \<Longrightarrow> dict_ok d"
  by (auto simp: dict_or_none_def split: pyval.splits)

lemma dict_ok_of: "json_ok v \<Longrightarrow> dict_ok (dict_of v)"
  by (auto simp: dict_of_def split: pyval.split)

lemma float_ok_read: "optional float_or_none v = Some x \<Longrightarrow> json_ok v \<Longrightarrow> float_ok x"
  by (auto simp: optional_def float_or_none_def float_ok_def split: pyval.splits if_splits
      simp del: json_ok.simps(1) intro: make_float_ok)

lemma nonempty_str_read: "nonempty_str v = Some s \<Longrightarrow> s \<noteq> []"
  by (auto simp: nonempty_str_def split: pyval.splits list.splits)

lemma optional_dict_read: "optional dict_or_none v = Some x \<Longrightarrow> json_ok v \<Longrightarrow> x = Some d \<Longrightarrow> dict_ok d"
  by (auto simp: optional_def dict_ok_some split: if_splits)

lemma identity_read: "deserialize_identity v = Some i \<Longrightarrow> json_ok v \<Longrightarrow> identity_ok i"
proof -
  assume d: "deserialize_identity v = Some i" and ok: "json_ok v"
  have keys: "distinct (map fst (text_values d))" if "dict_ok d" for d
  proof -
    have "map fst (text_values d) = map fst (filter (\<lambda>(k, v). v \<noteq> PNone) d)"
      by (simp add: text_values_def comp_def case_prod_beta)
    with that show ?thesis by (simp add: dict_ok_def distinct_map_filter)
  qed
  obtain e vals where v: "v = PDict e" "dict_or_none (dict_get_or e ''values'' PNone) = Some vals"
      "nonempty_str (dict_get_or e ''primary'' PNone) = Some (id_primary i)" "id_values i = text_values vals"
    using d by (auto simp: deserialize_identity_def split: pyval.splits option.splits)
  have "dict_ok vals" using v(1,2) ok dict_ok_some dict_ok_get by force
  with v keys nonempty_str_read show "identity_ok i" by (auto simp: identity_ok_def)
qed

lemma candidate_read: "deserialize_candidate v = Some c \<Longrightarrow> json_ok v \<Longrightarrow> candidate_ok c"
  unfolding candidate_ok_def
  by (auto simp: deserialize_candidate_def Let_def split: pyval.splits option.splits
      dest: nonempty_str_read float_ok_read [OF _ dict_ok_get] optional_dict_read [OF _ dict_ok_get])

lemma candidates_read:
  "deserialize_candidates ps = Some cs \<Longrightarrow> \<forall>p \<in> set ps. json_ok p \<Longrightarrow> \<forall>c \<in> set cs. candidate_ok c"
  by (induction ps arbitrary: cs) (auto split: option.splits dest: candidate_read)

lemma links_read:
  "deserialize_links d = Some ls \<Longrightarrow> dict_ok d \<Longrightarrow> map fst ls = map fst d \<and> (\<forall>(fld, i) \<in> set ls. identity_ok i)"
proof (induction d arbitrary: ls)
  case (Cons e d)
  obtain fld raw where e: "e = (fld, raw)" by fastforce
  then obtain i ls' where "deserialize_identity raw = Some i" "deserialize_links d = Some ls'" "ls = (fld, i) # ls'"
    using Cons.prems(1) by (auto split: option.splits)
  with Cons.IH [of ls'] Cons.prems(2) e identity_read show ?case by auto
qed simp

lemma decision_read:
  assumes "deserialize_match_decision d = Some md" "dict_ok d"
  shows "decision_ok md"
proof -
  let ?f = "\<lambda>k. dict_get_or d k PNone"
  have ok: "json_ok (?f k)" for k using assms(2) by (rule dict_ok_get)
  obtain ps where r: "nonempty_str (?f ''reason_code'') = Some (md_reason_code md)"
      "optional float_or_none (?f ''score'') = Some (md_score md)"
      "md_topology_evidence md = dict_of (?f ''topology_evidence'')" "md_meta md = dict_of (?f ''meta'')"
      "optional deserialize_candidate (?f ''selected'') = Some (md_selected md)"
      "list_or_none (?f ''candidates'') = Some ps" "deserialize_candidates ps = Some (md_candidates md)"
    using assms(1)
    by (auto simp: deserialize_match_decision_def Let_def bind_eq_Some_conv split: option.splits)
  have "\<forall>p \<in> set ps. json_ok p"
    using r(6) ok [of "''candidates''"] by (auto simp: list_or_none_def split: pyval.splits)
  moreover have "candidate_ok c" if "md_selected md = Some c" for c
    using r(5) that ok candidate_read by (auto simp: optional_def split: if_splits)
  ultimately show ?thesis
    using r ok nonempty_str_read float_ok_read candidates_read by (auto simp: decision_ok_def dict_ok_of)
qed

lemma row_read:
  assumes "deserialize_matched_row d = Some (m, meta)" "dict_ok d"
  shows "row_ok m \<and> dict_ok meta"
proof -
  let ?f = "\<lambda>k. dict_get_or d k PNone"
  have ok: "json_ok (?f k)" for k using assms(2) by (rule dict_ok_get)
  obtain rd dd where r: "deserialize_identity (?f ''identity'') = Some (mr_identity m)" "primary_value (mr_identity m) \<noteq> []"
      "dict_or_none (?f ''row_ref'') = Some rd" "deserialize_row_ref rd = Some (mr_row_ref m)"
      "dict_or_none (?f ''desired_state'') = Some (mr_desired_state m)"
      "optional dict_or_none (?f ''existing'') = Some (mr_existing m)"
      "nonempty_str (?f ''fingerprint'') = Some (mr_fingerprint m)"
      "dict_or_none (?f ''match_decision'') = Some dd" "deserialize_match_decision dd = Some (mr_match_decision m)"
      "deserialize_source_links (?f ''source_links'') = Some (mr_source_links m)" "meta = dict_of (?f ''meta'')"
    using assms(1)
    by (auto simp: deserialize_matched_row_def Let_def bind_eq_Some_conv split: option.splits if_splits)
  have rd: "dict_ok rd" "dict_ok dd" using r(3,8) ok dict_ok_some by blast+
  have "rr_line_no (mr_row_ref m) \<noteq> None \<and> rr_row_id (mr_row_ref m) \<noteq> []
     \<and> json_ok (rr_identity_primary (mr_row_ref m)) \<and> json_ok (rr_identity_value (mr_row_ref m))"
    using r(4) dict_ok_get [OF rd(1)]
    by (auto simp: deserialize_row_ref_def split: option.splits dest!: nonempty_str_read sym [of _ "mr_row_ref m"])
  moreover have "distinct (map fst (mr_source_links m)) \<and> (\<forall>(fld, i) \<in> set (mr_source_links m). identity_ok i)"
    using r(10) ok [of "''source_links''"] links_read
    by (auto simp: deserialize_source_links_def dict_ok_def split: pyval.splits)
  ultimately show ?thesis
    using r ok rd identity_read decision_read nonempty_str_read dict_ok_some optional_dict_read
    by (simp add: row_ok_def dict_ok_of) metis
qed

lemma map_sum_Inr_iff: "map_sum id f r = Inr y \<longleftrightarrow> (\<exists>x. r = Inr x \<and> y = f x)"
  by (cases r) auto

lemma load_written:
  assumes "row_ok m" "dict_ok desired" "\<And>d. meta = Some (Plain_Dict d) \<Longrightarrow> dict_ok d"
  shows "load_pending_rows ((dataset, rid, serialize_pending m desired meta) # rows) =
    map_sum id (\<lambda>(rs, skipped). (replayed_result (m\<lparr>mr_desired_state := desired\<rparr>) (dict_of (dumped_meta meta)) # rs, skipped))
      (load_pending_rows rows)"
proof -
  obtain d where d: "pending_payload m desired meta = PDict d" by (simp add: pending_payload_def)
  have "json_loads (serialize_pending m desired meta) = Some (PDict d)"
    unfolding serialize_pending_def d [symmetric] using assms by (intro json_loads_dumps json_ok_payload) auto
  then show ?thesis using deserialize_payload [OF assms(1), of desired meta] by (simp add: d)
qed

lemma dumped_plain [simp]: "dict_of (dumped_meta (Some (Plain_Dict d))) = d" "dict_of (dumped_meta None) = []"
  "dict_of (dumped_meta (Some (Frozen_Mapping d))) = []"
  by (simp_all add: dumped_meta_def)

lemma load_written_plain:
  assumes "row_ok m" "dict_ok desired" "dict_ok meta"
  shows "load_pending_rows ((dataset, rid, serialize_pending m desired (Some (Plain_Dict meta))) # rows) =
    map_sum id (\<lambda>(rs, skipped). (replayed_result (m\<lparr>mr_desired_state := desired\<rparr>) meta # rs, skipped)) (load_pending_rows rows)"
  using load_written [OF assms(1,2), of "Some (Plain_Dict meta)"] assms(3) by simp

section \<open>Properties\<close>

text \<open>
  C17. Well-formed rows written with their desired state and their meta are all read back, in order, each with
  the desired state it was written with and everything else as it was; none is skipped.
\<close>

theorem pending_codec_roundtrip:
  assumes "\<forall>(m, desired, meta) \<in> set parked. row_ok m \<and> dict_ok desired \<and> dict_ok meta"
  shows "load_pending_rows (map (\<lambda>(m, desired, meta).
      (dataset, rr_row_id (mr_row_ref m), serialize_pending m desired (Some (Plain_Dict meta)))) parked)
    = Inr (map (\<lambda>(m, desired, meta). replayed_result (m\<lparr>mr_desired_state := desired\<rparr>) meta) parked, 0)"
  using assms
proof (induction parked)
  case (Cons p parked)
  obtain m desired meta where p: "p = (m, desired, meta)" by (cases p)
  with Cons.prems have "row_ok m" "dict_ok desired" "dict_ok meta" by auto
  then show ?case using Cons by (simp add: p load_written_plain del: load_pending_rows.simps(2))
qed simp

definition example_row :: matched_row where
  "example_row = \<lparr>mr_row_ref = \<lparr>rr_line_no = Some 3, rr_row_id = ''r1'', rr_identity_primary = PStr ''login'', rr_identity_value = PStr ''ann''\<rparr>,
     mr_identity = \<lparr>id_primary = ''login'', id_values = [(''login'', ''ann'')]\<rparr>, mr_desired_state = [(''login'', PStr ''ann''), (''manager'', PStr ''Bob'')],
     mr_existing = Some [(''_id'', PStr ''u7'')], mr_fingerprint = ''d41d8cd9'', mr_fingerprint_fields = [''login''],
     mr_match_decision = \<lparr>md_status = Match_MATCHED, md_reason_code = FUZZY_ACCEPT, md_message = None,
       md_selected = Some \<lparr>mc_target_id = Some ''u7'', mc_identity = None, mc_score = Some (PyFloat 95 (-2)), mc_match_mode = ''fuzzy'', mc_evidence = None\<rparr>,
       md_candidates = [], md_score = Some (PyFloat 95 (-2)), md_topology_match_mode = Some EXACT_CANONICAL_PATH,
       md_topology_reason = None, md_topology_evidence = [], md_meta = []\<rparr>,
     mr_source_links = [(''manager'', \<lparr>id_primary = ''name'', id_values = [(''name'', ''Bob'')]\<rparr>)], mr_target_id = None\<rparr>"

lemma example_row_ok [simp]: "row_ok example_row"
  by (simp add: example_row_def row_ok_def identity_ok_def decision_ok_def candidate_ok_def float_ok_def primary_value_def
      dict_get_or_def FUZZY_ACCEPT_def)

lemma pending_codec_roundtrip_witness:
  "load_pending_rows [(''users'', ''r1'', serialize_pending example_row [(''manager'', PList [])] (Some (Plain_Dict [(''k'', PInt 1)])))]
    = Inr ([replayed_result (example_row\<lparr>mr_desired_state := [(''manager'', PList [])]\<rparr>) [(''k'', PInt 1)]], 0)"
proof -
  have "rr_row_id (mr_row_ref example_row) = ''r1''" by (simp add: example_row_def)
  then show ?thesis
    using pending_codec_roundtrip [of "[(example_row, [(''manager'', PList [])], [(''k'', PInt 1)])]" "''users''"] by simp
qed

text \<open>
  Whatever texts the table holds, the rows the reader gives are well-formed and in normal form: writing one
  of them again and reading it gives it back unchanged; and every text is either a row or counted as skipped.
\<close>

theorem replayed_rows_typed:
  assumes "load_pending_rows rows = Inr (results, skipped)"
  shows "int (length results) + skipped = int (length rows)
    \<and> (\<forall>t \<in> set results. \<exists>m. tr_row t = Some m \<and> row_ok m \<and> tr_row_ref t = Some (mr_row_ref m) \<and> tr_errors t = []
         \<and> load_pending_rows [(dataset, rid, serialize_pending m (mr_desired_state m) (Some (Plain_Dict (tr_meta t))))] = Inr ([t], 0))"
  using assms
proof (induction rows arbitrary: results skipped)
  case (Cons e rows)
  obtain dataset' source payload where e: "e = (dataset', source, payload)" by (cases e)
  let ?P = "\<lambda>t. \<exists>m. tr_row t = Some m \<and> row_ok m \<and> tr_row_ref t = Some (mr_row_ref m) \<and> tr_errors t = []
     \<and> load_pending_rows [(dataset, rid, serialize_pending m (mr_desired_state m) (Some (Plain_Dict (tr_meta t))))] = Inr ([t], 0)"
  consider (skip) k where "load_pending_rows rows = Inr (results, k)" "skipped = k + 1"
    | (row) d m meta rs where "json_loads payload = Some (PDict d)" "deserialize_matched_row d = Some (m, meta)"
        "load_pending_rows rows = Inr (rs, skipped)" "results = replayed_result m meta # rs"
    using Cons.prems by (auto simp: e map_sum_Inr_iff split: option.splits pyval.splits)
  then show ?case
  proof cases
    case skip
    then show ?thesis using Cons.IH [OF skip(1)] by simp
  next
    case row
    have "row_ok m \<and> dict_ok meta"
      using row_read [OF row(2)] json_loads_ok [OF row(1)] by simp
    then have "?P (replayed_result m meta)"
      using load_written_plain [of m "mr_desired_state m" meta dataset rid "[]"]
      by (simp add: replayed_result_def row_ok_def)
    with row show ?thesis using Cons.IH [OF row(3)] by (simp del: load_pending_rows.simps)
  qed
qed simp

lemma replayed_rows_typed_witness:
  "load_pending_rows [(''users'', ''r0'', ''{''), (''users'', ''r1'', serialize_pending example_row [] (Some (Plain_Dict [])))]
     = Inr ([replayed_result (example_row\<lparr>mr_desired_state := []\<rparr>) []], 1)
   \<and> row_ok (example_row\<lparr>mr_desired_state := []\<rparr>)"
proof -
  let ?t = "replayed_result (example_row\<lparr>mr_desired_state := []\<rparr>) []"
  have "json_loads ''{'' = None" by code_simp
  then have l: "load_pending_rows [(''users'', ''r0'', ''{''), (''users'', ''r1'', serialize_pending example_row [] (Some (Plain_Dict [])))]
     = Inr ([?t], 1)"
    using load_written_plain [of example_row "[]" "[]" "''users''" "''r1''" "[]"] by simp
  with replayed_rows_typed [OF l] show ?thesis by (simp add: replayed_result_def)
qed

text \<open>
  The reader raises, and no row of the table is replayed, exactly when some stored text is JSON but no
  object.
\<close>

theorem pending_load_raises:
  "isl (load_pending_rows rows) \<longleftrightarrow> (\<exists>(dataset, rid, payload) \<in> set rows. \<exists>v. json_loads payload = Some v \<and> dict_or_none v = None)"
proof (induction rows)
  case (Cons e rows)
  obtain dataset rid payload where e: "e = (dataset, rid, payload)" by (cases e)
  have m: "isl (map_sum id f r) \<longleftrightarrow> isl r" for f :: "'x \<Rightarrow> 'y" and r by (cases r) simp_all
  show ?case
  proof (cases "json_loads payload")
    case None
    then show ?thesis using Cons by (simp add: e m)
  next
    case (Some v)
    then show ?thesis using Cons by (cases v) (auto simp: e m dict_or_none_def split: option.split)
  qed
qed simp

end
