(* ===== verification/Resolve_Rules.thy ===== *)
theory Resolve_Rules
  imports Pending_Codec
begin

text \<open>
  Model of the resolve rules: the specification (\<open>domain/transform_dsl/specs/resolve.py\<close>) with its validators,
  its compilation (\<open>transform_dsl/compilers/resolve.py\<close>), whose closures are functions here, and the check of
  single fields against the sink schema (\<open>transform/common/sink_schema.py\<close>, \<open>dsl/diagnostics.py\<close>).

  A row of the pipeline is a dictionary; on an object, attributes take the place of keys.
\<close>

section \<open>Text\<close>

text \<open>\<open>normalize_text(value, empty_to_none=False)\<close>.\<close>

definition normalize_text :: "pyval \<Rightarrow> pyval" where
  "normalize_text v = (if v = PNone then PNone else PStr (py_join '' '' (py_words (py_str v))))"

definition to_bool :: "pyval \<Rightarrow> pyval" where
  "to_bool v =
     (case v of
        PBool b \<Rightarrow> PBool b
      | PInt i \<Rightarrow> PBool (i \<noteq> 0)
      | PStr s \<Rightarrow>
          (let n = py_lower (py_strip s)
           in if n \<in> {''1'', ''true'', ''yes'', ''y''} then PBool True
              else if n \<in> {''0'', ''false'', ''no'', ''n''} then PBool False else PNone)
      | _ \<Rightarrow> PNone)"

definition normalize_for_mode :: "pyval \<Rightarrow> string \<Rightarrow> pyval" where
  "normalize_for_mode v mode = (if mode = ''text'' then normalize_text v else if mode = ''bool'' then to_bool v else v)"

text \<open>\<open>v in (None, "")\<close>.\<close>

definition blank_value :: "pyval \<Rightarrow> bool" where
  "blank_value v \<longleftrightarrow> v = PNone \<or> v = PStr []"

section \<open>The sink schema\<close>

record sink_field =
  sf_name :: string
  sf_type :: string
  sf_required :: bool
  sf_nullable :: bool

record sink_spec =
  sk_fields :: "sink_field list"
  sk_system_fields :: "sink_field list"

record dsl_issue =
  di_issue_code :: string
  di_issue_message :: string
  di_issue_field :: "string option"
  di_issue_details :: "(string, pyval) dict option"
  di_issue_warning :: bool

text \<open>\<open>float(s)\<close> does not raise: a sign, then a decimal with an optional exponent, or one of the names.\<close>

definition float_text :: "string \<Rightarrow> bool" where
  "float_text s =
     (let t = py_lower (py_strip s);
          u = (case t of c # v \<Rightarrow> if c = CHR ''-'' \<or> c = CHR ''+'' then v else t | [] \<Rightarrow> []);
          mant = takeWhile (\<lambda>c. c \<noteq> CHR ''e'') u;
          expo = dropWhile (\<lambda>c. c \<noteq> CHR ''e'') u;
          whole = takeWhile (\<lambda>c. c \<noteq> CHR ''.'') mant;
          frac = dropWhile (\<lambda>c. c \<noteq> CHR ''.'') mant
      in u \<in> {''inf'', ''infinity'', ''nan''}
         \<or> (if frac = [] then digit_groups whole
            else (whole = [] \<or> digit_groups whole) \<and> (tl frac = [] \<or> digit_groups (tl frac)) \<and> (whole \<noteq> [] \<or> tl frac \<noteq> []))
           \<and> (expo = [] \<or> digit_groups (case tl expo of c # v \<Rightarrow> if c = CHR ''-'' \<or> c = CHR ''+'' then v else c # v | [] \<Rightarrow> [])))"

text \<open>\<open>s.isdigit()\<close>: the decimal digits and the superscripts of Latin-1.\<close>

definition all_digits :: "string \<Rightarrow> bool" where
  "all_digits s \<longleftrightarrow> s \<noteq> [] \<and> list_all (\<lambda>c. is_digit c \<or> c \<in> {CHR 0xB2, CHR 0xB3, CHR 0xB9}) s"

definition matches_type :: "pyval \<Rightarrow> string \<Rightarrow> bool" where
  "matches_type v expected =
     (if expected = ''string'' then (case v of PStr _ \<Rightarrow> True | _ \<Rightarrow> False)
      else if expected = ''bool'' then
        (case v of PBool _ \<Rightarrow> True
         | PStr s \<Rightarrow> py_lower (py_strip s) \<in> {''true'', ''false'', ''1'', ''0'', ''yes'', ''no'', ''y'', ''n''} | _ \<Rightarrow> False)
      else if expected = ''int'' then (case v of PInt _ \<Rightarrow> True | PStr s \<Rightarrow> all_digits (py_strip s) | _ \<Rightarrow> False)
      else if expected = ''float'' then (case v of PInt _ \<Rightarrow> True | PFloat _ \<Rightarrow> True | PStr s \<Rightarrow> float_text s | _ \<Rightarrow> False)
      else if expected = ''object'' then (case v of PDict _ \<Rightarrow> True | _ \<Rightarrow> False)
      else if expected = ''list'' then (case v of PList _ \<Rightarrow> True | _ \<Rightarrow> False)
      else True)"

definition missing_required_issue :: "string \<Rightarrow> dsl_issue" where
  "missing_required_issue fld =
     \<lparr>di_issue_code = ''SINK_REQUIRED_MISSING'', di_issue_message = fld @ '' is required by sink schema'', di_issue_field = Some fld,
      di_issue_details = None, di_issue_warning = False\<rparr>"

definition type_issue :: "string \<Rightarrow> string \<Rightarrow> pyval \<Rightarrow> dsl_issue" where
  "type_issue fld expected v =
     \<lparr>di_issue_code = ''SINK_TYPE_INVALID'', di_issue_message = fld @ '' has invalid type (expected '' @ expected @ '')'',
      di_issue_field = Some fld, di_issue_details = Some [(''expected'', PStr expected), (''actual'', PStr (type_name v))],
      di_issue_warning = False\<rparr>"

definition validate_field :: "(string, pyval) dict \<Rightarrow> sink_field \<Rightarrow> bool \<Rightarrow> dsl_issue list" where
  "validate_field row f check_types =
     (let name = sf_name f; v = dict_get_or row name PNone;
          missing = map_of row name = None \<or> v = PNone \<and> \<not> sf_nullable f
            \<or> (case v of PStr s \<Rightarrow> py_strip s = [] \<and> \<not> sf_nullable f | _ \<Rightarrow> False)
      in if sf_required f \<and> missing then [missing_required_issue name]
         else if \<not> check_types \<or> v = PNone then []
         else if \<not> matches_type v (sf_type f) then [type_issue name (sf_type f) v] else [])"

text \<open>The index keeps the last field of a name.\<close>

definition validate_sink_fields :: "(string, pyval) dict \<Rightarrow> sink_spec \<Rightarrow> string list \<Rightarrow> bool \<Rightarrow> dsl_issue list" where
  "validate_sink_fields row spec names check_types =
     (let indexed = fold (\<lambda>f. AList.update (sf_name f) f) (sk_fields spec @ sk_system_fields spec) []
      in concat (map (\<lambda>name. case map_of indexed name of None \<Rightarrow> [] | Some f \<Rightarrow> validate_field row f check_types) names))"

text \<open>\<open>append_dsl_issue(s)\<close>: the diagnostics of the issues, (errors, warnings).\<close>

fun append_dsl_issues ::
    "error_catalog \<Rightarrow> diagnostic_stage \<Rightarrow> row_ref option \<Rightarrow> string option \<Rightarrow> dsl_issue list
     \<Rightarrow> diagnostic_item list \<times> diagnostic_item list \<Rightarrow> (diagnostic_item list \<times> diagnostic_item list) result" where
  "append_dsl_issues cat stage rref on_error [] (errs, warns) = Inr (errs, warns)"
| "append_dsl_issues cat stage rref on_error (i # iss) (errs, warns) =
     (if di_issue_warning i \<or> on_error = Some ''warn''
      then bind_r (build_warning cat stage (di_issue_code i) (di_issue_field i) (Some (di_issue_message i)) rref (di_issue_details i)
                     (Some SEVERITY_WARNING))
             (\<lambda>d. append_dsl_issues cat stage rref on_error iss (errs, warns @ [d]))
      else bind_r (build_error cat stage (di_issue_code i) (di_issue_field i) (Some (di_issue_message i)) rref (di_issue_details i) None)
             (\<lambda>d. append_dsl_issues cat stage rref on_error iss (errs @ [d], warns)))"

section \<open>Specification\<close>

record source_ref_spec =
  srs_fields :: "string list"
  srs_include_primary :: bool

record diff_field_spec =
  dfs_field :: string
  dfs_existing :: "string option"
  dfs_output :: "string option"
  dfs_normalize :: string

record diff_spec =
  dfp_fields :: "diff_field_spec list"
  dfp_ignore_fields :: "string list"
  dfp_from_sink :: bool
  dfp_exclude_fields :: "string list"
  dfp_normalize_by_type :: bool

record merge_field_spec =
  mfs_field :: string
  mfs_existing :: "string option"
  mfs_normalize :: string

record merge_spec =
  mgs_mode :: string
  mgs_fields :: "merge_field_spec list"

record secret_lifecycle_spec =
  sls_mode :: string
  sls_delete_on_success :: "bool option"
  sls_ttl_seconds :: "int option"

record secrets_spec =
  ses_mode :: string
  ses_create :: "string list"
  ses_update :: "string list"
  ses_lifecycle :: "secret_lifecycle_spec option"

record link_key =
  lk_name :: string
  lk_field :: string

text \<open>\<open>ResolveLinkSpec\<close> and the compiled \<open>LinkFieldRule\<close> have the same fields.\<close>

record link_rule =
  lr_field :: string
  lr_target_dataset :: string
  lr_resolve_keys :: "link_key list"
  lr_dedup_rules :: "string list list"
  lr_target_id_field :: string
  lr_coerce :: "string option"
  lr_on_unresolved :: string

record topology_link_policy =
  tlp_enabled :: bool
  tlp_field :: string
  tlp_on_missing :: string
  tlp_on_ambiguous :: string
  tlp_ladder :: "topology_match_mode list"

record desired_state_spec =
  dss_fields :: "string list"
  dss_drop_fields :: "string list"

record resolve_block =
  rb_desired_state :: "desired_state_spec option"
  rb_source_ref :: "source_ref_spec option"
  rb_diff :: "diff_spec option"
  rb_merge :: "merge_spec option"
  rb_secrets :: "secrets_spec option"
  rb_links :: "link_rule list"
  rb_topology_link :: "topology_link_policy option"

text \<open>The validators of the specification; \<open>None\<close> is acceptance.\<close>

definition validate_link :: "link_rule \<Rightarrow> string option" where
  "validate_link l =
     (if lr_resolve_keys l = [] then Some ''resolve.links[].resolve_keys must not be empty''
      else (case find (\<lambda>(i, rule). rule = [] \<or> list_ex (\<lambda>k. py_strip k = []) rule) (zip [0..<length (lr_dedup_rules l)] (lr_dedup_rules l)) of
          None \<Rightarrow> None
        | Some (i, rule) \<Rightarrow>
            Some (''resolve.links[].dedup_rules['' @ nat_str i @ '']'' @
              (if rule = [] then '' must not be empty'' else '' must not contain empty key names''))))"

definition validate_block :: "resolve_block \<Rightarrow> string option" where
  "validate_block b =
     (let names = map lr_field (rb_links b);
          duplicates = sort (dict_fromkeys (filter (\<lambda>n. 1 < count_list names n) names))
      in if duplicates \<noteq> [] then Some (''resolve.links has duplicate field entries: '' @ py_repr (str_list duplicates))
         else if rb_desired_state b = None then Some ''resolve.desired_state is required''
         else if rb_diff b = None then Some ''resolve.diff is required'' else None)"

section \<open>Compilation\<close>

record lifecycle_policy =
  lp_mode :: string
  lp_delete_on_success :: bool
  lp_ttl_seconds :: "int option"

record resolve_rules =
  rr_build_desired_state :: "(string, pyval) dict \<Rightarrow> (string, pyval) dict"
  rr_build_source_ref :: "(identity \<Rightarrow> (string, pyval) dict) option"
  rr_diff_policy :: "((string, pyval) dict option \<Rightarrow> (string, pyval) dict \<Rightarrow> (string, pyval) dict) option"
  rr_secret_fields_for_op :: "(resolve_op \<Rightarrow> (string, pyval) dict \<Rightarrow> (string, pyval) dict option \<Rightarrow> string list) option"
  rr_secret_lifecycle :: "lifecycle_policy option"
  rr_merge_policy :: "((string, pyval) dict option \<Rightarrow> (string, pyval) dict \<Rightarrow> (string, pyval) dict option) option"

definition compile_desired_state :: "desired_state_spec \<Rightarrow> (string, pyval) dict \<Rightarrow> (string, pyval) dict" where
  "compile_desired_state spec row =
     filter (\<lambda>(k, v). k \<notin> set (dss_drop_fields spec))
       (fold (\<lambda>name. AList.update name (dict_get_or row name PNone)) (dss_fields spec) [])"

definition compile_source_ref :: "source_ref_spec \<Rightarrow> identity \<Rightarrow> (string, pyval) dict" where
  "compile_source_ref spec i =
     (let primary = id_primary i; pv = PStr (primary_value i) in
      if srs_fields spec = [] then (if srs_include_primary spec then [(primary, pv)] else [])
      else (let ref = fold (\<lambda>name ref.
                 let v = (case map_of (id_values i) name of None \<Rightarrow> PNone | Some s \<Rightarrow> PStr s);
                     v = (if blank_value v \<and> srs_include_primary spec \<and> name = primary then pv else v)
                 in if blank_value v then ref else AList.update name v ref) (srs_fields spec) []
            in if srs_include_primary spec \<and> map_of ref primary = None then AList.update primary pv ref else ref))"

text \<open>\<open>_build_diff_rules\<close>: the fields of the sink, each overridden by the rule of its name, and the other rules.\<close>

definition sink_diff_rules :: "diff_spec \<Rightarrow> sink_spec \<Rightarrow> diff_field_spec list" where
  "sink_diff_rules spec sink =
     map (\<lambda>f. \<lparr>dfs_field = sf_name f, dfs_existing = None, dfs_output = None,
            dfs_normalize = (if dfp_normalize_by_type spec
              then (if sf_type f = ''string'' then ''text'' else if sf_type f = ''bool'' then ''bool'' else ''none'') else ''none'')\<rparr>)
       (filter (\<lambda>f. sf_name f \<notin> set (dfp_exclude_fields spec)) (sk_fields sink))"

definition last_position :: "diff_field_spec list \<Rightarrow> string \<Rightarrow> nat option" where
  "last_position rules name =
     (case filter (\<lambda>i. dfs_field (rules ! i) = name) [0..<length rules] of [] \<Rightarrow> None | is \<Rightarrow> Some (last is))"

definition override_rule :: "diff_field_spec \<Rightarrow> diff_field_spec list \<Rightarrow> diff_field_spec list" where
  "override_rule r rules =
     (case last_position rules (dfs_field r) of None \<Rightarrow> rules @ [r] | Some i \<Rightarrow> rules[i := r])"

definition build_diff_rules :: "diff_spec \<Rightarrow> sink_spec option \<Rightarrow> diff_field_spec list result" where
  "build_diff_rules spec sink =
     (if \<not> dfp_from_sink spec then Inr (dfp_fields spec)
      else (case sink of
          None \<Rightarrow> Inl (DslLoadError ''RESOLVE_DSL_COMPILE_INVALID''
                    ''resolve.diff.from_sink.enabled=true requires sink_spec for ResolveDsl.compile()'')
        | Some sink \<Rightarrow> Inr (fold override_rule (dfp_fields spec) (sink_diff_rules spec sink))))"

definition compiled_diff ::
    "diff_field_spec list \<Rightarrow> string list \<Rightarrow> (string, pyval) dict option \<Rightarrow> (string, pyval) dict \<Rightarrow> (string, pyval) dict" where
  "compiled_diff rules ignored existing desired =
     (case existing of
        None \<Rightarrow> []
      | Some old \<Rightarrow>
          if old = [] then []
          else fold (\<lambda>rule changes.
            if dfs_field rule \<in> set ignored then changes
            else (let want = normalize_for_mode (dict_get_or desired (dfs_field rule) PNone) (dfs_normalize rule);
                      have = normalize_for_mode (dict_get_or old (str_or (dfs_existing rule) (dfs_field rule)) PNone) (dfs_normalize rule)
                  in if py_eq have want then changes else AList.update (str_or (dfs_output rule) (dfs_field rule)) want changes))
            rules [])"

definition compiled_merge ::
    "merge_field_spec list \<Rightarrow> (string, pyval) dict option \<Rightarrow> (string, pyval) dict \<Rightarrow> (string, pyval) dict" where
  "compiled_merge rules existing desired =
     (case existing of
        None \<Rightarrow> desired
      | Some old \<Rightarrow>
          fold (\<lambda>rule merged.
            if old = [] \<or> \<not> blank_value (dict_get_or merged (mfs_field rule) PNone) then merged
            else (let fallback = normalize_for_mode (dict_get_or old (str_or (mfs_existing rule) (mfs_field rule)) PNone) (mfs_normalize rule)
                  in if blank_value fallback then merged else AList.update (mfs_field rule) fallback merged))
            rules desired)"

definition compile_secret_fields ::
    "secrets_spec option \<Rightarrow> (resolve_op \<Rightarrow> (string, pyval) dict \<Rightarrow> (string, pyval) dict option \<Rightarrow> string list) option" where
  "compile_secret_fields spec =
     (case spec of
        None \<Rightarrow> None
      | Some s \<Rightarrow>
          if ses_mode s = ''none'' then None
          else Some (\<lambda>op desired existing. case op of
              Resolve_CREATE \<Rightarrow> ses_create s | Resolve_UPDATE \<Rightarrow> ses_update s | _ \<Rightarrow> []))"

definition compile_secret_lifecycle :: "secrets_spec option \<Rightarrow> lifecycle_policy" where
  "compile_secret_lifecycle spec =
     (case Option.bind spec ses_lifecycle of
        None \<Rightarrow> \<lparr>lp_mode = ''persistent'', lp_delete_on_success = False, lp_ttl_seconds = None\<rparr>
      | Some l \<Rightarrow>
          \<lparr>lp_mode = sls_mode l,
           lp_delete_on_success = (case sls_delete_on_success l of Some b \<Rightarrow> b | None \<Rightarrow> sls_mode l = ''ephemeral''),
           lp_ttl_seconds = sls_ttl_seconds l\<rparr>)"

definition compile_merge ::
    "merge_spec option \<Rightarrow> ((string, pyval) dict option \<Rightarrow> (string, pyval) dict \<Rightarrow> (string, pyval) dict option) option" where
  "compile_merge spec =
     (case spec of
        None \<Rightarrow> None
      | Some m \<Rightarrow> if mgs_mode m = ''none'' then None
                   else Some (\<lambda>existing desired. Some (compiled_merge (mgs_fields m) existing desired)))"

definition compile_rules :: "resolve_block \<Rightarrow> sink_spec option \<Rightarrow> resolve_rules result" where
  "compile_rules b sink =
     (case (rb_desired_state b, rb_diff b) of
        (Some desired, Some diff) \<Rightarrow>
          bind_r (build_diff_rules diff sink) (\<lambda>rules.
            Inr \<lparr>rr_build_desired_state = compile_desired_state desired,
                 rr_build_source_ref = map_option compile_source_ref (rb_source_ref b),
                 rr_diff_policy = Some (compiled_diff rules (dfp_ignore_fields diff)),
                 rr_secret_fields_for_op = compile_secret_fields (rb_secrets b),
                 rr_secret_lifecycle = Some (compile_secret_lifecycle (rb_secrets b)),
                 rr_merge_policy = compile_merge (rb_merge b)\<rparr>)
      | _ \<Rightarrow> Inl (DslLoadError ''RESOLVE_DSL_COMPILE_INVALID''
                ''resolve.desired_state and resolve.diff are required for Resolve DSL v2''))"

text \<open>\<open>ResolveDsl.compile\<close>: rules, link rules and the topology policy.\<close>

definition compile_resolve ::
    "bool \<Rightarrow> resolve_block \<Rightarrow> sink_spec option \<Rightarrow> (resolve_rules \<times> link_rule list \<times> topology_link_policy option) result" where
  "compile_resolve allow_pending_links b sink =
     (let pending = map lr_field (filter (\<lambda>l. lr_on_unresolved l = ''pending'') (rb_links b))
      in if \<not> allow_pending_links \<and> pending \<noteq> []
         then Inl (DslLoadError ''RESOLVE_DSL_COMPILE_INVALID''
                (''resolve links with on_unresolved='' @ repr_string ''pending'' @ '' are disabled by build options: '' @ py_join '', '' pending))
         else bind_r (compile_rules b sink) (\<lambda>rules. Inr (rules, rb_links b, rb_topology_link b)))"

end
