(* ===== verification/Resolver.thy ===== *)
theory Resolver
  imports Resolve_Rules Identity_Store Step_Monad
begin

text \<open>
  Model of \<open>domain/transform/resolver/resolve_core.py\<close>: the operation of a matched row, its links to
  other records with the pending table, and the batch index.

  The runtime port is the identity database of \<open>Identity_Store\<close>.  The statements of one row share the text of
  CURRENT_TIMESTAMP; \<open>re_expiry\<close> gives the text of now plus a number of seconds; the locator builder and the link
  service of the topology are functions; MD5 is a function.  A Python set is the list of its members in some order.
  Log lines are left out.
\<close>

section \<open>Environment\<close>

record topology_link_result =
  tl_resolved_field :: string
  tl_resolved_target_id :: pyval
  tl_is_pending :: bool
  tl_is_ambiguous :: bool
  tl_mode :: topology_match_mode
  tl_reason :: "string option"
  tl_evidence :: "(string, pyval) dict"

record resolve_env =
  re_rules :: resolve_rules
  re_links :: "link_rule list"
  re_gateway :: bool
  re_settings :: resolver_settings
  re_catalog :: error_catalog
  re_sink :: "sink_spec option"
  re_topology_policy :: "topology_link_policy option"
  re_topology_service :: "(string \<Rightarrow> string list \<Rightarrow> string list \<Rightarrow> topology_link_result result) option"
  re_locator :: "(source_record \<Rightarrow> string list option result) option"
  re_md5 :: "string \<Rightarrow> string"
  re_now :: string
  re_expiry :: "int \<Rightarrow> string"

type_synonym batch_index = "(string, string list) dict"

section \<open>The batch index\<close>

definition collect_batch_keys :: "link_rule list \<Rightarrow> string list \<times> string" where
  "collect_batch_keys rules =
     (dict_fromkeys (concat (map (\<lambda>r. map lk_name (lr_resolve_keys r) @ concat (lr_dedup_rules r)) rules)),
      fold (\<lambda>r id_field. if id_field \<noteq> lr_target_id_field r then lr_target_id_field r else id_field) rules ''_id'')"

definition extract_resolved_id :: "matched_row \<Rightarrow> string \<Rightarrow> string option" where
  "extract_resolved_id row id_field =
     (let existing_id = (if resolve_decision_status row = Match_MATCHED
            then (case mr_existing row of None \<Rightarrow> PNone | Some e \<Rightarrow> dict_get_or e id_field PNone) else PNone);
          desired_id = dict_get_or (mr_desired_state row) id_field PNone
      in if existing_id \<noteq> PNone then Some (py_strip (py_str existing_id))
         else if desired_id \<noteq> PNone then Some (py_strip (py_str desired_id))
         else if id_field = ''_id'' \<and> str_or (mr_target_id row) [] \<noteq> [] then Some (py_strip (str_or (mr_target_id row) []))
         else None)"

definition extract_identity_value :: "matched_row \<Rightarrow> string \<Rightarrow> string option" where
  "extract_identity_value row key_name =
     (let v = dict_get_or (id_values (mr_identity row)) key_name [];
          raw = dict_get_or (mr_desired_state row) key_name PNone
      in if v \<noteq> [] then Some (py_strip v)
         else if raw \<noteq> PNone then Some (py_strip (py_str raw)) else None)"

definition index_row :: "string list \<Rightarrow> string \<Rightarrow> matched_row \<Rightarrow> batch_index \<Rightarrow> batch_index" where
  "index_row key_names id_field row index =
     (case extract_resolved_id row id_field of
        None \<Rightarrow> index
      | Some rid \<Rightarrow>
          if rid = [] then index
          else fold (\<lambda>key_name index.
            (case extract_identity_value row key_name of
               None \<Rightarrow> index | Some v \<Rightarrow> dict_append index (format_identity_key key_name v) rid)) key_names index)"

definition build_batch_index :: "resolve_env \<Rightarrow> matched_row transform_result list \<Rightarrow> batch_index" where
  "build_batch_index env rows =
     (let (key_names, id_field) = collect_batch_keys (re_links env)
      in if key_names = [] then []
         else fold (\<lambda>r index. case tr_row r of None \<Rightarrow> index | Some row \<Rightarrow> index_row key_names id_field row index) rows [])"

section \<open>Looking a link up\<close>

definition lookup_candidates :: "batch_index option \<Rightarrow> identity_db \<Rightarrow> string \<Rightarrow> string \<Rightarrow> string list" where
  "lookup_candidates batch db dataset lookup_key =
     (let hits = (case batch of None \<Rightarrow> [] | Some index \<Rightarrow> dict_get_or index lookup_key [])
      in if hits \<noteq> [] then dict_fromkeys hits else find_candidates dataset lookup_key db)"

definition extract_link_key_overrides :: "py_mapping option \<Rightarrow> string \<Rightarrow> (string, string) dict option" where
  "extract_link_key_overrides meta fld =
     (case dict_get_or (case meta of None \<Rightarrow> [] | Some m \<Rightarrow> mapping_items m) ''link_keys'' PNone of
        PDict link_keys \<Rightarrow>
          (case dict_get_or link_keys fld PNone of
             PDict overrides \<Rightarrow>
               (let cleaned = fold (\<lambda>(name, v) d.
                    if v = PNone \<or> py_strip (py_str v) = [] then d else AList.update name (py_strip (py_str v)) d) overrides []
                in if cleaned = [] then None else Some cleaned)
           | _ \<Rightarrow> None)
      | _ \<Rightarrow> None)"

definition extract_key_values ::
    "(string, pyval) dict \<Rightarrow> link_key list \<Rightarrow> (string, string) dict option \<Rightarrow> (string, string) dict" where
  "extract_key_values desired keys overrides =
     fold (\<lambda>key d.
       let v = (case Option.bind overrides (\<lambda>given. map_of given (lk_name key)) of
                  Some s \<Rightarrow> PStr s | None \<Rightarrow> dict_get_or desired (lk_field key) PNone)
       in if v = PNone \<or> py_strip (py_str v) = [] then d else AList.update (lk_name key) (py_strip (py_str v)) d) keys []"

text \<open>
  One rule: the members of \<open>remaining\<close> found under every key of the rule; none when a key has no value.
\<close>

fun dedup_candidates ::
    "batch_index option \<Rightarrow> identity_db \<Rightarrow> string \<Rightarrow> (string, string) dict \<Rightarrow> (string, pyval) dict
     \<Rightarrow> string list \<Rightarrow> string list \<Rightarrow> string list" where
  "dedup_candidates batch db dataset key_values desired [] found = found"
| "dedup_candidates batch db dataset key_values desired (key_name # names) found =
     (let given = dict_get_or key_values key_name [];
          raw = dict_get_or desired key_name PNone;
          lookup_value = (if given \<noteq> [] then given else if raw = PNone then [] else py_strip (py_str raw))
      in if lookup_value = [] then []
         else dedup_candidates batch db dataset key_values desired names
           (filter (\<lambda>c. c \<in> set (lookup_candidates batch db dataset (format_identity_key key_name lookup_value))) found))"

fun narrow_candidates ::
    "batch_index option \<Rightarrow> identity_db \<Rightarrow> string \<Rightarrow> (string, string) dict \<Rightarrow> (string, pyval) dict
     \<Rightarrow> string list list \<Rightarrow> string list \<Rightarrow> string list" where
  "narrow_candidates batch db dataset key_values desired [] remaining = remaining"
| "narrow_candidates batch db dataset key_values desired (dedup # rules) remaining =
     (if remaining = [] then []
      else (let found = dedup_candidates batch db dataset key_values desired dedup remaining;
                remaining = (if found \<noteq> [] then found else remaining)
            in if length remaining = 1 then remaining
               else narrow_candidates batch db dataset key_values desired rules remaining))"

definition apply_dedup_rules ::
    "string list \<Rightarrow> link_rule \<Rightarrow> (string, string) dict \<Rightarrow> (string, pyval) dict \<Rightarrow> batch_index option \<Rightarrow> identity_db
     \<Rightarrow> string list" where
  "apply_dedup_rules candidates rule key_values desired batch db =
     (if lr_dedup_rules rule = [] then candidates
      else narrow_candidates batch db (lr_target_dataset rule) key_values desired (lr_dedup_rules rule)
             (dict_fromkeys candidates))"

record lookup_outcome =
  lo_resolved_id :: "string option"
  lo_reason :: "string option"
  lo_used_lookup :: "string option"
  lo_candidate_ids :: "string list"

fun lookup_keys ::
    "link_rule \<Rightarrow> (string, string) dict \<Rightarrow> (string, pyval) dict \<Rightarrow> batch_index option \<Rightarrow> identity_db
     \<Rightarrow> link_key list \<Rightarrow> string option \<Rightarrow> lookup_outcome" where
  "lookup_keys rule key_values desired batch db [] used =
     \<lparr>lo_resolved_id = None, lo_reason = Some ''no candidates found for link'', lo_used_lookup = used, lo_candidate_ids = []\<rparr>"
| "lookup_keys rule key_values desired batch db (key # keys) used =
     (let v = dict_get_or key_values (lk_name key) [];
          lookup_key = format_identity_key (lk_name key) v;
          candidates = lookup_candidates batch db (lr_target_dataset rule) lookup_key;
          narrowed = (if length candidates = 1 then candidates
                      else apply_dedup_rules candidates rule key_values desired batch db)
      in if v = [] then lookup_keys rule key_values desired batch db keys used
         else if candidates = [] then lookup_keys rule key_values desired batch db keys (Some lookup_key)
         else if length narrowed = 1
         then \<lparr>lo_resolved_id = Some (hd narrowed), lo_reason = None, lo_used_lookup = Some lookup_key, lo_candidate_ids = narrowed\<rparr>
         else \<lparr>lo_resolved_id = None, lo_reason = Some ''multiple candidates found for link'', lo_used_lookup = Some lookup_key,
               lo_candidate_ids = narrowed\<rparr>)"

definition resolve_with_rules ::
    "link_rule \<Rightarrow> (string, string) dict \<Rightarrow> (string, pyval) dict \<Rightarrow> identity_db \<Rightarrow> batch_index option \<Rightarrow> lookup_outcome" where
  "resolve_with_rules rule key_values desired db batch =
     lookup_keys rule key_values desired batch db (lr_resolve_keys rule) None"

section \<open>The topology decision\<close>

datatype topology_action = Topology_Legacy | Topology_Pending | Topology_Hard_Error

record topology_decision =
  td_resolved_id :: "string option"
  td_reason :: "string option"
  td_action :: topology_action

definition is_topology_link_enabled :: "resolve_env \<Rightarrow> link_rule \<Rightarrow> bool" where
  "is_topology_link_enabled env rule =
     (case re_topology_policy env of None \<Rightarrow> False | Some p \<Rightarrow> tlp_enabled p \<and> tlp_field p = lr_field rule)"

definition apply_topology_policy ::
    "resolve_env \<Rightarrow> string list \<Rightarrow> bool \<Rightarrow> string \<Rightarrow> string list option \<Rightarrow> topology_link_result option \<Rightarrow> topology_decision" where
  "apply_topology_policy env candidate_ids ambiguous fallback_reason locator res =
     (case re_topology_policy env of
        None \<Rightarrow> \<lparr>td_resolved_id = None, td_reason = Some fallback_reason, td_action = Topology_Legacy\<rparr>
      | Some p \<Rightarrow>
          (let action = (if ambiguous then tlp_on_ambiguous p else tlp_on_missing p);
               details = PDict ([(''source_segments'', str_list (case locator of None \<Rightarrow> [] | Some s \<Rightarrow> s)),
                   (''candidate_ids'', str_list candidate_ids)]
                 @ (case res of None \<Rightarrow> [] | Some r \<Rightarrow>
                     [(''topology_reason'', opt_str (tl_reason r)), (''topology_mode'', PStr (mode_value (tl_mode r)))]))
           in if action = ''skip''
              then \<lparr>td_resolved_id = None, td_reason = Some ''multiple candidates found for link'', td_action = Topology_Legacy\<rparr>
              else if action = ''pending''
              then \<lparr>td_resolved_id = None, td_reason = Some fallback_reason, td_action = Topology_Pending\<rparr>
              else \<lparr>td_resolved_id = None, td_reason = Some (fallback_reason @ ''; details='' @ py_str details),
                    td_action = Topology_Hard_Error\<rparr>))"

definition resolve_with_topology ::
    "resolve_env \<Rightarrow> link_rule \<Rightarrow> source_record \<Rightarrow> string list \<Rightarrow> topology_decision option result" where
  "resolve_with_topology env rule rec candidate_ids =
     (case (re_topology_service env, re_locator env) of
        (Some service, Some build) \<Rightarrow>
          bind_r (build rec) (\<lambda>locator. case locator of
             None \<Rightarrow> Inr (Some (apply_topology_policy env candidate_ids False ''topology source locator is empty'' None None))
           | Some segments \<Rightarrow>
               bind_r (service (lr_field rule) segments candidate_ids) (\<lambda>res. Inr (Some
                 (if tl_resolved_target_id res \<noteq> PNone
                  then \<lparr>td_resolved_id = Some (py_str (tl_resolved_target_id res)), td_reason = None, td_action = Topology_Legacy\<rparr>
                  else if tl_is_ambiguous res
                  then apply_topology_policy env candidate_ids True (str_or (tl_reason res) ''topology link is ambiguous'') locator (Some res)
                  else apply_topology_policy env candidate_ids False (str_or (tl_reason res) ''topology link confirmation is missing'')
                         locator (Some res)))))
      | _ \<Rightarrow> Inr None)"

section \<open>Pending links\<close>

record link_acc =
  la_desired :: "(string, pyval) dict"
  la_errors :: "diagnostic_item list"
  la_warnings :: "diagnostic_item list"
  la_pending_created :: bool
  la_should_stop :: bool
  la_changed :: "string list"

definition resolve_error ::
    "resolve_env \<Rightarrow> matched_row \<Rightarrow> string \<Rightarrow> string option \<Rightarrow> string \<Rightarrow> diagnostic_item result" where
  "resolve_error env m code fld message =
     build_error (re_catalog env) RESOLVE code fld (Some message) (Some (mr_row_ref m)) None None"

definition build_expires_at :: "resolve_env \<Rightarrow> string option" where
  "build_expires_at env =
     (let ttl = rs_pending_ttl_seconds (re_settings env) in if ttl \<le> 0 then None else Some (re_expiry env ttl))"

definition create_pending_link ::
    "resolve_env \<Rightarrow> matched_row \<Rightarrow> link_rule \<Rightarrow> py_mapping option \<Rightarrow> string \<Rightarrow> string option \<Rightarrow> link_acc
     \<Rightarrow> (identity_db, link_acc) step" where
  "create_pending_link env m rule meta lookup_key reason acc =
     bind_s (call_s (add_pending (re_now env) (lr_target_dataset rule) (rr_row_id (mr_row_ref m)) (lr_field rule) lookup_key
               (build_expires_at env) (Some (serialize_pending m (la_desired acc) meta)))) (\<lambda>pending_id.
     bind_s (call_s (touch_attempt (re_now env) pending_id)) (\<lambda>attempts.
       let max_attempts = rs_pending_max_attempts (re_settings env) in
       if 0 < max_attempts \<and> max_attempts \<le> attempts
       then bind_s (update_s (mark_conflict (re_now env) pending_id (Some ''max attempts reached''))) (\<lambda>_.
            bind_s (lift_s (resolve_error env m ''RESOLVE_MAX_ATTEMPTS'' (Some (lr_field rule)) ''pending max attempts reached'')) (\<lambda>d.
            return_s (acc\<lparr>la_errors := la_errors acc @ [d], la_pending_created := True, la_should_stop := True\<rparr>)))
       else bind_s (lift_s (build_warning (re_catalog env) RESOLVE ''RESOLVE_PENDING'' (Some (lr_field rule))
                      (Some (str_or reason ''link is pending'')) (Some (mr_row_ref m)) None None)) (\<lambda>d.
            return_s (acc\<lparr>la_warnings := la_warnings acc @ [d], la_pending_created := True,
                          la_should_stop := \<not> rs_pending_allow_partial (re_settings env)\<rparr>))))"

section \<open>The links of a row\<close>

definition coerce_resolved :: "string \<Rightarrow> link_rule \<Rightarrow> pyval" where
  "coerce_resolved rid rule =
     (if lr_coerce rule = Some ''int'' then (case parse_int rid of Some i \<Rightarrow> PInt i | None \<Rightarrow> PStr rid) else PStr rid)"

definition should_skip_int :: "link_rule \<Rightarrow> bool" where
  "should_skip_int rule \<longleftrightarrow> \<not> list_ex (\<lambda>k. lk_name k = lr_target_id_field rule) (lr_resolve_keys rule)"

definition is_py_int :: "pyval \<Rightarrow> bool" where
  "is_py_int v = (case v of PInt i \<Rightarrow> True | PBool b \<Rightarrow> True | _ \<Rightarrow> False)"

text \<open>\<open>RESOLVE_CONFLICT\<close>: the row stops.\<close>

definition hard_error ::
    "resolve_env \<Rightarrow> matched_row \<Rightarrow> link_rule \<Rightarrow> string option \<Rightarrow> link_acc \<Rightarrow> (identity_db, link_acc) step" where
  "hard_error env m rule reason acc =
     bind_s (lift_s (resolve_error env m ''RESOLVE_CONFLICT'' (Some (lr_field rule)) (str_or reason ''link is unresolved''))) (\<lambda>d.
       return_s (acc\<lparr>la_errors := la_errors acc @ [d], la_should_stop := True\<rparr>))"

definition store_resolved :: "link_rule \<Rightarrow> string \<Rightarrow> link_acc \<Rightarrow> link_acc" where
  "store_resolved rule rid acc =
     (let v = coerce_resolved rid rule
      in if py_eq (dict_get_or (la_desired acc) (lr_field rule) PNone) v then acc
         else acc\<lparr>la_desired := AList.update (lr_field rule) v (la_desired acc),
                  la_changed := la_changed acc @ [lr_field rule]\<rparr>)"

text \<open>The links of the loop; the value \<open>False\<close> of a step leaves the loop.\<close>

definition finish_link ::
    "resolve_env \<Rightarrow> matched_row \<Rightarrow> link_rule \<Rightarrow> py_mapping option \<Rightarrow> string option \<Rightarrow> string option \<Rightarrow> string option \<Rightarrow> link_acc
     \<Rightarrow> (identity_db, link_acc \<times> bool) step" where
  "finish_link env m rule meta resolved_id reason used acc =
     (case resolved_id of
        Some rid \<Rightarrow> return_s (store_resolved rule rid acc, True)
      | None \<Rightarrow>
          if lr_on_unresolved rule = ''hard_error''
          then bind_s (hard_error env m rule reason acc) (\<lambda>acc. return_s (acc, False))
          else bind_s (create_pending_link env m rule meta (str_or used []) reason acc) (\<lambda>acc. return_s (acc, True)))"

definition finish_outcome ::
    "resolve_env \<Rightarrow> matched_row \<Rightarrow> link_rule \<Rightarrow> py_mapping option \<Rightarrow> lookup_outcome \<Rightarrow> link_acc
     \<Rightarrow> (identity_db, link_acc \<times> bool) step" where
  "finish_outcome env m rule meta found acc =
     finish_link env m rule meta (lo_resolved_id found) (lo_reason found) (lo_used_lookup found) acc"

definition apply_topology_decision ::
    "resolve_env \<Rightarrow> matched_row \<Rightarrow> link_rule \<Rightarrow> py_mapping option \<Rightarrow> lookup_outcome \<Rightarrow> link_acc \<Rightarrow> topology_decision option
     \<Rightarrow> (identity_db, link_acc \<times> bool) step" where
  "apply_topology_decision env m rule meta found acc decision =
     (case decision of
        None \<Rightarrow> finish_outcome env m rule meta found acc
      | Some d \<Rightarrow>
          (case td_action d of
             Topology_Pending \<Rightarrow>
               bind_s (create_pending_link env m rule meta (str_or (lo_used_lookup found) []) (td_reason d) acc)
                 (\<lambda>acc. return_s (acc, \<not> la_should_stop acc))
           | Topology_Hard_Error \<Rightarrow> bind_s (hard_error env m rule (td_reason d) acc) (\<lambda>acc. return_s (acc, False))
           | Topology_Legacy \<Rightarrow> finish_link env m rule meta (td_resolved_id d) (td_reason d) (lo_used_lookup found) acc))"

definition resolve_link ::
    "resolve_env \<Rightarrow> matched_row \<Rightarrow> source_record \<Rightarrow> py_mapping option \<Rightarrow> batch_index option \<Rightarrow> link_rule \<Rightarrow> link_acc
     \<Rightarrow> (identity_db, link_acc \<times> bool) step" where
  "resolve_link env m rec meta batch rule acc db =
     (let current = dict_get_or (la_desired acc) (lr_field rule) PNone;
          overrides = extract_link_key_overrides meta (lr_field rule);
          key_values = extract_key_values (la_desired acc) (lr_resolve_keys rule) overrides;
          found = resolve_with_rules rule key_values (la_desired acc) db batch
      in if current = PNone \<or> is_py_int current \<and> should_skip_int rule then return_s (acc, True) db
         else if lo_resolved_id found = None \<and> 1 < length (lo_candidate_ids found) \<and> is_topology_link_enabled env rule
         then bind_s (lift_s (resolve_with_topology env rule rec (lo_candidate_ids found)))
                (apply_topology_decision env m rule meta found acc) db
         else finish_outcome env m rule meta found acc db)"

fun link_loop ::
    "resolve_env \<Rightarrow> matched_row \<Rightarrow> source_record \<Rightarrow> py_mapping option \<Rightarrow> batch_index option \<Rightarrow> link_rule list \<Rightarrow> link_acc
     \<Rightarrow> (identity_db, link_acc) step" where
  "link_loop env m rec meta batch [] acc = return_s acc"
| "link_loop env m rec meta batch (rule # rules) acc =
     bind_s (resolve_link env m rec meta batch rule acc) (\<lambda>(acc, more).
       if more then link_loop env m rec meta batch rules acc else return_s acc)"

definition resolve_links ::
    "resolve_env \<Rightarrow> matched_row \<Rightarrow> source_record \<Rightarrow> py_mapping option \<Rightarrow> batch_index option \<Rightarrow> link_acc
     \<Rightarrow> (identity_db, link_acc) step" where
  "resolve_links env m rec meta batch acc =
     (if re_links env = [] then return_s acc
      else if \<not> re_gateway env
      then bind_s (lift_s (resolve_error env m ''RESOLVE_CONFIG_MISSING'' None ''cache gateway is not configured'')) (\<lambda>d.
             return_s (acc\<lparr>la_errors := la_errors acc @ [d], la_should_stop := True\<rparr>))
      else link_loop env m rec meta batch (re_links env) acc)"

section \<open>The operation\<close>

definition resolve_target_id :: "matched_row \<Rightarrow> (string, string) dict \<Rightarrow> string option" where
  "resolve_target_id m target_id_map =
     (if resolve_decision_status m = Match_MATCHED
      then get_str (case mr_existing m of None \<Rightarrow> PNone | Some e \<Rightarrow> dict_get_or e ''_id'' PNone)
      else if str_or (mr_target_id m) [] \<noteq> [] then mr_target_id m
      else map_of target_id_map (primary_value (mr_identity m)))"

definition default_diff :: "(string, pyval) dict option \<Rightarrow> (string, pyval) dict \<Rightarrow> (string, pyval) dict" where
  "default_diff existing desired =
     (case existing of
        None \<Rightarrow> []
      | Some old \<Rightarrow>
          if old = [] then []
          else filter (\<lambda>(k, v). take 2 k \<noteq> ''__'' \<and> \<not> py_eq (dict_get_or old k PNone) v) desired)"

definition can_skip_with_fingerprint :: "(string \<Rightarrow> string) \<Rightarrow> matched_row \<Rightarrow> (string, pyval) dict \<Rightarrow> resolve_rules \<Rightarrow> bool" where
  "can_skip_with_fingerprint md5 m desired rules \<longleftrightarrow>
     resolve_decision_status m = Match_MATCHED \<and> mr_existing m \<noteq> None \<and> mr_fingerprint_fields m \<noteq> []
     \<and> rr_merge_policy rules = None \<and> rr_diff_policy rules = None
     \<and> build_fingerprint_for_keys md5 (Some desired) (mr_fingerprint_fields m)
         = build_fingerprint_for_keys md5 (mr_existing m) (mr_fingerprint_fields m)"

definition decide_op ::
    "(string \<Rightarrow> string) \<Rightarrow> matched_row \<Rightarrow> (string, pyval) dict \<Rightarrow> resolve_rules \<Rightarrow> resolve_op \<times> (string, pyval) dict" where
  "decide_op md5 m desired rules =
     (if resolve_decision_status m = Match_NOT_FOUND then (Resolve_CREATE, [])
      else if can_skip_with_fingerprint md5 m desired rules then (Resolve_SKIP, [])
      else (let diff = (case rr_diff_policy rules of Some d \<Rightarrow> d | None \<Rightarrow> default_diff);
                changes = diff (mr_existing m) desired
            in if changes = [] then (Resolve_SKIP, []) else (Resolve_UPDATE, changes)))"

definition collect_changed_fields :: "(string, pyval) dict \<Rightarrow> (string, pyval) dict \<Rightarrow> string list" where
  "collect_changed_fields before after =
     filter (\<lambda>k. \<not> py_eq (dict_get_or before k PNone) (dict_get_or after k PNone))
       (dict_fromkeys (dict_keys before @ dict_keys after))"

text \<open>The merge: what the policy gives, with every key of the row restored.\<close>

definition merge_desired :: "resolve_rules \<Rightarrow> matched_row \<Rightarrow> (string, pyval) dict \<times> string list" where
  "merge_desired rules m =
     (let original = mr_desired_state m in
      case Option.bind (rr_merge_policy rules) (\<lambda>policy. policy (mr_existing m) original) of
        None \<Rightarrow> (original, [])
      | Some merged \<Rightarrow>
          (let desired = fold (\<lambda>(k, v). AList.update k v) original merged
           in (desired, collect_changed_fields original desired)))"

definition serialize_secret_lifecycle :: "lifecycle_policy option \<Rightarrow> (string, pyval) dict option" where
  "serialize_secret_lifecycle p =
     map_option (\<lambda>p. [(''mode'', PStr (lp_mode p)), (''delete_on_success'', PBool (lp_delete_on_success p)),
        (''ttl_seconds'', opt_int (lp_ttl_seconds p))]) p"

text \<open>\<open>_validate_sink_mutations\<close>: \<open>True\<close> with the diagnostics when a mutated field breaks the schema.\<close>

definition validate_sink_mutations ::
    "resolve_env \<Rightarrow> matched_row \<Rightarrow> (string, pyval) dict \<Rightarrow> string list \<Rightarrow> diagnostic_item list \<times> diagnostic_item list
     \<Rightarrow> (bool \<times> diagnostic_item list \<times> diagnostic_item list) result" where
  "validate_sink_mutations env m desired mutated diags =
     (case re_sink env of
        None \<Rightarrow> Inr (False, diags)
      | Some sink \<Rightarrow>
          (let found = validate_sink_fields desired sink (sort (dict_fromkeys mutated)) True
           in if mutated = [] \<or> found = [] then Inr (False, diags)
              else bind_r (append_dsl_issues (re_catalog env) RESOLVE (Some (mr_row_ref m)) (Some ''error'') found diags)
                     (\<lambda>diags. Inr (True, diags))))"

type_synonym resolve_outcome = "resolved_row option \<times> diagnostic_item list \<times> diagnostic_item list"

definition resolved_of ::
    "resolve_env \<Rightarrow> matched_row \<Rightarrow> string \<Rightarrow> (string, pyval) dict \<Rightarrow> resolved_row" where
  "resolved_of env m target_id desired =
     (let (op, changes) = decide_op (re_md5 env) m desired (re_rules env) in
      \<lparr>rv_row_ref = mr_row_ref m, rv_identity = mr_identity m, rv_op = op, rv_desired_state = desired,
       rv_existing = mr_existing m, rv_changes = changes, rv_target_id = Some target_id,
       rv_source_ref = map_option (\<lambda>f. f (mr_identity m)) (rr_build_source_ref (re_rules env)),
       rv_secret_fields = (case rr_secret_fields_for_op (re_rules env) of None \<Rightarrow> [] | Some f \<Rightarrow> f op desired (mr_existing m)),
       rv_secret_lifecycle = serialize_secret_lifecycle (rr_secret_lifecycle (re_rules env))\<rparr>)"

text \<open>\<open>resolve\<close> after the links.\<close>

definition finish_resolve ::
    "resolve_env \<Rightarrow> matched_row \<Rightarrow> (string, string) dict \<Rightarrow> string list \<Rightarrow> link_acc \<Rightarrow> (identity_db, resolve_outcome) step" where
  "finish_resolve env m target_id_map mutated acc =
     (if la_should_stop acc then return_s (None, la_errors acc, la_warnings acc)
      else bind_s (lift_s (validate_sink_mutations env m (la_desired acc) (mutated @ la_changed acc) (la_errors acc, la_warnings acc)))
        (\<lambda>(invalid, errs, warns).
          if invalid then return_s (None, errs, warns)
          else (case resolve_target_id m target_id_map of
              None \<Rightarrow> bind_s (lift_s (resolve_error env m ''RESOLVE_TARGET_ID_MISSING'' (Some ''target_id'')
                        ''target_id is missing for resolved row'')) (\<lambda>d. return_s (None, errs @ [d], warns))
            | Some target_id \<Rightarrow>
                if target_id = []
                then bind_s (lift_s (resolve_error env m ''RESOLVE_TARGET_ID_MISSING'' (Some ''target_id'')
                        ''target_id is missing for resolved row'')) (\<lambda>d. return_s (None, errs @ [d], warns))
                else bind_s (update_s (if \<not> la_pending_created acc \<and> re_gateway env
                         then mark_resolved_for_source (re_now env) (rr_row_id (mr_row_ref m)) else id)) (\<lambda>_.
                       return_s (Some (resolved_of env m target_id (la_desired acc)), errs, warns)))))"

definition start_links :: "(string, pyval) dict \<Rightarrow> link_acc" where
  "start_links desired =
     \<lparr>la_desired = desired, la_errors = [], la_warnings = [], la_pending_created = False, la_should_stop = False, la_changed = []\<rparr>"

definition resolve ::
    "resolve_env \<Rightarrow> matched_row \<Rightarrow> source_record \<Rightarrow> (string, string) dict \<Rightarrow> py_mapping option \<Rightarrow> batch_index option
     \<Rightarrow> (identity_db, resolve_outcome) step" where
  "resolve env m rec target_id_map meta batch =
     (let status = resolve_decision_status m in
      if status = Match_AMBIGUOUS
      then bind_s (lift_s (resolve_error env m ''RESOLVE_AMBIGUOUS'' (Some (id_primary (mr_identity m))) ''ambiguous match result''))
             (\<lambda>d. return_s (None, [d], []))
      else if status = Match_CONFLICT_SOURCE
      then bind_s (lift_s (resolve_error env m ''RESOLVE_CONFLICT'' (Some (id_primary (mr_identity m))) ''conflict during match stage''))
             (\<lambda>d. return_s (None, [d], []))
      else (let (desired, mutated) = merge_desired (re_rules env) m in
            bind_s (resolve_links env m rec meta batch (start_links desired))
              (finish_resolve env m target_id_map mutated)))"

section \<open>What every link keeps\<close>

text \<open>
  One link has one of four effects on the database and the row under work: nothing, a pending link, the hard error, a
  resolved value. What these four establish from \<open>pre\<close>, the link establishes, and \<open>err\<close> of the database when it raises.
\<close>

locale link_effects =
  fixes env :: resolve_env and m :: matched_row and meta :: "py_mapping option" and rules :: "link_rule set"
    and pre post :: "identity_db \<Rightarrow> link_acc \<Rightarrow> bool" and err :: "identity_db \<Rightarrow> bool"
  assumes pending_step: "\<lbrakk>rule \<in> rules; pre db acc\<rbrakk>
      \<Longrightarrow> wp_s (create_pending_link env m rule meta lookup_key reason acc) (\<lambda>acc db. post db acc) err db"
    and hard_step: "pre db acc \<Longrightarrow> post db (acc\<lparr>la_errors := la_errors acc @ [d], la_should_stop := True\<rparr>)"
    and store_step: "\<lbrakk>rule \<in> rules; pre db acc\<rbrakk> \<Longrightarrow> post db (store_resolved rule rid acc)"
    and skip_step: "pre db acc \<Longrightarrow> post db acc"
    and err_step: "pre db acc \<Longrightarrow> err db"
begin

lemma hard_wp: "pre db acc \<Longrightarrow> wp_s (hard_error env m rule reason acc) (\<lambda>acc db. post db acc) err db"
  by (auto simp: hard_error_def wp err_step hard_step split: sum.split)

lemma finish_wp:
  assumes "rule \<in> rules" "pre db acc"
  shows "wp_s (finish_link env m rule meta resolved_id reason used acc) (\<lambda>(acc, more) db. post db acc) err db"
  using assms hard_wp [OF assms(2)] pending_step [OF assms] store_step [OF assms]
  by (auto simp: finish_link_def wp split: option.split elim: wp_mono)

lemma decision_wp:
  assumes "rule \<in> rules" "pre db acc"
  shows "wp_s (apply_topology_decision env m rule meta found acc d) (\<lambda>(acc, more) db. post db acc) err db"
  using pending_step [OF assms] hard_wp [OF assms(2)] finish_wp [OF assms]
  by (auto simp: apply_topology_decision_def finish_outcome_def wp split: option.split topology_action.split elim: wp_mono)

lemma link_wp:
  assumes "rule \<in> rules" "pre db acc"
  shows "wp_s (resolve_link env m rec meta batch rule acc) (\<lambda>(acc, more) db. post db acc) err db"
proof -
  have [simp]: "wp_s (bind_s (lift_s r) (apply_topology_decision env m rule meta found acc)) (\<lambda>(acc, more) db. post db acc) err db"
    "wp_s (finish_outcome env m rule meta found acc) (\<lambda>(acc, more) db. post db acc) err db" for r found
    using decision_wp [OF assms] finish_wp [OF assms] err_step [OF assms(2)]
    by (auto simp: wp finish_outcome_def split: sum.split)
  have "wp_s (return_s (acc, True) :: (identity_db, link_acc \<times> bool) step) (\<lambda>(acc, more) db. post db acc) err db"
    using skip_step [OF assms(2)] by (simp add: wp)
  then show ?thesis
    by (simp add: wp_s_at [of "resolve_link env m rec meta batch rule acc"] resolve_link_def Let_def) (simp add: wp_s_at [symmetric])
qed

end

text \<open>
  A condition that the three effects of a link keep - a pending link, the hard error, a resolved value - holds after all
  links, and \<open>err\<close> of the database when one of them raises.
\<close>

locale link_condition =
  fixes env :: resolve_env and m :: matched_row and meta :: "py_mapping option"
    and inv :: "identity_db \<Rightarrow> link_acc \<Rightarrow> bool" and err :: "identity_db \<Rightarrow> bool"
  assumes pending_keeps: "\<lbrakk>rule \<in> set (re_links env); inv db acc\<rbrakk>
      \<Longrightarrow> wp_s (create_pending_link env m rule meta lookup_key reason acc) (\<lambda>acc db. inv db acc) err db"
    and hard_keeps: "inv db acc \<Longrightarrow> inv db (acc\<lparr>la_errors := la_errors acc @ [d], la_should_stop := True\<rparr>)"
    and store_keeps: "inv db acc \<Longrightarrow> inv db (store_resolved rule rid acc)"
    and err_when: "inv db acc \<Longrightarrow> err db"

sublocale link_condition \<subseteq> link_effects env m meta "set (re_links env)" inv inv err
  by unfold_locales (simp_all add: pending_keeps hard_keeps store_keeps err_when)

context link_condition
begin

lemma loop_wp:
  assumes "set rules \<subseteq> set (re_links env)" "inv db acc"
  shows "wp_s (link_loop env m rec meta batch rules acc) (\<lambda>acc db. inv db acc) err db"
  using assms
proof (induction rules arbitrary: acc db)
  case (Cons rule rules)
  then show ?case
    by (auto simp: wp intro!: wp_mono [OF link_wp [of rule db acc]])
qed (simp add: wp)

lemma links_wp:
  assumes "inv db acc"
  shows "wp_s (resolve_links env m rec meta batch acc) (\<lambda>acc db. inv db acc) err db"
  using assms loop_wp [of "re_links env"]
  by (auto simp: resolve_links_def wp err_when hard_keeps split: sum.split)

lemma resolve_wp:
  assumes start: "inv db (start_links (fst (merge_desired (re_rules env) m)))"
    and early: "\<And>d. resolve_decision_status m \<in> {Match_AMBIGUOUS, Match_CONFLICT_SOURCE} \<Longrightarrow> Q (None, [d], []) db"
    and finish: "\<And>acc db. inv db acc \<Longrightarrow> wp_s (finish_resolve env m target_ids (snd (merge_desired (re_rules env) m)) acc) Q err db"
  shows "wp_s (resolve env m rec target_ids meta batch) Q err db"
proof (cases "resolve_decision_status m \<in> {Match_AMBIGUOUS, Match_CONFLICT_SOURCE}")
  case True
  then show ?thesis using early err_when [OF start]
    by (auto simp: resolve_def Let_def wp split: sum.split)
next
  case False
  have "wp_s (bind_s (resolve_links env m rec meta batch (start_links (fst (merge_desired (re_rules env) m))))
      (finish_resolve env m target_ids (snd (merge_desired (re_rules env) m)))) Q err db"
    unfolding wp by (rule wp_mono [OF links_wp [OF start] finish])
  with False show ?thesis by (simp add: resolve_def Let_def split_beta)
qed

end

text \<open>A field that breaks the schema is an error of the row.\<close>

lemma validate_field_error: "i \<in> set (validate_field row f check) \<Longrightarrow> \<not> di_issue_warning i"
  by (auto simp: validate_field_def Let_def missing_required_issue_def type_issue_def split: if_splits)

lemma validate_sink_error: "i \<in> set (validate_sink_fields row sink names check) \<Longrightarrow> \<not> di_issue_warning i"
  by (auto simp: validate_sink_fields_def Let_def validate_field_error split: option.splits)

lemma append_issues_errors:
  assumes "append_dsl_issues cat stage rref (Some ''error'') found (errs, warns) = Inr (errs', warns')" "\<forall>i \<in> set found. \<not> di_issue_warning i"
  shows "length errs' = length errs + length found \<and> warns' = warns"
  using assms by (induction found arbitrary: errs) (auto simp: bind_r_Inr_iff)

lemma validate_mutations_result:
  assumes "validate_sink_mutations env m desired mutated (errs, warns) = Inr (invalid, errs', warns')"
  shows "(invalid \<longrightarrow> errs' \<noteq> []) \<and> (\<not> invalid \<longrightarrow> errs' = errs) \<and> warns' = warns"
proof (cases "re_sink env")
  case None
  then show ?thesis using assms by (simp add: validate_sink_mutations_def)
next
  case (Some sink)
  define found where "found = validate_sink_fields desired sink (sort (dict_fromkeys mutated)) True"
  show ?thesis
  proof (cases "mutated = [] \<or> found = []")
    case True
    then show ?thesis using assms Some by (simp add: validate_sink_mutations_def found_def [symmetric])
  next
    case False
    have "append_dsl_issues (re_catalog env) RESOLVE (Some (mr_row_ref m)) (Some ''error'') found (errs, warns) = Inr (errs', warns')"
      and "invalid" using assms Some False by (auto simp: validate_sink_mutations_def found_def [symmetric] bind_r_Inr_iff)
    moreover have "\<forall>i \<in> set found. \<not> di_issue_warning i" using validate_sink_error by (auto simp: found_def)
    ultimately have "length errs' = length errs + length found" "warns' = warns" using append_issues_errors by blast+
    then show ?thesis using False \<open>invalid\<close> by auto
  qed
qed

lemma finish_resolve_wp:
  assumes "E db" and stop: "la_should_stop acc \<Longrightarrow> Q (None, la_errors acc, la_warnings acc) db"
    and withheld: "\<And>errs. errs \<noteq> [] \<Longrightarrow> Q (None, errs, la_warnings acc) db"
    and resolved: "\<And>target_id. \<lbrakk>\<not> la_should_stop acc; resolve_target_id m target_ids = Some target_id; target_id \<noteq> []\<rbrakk>
      \<Longrightarrow> Q (Some (resolved_of env m target_id (la_desired acc)), la_errors acc, la_warnings acc)
            (if \<not> la_pending_created acc \<and> re_gateway env then mark_resolved_for_source (re_now env) (rr_row_id (mr_row_ref m)) db else db)"
  shows "wp_s (finish_resolve env m target_ids mutated acc) Q E db"
proof (cases "la_should_stop acc")
  case True
  then show ?thesis using stop by (simp add: finish_resolve_def wp)
next
  case False
  show ?thesis
  proof (cases "validate_sink_mutations env m (la_desired acc) (mutated @ la_changed acc) (la_errors acc, la_warnings acc)")
    case (Inl e)
    then show ?thesis using False assms(1) by (simp add: finish_resolve_def wp)
  next
    case (Inr r)
    obtain invalid errs warns where r: "r = (invalid, errs, warns)" by (cases r)
    with Inr validate_mutations_result
    have v: "invalid \<longrightarrow> errs \<noteq> []" "\<not> invalid \<longrightarrow> errs = la_errors acc" "warns = la_warnings acc" by metis+
    show ?thesis using False Inr r v assms(1) withheld resolved
      by (auto simp: finish_resolve_def wp split: sum.split option.split)
  qed
qed

section \<open>Pending links of a row\<close>

lemma map_pending_mem: "r \<in> set (db_pending (map_pending P f db)) \<longleftrightarrow> (\<exists>q \<in> set (db_pending db). r = (if P q then f q else q))"
  by (auto simp: map_pending_def image_iff)

lemma closed_pending_mem:
  assumes "r \<in> set (db_pending (map_pending P (set_status st reason now) db))" "pl_status r = PENDING" "st \<noteq> PENDING"
  shows "r \<in> set (db_pending db) \<and> \<not> P r"
proof -
  obtain q where q: "q \<in> set (db_pending db)" "r = (if P q then set_status st reason now q else q)"
    using assms(1) by (simp only: map_pending_mem) blast
  then show ?thesis using assms(2,3) by (cases "P q") (auto simp: set_status_def)
qed

lemma touch_attempt_rows:
  assumes "touch_attempt now i db = (db', n)" "r \<in> set (db_pending db')"
  shows "if pl_id r = i then \<exists>q \<in> set (db_pending db). pl_id q = i \<and> pending_key r = pending_key q \<and> pl_status r = pl_status q
        \<and> pl_payload r = pl_payload q \<and> pl_attempts r = pl_attempts q + 1 \<and> pl_last_attempt_at r = Some now
      else r \<in> set (db_pending db)"
proof -
  let ?f = "\<lambda>r. r\<lparr>pl_attempts := pl_attempts r + 1, pl_last_attempt_at := Some now\<rparr>"
  have "db' = map_pending (\<lambda>r. pl_id r = i) ?f db" using assms(1) by (simp add: touch_attempt_def Let_def)
  with assms(2) obtain q where "q \<in> set (db_pending db)" "r = (if pl_id q = i then ?f q else q)"
    by (simp only: map_pending_mem) blast
  then show ?thesis by (cases "pl_id q = i") (auto simp: pending_key_def)
qed

lemma touch_attempt_inv:
  assumes "db_inv db" "touch_attempt now i db = (db', n)"
  shows "db_inv db' \<and> (\<forall>r \<in> set (db_pending db'). pl_id r = i \<longrightarrow> pl_attempts r = n)
    \<and> ((\<exists>r \<in> set (db_pending db). pl_id r = i) \<longrightarrow> (\<exists>r \<in> set (db_pending db'). pl_id r = i))"
proof -
  let ?f = "\<lambda>r. r\<lparr>pl_attempts := pl_attempts r + 1, pl_last_attempt_at := Some now\<rparr>"
  have db': "db' = map_pending (\<lambda>r. pl_id r = i) ?f db"
    and n: "n = (case find (\<lambda>r. pl_id r = i) (db_pending db') of Some r \<Rightarrow> pl_attempts r | None \<Rightarrow> 0)"
    using assms(2) by (auto simp: touch_attempt_def Let_def)
  have inv: "db_inv db'" unfolding db' by (rule map_pending_inv [OF _ assms(1)]) (simp add: closing_def pending_key_def)
  have "pl_attempts r = n" if r: "r \<in> set (db_pending db')" "pl_id r = i" for r
  proof (cases "find (\<lambda>r. pl_id r = i) (db_pending db')")
    case None
    then show ?thesis using r by (auto simp: find_None_iff)
  next
    case (Some q)
    then have "q = r" using r find_Some_in_list [OF Some] pending_by_id [OF inv] by auto
    then show ?thesis using Some n by simp
  qed
  moreover have "(\<exists>r \<in> set (db_pending db). pl_id r = i) \<longrightarrow> (\<exists>r \<in> set (db_pending db'). pl_id r = i)"
  proof
    assume "\<exists>r \<in> set (db_pending db). pl_id r = i"
    then obtain r where "r \<in> set (db_pending db)" "pl_id r = i" by blast
    then have "?f r \<in> set (db_pending db')" by (auto simp: db' map_pending_def intro!: rev_image_eqI [of r])
    then show "\<exists>r \<in> set (db_pending db'). pl_id r = i" using \<open>pl_id r = i\<close> by (intro bexI [of _ "?f r"]) simp_all
  qed
  ultimately show ?thesis using inv by blast
qed

lemma add_pending_rows:
  assumes "db_inv db" "add_pending now d s f k e (Some p) db = (db', i)" "r \<in> set (db_pending db')"
  shows "if pl_id r = i then pending_key r = (d, s, f, k) \<and> pl_status r = PENDING \<and> pl_payload r = Some p
        \<and> (pl_attempts r = 0 \<or> (\<exists>q \<in> set (db_pending db). pl_status q = PENDING \<and> pl_attempts r = pl_attempts q))
      else r \<in> set (db_pending db)"
proof (cases "find (\<lambda>r. pending_key r = (d, s, f, k) \<and> pl_status r = PENDING) (db_pending db)")
  case None
  have "q \<in> set (db_pending db) \<Longrightarrow> pl_id q \<noteq> db_sequence db + 1" for q using assms(1) by (auto simp: db_inv_def)
  then show ?thesis using assms(2,3) None by (auto simp: add_pending_def Let_def pending_key_def)
next
  case (Some q)
  then have q: "q \<in> set (db_pending db)" "pending_key q = (d, s, f, k)" "pl_status q = PENDING"
    by (auto simp: find_Some_iff)
  have "x = q" if "x \<in> set (db_pending db)" "pl_id x = pl_id q" for x using pending_by_id [OF assms(1) that(1) q(1) that(2)] .
  let ?f = "\<lambda>r. r\<lparr>pl_payload := coalesce (Some p) (pl_payload r), pl_expires_at := coalesce e (pl_expires_at r),
      pl_last_attempt_at := Some now\<rparr>"
  have "db' = map_pending (\<lambda>r. pl_id r = pl_id q) ?f db" and i: "i = pl_id q"
    using assms(2) Some by (auto simp: add_pending_def)
  with assms(3) obtain x where x: "x \<in> set (db_pending db)" "r = (if pl_id x = pl_id q then ?f x else x)"
    by (simp only: map_pending_mem) blast
  show ?thesis
  proof (cases "pl_id x = pl_id q")
    case True
    then have "x = q" using \<open>\<And>x. \<lbrakk>x \<in> set (db_pending db); pl_id x = pl_id q\<rbrakk> \<Longrightarrow> x = q\<close> x(1) by blast
    then show ?thesis using x q i by (auto simp: coalesce_def pending_key_def intro!: bexI [of _ q])
  next
    case False
    then show ?thesis using x i by simp
  qed
qed

text \<open>
  The database after adding and touching a link: the touched link, which has the given payload, and the rows as
  they were.
\<close>

definition touched_link ::
    "string \<Rightarrow> string \<times> string \<times> string \<times> string \<Rightarrow> string \<Rightarrow> identity_db \<Rightarrow> identity_db \<Rightarrow> int \<Rightarrow> int \<Rightarrow> bool" where
  "touched_link now key p db db2 i n \<longleftrightarrow> db_inv db2 \<and> (\<exists>r \<in> set (db_pending db2). pl_id r = i)
     \<and> (\<forall>r \<in> set (db_pending db2).
          (pl_id r = i \<and> pending_key r = key \<and> pl_status r = PENDING \<and> pl_payload r = Some p \<and> pl_last_attempt_at r = Some now
             \<and> pl_attempts r = n \<and> (n = 1 \<or> (\<exists>q \<in> set (db_pending db). pl_status q = PENDING \<and> n = pl_attempts q + 1)))
          \<or> (pl_id r \<noteq> i \<and> r \<in> set (db_pending db)))"

lemma touched_mem:
  "\<lbrakk>touched_link now key p db db2 i n; r \<in> set (db_pending db2); pl_id r = i\<rbrakk>
   \<Longrightarrow> pending_key r = key \<and> pl_status r = PENDING \<and> pl_payload r = Some p \<and> pl_last_attempt_at r = Some now"
  by (auto simp: touched_link_def)

lemma untouched_mem:
  "\<lbrakk>touched_link now key p db db2 i n; r \<in> set (db_pending db2); pl_id r \<noteq> i\<rbrakk> \<Longrightarrow> r \<in> set (db_pending db)"
  by (auto simp: touched_link_def)

lemma touched_exists: "touched_link now key p db db2 i n \<Longrightarrow> db_inv db2 \<and> (\<exists>r \<in> set (db_pending db2). pl_id r = i)"
  by (simp add: touched_link_def)

lemma touched_rows:
  assumes "db_inv db" "add_pending now d s f k e (Some p) db = (db1, i)" "touch_attempt now i db1 = (db2, n)"
  shows "touched_link now (d, s, f, k) p db db2 i n"
  unfolding touched_link_def
proof (intro conjI ballI)
  have one: "db_inv db1" "\<exists>r \<in> set (db_pending db1). pl_id r = i" using add_pending_cases [OF assms(1,2)] by auto
  note two = touch_attempt_inv [OF one(1) assms(3)] and rows1 = add_pending_rows [OF assms(1,2)] and rows2 = touch_attempt_rows [OF assms(3)]
  show "db_inv db2" "\<exists>r \<in> set (db_pending db2). pl_id r = i" using two one by blast+
  fix r assume r: "r \<in> set (db_pending db2)"
  show "(pl_id r = i \<and> pending_key r = (d, s, f, k) \<and> pl_status r = PENDING \<and> pl_payload r = Some p \<and> pl_last_attempt_at r = Some now
             \<and> pl_attempts r = n \<and> (n = 1 \<or> (\<exists>q \<in> set (db_pending db). pl_status q = PENDING \<and> n = pl_attempts q + 1)))
          \<or> (pl_id r \<noteq> i \<and> r \<in> set (db_pending db))"
  proof (cases "pl_id r = i")
    case True
    then obtain q where q: "q \<in> set (db_pending db1)" "pl_id q = i" "pending_key r = pending_key q" "pl_status r = pl_status q"
        "pl_payload r = pl_payload q" "pl_attempts r = pl_attempts q + 1" "pl_last_attempt_at r = Some now"
      using rows2 [OF r] by auto
    have "pl_attempts r = n" using two r True by blast
    with q rows1 [OF q(1)] True show ?thesis by auto
  next
    case False
    then have "r \<in> set (db_pending db1)" using rows2 [OF r] by simp
    with rows1 [OF this] False show ?thesis by simp
  qed
qed

definition conflict_db :: "resolve_env \<Rightarrow> int \<Rightarrow> identity_db \<Rightarrow> identity_db" where
  "conflict_db env i db = mark_conflict (re_now env) i (Some ''max attempts reached'') db"

lemma touched_conflict:
  assumes "touched_link now key p db db2 i n"
  shows "db_inv (conflict_db env i db2)
    \<and> (\<forall>r \<in> set (db_pending (conflict_db env i db2)). pl_status r = PENDING \<longrightarrow> r \<in> set (db_pending db))"
proof
  show "db_inv (conflict_db env i db2)"
    unfolding conflict_db_def mark_conflict_def using assms by (intro map_pending_inv closing_set_status) (simp_all add: touched_link_def)
  show "\<forall>r \<in> set (db_pending (conflict_db env i db2)). pl_status r = PENDING \<longrightarrow> r \<in> set (db_pending db)"
  proof (intro ballI impI)
    fix r assume "r \<in> set (db_pending (conflict_db env i db2))" "pl_status r = PENDING"
    then have "r \<in> set (db_pending db2)" "pl_id r \<noteq> i"
      using closed_pending_mem by (fastforce simp: conflict_db_def mark_conflict_def)+
    then show "r \<in> set (db_pending db)" using assms by (auto simp: touched_link_def)
  qed
qed

text \<open>What a pending link has to establish.\<close>

lemma create_pending_wp:
  fixes env m rule lookup_key acc meta db
  defines "max_attempts \<equiv> rs_pending_max_attempts (re_settings env)"
    and "touched \<equiv> touched_link (re_now env) (lr_target_dataset rule, rr_row_id (mr_row_ref m), lr_field rule, lookup_key)
           (serialize_pending m (la_desired acc) meta) db"
  assumes "db_inv db"
    and conflict: "\<And>db2 i n. \<lbrakk>touched db2 i n; 0 < max_attempts; max_attempts \<le> n\<rbrakk> \<Longrightarrow> E (conflict_db env i db2)
        \<and> (\<forall>d. Q (acc\<lparr>la_errors := la_errors acc @ [d], la_pending_created := True, la_should_stop := True\<rparr>) (conflict_db env i db2))"
    and waits: "\<And>db2 i n. \<lbrakk>touched db2 i n; 0 < max_attempts \<Longrightarrow> n < max_attempts\<rbrakk> \<Longrightarrow> E db2
        \<and> (\<forall>d. Q (acc\<lparr>la_warnings := la_warnings acc @ [d], la_pending_created := True,
              la_should_stop := \<not> rs_pending_allow_partial (re_settings env)\<rparr>) db2)"
  shows "wp_s (create_pending_link env m rule meta lookup_key reason acc) Q E db"
proof -
  obtain db1 i where add: "add_pending (re_now env) (lr_target_dataset rule) (rr_row_id (mr_row_ref m)) (lr_field rule) lookup_key
      (build_expires_at env) (Some (serialize_pending m (la_desired acc) meta)) db = (db1, i)" by fastforce
  obtain db2 n where touch: "touch_attempt (re_now env) i db1 = (db2, n)" by fastforce
  have t: "touched db2 i n" unfolding touched_def by (rule touched_rows [OF assms(3) add touch])
  show ?thesis
  proof (cases "0 < max_attempts \<and> max_attempts \<le> n")
    case True
    then show ?thesis using conflict [OF t]
      by (auto simp: create_pending_link_def wp add touch Let_def max_attempts_def conflict_db_def split: sum.split)
  next
    case False
    then show ?thesis using waits [OF t]
      by (auto simp: create_pending_link_def wp add touch Let_def max_attempts_def split: sum.split)
  qed
qed

section \<open>An example\<close>

definition example_link :: link_rule where
  "example_link = \<lparr>lr_field = ''manager'', lr_target_dataset = ''users'', lr_resolve_keys = [\<lparr>lk_name = ''name'', lk_field = ''manager''\<rparr>],
     lr_dedup_rules = [], lr_target_id_field = ''_id'', lr_coerce = None, lr_on_unresolved = ''pending''\<rparr>"

definition example_block :: resolve_block where
  "example_block = \<lparr>rb_desired_state = Some \<lparr>dss_fields = [''login'', ''manager''], dss_drop_fields = []\<rparr>,
     rb_source_ref = Some \<lparr>srs_fields = [], srs_include_primary = True\<rparr>,
     rb_diff = Some \<lparr>dfp_fields = [\<lparr>dfs_field = ''manager'', dfs_existing = None, dfs_output = Some ''managerId'', dfs_normalize = ''text''\<rparr>],
       dfp_ignore_fields = [], dfp_from_sink = False, dfp_exclude_fields = [], dfp_normalize_by_type = True\<rparr>,
     rb_merge = Some \<lparr>mgs_mode = ''fill_empty_from_existing'',
       mgs_fields = [\<lparr>mfs_field = ''manager'', mfs_existing = None, mfs_normalize = ''none''\<rparr>]\<rparr>,
     rb_secrets = None, rb_links = [example_link], rb_topology_link = None\<rparr>"

definition example_env :: "resolve_block \<Rightarrow> resolve_env" where
  "example_env block = \<lparr>re_rules = (case compile_rules block None of Inr r \<Rightarrow> r), re_links = rb_links block, re_gateway = True,
     re_settings = \<lparr>rs_pending_ttl_seconds = 60, rs_pending_max_attempts = 3, rs_pending_sweep_interval_seconds = 0,
       rs_pending_on_expire = ''error'', rs_pending_allow_partial = False, rs_pending_retention_days = 0\<rparr>,
     re_catalog = make_catalog [] False, re_sink = None, re_topology_policy = None, re_topology_service = None, re_locator = None,
     re_md5 = id, re_now = ''2026-01-02 10:00:00'', re_expiry = (\<lambda>ttl. ''2026-01-02T10:01:00+00:00'')\<rparr>"

definition example_record :: source_record where
  "example_record = \<lparr>src_line_no = 3, src_record_id = ''r1'', src_values = []\<rparr>"

end
