(* ===== verification/Resolve_Pending.thy ===== *)
theory Resolve_Pending
  imports Resolver
begin

text \<open>
  What the resolver promises of the pending table: attempts are bounded, a planned row waits for nothing, a row that is
  withheld without an error comes back, and the links of a row that cannot be decided are left alone.
\<close>

section \<open>Conditions the links keep\<close>

text \<open>Attempts stay below the maximum while a link is pending.\<close>

definition attempts_bounded :: "int \<Rightarrow> identity_db \<Rightarrow> bool" where
  "attempts_bounded n db \<longleftrightarrow> db_inv db
     \<and> (\<forall>r \<in> set (db_pending db). pl_status r = PENDING \<and> 0 < n \<longrightarrow> pl_attempts r < n)"

lemma attempts_bounded_closing:
  assumes "attempts_bounded n db" "st \<noteq> PENDING"
  shows "attempts_bounded n (map_pending P (set_status st reason now) db)"
  unfolding attempts_bounded_def
proof (intro conjI ballI impI)
  show "db_inv (map_pending P (set_status st reason now) db)"
    using assms by (intro map_pending_inv closing_set_status) (simp_all add: attempts_bounded_def)
  fix r assume "r \<in> set (db_pending (map_pending P (set_status st reason now) db))" "pl_status r = PENDING \<and> 0 < n"
  then show "pl_attempts r < n" using closed_pending_mem [OF _ _ assms(2)] assms(1) by (auto simp: attempts_bounded_def)
qed

interpretation attempts: link_condition env m meta "\<lambda>db acc. attempts_bounded (rs_pending_max_attempts (re_settings env)) db"
    "attempts_bounded (rs_pending_max_attempts (re_settings env))" for env m meta
proof
  fix rule db acc lookup_key reason
  let ?n = "rs_pending_max_attempts (re_settings env)"
  assume bounded: "attempts_bounded ?n db"
  show "wp_s (create_pending_link env m rule meta lookup_key reason acc) (\<lambda>acc. attempts_bounded ?n) (attempts_bounded ?n) db"
  proof (rule create_pending_wp)
    show "db_inv db" using bounded by (simp add: attempts_bounded_def)
  next
    fix db2 i n
    assume t: "touched_link (re_now env) (lr_target_dataset rule, rr_row_id (mr_row_ref m), lr_field rule, lookup_key)
           (serialize_pending m (la_desired acc) meta) db db2 i n"
    {
      assume "0 < ?n"
      have "attempts_bounded ?n (conflict_db env i db2)" using touched_conflict [OF t] bounded by (auto simp: attempts_bounded_def)
      then show "attempts_bounded ?n (conflict_db env i db2) \<and> (\<forall>d :: diagnostic_item. attempts_bounded ?n (conflict_db env i db2))" by simp
    }
    assume "0 < ?n \<Longrightarrow> n < ?n"
    then have "attempts_bounded ?n db2" using t bounded by (fastforce simp: attempts_bounded_def touched_link_def)
    then show "attempts_bounded ?n db2 \<and> (\<forall>d :: diagnostic_item. attempts_bounded ?n db2)" by simp
  qed
qed simp_all

lemma resolve_attempts_bounded_state:
  assumes "attempts_bounded (rs_pending_max_attempts (re_settings env)) db"
  shows "attempts_bounded (rs_pending_max_attempts (re_settings env)) (fst (resolve env m rec target_ids meta batch db))"
proof (rule wp_state, rule attempts.resolve_wp)
  fix acc db
  assume "attempts_bounded (rs_pending_max_attempts (re_settings env)) db"
  then show "wp_s (finish_resolve env m target_ids (snd (merge_desired (re_rules env) m)) acc)
      (\<lambda>a. attempts_bounded (rs_pending_max_attempts (re_settings env))) (attempts_bounded (rs_pending_max_attempts (re_settings env))) db"
    by (intro finish_resolve_wp) (simp_all add: mark_resolved_for_source_def attempts_bounded_closing)
qed (simp_all add: assms)

text \<open>Without partial planning a link either stops the row or leaves the database and the diagnostics as they were.\<close>

definition stopped_or_same :: "resolve_env \<Rightarrow> identity_db \<Rightarrow> identity_db \<Rightarrow> link_acc \<Rightarrow> bool" where
  "stopped_or_same env db0 db acc \<longleftrightarrow> db_inv db
     \<and> (rs_pending_allow_partial (re_settings env) \<or> la_should_stop acc
          \<or> db = db0 \<and> la_errors acc = [] \<and> la_warnings acc = [] \<and> \<not> la_pending_created acc)"

interpretation stops: link_condition env m meta "stopped_or_same env db0" "\<lambda>db. True" for env m meta db0
proof
  fix rule db lookup_key reason and acc :: link_acc
  assume inv: "stopped_or_same env db0 db acc"
  show "wp_s (create_pending_link env m rule meta lookup_key reason acc) (\<lambda>acc db. stopped_or_same env db0 db acc) (\<lambda>db. True) db"
  proof (rule create_pending_wp)
    show "db_inv db" using inv by (simp add: stopped_or_same_def)
  next
    fix db2 i n
    assume t: "touched_link (re_now env) (lr_target_dataset rule, rr_row_id (mr_row_ref m), lr_field rule, lookup_key)
           (serialize_pending m (la_desired acc) meta) db db2 i n"
    show "True \<and> (\<forall>d. stopped_or_same env db0 (conflict_db env i db2)
        (acc\<lparr>la_errors := la_errors acc @ [d], la_pending_created := True, la_should_stop := True\<rparr>))"
      using touched_conflict [OF t] by (simp add: stopped_or_same_def)
    show "True \<and> (\<forall>d. stopped_or_same env db0 db2 (acc\<lparr>la_warnings := la_warnings acc @ [d], la_pending_created := True,
        la_should_stop := \<not> rs_pending_allow_partial (re_settings env)\<rparr>))"
      using touched_exists [OF t] by (simp add: stopped_or_same_def)
  qed
qed (auto simp: stopped_or_same_def store_resolved_def Let_def)

text \<open>
  The links one after another as long as each lets the loop go on: the row under work and the database after \<open>rules\<close>.
\<close>

fun after_links ::
    "resolve_env \<Rightarrow> matched_row \<Rightarrow> source_record \<Rightarrow> py_mapping option \<Rightarrow> batch_index option \<Rightarrow> link_rule list \<Rightarrow> link_acc
     \<Rightarrow> identity_db \<Rightarrow> (link_acc \<times> identity_db) option" where
  "after_links env m rec meta batch [] acc db = Some (acc, db)"
| "after_links env m rec meta batch (rule # rules) acc db =
     (case resolve_link env m rec meta batch rule acc db of
        (db1, Inr (acc1, go_on)) \<Rightarrow> if go_on then after_links env m rec meta batch rules acc1 db1 else None
      | (db1, Inl e) \<Rightarrow> None)"

lemma after_links_snoc:
  assumes "after_links env m rec meta batch rules acc db = Some (acc1, db1)"
    "resolve_link env m rec meta batch rule acc1 db1 = (db2, Inr (acc2, True))"
  shows "after_links env m rec meta batch (rules @ [rule]) acc db = Some (acc2, db2)"
  using assms by (induction rules arbitrary: acc db) (auto split: prod.splits sum.splits if_splits)

text \<open>
  Where a resolved row may differ from the row it started as: at the field of a link, which holds the id the link found.
\<close>

definition resolved_from :: "link_rule list \<Rightarrow> (string, pyval) dict \<Rightarrow> (string, pyval) dict \<Rightarrow> bool" where
  "resolved_from rules before after \<longleftrightarrow> (\<forall>f. map_of after f \<noteq> map_of before f
     \<longrightarrow> (\<exists>rule \<in> set rules. lr_field rule = f \<and> (\<exists>rid. map_of after f = Some (coerce_resolved rid rule))))"

lemma resolved_from_store:
  assumes "resolved_from rules before (la_desired acc)" "rule \<in> set rules"
  shows "resolved_from rules before (la_desired (store_resolved rule rid acc))"
  using assms by (auto simp: resolved_from_def store_resolved_def Let_def update_conv')

lemma dict_ok_store: "dict_ok (la_desired acc) \<Longrightarrow> dict_ok (la_desired (store_resolved rule rid acc))"
  by (auto simp: store_resolved_def Let_def coerce_resolved_def intro!: dict_ok_update split: option.split)

text \<open>
  \<open>reached\<close> is the states the links had reached, each with the dataset of the link that was to follow.  A link of this
  row that was touched at \<open>now\<close> carries one of them as its payload.
\<close>

definition reached ::
    "resolve_env \<Rightarrow> matched_row \<Rightarrow> source_record \<Rightarrow> py_mapping option \<Rightarrow> batch_index option \<Rightarrow> identity_db
     \<Rightarrow> (string \<times> (string, pyval) dict) set" where
  "reached env m rec meta batch db = {(lr_target_dataset rule, la_desired acc) | pre rule post acc db1.
     re_links env = pre @ rule # post
     \<and> after_links env m rec meta batch pre (start_links (fst (merge_desired (re_rules env) m))) db = Some (acc, db1)
     \<and> dict_ok (la_desired acc) \<and> resolved_from pre (fst (merge_desired (re_rules env) m)) (la_desired acc)}"

definition carries_row ::
    "resolve_env \<Rightarrow> matched_row \<Rightarrow> py_mapping option \<Rightarrow> (string \<times> (string, pyval) dict) set \<Rightarrow> pending_link \<Rightarrow> bool" where
  "carries_row env m meta states r \<longleftrightarrow> pl_last_attempt_at r = Some (re_now env)
     \<and> (\<exists>desired. (pl_dataset r, desired) \<in> states \<and> pl_payload r = Some (serialize_pending m desired meta))"

definition row_waits ::
    "resolve_env \<Rightarrow> matched_row \<Rightarrow> py_mapping option \<Rightarrow> (string \<times> (string, pyval) dict) set \<Rightarrow> identity_db \<Rightarrow> link_acc \<Rightarrow> bool" where
  "row_waits env m meta states db acc \<longleftrightarrow> db_inv db
     \<and> (\<forall>r \<in> set (db_pending db). pl_status r = PENDING \<and> pl_source_row_id r = rr_row_id (mr_row_ref m)
          \<longrightarrow> last_touch r < re_now env \<or> carries_row env m meta states r)
     \<and> (la_errors acc = [] \<and> la_should_stop acc
          \<longrightarrow> (\<exists>r \<in> set (db_pending db). pl_status r = PENDING \<and> pl_source_row_id r = rr_row_id (mr_row_ref m) \<and> carries_row env m meta states r))"

interpretation waits: link_effects env m meta "{rule}"
    "\<lambda>db acc. row_waits env m meta states db acc \<and> (lr_target_dataset rule, la_desired acc) \<in> states"
    "row_waits env m meta states" "\<lambda>db. True" for env m meta states rule
proof
  fix q db acc lookup_key reason
  assume "q \<in> {rule}" and pre: "row_waits env m meta states db acc \<and> (lr_target_dataset rule, la_desired acc) \<in> states"
  then have q: "q = rule" by simp
  note inv = pre [THEN conjunct1]
  let ?rid = "rr_row_id (mr_row_ref m)"
  show "wp_s (create_pending_link env m q meta lookup_key reason acc) (\<lambda>acc db. row_waits env m meta states db acc) (\<lambda>db. True) db"
    unfolding q
  proof (rule create_pending_wp)
    show "db_inv db" using inv by (simp add: row_waits_def)
  next
    fix db2 i n
    assume t: "touched_link (re_now env) (lr_target_dataset rule, ?rid, lr_field rule, lookup_key)
           (serialize_pending m (la_desired acc) meta) db db2 i n"
    have "row_waits env m meta states (conflict_db env i db2) (acc\<lparr>la_errors := la_errors acc @ [d], la_pending_created := True, la_should_stop := True\<rparr>)" for d
      using touched_conflict [OF t] inv by (simp add: row_waits_def)
    then show "True \<and> (\<forall>d. row_waits env m meta states (conflict_db env i db2)
        (acc\<lparr>la_errors := la_errors acc @ [d], la_pending_created := True, la_should_stop := True\<rparr>))" by simp
    have fresh: "carries_row env m meta states r \<and> pl_status r = PENDING \<and> pl_source_row_id r = ?rid"
      if "r \<in> set (db_pending db2)" "pl_id r = i" for r
    proof -
      have "pl_dataset r = lr_target_dataset rule" using touched_mem [OF t that] by (simp add: pending_key_def)
      then have "(pl_dataset r, la_desired acc) \<in> states" using pre by simp
      then show ?thesis using touched_mem [OF t that] by (auto simp: carries_row_def pending_key_def)
    qed
    obtain r where r: "r \<in> set (db_pending db2)" "pl_id r = i" and "db_inv db2" using touched_exists [OF t] by blast
    have "last_touch q < re_now env \<or> carries_row env m meta states q"
      if "q \<in> set (db_pending db2)" "pl_status q = PENDING \<and> pl_source_row_id q = ?rid" for q
    proof (cases "pl_id q = i")
      case False
      then show ?thesis using untouched_mem [OF t that(1)] that(2) inv by (simp add: row_waits_def)
    qed (use fresh that in blast)
    then have "row_waits env m meta states db2 (acc\<lparr>la_warnings := ws, la_pending_created := True, la_should_stop := stop\<rparr>)" for ws stop
      unfolding row_waits_def using fresh [OF r] r(1) \<open>db_inv db2\<close> by auto
    then show "True \<and> (\<forall>d. row_waits env m meta states db2 (acc\<lparr>la_warnings := la_warnings acc @ [d], la_pending_created := True,
        la_should_stop := \<not> rs_pending_allow_partial (re_settings env)\<rparr>))" by simp
  qed
qed (auto simp: row_waits_def store_resolved_def Let_def)

text \<open>The row under work after the links of \<open>rules\<close>.\<close>

definition state_after :: "resolve_env \<Rightarrow> matched_row \<Rightarrow> link_rule list \<Rightarrow> link_acc \<Rightarrow> bool" where
  "state_after env m rules acc \<longleftrightarrow> dict_ok (la_desired acc) \<and> resolved_from rules (fst (merge_desired (re_rules env) m)) (la_desired acc)"

lemma state_after_snoc: "state_after env m rules acc \<Longrightarrow> state_after env m (rules @ [rule]) acc"
  by (auto simp: state_after_def resolved_from_def)

lemma state_after_store: "state_after env m rules acc \<Longrightarrow> state_after env m (rules @ [rule]) (store_resolved rule rid acc)"
  using resolved_from_store [of "rules @ [rule]" _ acc rule] state_after_snoc [of env m rules acc rule] dict_ok_store [of acc]
  by (simp add: state_after_def)

interpretation states: link_effects env m meta "{rule}" "\<lambda>db acc. db_inv db \<and> state_after env m rules acc"
    "\<lambda>db acc. state_after env m (rules @ [rule]) acc" "\<lambda>db. True" for env m meta rules rule
proof
  fix q db lookup_key reason and acc :: link_acc
  assume "db_inv db \<and> state_after env m rules acc"
  then have inv: "db_inv db" "state_after env m (rules @ [rule]) acc" by (simp_all add: state_after_snoc)
  show "wp_s (create_pending_link env m q meta lookup_key reason acc) (\<lambda>acc db. state_after env m (rules @ [rule]) acc) (\<lambda>db. True) db"
    by (rule create_pending_wp [OF inv(1)]) (use inv(2) in \<open>simp_all add: state_after_def\<close>)
  show "state_after env m (rules @ [rule]) (acc\<lparr>la_errors := la_errors acc @ [d], la_should_stop := True\<rparr>)" for d
    using inv(2) by (simp add: state_after_def)
  show "state_after env m (rules @ [rule]) acc" by (fact inv(2))
qed (auto simp: state_after_store)

lemma waits_loop:
  assumes "re_links env = before @ rules" "state_after env m before acc"
    "after_links env m rec meta batch before (start_links (fst (merge_desired (re_rules env) m))) db0 = Some (acc, db)"
    "row_waits env m meta (reached env m rec meta batch db0) db acc"
  shows "wp_s (link_loop env m rec meta batch rules acc) (\<lambda>acc db. row_waits env m meta (reached env m rec meta batch db0) db acc) (\<lambda>db. True) db"
  using assms
proof (induction rules arbitrary: before acc db)
  case (Cons rule rules)
  let ?states = "reached env m rec meta batch db0"
  have mem: "(lr_target_dataset rule, la_desired acc) \<in> ?states"
    using Cons.prems(1-3) unfolding reached_def state_after_def by blast
  have waits: "wp_s (resolve_link env m rec meta batch rule acc) (\<lambda>(acc, more) db. row_waits env m meta ?states db acc) (\<lambda>db. True) db"
    by (rule waits.link_wp) (use mem Cons.prems(4) in simp_all)
  have state: "wp_s (resolve_link env m rec meta batch rule acc) (\<lambda>(acc, more) db. state_after env m (before @ [rule]) acc) (\<lambda>db. True) db"
    by (rule states.link_wp) (use Cons.prems(2,4) in \<open>simp_all add: row_waits_def\<close>)
  show ?case
  proof (cases "snd (resolve_link env m rec meta batch rule acc db)")
    case (Inr r)
    obtain db1 acc1 go_on where link: "resolve_link env m rec meta batch rule acc db = (db1, Inr (acc1, go_on))"
      using Inr by (cases "resolve_link env m rec meta batch rule acc db"; cases r) auto
    have "row_waits env m meta ?states db1 acc1" "state_after env m (before @ [rule]) acc1"
      using wp_result [OF waits link] wp_result [OF state link] by simp_all
    moreover from this have "go_on \<Longrightarrow> wp_s (link_loop env m rec meta batch rules acc1) (\<lambda>acc db. row_waits env m meta ?states db acc) (\<lambda>db. True) db1"
      using Cons.IH [of "before @ [rule]" acc1 db1] Cons.prems(1) after_links_snoc [OF Cons.prems(3)] link by simp
    ultimately show ?thesis
      by (cases go_on) (auto simp: wp wp_s_def [of "resolve_link env m rec meta batch rule acc"] link)
  qed (auto simp: wp wp_s_def [of "resolve_link env m rec meta batch rule acc"] split: prod.split)
qed (simp add: wp)

section \<open>Rows planned and rows withheld\<close>

lemma planned_row_lemma:
  assumes "db_inv db" "re_gateway env" "\<not> rs_pending_allow_partial (re_settings env)"
    "resolve env m rec target_ids meta batch db = (db', Inr (Some row, errs, warns))"
  shows "errs = [] \<and> warns = [] \<and> db' = mark_resolved_for_source (re_now env) (rr_row_id (mr_row_ref m)) db"
proof -
  let ?Q = "\<lambda>(row, errs, warns) db'. row \<noteq> None \<longrightarrow> errs = [] \<and> warns = []
      \<and> db' = mark_resolved_for_source (re_now env) (rr_row_id (mr_row_ref m)) db"
  have "wp_s (resolve env m rec target_ids meta batch) ?Q (\<lambda>db. True) db"
  proof (rule stops.resolve_wp [where db0 = db])
    show "stopped_or_same env db db (start_links (fst (merge_desired (re_rules env) m)))"
      using assms(1) by (simp add: stopped_or_same_def start_links_def)
    fix acc db1
    assume "stopped_or_same env db db1 acc"
    then show "wp_s (finish_resolve env m target_ids (snd (merge_desired (re_rules env) m)) acc) ?Q (\<lambda>db. True) db1"
      using assms(2,3) by (intro finish_resolve_wp) (auto simp: stopped_or_same_def)
  qed simp
  from wp_result [OF this assms(4)] show ?thesis by simp
qed

lemma max_touch:
  assumes "finite S" "r \<in> S"
  shows "\<exists>x \<in> S. (\<forall>q \<in> S. (last_touch q, pl_id q) \<le> (last_touch x, pl_id x)) \<and> last_touch r \<le> last_touch x"
proof -
  let ?key = "\<lambda>q. (last_touch q, pl_id q)"
  have fin: "finite (?key ` S)" and ne: "?key ` S \<noteq> {}" using assms by auto
  obtain x where x: "x \<in> S" "?key x = Max (?key ` S)" using Max_in [OF fin ne] by auto
  have "\<forall>q \<in> S. ?key q \<le> ?key x" using Max_ge [OF fin] x(2) by auto
  moreover from this have "last_touch r \<le> last_touch x" using assms(2) by (auto simp: less_eq_prod_def)
  ultimately show ?thesis using x(1) by blast
qed

lemma list_pending_rows_mem:
  assumes "x \<in> set (db_pending db)" "pl_status x = PENDING" "pl_payload x = Some p"
    "\<And>q. \<lbrakk>q \<in> set (db_pending db); pl_dataset q = pl_dataset x; pl_status q = PENDING; pl_payload q \<noteq> None;
       pl_source_row_id q = pl_source_row_id x\<rbrakk> \<Longrightarrow> (last_touch q, pl_id q) \<le> (last_touch x, pl_id x)"
  shows "(pl_dataset x, pl_source_row_id x, p) \<in> set (list_pending_rows (pl_dataset x) db)"
  unfolding list_pending_rows_def Let_def set_map
proof (rule image_eqI [of _ _ x])
  show "(pl_dataset x, pl_source_row_id x, p) = (pl_dataset x, pl_source_row_id x, the (pl_payload x))" using assms(3) by simp
  show "x \<in> set (filter (\<lambda>r. list_all (\<lambda>q. pl_source_row_id q = pl_source_row_id r \<longrightarrow> (last_touch q, pl_id q) \<le> (last_touch r, pl_id r))
      (filter (\<lambda>r. pl_dataset r = pl_dataset x \<and> pl_status r = PENDING \<and> pl_payload r \<noteq> None) (db_pending db)))
      (filter (\<lambda>r. pl_dataset r = pl_dataset x \<and> pl_status r = PENDING \<and> pl_payload r \<noteq> None) (db_pending db)))"
    using assms by (simp add: list_all_iff del: less_eq_prod_simp)
qed

lemma waiting_row_listed:
  assumes "row_waits env m meta states db acc" "la_errors acc = []" "la_should_stop acc"
  shows "\<exists>dataset desired. (dataset, desired) \<in> states
    \<and> (dataset, rr_row_id (mr_row_ref m), serialize_pending m desired meta) \<in> set (list_pending_rows dataset db)"
proof -
  let ?rid = "rr_row_id (mr_row_ref m)"
  obtain r where r: "r \<in> set (db_pending db)" "pl_status r = PENDING" "pl_source_row_id r = ?rid" "carries_row env m meta states r"
    using assms by (auto simp: row_waits_def)
  define S where "S = {q \<in> set (db_pending db). pl_dataset q = pl_dataset r \<and> pl_status q = PENDING \<and> pl_payload q \<noteq> None \<and> pl_source_row_id q = ?rid}"
  have "finite S" "r \<in> S" using r by (auto simp: S_def carries_row_def)
  then obtain x where x: "x \<in> S" "\<forall>q \<in> S. (last_touch q, pl_id q) \<le> (last_touch x, pl_id x)" "last_touch r \<le> last_touch x"
    using max_touch by blast
  have "last_touch r = re_now env" using r(4) by (simp add: carries_row_def last_touch_def)
  with x(1,3) assms(1) have "carries_row env m meta states x" by (fastforce simp: row_waits_def S_def)
  then obtain desired where d: "(pl_dataset x, desired) \<in> states" "pl_payload x = Some (serialize_pending m desired meta)"
    by (auto simp: carries_row_def)
  have mem: "x \<in> set (db_pending db)" "pl_status x = PENDING" "pl_source_row_id x = ?rid" "pl_dataset x = pl_dataset r"
    using x(1) by (simp_all add: S_def)
  have "(pl_dataset x, ?rid, serialize_pending m desired meta) \<in> set (list_pending_rows (pl_dataset x) db)"
    unfolding mem(3) [symmetric]
    by (rule list_pending_rows_mem [OF mem(1,2) d(2)]) (use x(2) mem in \<open>simp add: S_def\<close>)
  with d(1) show ?thesis by blast
qed

lemma withheld_row_lemma:
  assumes "db_inv db" "dict_ok (fst (merge_desired (re_rules env) m))"
    "\<forall>r \<in> set (db_pending db). pl_status r = PENDING \<and> pl_source_row_id r = rr_row_id (mr_row_ref m) \<longrightarrow> last_touch r < re_now env"
    "resolve env m rec target_ids meta batch db = (db', Inr (None, [], warns))"
  shows "\<exists>dataset desired. (dataset, desired) \<in> reached env m rec meta batch db
    \<and> (dataset, rr_row_id (mr_row_ref m), serialize_pending m desired meta) \<in> set (list_pending_rows dataset db')"
proof -
  let ?states = "reached env m rec meta batch db" and ?start = "start_links (fst (merge_desired (re_rules env) m))"
  let ?Q = "\<lambda>(row, errs, warns) db'. row = None \<and> errs = [] \<longrightarrow> (\<exists>dataset desired. (dataset, desired) \<in> ?states
    \<and> (dataset, rr_row_id (mr_row_ref m), serialize_pending m desired meta) \<in> set (list_pending_rows dataset db'))"
  let ?finish = "finish_resolve env m target_ids (snd (merge_desired (re_rules env) m))"
  have start: "row_waits env m meta ?states db ?start" "state_after env m [] ?start"
    using assms(1-3) by (simp_all add: row_waits_def start_links_def state_after_def resolved_from_def)
  have loop: "wp_s (link_loop env m rec meta batch (re_links env) ?start) (\<lambda>acc db. row_waits env m meta ?states db acc) (\<lambda>db. True) db"
    by (rule waits_loop [of env "[]"]) (use start in simp_all)
  have links: "wp_s (resolve_links env m rec meta batch ?start) (\<lambda>acc db. row_waits env m meta ?states db acc) (\<lambda>db. True) db"
    using loop start(1) by (auto simp: resolve_links_def wp row_waits_def split: sum.split)
  have finish: "wp_s (?finish acc) ?Q (\<lambda>db. True) db1" if "row_waits env m meta ?states db1 acc" for acc db1
    by (rule finish_resolve_wp) (use waiting_row_listed [OF that] in auto)
  have "wp_s (bind_s (resolve_links env m rec meta batch ?start) ?finish) ?Q (\<lambda>db. True) db"
    unfolding wp by (rule wp_mono [OF links finish])
  then have "wp_s (resolve env m rec target_ids meta batch) ?Q (\<lambda>db. True) db"
    by (auto simp: resolve_def Let_def split_beta wp split: sum.split)
  from wp_result [OF this assms(4)] show ?thesis by simp
qed

lemma empty_inv: "db_inv empty_db" "attempts_bounded n empty_db"
  by (simp_all add: attempts_bounded_def db_inv_def pending_rows_of_def empty_db_def)

lemma resolve_inv: "attempts_bounded (rs_pending_max_attempts (re_settings env)) db \<Longrightarrow> db_inv (fst (resolve env m rec target_ids meta batch db))"
  using resolve_attempts_bounded_state by (simp add: attempts_bounded_def)

section \<open>Properties\<close>

definition resolve_all ::
    "resolve_env \<Rightarrow> (matched_row \<times> source_record \<times> py_mapping option \<times> batch_index option) list \<Rightarrow> identity_db \<Rightarrow> identity_db" where
  "resolve_all env rows db = fold (\<lambda>(m, rec, meta, batch) db. fst (resolve env m rec [] meta batch db)) rows db"

text \<open>
  C15. However many rows the resolver works through, however often they come back, and whether or not one of them raises,
  a link is pending only as long as its attempts are below the configured maximum.
\<close>

theorem resolve_attempts_bounded:
  assumes "attempts_bounded (rs_pending_max_attempts (re_settings env)) db"
  shows "attempts_bounded (rs_pending_max_attempts (re_settings env)) (resolve_all env rows db)"
  using assms unfolding resolve_all_def
proof (induction rows arbitrary: db)
  case (Cons row rows)
  obtain m rec meta batch where "row = (m, rec, meta, batch)" by (cases row)
  then show ?case using Cons resolve_attempts_bounded_state by simp
qed simp

lemma resolve_attempts_bounded_witness:
  "attempts_bounded 3 (resolve_all (example_env example_block) (replicate 3 (example_row, example_record, None, None)) empty_db)
   \<and> map (\<lambda>r. (pl_status r, pl_attempts r))
       (db_pending (resolve_all (example_env example_block) (replicate 3 (example_row, example_record, None, None)) empty_db))
     = [(LINK_CONFLICT, 3)]"
proof
  have three: "rs_pending_max_attempts (re_settings (example_env example_block)) = 3" by (simp add: example_env_def)
  show "attempts_bounded 3 (resolve_all (example_env example_block) (replicate 3 (example_row, example_record, None, None)) empty_db)"
    using resolve_attempts_bounded [of "example_env example_block", OF empty_inv(2)] unfolding three .
qed code_simp

text \<open>
  C4. Where partial planning is off, a row the resolver plans has no error and no warning, and its only effect on the
  identity database is that every pending link of its source row is closed.
\<close>

theorem planned_row_waits_for_nothing:
  assumes "db_inv db" "re_gateway env" "\<not> rs_pending_allow_partial (re_settings env)"
    "resolve env m rec target_ids meta batch db = (db', Inr (Some row, errs, warns))"
  shows "errs = [] \<and> warns = [] \<and> db' = mark_resolved_for_source (re_now env) (rr_row_id (mr_row_ref m)) db
    \<and> (\<forall>r \<in> set (db_pending db'). pl_source_row_id r = rr_row_id (mr_row_ref m) \<longrightarrow> pl_status r \<noteq> PENDING)"
proof -
  note planned = planned_row_lemma [OF assms]
  have "pl_status r \<noteq> PENDING" if r: "r \<in> set (db_pending db')" "pl_source_row_id r = rr_row_id (mr_row_ref m)" for r
  proof
    assume "pl_status r = PENDING"
    with closed_pending_mem [of r _ RESOLVED] r planned show False by (auto simp: mark_resolved_for_source_def)
  qed
  with planned show ?thesis by blast
qed

definition known_manager :: identity_db where
  "known_manager = upsert_identity ''2026-01-01'' ''users'' ''name:Bob'' ''u1''
     (fst (resolve (example_env example_block) example_row example_record [] None None empty_db))"

lemma planned_row_waits_for_nothing_witness:
  "\<exists>db' row. resolve (example_env example_block) example_row example_record [] None None known_manager = (db', Inr (Some row, [], []))
     \<and> rv_changes row = [(''managerId'', PStr ''u1'')] \<and> map pl_status (db_pending known_manager) = [PENDING]
     \<and> (\<forall>r \<in> set (db_pending db'). pl_source_row_id r = rr_row_id (mr_row_ref example_row) \<longrightarrow> pl_status r \<noteq> PENDING)"
proof -
  let ?m = "resolve (example_env example_block) example_row example_record [] None None known_manager"
  have facts: "map_sum (\<lambda>e. ()) (\<lambda>(row, errs, warns). map_option rv_changes row) (snd ?m) = Inr (Some [(''managerId'', PStr ''u1'')])"
    "map pl_status (db_pending known_manager) = [PENDING]" by code_simp+
  obtain db' row errs warns where m: "?m = (db', Inr (Some row, errs, warns))" and r: "rv_changes row = [(''managerId'', PStr ''u1'')]"
    using facts(1) by (cases ?m; cases "snd ?m") (auto split: prod.splits)
  have "db_inv known_manager" by (simp add: known_manager_def resolve_inv empty_inv)
  from planned_row_waits_for_nothing [OF this _ _ m] have "errs = [] \<and> warns = []
      \<and> (\<forall>r \<in> set (db_pending db'). pl_source_row_id r = rr_row_id (mr_row_ref example_row) \<longrightarrow> pl_status r \<noteq> PENDING)"
    by (simp add: example_env_def)
  then have "errs = []" "warns = []" "\<forall>r \<in> set (db_pending db'). pl_source_row_id r = rr_row_id (mr_row_ref example_row) \<longrightarrow> pl_status r \<noteq> PENDING"
    by blast+
  then have "?m = (db', Inr (Some row, [], []))" using m by (simp only:)
  show ?thesis
  proof (intro exI conjI)
    show "?m = (db', Inr (Some row, [], []))" by fact
    show "rv_changes row = [(''managerId'', PStr ''u1'')]" by fact
    show "map pl_status (db_pending known_manager) = [PENDING]" by fact
    show "\<forall>r \<in> set (db_pending db'). pl_source_row_id r = rr_row_id (mr_row_ref example_row) \<longrightarrow> pl_status r \<noteq> PENDING" by fact
  qed
qed

text \<open>
  C16. A row that the resolver withholds without an error waits in the pending table, in the dataset of one of its links,
  with the state the links before that one had reached: the merged state, except that a field of one of those links may
  hold the id the link found.  The reader of the pending rows lists the row there and reads it back with that state.  The
  rows of the table that wait for the same source row must have been touched before now: of several the reader lists the
  one touched last, and at the same instant the one with the highest id.
\<close>

theorem withheld_row_comes_back:
  assumes "row_ok m" "db_inv db" "dict_ok (fst (merge_desired (re_rules env) m))" "\<And>d. meta = Some (Plain_Dict d) \<Longrightarrow> dict_ok d"
    "\<forall>r \<in> set (db_pending db). pl_status r = PENDING \<and> pl_source_row_id r = rr_row_id (mr_row_ref m) \<longrightarrow> last_touch r < re_now env"
    "resolve env m rec target_ids meta batch db = (db', Inr (None, [], warns))"
  shows "\<exists>before rule after acc db1 payload. re_links env = before @ rule # after
    \<and> after_links env m rec meta batch before (start_links (fst (merge_desired (re_rules env) m))) db = Some (acc, db1)
    \<and> resolved_from before (fst (merge_desired (re_rules env) m)) (la_desired acc)
    \<and> (lr_target_dataset rule, rr_row_id (mr_row_ref m), payload) \<in> set (list_pending_rows (lr_target_dataset rule) db')
    \<and> load_pending_rows [(lr_target_dataset rule, rr_row_id (mr_row_ref m), payload)]
        = Inr ([replayed_result (m\<lparr>mr_desired_state := la_desired acc\<rparr>) (dict_of (dumped_meta meta))], 0)"
proof -
  obtain dataset desired where mem: "(dataset, desired) \<in> reached env m rec meta batch db"
    and listed: "(dataset, rr_row_id (mr_row_ref m), serialize_pending m desired meta) \<in> set (list_pending_rows dataset db')"
    using withheld_row_lemma [OF assms(2,3,5,6)] by blast
  from mem obtain before rule after acc db1 where r: "re_links env = before @ rule # after" "dataset = lr_target_dataset rule" "desired = la_desired acc"
      "after_links env m rec meta batch before (start_links (fst (merge_desired (re_rules env) m))) db = Some (acc, db1)"
      "dict_ok desired" "resolved_from before (fst (merge_desired (re_rules env) m)) (la_desired acc)"
    unfolding reached_def by blast
  have load: "load_pending_rows [(lr_target_dataset rule, rr_row_id (mr_row_ref m), serialize_pending m desired meta)]
      = Inr ([replayed_result (m\<lparr>mr_desired_state := desired\<rparr>) (dict_of (dumped_meta meta))], 0)"
    using load_written [OF assms(1) r(5), of meta _ _ "[]"] assms(4) by simp
  show ?thesis
    by (rule exI [of _ before], rule exI [of _ rule], rule exI [of _ after], rule exI [of _ acc], rule exI [of _ db1],
        rule exI [of _ "serialize_pending m desired meta"])
      (use r(1,4,6) listed load in \<open>simp only: r(2,3) simp_thms\<close>)
qed

text \<open>The example: the first link finds the manager, the second waits, and the row comes back with the manager it found.\<close>

definition deputy_link :: link_rule where
  "deputy_link = example_link\<lparr>lr_field := ''deputyId'', lr_target_dataset := ''deputies'',
     lr_resolve_keys := [\<lparr>lk_name = ''name'', lk_field = ''deputyId''\<rparr>]\<rparr>"

definition two_links_env :: resolve_env where
  "two_links_env = (example_env example_block)\<lparr>re_links := [example_link, deputy_link]\<rparr>"

definition two_links_row :: matched_row where
  "two_links_row = example_row\<lparr>mr_desired_state := mr_desired_state example_row @ [(''deputyId'', PStr ''Ann'')]\<rparr>"

definition bob_known :: identity_db where
  "bob_known = upsert_identity ''2026-01-01'' ''users'' ''name:Bob'' ''u1'' empty_db"

lemma withheld_row_comes_back_witness:
  "\<exists>db' warns payload. resolve two_links_env two_links_row example_record [] None None bob_known = (db', Inr (None, [], warns))
     \<and> (''deputies'', ''r1'', payload) \<in> set (list_pending_rows ''deputies'' db')
     \<and> load_pending_rows [(''deputies'', ''r1'', payload)]
         = Inr ([replayed_result (two_links_row\<lparr>mr_desired_state :=
              [(''login'', PStr ''ann''), (''manager'', PStr ''u1''), (''deputyId'', PStr ''Ann'')]\<rparr>) []], 0)"
proof -
  let ?m = "resolve two_links_env two_links_row example_record [] None None bob_known"
  let ?start = "start_links (fst (merge_desired (re_rules two_links_env) two_links_row))"
  have out: "map_sum (\<lambda>e. ()) (\<lambda>(row, errs, warns). (row = None, errs = [])) (snd ?m) = Inr (True, True)"
    and users: "list_pending_rows ''users'' (fst ?m) = []" and id: "rr_row_id (mr_row_ref two_links_row) = ''r1''"
    and state: "map_option (\<lambda>(acc, db). la_desired acc)
        (after_links two_links_env two_links_row example_record None None [example_link] ?start bob_known)
      = Some [(''login'', PStr ''ann''), (''manager'', PStr ''u1''), (''deputyId'', PStr ''Ann'')]"
    and ok: "dict_ok (fst (merge_desired (re_rules two_links_env) two_links_row))" and none: "db_pending bob_known = []"
    by code_simp+
  obtain db' warns where m: "?m = (db', Inr (None, [], warns))"
    using out by (cases ?m; cases "snd ?m") (auto split: prod.splits)
  have "row_ok two_links_row" using example_row_ok by (simp add: two_links_row_def row_ok_def example_row_def)
  moreover have "db_inv bob_known" by (simp add: bob_known_def empty_inv)
  ultimately obtain before rule after acc db1 payload where links: "re_links two_links_env = before @ rule # after"
      and acc: "after_links two_links_env two_links_row example_record None None before ?start bob_known = Some (acc, db1)"
      and listed: "(lr_target_dataset rule, ''r1'', payload) \<in> set (list_pending_rows (lr_target_dataset rule) db')"
      and loads: "load_pending_rows [(lr_target_dataset rule, ''r1'', payload)]
        = Inr ([replayed_result (two_links_row\<lparr>mr_desired_state := la_desired acc\<rparr>) []], 0)"
    using withheld_row_comes_back [OF _ _ ok _ _ m] none id by auto
  have two: "re_links two_links_env = [example_link, deputy_link]" "lr_target_dataset example_link = ''users''"
      "lr_target_dataset deputy_link = ''deputies''"
    by (simp_all add: two_links_env_def deputy_link_def example_link_def)
  have "rule \<noteq> example_link" using listed users m two(2) by auto
  then have "before = [example_link]" "rule = deputy_link" using links two(1) by (auto simp: Cons_eq_append_conv)
  with acc listed loads state m two(3) show ?thesis by auto
qed

end
