(* ===== verification/Match_Rules.thy ===== *)
theory Match_Rules
  imports Complex_Main "HOL-Library.Multiset" Resolve_Rules Transform_Result
begin

text \<open>
  Model of the match rules: the specification (\<open>domain/transform_dsl/specs/match.py\<close>) with its validators, its
  compilation (\<open>transform_dsl/compilers/match.py\<close>), the context of a row (\<open>transform/matcher/context.py\<close>) and the
  scoring of candidates (\<open>matcher/scoring.py\<close>) with the similarity of texts of the standard library.

  The arithmetic of floats and the order of the members of a Python set are arguments.
\<close>

section \<open>Floats in order\<close>

definition float_val :: "py_float \<Rightarrow> real" where
  "float_val f = of_int (mantissa f) * 10 powi exp10 f"

lemma float_le_val: "float_le f g \<longleftrightarrow> float_val f \<le> float_val g"
proof -
  define e where "e = min (exp10 f) (exp10 g)"
  have scale: "float_val h = of_int (mantissa h * 10 ^ nat (exp10 h - e)) * 10 powi e" if "e \<le> exp10 h" for h
  proof -
    have "(10 :: real) powi exp10 h = 10 powi (exp10 h - e) * 10 powi e"
      by (simp add: power_int_diff)
    moreover have "(10 :: real) powi (exp10 h - e) = 10 ^ nat (exp10 h - e)"
      using that by (simp add: power_int_def)
    ultimately show ?thesis by (simp add: float_val_def)
  qed
  have "float_val f \<le> float_val g
      \<longleftrightarrow> mantissa f * 10 ^ nat (exp10 f - e) \<le> mantissa g * 10 ^ nat (exp10 g - e)"
    using scale [of f] scale [of g] mult_le_cancel_right_pos [of "10 powi e :: real"]
    by (simp add: e_def flip: of_int_mult of_int_power)
  then show ?thesis by (simp add: float_le_def e_def Let_def)
qed

lemma float_le_refl [simp]: "float_le f f" by (simp add: float_le_val)

lemma float_le_trans: "float_le f g \<Longrightarrow> float_le g h \<Longrightarrow> float_le f h" by (simp add: float_le_val)

lemma float_le_linear: "\<not> float_le f g \<Longrightarrow> float_le g f" by (simp add: float_le_val)

definition zero_float :: py_float where "zero_float = PyFloat 0 0"
definition one_float :: py_float where "one_float = PyFloat 1 0"

text \<open>\<open>max(0.0, x)\<close>, \<open>min(a, b)\<close> and \<open><\<close>.\<close>

definition float_pos :: "py_float \<Rightarrow> py_float" where
  "float_pos f = (if float_le f zero_float then zero_float else f)"

definition float_min :: "py_float \<Rightarrow> py_float \<Rightarrow> py_float" where
  "float_min f g = (if float_le f g then f else g)"

abbreviation float_less :: "py_float \<Rightarrow> py_float \<Rightarrow> bool" where
  "float_less f g \<equiv> \<not> float_le g f"

section \<open>Specification\<close>

record match_rule_spec =
  mru_name :: string
  mru_fields :: "string list"
  mru_primary :: "string option"

text \<open>\<open>SourceDedupSpec\<close> and the compiled \<open>SourceDedupRules\<close> have the same fields, and so have the fuzzy rules.\<close>

record source_dedup_rules =
  sdr_enabled :: bool
  sdr_on_duplicate :: string
  sdr_on_conflict :: string

record fuzzy_rules =
  fz_enabled :: bool
  fz_blocking_keys :: "string list"
  fz_comparators :: "(string, string) dict"
  fz_weights :: "(string, py_float) dict"
  fz_accept_threshold :: py_float
  fz_review_threshold :: py_float
  fz_tie_delta :: py_float
  fz_max_candidates :: int
  fz_top_k :: int
  fz_score_round :: int

record topology_match_spec =
  tms_enabled :: bool
  tms_apply_on :: string
  tms_on_missing :: string
  tms_ladder :: "string list"

record match_block =
  mb_identity_rules :: "match_rule_spec list"
  mb_ignored_fields :: "string list"
  mb_source_dedup :: source_dedup_rules
  mb_fuzzy :: fuzzy_rules
  mb_topology :: "topology_match_spec option"

text \<open>The validators of the specification; \<open>None\<close> is acceptance.\<close>

definition validate_match_rule :: "match_rule_spec \<Rightarrow> string option" where
  "validate_match_rule r =
     (if mru_fields r = [] then Some ''match.identity_rules[].fields must not be empty''
      else (case mru_primary r of
          None \<Rightarrow> None
        | Some p \<Rightarrow> if p \<noteq> [] \<and> p \<notin> set (mru_fields r) then Some ''match.identity_rules[].primary must belong to fields'' else None))"

definition in_unit :: "py_float \<Rightarrow> bool" where
  "in_unit f \<longleftrightarrow> float_le zero_float f \<and> float_le f one_float"

text \<open>The checks that the specification and the compiled rules share, with the prefix of their messages.\<close>

definition validate_thresholds :: "string \<Rightarrow> fuzzy_rules \<Rightarrow> string option" where
  "validate_thresholds prefix f =
     (if \<not> in_unit (fz_accept_threshold f) then Some (prefix @ ''fuzzy.accept_threshold must be within [0.0, 1.0]'')
      else if \<not> in_unit (fz_review_threshold f) then Some (prefix @ ''fuzzy.review_threshold must be within [0.0, 1.0]'')
      else if float_less (fz_accept_threshold f) (fz_review_threshold f)
        then Some (prefix @ ''fuzzy.review_threshold must be <= '' @ prefix @ ''fuzzy.accept_threshold'')
      else if float_less (fz_tie_delta f) zero_float then Some (prefix @ ''fuzzy.tie_delta must be >= 0.0'')
      else if fz_max_candidates f < 1 then Some (prefix @ ''fuzzy.max_candidates must be >= 1'')
      else if fz_top_k f < 1 then Some (prefix @ ''fuzzy.top_k must be >= 1'')
      else if fz_score_round f < 0 then Some (prefix @ ''fuzzy.score_round must be >= 0'')
      else (case find (\<lambda>(name, w). float_less w zero_float) (fz_weights f) of
          Some (name, w) \<Rightarrow> Some (prefix @ ''fuzzy.weights['' @ repr_string name @ ''] must be >= 0.0'')
        | None \<Rightarrow> None))"

definition validate_fuzzy_spec :: "fuzzy_rules \<Rightarrow> string option" where
  "validate_fuzzy_spec f =
     (case validate_thresholds ''match.'' f of
        Some e \<Rightarrow> Some e
      | None \<Rightarrow>
          (let comparators = dict_keys (fz_comparators f); weights = dict_keys (fz_weights f);
               only_comparators = sort (filter (\<lambda>k. k \<notin> set weights) comparators);
               only_weights = sort (filter (\<lambda>k. k \<notin> set comparators) weights)
           in if only_comparators \<noteq> [] \<or> only_weights \<noteq> []
              then Some (''match.fuzzy.comparators and match.fuzzy.weights must define the same fields; comparators_only=''
                     @ py_repr (str_list only_comparators) @ '', weights_only='' @ py_repr (str_list only_weights))
              else None))"

definition validate_topology_spec :: "topology_match_spec \<Rightarrow> string option" where
  "validate_topology_spec t =
     (if tms_enabled t \<and> tms_ladder t = [] then Some ''match.topology.comparison_ladder must not be empty when enabled'' else None)"

definition validate_match_block :: "match_block \<Rightarrow> string option" where
  "validate_match_block b = (if mb_identity_rules b = [] then Some ''match.identity_rules must not be empty'' else None)"

section \<open>The context of a row\<close>

record match_context =
  mctx_line_no :: int
  mctx_match_key :: string
  mctx_match_key_complete :: bool
  mctx_row_ref :: "row_ref option"
  mctx_secret_candidates :: "(string, string) dict"
  mctx_secret_fields :: "string list"
  mctx_errors :: "diagnostic_item list"
  mctx_warnings :: "diagnostic_item list"

definition build_match_context :: "'a transform_result \<Rightarrow> match_context" where
  "build_match_context source =
     (let key = (case tr_match_key source of None \<Rightarrow> [] | Some k \<Rightarrow> k);
          key_value = (if key = [] then PNone else PStr key);
          rref = (case tr_row_ref source of
              Some r \<Rightarrow> r
            | None \<Rightarrow> \<lparr>rr_line_no = Some (src_line_no (tr_record source)), rr_row_id = src_record_id (tr_record source),
                       rr_identity_primary = PStr ''match_key'', rr_identity_value = key_value\<rparr>);
          rref = (if rr_identity_primary rref = PNone
            then rref\<lparr>rr_identity_primary := PStr ''match_key'', rr_identity_value := key_value\<rparr> else rref);
          named = (case dict_get_or (tr_meta source) ''secret_fields'' PNone of
              PList vs \<Rightarrow> map py_str (filter truthy vs) | _ \<Rightarrow> []);
          secret_fields = (if named = [] \<and> tr_secret_candidates source \<noteq> [] then dict_keys (tr_secret_candidates source) else named)
      in \<lparr>mctx_line_no = src_line_no (tr_record source), mctx_match_key = key, mctx_match_key_complete = (tr_match_key source \<noteq> None),
          mctx_row_ref = Some rref, mctx_secret_candidates = tr_secret_candidates source, mctx_secret_fields = secret_fields,
          mctx_errors = tr_errors source, mctx_warnings = tr_warnings source\<rparr>)"

text \<open>
  \<open>str(getattr(match_context, name))\<close> where the context has the attribute and the value is not blank; the texts
  of diagnostics are an argument, and so is that of the other attributes that every object of the class has.
\<close>

record object_texts =
  ot_row_ref :: "row_ref \<Rightarrow> string"
  ot_diagnostics :: "diagnostic_item list \<Rightarrow> string"
  ot_class_attribute :: "string \<Rightarrow> string option"

definition context_text :: "object_texts \<Rightarrow> match_context \<Rightarrow> string \<Rightarrow> string option" where
  "context_text texts ctx name =
     (if name = ''line_no'' then Some (int_str (mctx_line_no ctx))
      else if name = ''match_key'' then (if mctx_match_key ctx = [] then None else Some (mctx_match_key ctx))
      else if name = ''match_key_complete'' then Some (py_repr (PBool (mctx_match_key_complete ctx)))
      else if name = ''row_ref'' then map_option (ot_row_ref texts) (mctx_row_ref ctx)
      else if name = ''secret_candidates'' then Some (py_repr (PDict (map (\<lambda>(k, v). (k, PStr v)) (mctx_secret_candidates ctx))))
      else if name = ''secret_fields'' then Some (py_repr (str_list (mctx_secret_fields ctx)))
      else if name = ''errors'' then Some (ot_diagnostics texts (mctx_errors ctx))
      else if name = ''warnings'' then Some (ot_diagnostics texts (mctx_warnings ctx))
      else ot_class_attribute texts name)"

section \<open>Compilation\<close>

record identity_rule =
  ir_name :: string
  ir_build :: "(string, pyval) dict \<Rightarrow> match_context \<Rightarrow> identity"

record topology_match_policy =
  tmp_enabled :: bool
  tmp_apply_on :: string
  tmp_on_missing :: string
  tmp_ladder :: "topology_match_mode list"

record matching_rules =
  ma_identity_rules :: "identity_rule list"
  ma_ignored_fields :: "string list"
  ma_build_links :: "((string, pyval) dict \<Rightarrow> match_context \<Rightarrow> (string, identity) dict) option"
  ma_source_dedup :: source_dedup_rules
  ma_fuzzy :: fuzzy_rules
  ma_topology :: "topology_match_policy option"

definition read_identity_value :: "object_texts \<Rightarrow> (string, pyval) dict \<Rightarrow> match_context \<Rightarrow> string \<Rightarrow> string" where
  "read_identity_value texts row ctx name =
     (case context_text texts ctx name of
        Some s \<Rightarrow> s
      | None \<Rightarrow> (case dict_get_or row name PNone of PNone \<Rightarrow> [] | v \<Rightarrow> py_str v))"

definition rule_primary :: "match_rule_spec \<Rightarrow> string" where
  "rule_primary r =
     (if str_or (mru_primary r) [] \<noteq> [] then str_or (mru_primary r) []
      else if mru_name r \<noteq> [] then mru_name r else hd (mru_fields r))"

definition build_identity_rule :: "object_texts \<Rightarrow> match_rule_spec \<Rightarrow> identity_rule" where
  "build_identity_rule texts r =
     \<lparr>ir_name = mru_name r,
      ir_build = (\<lambda>row ctx.
        \<lparr>id_primary = rule_primary r,
         id_values = fold (\<lambda>name. AList.update name (read_identity_value texts row ctx name)) (mru_fields r) []\<rparr>)\<rparr>"

text \<open>\<open>FuzzyScoringRules.__post_init__\<close> raises a \<open>ValueError\<close>, which the compiler turns into its own error.\<close>

definition make_fuzzy :: "fuzzy_rules \<Rightarrow> fuzzy_rules result" where
  "make_fuzzy f = (case validate_thresholds [] f of None \<Rightarrow> Inr f | Some e \<Rightarrow> Inl (ValueError e))"

definition match_compile_error :: "string \<Rightarrow> py_error" where
  "match_compile_error message = DslLoadError ''MATCH_DSL_COMPILE_INVALID'' message"

definition compile_topology_policy :: "topology_match_spec \<Rightarrow> topology_match_policy result" where
  "compile_topology_policy t =
     bind_r (map_r (\<lambda>step. case mode_of step of
         Some m \<Rightarrow> Inr m
       | None \<Rightarrow> Inl (ValueError (repr_string step @ '' is not a valid TopologyMatchMode''))) (tms_ladder t)) (\<lambda>ladder.
       Inr \<lparr>tmp_enabled = tms_enabled t, tmp_apply_on = tms_apply_on t, tmp_on_missing = tms_on_missing t, tmp_ladder = ladder\<rparr>)"

definition compile_match_body :: "bool \<Rightarrow> object_texts \<Rightarrow> match_block \<Rightarrow> matching_rules result" where
  "compile_match_body require_primary texts b =
     (let missing = map mru_name (filter (\<lambda>r. str_or (mru_primary r) [] = []) (mb_identity_rules b))
      in if mb_identity_rules b = [] then Inl (match_compile_error ''match.identity_rules must not be empty'')
         else if require_primary \<and> missing \<noteq> []
         then Inl (match_compile_error (''match.identity_rules[].primary is required by build options; missing for: '' @ py_join '', '' missing))
         else bind_r (make_fuzzy (mb_fuzzy b)) (\<lambda>fuzzy.
              bind_r (case mb_topology b of None \<Rightarrow> Inr None | Some t \<Rightarrow> map_sum id Some (compile_topology_policy t)) (\<lambda>topology.
              Inr \<lparr>ma_identity_rules = map (build_identity_rule texts) (mb_identity_rules b),
                   ma_ignored_fields = mb_ignored_fields b, ma_build_links = None, ma_source_dedup = mb_source_dedup b,
                   ma_fuzzy = fuzzy, ma_topology = topology\<rparr>)))"

definition compile_match :: "bool \<Rightarrow> object_texts \<Rightarrow> match_block \<Rightarrow> matching_rules result" where
  "compile_match require_primary texts b =
     (case compile_match_body require_primary texts b of
        Inl (DslLoadError c m) \<Rightarrow> Inl (DslLoadError c m)
      | Inl e \<Rightarrow> Inl (match_compile_error (''Failed to compile match DSL: '' @ exn_text e))
      | Inr rules \<Rightarrow> Inr rules)"

section \<open>Similarity of texts\<close>

text \<open>
  \<open>difflib.SequenceMatcher(None, a, b).ratio()\<close>: the longest common run, the earliest of the longest, then the parts
  before and after it.  Characters that are frequent in a long \<open>b\<close> do not start a run.
\<close>

definition popular :: "string \<Rightarrow> char \<Rightarrow> bool" where
  "popular b c \<longleftrightarrow> 200 \<le> length b \<and> length b div 100 + 1 < count_list b c"

definition common_run :: "(char \<Rightarrow> bool) \<Rightarrow> string \<Rightarrow> string \<Rightarrow> nat" where
  "common_run skip a b = length (takeWhile (\<lambda>(x, y). x = y \<and> \<not> skip y) (zip a b))"

definition best_run :: "(char \<Rightarrow> bool) \<Rightarrow> string \<Rightarrow> string \<Rightarrow> nat \<times> nat \<times> nat" where
  "best_run skip a b =
     fold (\<lambda>(i, j) (bi, bj, bk).
       let k = common_run skip (drop i a) (drop j b) in if bk < k then (i, j, k) else (bi, bj, bk))
       (List.product [0..<length a] [0..<length b]) (0, 0, 0)"

definition longest_match :: "(char \<Rightarrow> bool) \<Rightarrow> string \<Rightarrow> string \<Rightarrow> nat \<times> nat \<times> nat" where
  "longest_match skip a b =
     (let (i, j, k) = best_run skip a b;
          before = common_run (\<lambda>_. False) (rev (take i a)) (rev (take j b));
          after = common_run (\<lambda>_. False) (drop (i + k) a) (drop (j + k) b)
      in (i - before, j - before, before + k + after))"

lemma common_run_le: "common_run skip a b \<le> length a" "common_run skip a b \<le> length b"
  using length_takeWhile_le [of "\<lambda>(x, y). x = y \<and> \<not> skip y" "zip a b"] by (simp_all add: common_run_def)

lemma best_run_inside:
  assumes "best_run skip a b = (i, j, k)"
  shows "i + k \<le> length a \<and> j + k \<le> length b"
proof -
  let ?step = "\<lambda>(i, j) (bi, bj, bk). let k = common_run skip (drop i a) (drop j b) in if bk < k then (i, j, k) else (bi, bj, bk)"
  let ?ok = "\<lambda>(i, j, k). i + k \<le> length a \<and> j + k \<le> length b"
  have "?ok (fold ?step ps t)" if "\<forall>(i, j) \<in> set ps. i < length a \<and> j < length b" "?ok t" for ps t
    using that
  proof (induction ps arbitrary: t)
    case (Cons p ps)
    obtain i j where p: "p = (i, j)" by (cases p)
    have "?ok (?step p t)"
      using Cons.prems common_run_le [of skip "drop i a" "drop j b"] by (auto simp: p Let_def split: prod.splits)
    with Cons show ?case by simp
  qed simp
  from this [of "List.product [0..<length a] [0..<length b]" "(0, 0, 0)"] assms show ?thesis
    by (simp add: best_run_def split: prod.splits)
qed

lemma longest_match_inside:
  assumes "longest_match skip a b = (i, j, k)"
  shows "i + k \<le> length a \<and> j + k \<le> length b"
proof -
  obtain i0 j0 k0 where r: "best_run skip a b = (i0, j0, k0)" by (cases "best_run skip a b")
  show ?thesis
    using assms best_run_inside [OF r] common_run_le [of "\<lambda>_. False" "rev (take i0 a)" "rev (take j0 b)"]
      common_run_le [of "\<lambda>_. False" "drop (i0 + k0) a" "drop (j0 + k0) b"]
    by (auto simp: longest_match_def r Let_def)
qed

function matched_length :: "(char \<Rightarrow> bool) \<Rightarrow> string \<Rightarrow> string \<Rightarrow> nat" where
  "matched_length skip a b =
     (case longest_match skip a b of
        (i, j, k) \<Rightarrow> if k = 0 then 0
          else matched_length skip (take i a) (take j b) + k + matched_length skip (drop (i + k) a) (drop (j + k) b))"
  by pat_completeness auto
termination
proof (relation "measure (\<lambda>(skip, a, b). length a)", goal_cases)
  case 2
  then show ?case by (auto dest!: longest_match_inside [OF sym] longest_match_inside)
next
  case 3
  then show ?case by (auto dest!: longest_match_inside [OF sym] longest_match_inside)
qed simp

declare matched_length.simps [simp del]

section \<open>Scores\<close>

text \<open>The operations on doubles, \<open>round\<close>, and the order of the members of a set of fields.\<close>

record score_env =
  se_add :: "py_float \<Rightarrow> py_float \<Rightarrow> py_float"
  se_sub :: "py_float \<Rightarrow> py_float \<Rightarrow> py_float"
  se_mul :: "py_float \<Rightarrow> py_float \<Rightarrow> py_float"
  se_div :: "py_float \<Rightarrow> py_float \<Rightarrow> py_float"
  se_round :: "py_float \<Rightarrow> nat \<Rightarrow> py_float"
  se_order :: "string list \<Rightarrow> string list"

text \<open>\<open>casefold\<close> of characters below 256; the micro sign has no other fold among them.\<close>

definition casefold :: "string \<Rightarrow> string" where
  "casefold s = concat (map (\<lambda>c. if c = CHR 0xDF then ''ss'' else py_lower [c]) s)"

definition normalize_for_compare :: "string \<Rightarrow> string" where
  "normalize_for_compare s = casefold (py_join '' '' (py_words s))"

definition similarity :: "score_env \<Rightarrow> string \<Rightarrow> string \<Rightarrow> py_float" where
  "similarity se a b =
     (let len = length a + length b
      in if len = 0 then one_float
         else se_div se (make_float (int (2 * matched_length (popular b) a b)) 0) (make_float (int len) 0))"

definition field_score :: "score_env \<Rightarrow> pyval \<Rightarrow> pyval \<Rightarrow> string \<Rightarrow> py_float" where
  "field_score se source candidate comparator =
     (let left = py_str source; right = py_str candidate;
          mode = py_lower (py_strip (if comparator = [] then ''exact'' else comparator));
          yes = (\<lambda>b. if b then one_float else zero_float)
      in if source = PNone \<or> candidate = PNone then zero_float
         else if mode = ''exact'' then yes (left = right)
         else if mode = ''casefold'' then yes (normalize_for_compare left = normalize_for_compare right)
         else if mode = ''similarity'' then similarity se (normalize_for_compare left) (normalize_for_compare right)
         else yes (left = right))"

text \<open>The members of \<open>set(comparators) | set(weights)\<close>.\<close>

definition score_fields :: "score_env \<Rightarrow> (string, string) dict \<Rightarrow> (string, py_float) dict \<Rightarrow> string list" where
  "score_fields se comparators weights = se_order se (dict_fromkeys (dict_keys comparators @ dict_keys weights))"

definition score_candidate ::
    "score_env \<Rightarrow> (string, pyval) dict \<Rightarrow> (string, pyval) dict \<Rightarrow> (string, string) dict \<Rightarrow> (string, py_float) dict \<Rightarrow> int \<Rightarrow> py_float" where
  "score_candidate se source candidate comparators weights score_round =
     (if comparators = [] \<and> weights = [] then zero_float
      else (let (sum, weight_sum) = fold (\<lambda>fld (sum, weight_sum).
                 let weight = float_pos (dict_get_or weights fld one_float) in
                 if mantissa weight = 0 then (sum, weight_sum)
                 else (se_add se sum (se_mul se weight
                         (field_score se (dict_get_or source fld PNone) (dict_get_or candidate fld PNone)
                            (dict_get_or comparators fld ''exact''))),
                       se_add se weight_sum weight))
               (score_fields se comparators weights) (zero_float, zero_float)
            in if float_le weight_sum zero_float then zero_float
               else se_round se (se_div se sum weight_sum) (nat score_round)))"

type_synonym scored = "(string, pyval) dict \<times> py_float"

text \<open>\<open>ranked.sort(key=score, reverse=True)\<close> keeps the order of equal scores.\<close>

fun insert_ranked :: "scored \<Rightarrow> scored list \<Rightarrow> scored list" where
  "insert_ranked x [] = [x]"
| "insert_ranked x (y # ys) = (if float_less (snd y) (snd x) then x # y # ys else y # insert_ranked x ys)"

fun score_all ::
    "score_env \<Rightarrow> (string, pyval) dict \<Rightarrow> (string, string) dict \<Rightarrow> (string, py_float) dict \<Rightarrow> int \<Rightarrow> (string, pyval) dict list \<Rightarrow> scored list" where
  "score_all se source comparators weights score_round [] = []"
| "score_all se source comparators weights score_round (c # cs) =
     (c, score_candidate se source c comparators weights score_round) # score_all se source comparators weights score_round cs"

definition rank_candidates ::
    "score_env \<Rightarrow> (string, pyval) dict \<Rightarrow> (string, pyval) dict list \<Rightarrow> (string, string) dict \<Rightarrow> (string, py_float) dict \<Rightarrow> int \<Rightarrow> scored list" where
  "rank_candidates se source candidates comparators weights score_round =
     fold insert_ranked (score_all se source comparators weights score_round candidates) []"

lemma score_all_candidates [simp]: "map fst (score_all se source comparators weights n cs) = cs"
  by (induction cs) simp_all

definition is_tie :: "score_env \<Rightarrow> scored list \<Rightarrow> py_float \<Rightarrow> bool" where
  "is_tie se ranked tie_delta =
     (if length ranked < 2 then False
      else float_less (se_sub se (snd (ranked ! 0)) (snd (ranked ! 1))) (float_pos tie_delta))"

lemma insert_ranked_mset [simp]: "mset (insert_ranked x ys) = add_mset x (mset ys)"
  by (induction ys) auto

lemma insert_ranked_set [simp]: "set (insert_ranked x ys) = insert x (set ys)"
  by (simp flip: set_mset_mset)

lemma insert_ranked_sorted:
  "sorted_wrt (\<lambda>p q. float_le (snd q) (snd p)) ys \<Longrightarrow> sorted_wrt (\<lambda>p q. float_le (snd q) (snd p)) (insert_ranked x ys)"
  by (induction ys) (auto intro: float_le_trans float_le_linear)

lemma rank_sorted: "sorted_wrt (\<lambda>p q. float_le (snd q) (snd p)) (rank_candidates se source cs comparators weights n)"
proof -
  have "sorted_wrt (\<lambda>p q. float_le (snd q) (snd p)) (fold insert_ranked xs acc)"
    if "sorted_wrt (\<lambda>p q. float_le (snd q) (snd p)) acc" for xs acc
    using that by (induction xs arbitrary: acc) (auto intro: insert_ranked_sorted)
  then show ?thesis by (simp add: rank_candidates_def)
qed

lemma rank_mset: "mset (map fst (rank_candidates se source cs comparators weights n)) = mset cs"
proof -
  have "mset (fold insert_ranked xs acc) = mset xs + mset acc" for xs acc
    by (induction xs arbitrary: acc) auto
  then show ?thesis
    by (simp add: rank_candidates_def) (metis mset_map score_all_candidates)
qed

end
