(* ===== verification/Stages.thy ===== *)
theory Stages
  imports Resolver
begin

text \<open>
  Model of the pipeline (\<open>domain/transform/stages/stages.py\<close>, \<open>core/iterators.py\<close>,
  \<open>resolver/batch_index_service.py\<close>): the stages as functions on one record, a stage over a stream, the batching
  helpers, and the orchestrator with its hooks.

  A stream is the list of what an iterator yields with the exception that ends it, if one does.  The engines a stage
  calls are arguments.  The durations given to hooks are left out.
\<close>

section \<open>Streams\<close>

type_synonym 'a stream = "'a list \<times> py_error option"

text \<open>A generator that yields one result for each element: what was yielded before an exception stays yielded.\<close>

fun map_items :: "('a \<Rightarrow> ('s, 'b) step) \<Rightarrow> 'a list \<Rightarrow> py_error option \<Rightarrow> ('s \<Rightarrow> 's \<times> 'b stream)" where
  "map_items f [] ending st = (st, [], ending)"
| "map_items f (x # xs) ending st =
     (case f x st of
        (st', Inl e) \<Rightarrow> (st', [], Some e)
      | (st', Inr y) \<Rightarrow> (let (st'', ys, e) = map_items f xs ending st' in (st'', y # ys, e)))"

definition map_stream :: "('a \<Rightarrow> ('s, 'b) step) \<Rightarrow> 'a stream \<Rightarrow> ('s \<Rightarrow> 's \<times> 'b stream)" where
  "map_stream f source = map_items f (fst source) (snd source)"

definition iter_ok :: "('a transform_result \<Rightarrow> bool) option \<Rightarrow> 'a transform_result list \<Rightarrow> 'a transform_result list" where
  "iter_ok should_skip source =
     filter (\<lambda>t. tr_errors t = [] \<and> \<not> (case should_skip of None \<Rightarrow> False | Some p \<Rightarrow> p t)) source"

section \<open>Batches\<close>

text \<open>
  \<open>elapsed t0 t\<close> is \<open>int((t - t0) * 1000)\<close> of two readings of the clock; each element comes with the
  reading made when it arrives.
\<close>

fun micro_batches ::
    "nat \<Rightarrow> int \<Rightarrow> ('t \<Rightarrow> 't \<Rightarrow> int) \<Rightarrow> 'x list \<Rightarrow> 't option \<Rightarrow> ('t \<times> 'x) list \<Rightarrow> 'x list list" where
  "micro_batches size_limit interval elapsed batch opened [] = (if batch \<noteq> [] then [batch] else [])"
| "micro_batches size_limit interval elapsed batch opened ((now, x) # items) =
     (let due = (batch \<noteq> [] \<and> 0 < interval \<and> (case opened of None \<Rightarrow> False | Some t0 \<Rightarrow> interval \<le> elapsed t0 now));
          flushed = (if due then [batch] else []);
          batch' = (if due then [] else batch);
          opened' = (if batch' = [] then Some now else opened);
          batch'' = batch' @ [x]
      in if size_limit \<le> length batch''
         then flushed @ [batch''] @ micro_batches size_limit interval elapsed [] None items
         else flushed @ micro_batches size_limit interval elapsed batch'' opened' items)"

definition iter_micro_batches :: "int \<Rightarrow> int \<Rightarrow> ('t \<Rightarrow> 't \<Rightarrow> int) \<Rightarrow> ('t \<times> 'x) list \<Rightarrow> 'x list list" where
  "iter_micro_batches batch_size flush_interval_ms elapsed source =
     micro_batches (if 0 < batch_size then nat batch_size else 1) (if 0 < flush_interval_ms then flush_interval_ms else 0)
       elapsed [] None source"

text \<open>\<open>_buffer_into_batches\<close>: without a key in the order of the stream, with a key in one bucket per key.\<close>

fun fixed_batches :: "nat \<Rightarrow> 'x list \<Rightarrow> 'x list \<Rightarrow> 'x list list" where
  "fixed_batches size_limit batch [] = (if batch \<noteq> [] then [batch] else [])"
| "fixed_batches size_limit batch (x # items) =
     (if size_limit \<le> length (batch @ [x]) then (batch @ [x]) # fixed_batches size_limit [] items
      else fixed_batches size_limit (batch @ [x]) items)"

fun keyed_batches :: "nat \<Rightarrow> ('x \<Rightarrow> 'k) \<Rightarrow> ('k, 'x list) dict \<Rightarrow> 'x list \<Rightarrow> 'x list list" where
  "keyed_batches size_limit key buckets [] = filter (\<lambda>b. b \<noteq> []) (map snd buckets)"
| "keyed_batches size_limit key buckets (x # items) =
     (let bucket = dict_get_or buckets (key x) [] @ [x]
      in if size_limit \<le> length bucket
         then bucket # keyed_batches size_limit key (AList.update (key x) [] buckets) items
         else keyed_batches size_limit key (AList.update (key x) bucket buckets) items)"

definition buffer_into_batches :: "int \<Rightarrow> ('x \<Rightarrow> 'k) option \<Rightarrow> 'x list \<Rightarrow> 'x list list" where
  "buffer_into_batches batch_size key source =
     (let size_limit = (if batch_size \<le> 0 then 1 else nat batch_size)
      in case key of None \<Rightarrow> fixed_batches size_limit [] source | Some key \<Rightarrow> keyed_batches size_limit key [] source)"

section \<open>The stages, on one record\<close>

text \<open>The boundary around a call that changes the world: what the call did before it raised stays done.\<close>

definition boundary_s ::
    "error_catalog \<Rightarrow> diagnostic_stage \<Rightarrow> row_ref option \<Rightarrow> ('s, 'a) step \<Rightarrow> ('s, 'a option \<times> diagnostic_item list) step" where
  "boundary_s cat stage rref m st = (let (st', r) = m st in (st', diagnostic_boundary cat stage rref (map_sum id Some r)))"

text \<open>The result of a record whose engine raised: no row, and the diagnostics of the boundary.\<close>

definition failed_result :: "'a transform_result \<Rightarrow> diagnostic_item list \<Rightarrow> 'b transform_result" where
  "failed_result t errs = fold add_error_item errs (with_row None t)"

definition map_record ::
    "error_catalog \<Rightarrow> (source_record \<Rightarrow> ('s, 'b transform_result) step) \<Rightarrow> 'a transform_result \<Rightarrow> ('s, 'b transform_result) step" where
  "map_record cat mapper collected =
     (if tr_errors collected \<noteq> [] then return_s (with_row None collected)
      else bind_s (boundary_s cat MAP (tr_row_ref collected) (mapper (tr_record collected))) (\<lambda>(mapped, errs).
        case mapped of
          None \<Rightarrow> return_s (failed_result collected errs)
        | Some m \<Rightarrow> return_s (m\<lparr>
            tr_meta := (if tr_meta collected \<noteq> [] then fold (\<lambda>(k, v). AList.update k v) (tr_meta m) (tr_meta collected) else tr_meta m),
            tr_errors := tr_errors collected @ errs @ tr_errors m,
            tr_warnings := tr_warnings collected @ tr_warnings m\<rparr>)))"

definition normalize_record ::
    "error_catalog \<Rightarrow> ('a transform_result \<Rightarrow> ('s, 'a transform_result) step) \<Rightarrow> 'a transform_result \<Rightarrow> ('s, 'a transform_result) step" where
  "normalize_record cat normalizer collected =
     (if tr_errors collected \<noteq> [] then return_s collected
      else bind_s (boundary_s cat NORMALIZE (tr_row_ref collected) (normalizer collected)) (\<lambda>(normalized, errs).
        case normalized of
          None \<Rightarrow> return_s (failed_result collected errs)
        | Some n \<Rightarrow> return_s (fold add_error_item errs n)))"

definition enrich_record ::
    "error_catalog \<Rightarrow> ('a transform_result \<Rightarrow> ('s, 'a transform_result) step) \<Rightarrow> 'a transform_result \<Rightarrow> ('s, 'a transform_result) step" where
  "enrich_record cat enricher collected =
     bind_s (boundary_s cat ENRICH (tr_row_ref collected) (enricher collected)) (\<lambda>(enriched, errs).
       case enriched of
         None \<Rightarrow> return_s (failed_result collected errs)
       | Some n \<Rightarrow> return_s (fold add_error_item errs n))"

definition match_record ::
    "error_catalog \<Rightarrow> ('a transform_result \<Rightarrow> ('s, matched_row transform_result) step) \<Rightarrow> 'a transform_result
     \<Rightarrow> ('s, matched_row transform_result) step" where
  "match_record cat matcher enriched =
     (if tr_row enriched = None then return_s (with_row None enriched)
      else bind_s (boundary_s cat MATCH (tr_row_ref enriched) (matcher enriched)) (\<lambda>(matched, errs).
        case matched of
          None \<Rightarrow> return_s (failed_result enriched errs)
        | Some m \<Rightarrow> return_s (fold add_error_item errs m)))"

definition resolve_record ::
    "resolve_env \<Rightarrow> batch_index \<Rightarrow> matched_row transform_result \<Rightarrow> (identity_db, resolved_row transform_result) step" where
  "resolve_record env batch matched =
     (case tr_row matched of
        None \<Rightarrow> return_s (with_row None matched)
      | Some row \<Rightarrow>
          bind_s (boundary_s (re_catalog env) RESOLVE (tr_row_ref matched)
              (resolve env row (tr_record matched) [] (Some (freeze_mapping (tr_meta matched))) (Some batch))) (\<lambda>(out, boundary_errs).
            let (resolved, errs, warns) = (case out of None \<Rightarrow> (None, [], []) | Some o' \<Rightarrow> o')
            in return_s (with_row resolved (matched\<lparr>tr_errors := errs @ boundary_errs, tr_warnings := warns\<rparr>))))"

section \<open>Match and resolve over a stream\<close>

text \<open>\<open>_run_batched_stage\<close> and the match stage: one run for each batch.\<close>

fun run_batches :: "('a list \<Rightarrow> 's \<Rightarrow> 's \<times> 'b stream) \<Rightarrow> 'a list list \<Rightarrow> 's \<Rightarrow> 's \<times> 'b stream" where
  "run_batches run [] st = (st, [], None)"
| "run_batches run (batch # batches) st =
     (case run batch st of
        (st', ys, Some e) \<Rightarrow> (st', ys, Some e)
      | (st', ys, None) \<Rightarrow> (let (st'', zs, e) = run_batches run batches st' in (st'', ys @ zs, e)))"

definition match_stage ::
    "error_catalog \<Rightarrow> ('a transform_result \<Rightarrow> ('s, matched_row transform_result) step) \<Rightarrow> int \<Rightarrow> int \<Rightarrow> ('t \<Rightarrow> 't \<Rightarrow> int)
     \<Rightarrow> ('t \<times> 'a transform_result) list \<Rightarrow> 's \<Rightarrow> 's \<times> matched_row transform_result stream" where
  "match_stage cat matcher batch_size flush_interval_ms elapsed source =
     run_batches (\<lambda>batch. map_items (match_record cat matcher) batch None)
       (iter_micro_batches batch_size flush_interval_ms elapsed source)"

record resolve_state =
  rt_db :: identity_db
  rt_index :: "batch_index option"

text \<open>\<open>InMemoryBatchIndexService.get\<close>.\<close>

definition get_index :: "(resolve_state, batch_index) step" where
  "get_index st =
     (case rt_index st of
        None \<Rightarrow> (st, Inl (RuntimeError ''IBatchIndexService.get() called before set_index()''))
      | Some index \<Rightarrow> (st, Inr index))"

definition set_index :: "batch_index \<Rightarrow> resolve_state \<Rightarrow> resolve_state" where
  "set_index index st = st\<lparr>rt_index := Some index\<rparr>"

text \<open>\<open>ResolveContextStage.run\<close>: the index is built from the whole source before the first record is passed on.\<close>

definition context_stage ::
    "resolve_env \<Rightarrow> matched_row transform_result stream \<Rightarrow> resolve_state \<Rightarrow> resolve_state \<times> matched_row transform_result stream" where
  "context_stage env source st =
     (case snd source of
        Some e \<Rightarrow> (st, [], Some e)
      | None \<Rightarrow> (set_index (build_batch_index env (fst source)) st, fst source, None))"

definition on_db :: "(identity_db, 'a) step \<Rightarrow> (resolve_state, 'a) step" where
  "on_db m st = (let (db, r) = m (rt_db st) in (st\<lparr>rt_db := db\<rparr>, r))"

text \<open>\<open>ResolveStage.run\<close>: the index is read when the first record arrives.\<close>

definition resolve_stage ::
    "resolve_env \<Rightarrow> matched_row transform_result stream \<Rightarrow> resolve_state \<Rightarrow> resolve_state \<times> resolved_row transform_result stream" where
  "resolve_stage env source st =
     (case fst source of
        [] \<Rightarrow> (st, [], snd source)
      | _ \<Rightarrow>
          (case get_index st of
             (st', Inl e) \<Rightarrow> (st', [], Some e)
           | (st', Inr index) \<Rightarrow> map_stream (\<lambda>matched. on_db (resolve_record env index matched)) source st'))"

definition resolve_pipeline ::
    "resolve_env \<Rightarrow> matched_row transform_result stream \<Rightarrow> resolve_state \<Rightarrow> resolve_state \<times> resolved_row transform_result stream" where
  "resolve_pipeline env source st = (let (st', passed) = context_stage env source st in resolve_stage env passed st')"

section \<open>The orchestrator\<close>

datatype hook_event =
    Stage_Bind string
  | Stage_Start string
  | Stage_Complete string nat
  | Stage_Error string py_error
  | Stage_Abort string

text \<open>A hook is present or not; one that is called may raise.\<close>

record pipeline_hooks =
  hk_bind :: "(string \<Rightarrow> py_error option) option"
  hk_start :: "(string \<Rightarrow> py_error option) option"
  hk_complete :: "(string \<Rightarrow> nat \<Rightarrow> py_error option) option"
  hk_error :: "(string \<Rightarrow> py_error \<Rightarrow> py_error option) option"
  hk_abort :: "(string \<Rightarrow> py_error option) option"

definition no_hooks :: pipeline_hooks where
  "no_hooks = \<lparr>hk_bind = None, hk_start = None, hk_complete = None, hk_error = None, hk_abort = None\<rparr>"

text \<open>What the consumer of a monitored stream sees: the elements and how the generator ended.\<close>

datatype stream_end = Exhausted | Raised py_error | Closed

definition call_hook :: "hook_event \<Rightarrow> ('h \<Rightarrow> py_error option) \<Rightarrow> 'h option \<Rightarrow> hook_event list \<times> py_error option" where
  "call_hook event run hook = (case hook of None \<Rightarrow> ([], None) | Some h \<Rightarrow> ([event], run h))"

text \<open>The handler of \<open>except Exception\<close>; the error hook is called when the stage had started.\<close>

definition monitored_error ::
    "pipeline_hooks \<Rightarrow> string \<Rightarrow> bool \<Rightarrow> py_error \<Rightarrow> hook_event list \<times> 'a list \<times> stream_end" where
  "monitored_error hooks name started e =
     (if \<not> started then ([], [], Raised e)
      else (let (events, raised) = call_hook (Stage_Error name e) (\<lambda>h. h name e) (hk_error hooks)
            in (events, [], Raised (case raised of None \<Rightarrow> e | Some e' \<Rightarrow> e'))))"

text \<open>\<open>pulls\<close> is the number of elements the consumer takes before it closes the generator.\<close>

fun monitored_loop ::
    "pipeline_hooks \<Rightarrow> string \<Rightarrow> py_error option \<Rightarrow> nat option \<Rightarrow> nat \<Rightarrow> 'a list \<Rightarrow> hook_event list \<times> 'a list \<times> stream_end" where
  "monitored_loop hooks name ending pulls count [] =
     (if pulls = Some count then
        (if count = 0 then ([], [], Closed)
         else (let (events, raised) = call_hook (Stage_Abort name) (\<lambda>h. h name) (hk_abort hooks)
               in (events, [], case raised of None \<Rightarrow> Closed | Some e \<Rightarrow> Raised e)))
      else (case ending of
          Some e \<Rightarrow> monitored_error hooks name (0 < count) e
        | None \<Rightarrow>
            if count = 0 then ([], [], Exhausted)
            else (let (events, raised) = call_hook (Stage_Complete name count) (\<lambda>h. h name count) (hk_complete hooks)
                  in case raised of
                       None \<Rightarrow> (events, [], Exhausted)
                     | Some e \<Rightarrow> (let (more, xs, end') = monitored_error hooks name True e in (events @ more, xs, end')))))"
| "monitored_loop hooks name ending pulls count (x # xs) =
     (if pulls = Some count then
        (if count = 0 then ([], [], Closed)
         else (let (events, raised) = call_hook (Stage_Abort name) (\<lambda>h. h name) (hk_abort hooks)
               in (events, [], case raised of None \<Rightarrow> Closed | Some e \<Rightarrow> Raised e)))
      else (let (events, raised) = (if count = 0 then call_hook (Stage_Start name) (\<lambda>h. h name) (hk_start hooks) else ([], None))
            in case raised of
                 Some e \<Rightarrow> (let (more, ys, end') = monitored_error hooks name True e in (events @ more, ys, end'))
               | None \<Rightarrow> (let (more, ys, end') = monitored_loop hooks name ending pulls (Suc count) xs in (events @ more, x # ys, end'))))"

definition monitored :: "pipeline_hooks \<Rightarrow> string \<Rightarrow> nat option \<Rightarrow> 'a stream \<Rightarrow> hook_event list \<times> 'a list \<times> stream_end" where
  "monitored hooks name pulls source = monitored_loop hooks name (snd source) pulls 0 (fst source)"

section \<open>Batching loses nothing\<close>

lemma micro_concat: "concat (micro_batches n i elapsed batch opened items) = batch @ map snd items"
  by (induction n i elapsed batch opened items rule: micro_batches.induct) (simp_all add: Let_def)

lemma micro_sizes:
  "length batch < n \<Longrightarrow> b \<in> set (micro_batches n i elapsed batch opened items) \<Longrightarrow> b \<noteq> [] \<and> length b \<le> n"
proof (induction n i elapsed batch opened items rule: micro_batches.induct)
  case (2 n i elapsed batch opened now x items)
  let ?due = "batch \<noteq> [] \<and> 0 < i \<and> (case opened of None \<Rightarrow> False | Some t0 \<Rightarrow> i \<le> elapsed t0 now)"
  let ?rest = "(if ?due then [] else batch) @ [x]"
  have len: "length ?rest \<le> n" "0 < n" using 2(3) by auto
  show ?case
  proof (cases "n \<le> length ?rest")
    case True
    with 2(3,4) len have "b = batch \<and> ?due \<or> b = ?rest \<or> b \<in> set (micro_batches n i elapsed [] None items)"
      by (auto simp: Let_def split: if_splits)
    then show ?thesis using 2(1) [OF refl refl refl refl refl _ _] True len 2(3) by (auto simp: Let_def)
  next
    case False
    with 2(4) have "b = batch \<and> ?due \<or> b \<in> set (micro_batches n i elapsed ?rest (if (if ?due then [] else batch) = [] then Some now else opened) items)"
      by (auto simp: Let_def split: if_splits)
    then show ?thesis using 2(2) [OF refl refl refl refl refl] False 2(3) by (auto simp: Let_def)
  qed
qed (auto split: if_splits)

lemma fixed_concat: "concat (fixed_batches n batch items) = batch @ items"
  by (induction n batch items rule: fixed_batches.induct) simp_all

lemma fixed_sizes: "length batch < n \<Longrightarrow> b \<in> set (fixed_batches n batch items) \<Longrightarrow> b \<noteq> [] \<and> length b \<le> n"
  by (induction n batch items rule: fixed_batches.induct) (auto split: if_splits)

text \<open>The buckets hold elements of their own key only, fewer than the limit.\<close>

definition buckets_ok :: "nat \<Rightarrow> ('x \<Rightarrow> 'k) \<Rightarrow> ('k, 'x list) dict \<Rightarrow> bool" where
  "buckets_ok n key buckets \<longleftrightarrow> distinct (map fst buckets) \<and> (\<forall>(k, b) \<in> set buckets. length b < n \<and> (\<forall>x \<in> set b. key x = k))"

lemma buckets_get: "buckets_ok n key buckets \<Longrightarrow> 0 < n \<Longrightarrow> length (dict_get_or buckets k []) < n \<and> (\<forall>x \<in> set (dict_get_or buckets k []). key x = k)"
  by (auto simp: buckets_ok_def dict_get_or_def split: option.split dest!: map_of_SomeD)

lemma in_set_update: "(a, c) \<in> set (AList.update k b d) \<Longrightarrow> (a, c) = (k, b) \<or> (a, c) \<in> set d"
  by (induction d) (auto split: if_splits)

lemma buckets_update:
  "buckets_ok n key buckets \<Longrightarrow> length b < n \<Longrightarrow> \<forall>x \<in> set b. key x = k \<Longrightarrow> buckets_ok n key (AList.update k b buckets)"
  by (fastforce simp: buckets_ok_def distinct_update dest: in_set_update)

lemma buckets_filter:
  "buckets_ok n key buckets \<Longrightarrow> filter (\<lambda>x. key x = k) (concat (map snd buckets)) = dict_get_or buckets k []"
proof (induction buckets)
  case (Cons e buckets)
  obtain k' b where e: "e = (k', b)" by (cases e)
  have ok: "buckets_ok n key buckets" and b: "\<forall>x \<in> set b. key x = k'" and new: "k' \<notin> fst ` set buckets"
    using Cons.prems by (auto simp: buckets_ok_def e)
  have "filter (\<lambda>x. key x = k) b = (if k = k' then b else [])" using b by (auto simp: filter_id_conv filter_empty_conv)
  moreover have "dict_get_or buckets k [] = []" if "k = k'"
  proof -
    have "map_of buckets k' = None" using new by (simp add: map_of_eq_None_iff)
    then show ?thesis using that by (simp add: dict_get_or_def)
  qed
  ultimately show ?case using Cons.IH [OF ok] by (auto simp: e dict_get_or_def)
qed (simp add: dict_get_or_def)

lemma concat_nonempty: "concat (filter (\<lambda>b. b \<noteq> []) bs) = concat bs"
  by (induction bs) auto

lemma bucket_append:
  "\<lbrakk>fb = (if c then g0 @ [x] else []); fr = (if c then [] else g) @ fi; c \<Longrightarrow> g0 = g\<rbrakk> \<Longrightarrow> fb @ fr = g @ (if c then x # fi else fi)"
  by auto

lemma keyed_spec:
  assumes "0 < n" "buckets_ok n key buckets"
  shows "filter (\<lambda>x. key x = k) (concat (keyed_batches n key buckets items)) = dict_get_or buckets k [] @ filter (\<lambda>x. key x = k) items
    \<and> (\<forall>b \<in> set (keyed_batches n key buckets items). b \<noteq> [] \<and> length b \<le> n \<and> (\<exists>k. \<forall>x \<in> set b. key x = k))"
  using assms(2)
proof (induction items arbitrary: buckets)
  case Nil
  have "filter (\<lambda>x. key x = k) (concat (keyed_batches n key buckets [])) = dict_get_or buckets k []"
    using buckets_filter [OF Nil] by (simp add: concat_nonempty)
  then show ?case using Nil by (fastforce simp: buckets_ok_def)
next
  case (Cons x items)
  let ?b = "dict_get_or buckets (key x) [] @ [x]"
  have b: "length (dict_get_or buckets (key x) []) < n" "\<forall>y \<in> set ?b. key y = key x" using buckets_get [OF Cons.prems assms(1)] by auto
  show ?case
  proof (cases "n \<le> length ?b")
    case True
    have "buckets_ok n key (AList.update (key x) [] buckets)" using assms(1) by (intro buckets_update [OF Cons.prems]) simp_all
    note rest = Cons.IH [OF this]
    define r where "r = keyed_batches n key (AList.update (key x) [] buckets) items"
    have split: "keyed_batches n key buckets (x # items) = ?b # r" using True by (simp add: Let_def r_def)
    have "filter (\<lambda>y. key y = k) ?b = (if key x = k then ?b else [])"
    proof (cases "key x = k")
      case True
      then show ?thesis using b(2) by (metis (mono_tags, lifting) filter_id_conv)
    next
      case False
      then show ?thesis using b(2) by (metis (mono_tags, lifting) filter_empty_conv)
    qed
    moreover have "filter (\<lambda>y. key y = k) (concat r) = (if key x = k then [] else dict_get_or buckets k []) @ filter (\<lambda>y. key y = k) items"
      using conjunct1 [OF rest] by (auto simp: r_def)
    ultimately have "filter (\<lambda>y. key y = k) ?b @ filter (\<lambda>y. key y = k) (concat r)
        = dict_get_or buckets k [] @ (if key x = k then x # filter (\<lambda>y. key y = k) items else filter (\<lambda>y. key y = k) items)"
      by (rule bucket_append) simp
    then have "filter (\<lambda>y. key y = k) (concat (?b # r)) = dict_get_or buckets k [] @ filter (\<lambda>y. key y = k) (x # items)"
      by (simp only: concat.simps filter_append filter.simps)
    moreover have "?b \<noteq> []" "length ?b \<le> n" using b(1) by simp_all
    moreover have "\<exists>k. \<forall>y \<in> set ?b. key y = k" using b(2) by (rule exI)
    moreover have "\<forall>b \<in> set r. b \<noteq> [] \<and> length b \<le> n \<and> (\<exists>k. \<forall>x \<in> set b. key x = k)" using conjunct2 [OF rest] by (simp only: r_def)
    ultimately show ?thesis unfolding split by (simp only: list.set ball_simps insert_iff) blast
  next
    case False
    then have "buckets_ok n key (AList.update (key x) ?b buckets)" by (intro buckets_update [OF Cons.prems _ b(2)]) simp
    note rest = Cons.IH [OF this]
    have split: "keyed_batches n key buckets (x # items) = keyed_batches n key (AList.update (key x) ?b buckets) items"
      using False by (simp add: Let_def)
    have "dict_get_or (AList.update (key x) ?b buckets) k [] @ filter (\<lambda>y. key y = k) items
        = dict_get_or buckets k [] @ filter (\<lambda>y. key y = k) (x # items)" by simp
    with conjunct1 [OF rest] show ?thesis unfolding split by (intro conjI conjunct2 [OF rest]) (simp only:)
  qed
qed

section \<open>Failures of an engine\<close>

text \<open>An engine that never raises the error of an unknown diagnostic code, which no boundary catches.\<close>

definition codes_known :: "('s, 'a) step \<Rightarrow> bool" where
  "codes_known m \<longleftrightarrow> (\<forall>st c. snd (m st) \<noteq> Inl (UnknownDiagnosticCode c))"

definition boundary_diagnostic :: "error_catalog \<Rightarrow> diagnostic_stage \<Rightarrow> row_ref option \<Rightarrow> py_error \<Rightarrow> diagnostic_item" where
  "boundary_diagnostic cat stage rref e =
     item cat stage ''INTERNAL_ERROR'' None (Some (exn_text e)) rref None (resolve_severity cat ''INTERNAL_ERROR'' None SEVERITY_ERROR)"

lemma boundary_result:
  assumes "accepts cat ''INTERNAL_ERROR''" "codes_known m"
  shows "boundary_s cat stage rref m st =
    (case m st of (st', Inl e) \<Rightarrow> (st', Inr (None, [boundary_diagnostic cat stage rref e])) | (st', Inr v) \<Rightarrow> (st', Inr (Some v, [])))"
proof (cases "m st")
  case (Pair st' r)
  then have "r \<noteq> Inl (UnknownDiagnosticCode c)" for c using assms(2) by (metis codes_known_def snd_conv)
  then show ?thesis using assms(1) Pair
    by (cases r) (auto simp: boundary_s_def diagnostic_boundary_def translate_exception_def boundary_diagnostic_def split: py_error.splits)
qed

lemma fold_errors [simp]:
  "tr_row (fold add_error_item errs t) = tr_row t" "tr_errors (fold add_error_item errs t) = tr_errors t @ errs"
  "tr_warnings (fold add_error_item errs t) = tr_warnings t" "tr_record (fold add_error_item errs t) = tr_record t"
  "tr_meta (fold add_error_item errs t) = tr_meta t"
  by (induction errs arbitrary: t) (simp_all add: add_error_item_def with_added_errors_def)

lemma failed_result_simps [simp]:
  "tr_row (failed_result t errs) = None" "tr_errors (failed_result t errs) = tr_errors t @ errs"
  "tr_warnings (failed_result t errs) = tr_warnings t" "tr_record (failed_result t errs) = tr_record t"
  "tr_meta (failed_result t errs) = tr_meta t"
  by (simp_all add: failed_result_def)

text \<open>A stage that yields one result for every record, whatever its engine does.\<close>

definition one_to_one :: "('a \<Rightarrow> ('s, 'b) step) \<Rightarrow> bool" where
  "one_to_one f \<longleftrightarrow> (\<forall>x st. \<not> isl (snd (f x st)))"

lemma one_to_one_stream:
  "one_to_one f \<Longrightarrow> \<exists>st' ys. map_items f xs ending st = (st', ys, ending) \<and> length ys = length xs"
proof (induction xs arbitrary: st)
  case (Cons x xs)
  obtain st1 r where f: "f x st = (st1, r)" by fastforce
  then have "\<not> isl r" using Cons.prems by (metis one_to_one_def snd_conv)
  then obtain y where r: "r = Inr y" using not_isl_Inr by blast
  obtain st' ys where "map_items f xs ending st1 = (st', ys, ending)" "length ys = length xs" using Cons.IH [OF Cons.prems] by blast
  then show ?case by (simp add: f r)
qed simp

lemma stage_one_to_one:
  assumes "accepts cat ''INTERNAL_ERROR''" "\<And>x. codes_known (engine x)"
  shows "one_to_one (normalize_record cat engine)" "one_to_one (enrich_record cat engine)"
  using boundary_result [OF assms(1,2)]
  by (auto simp: one_to_one_def normalize_record_def enrich_record_def step_defs split: sum.split prod.split)

lemma map_one_to_one:
  assumes "accepts cat ''INTERNAL_ERROR''" "\<And>x. codes_known (engine x)"
  shows "one_to_one (map_record cat engine)"
  using boundary_result [OF assms(1,2)] by (auto simp: one_to_one_def map_record_def step_defs split: sum.split prod.split)

lemma match_one_to_one:
  assumes "accepts cat ''INTERNAL_ERROR''" "\<And>x. codes_known (engine x)"
  shows "one_to_one (match_record cat engine)"
  using boundary_result [OF assms(1,2)] by (auto simp: one_to_one_def match_record_def step_defs split: sum.split prod.split)

end
