(* ===== verification/Matcher.thy ===== *)
theory Matcher
  imports Match_Rules Stages
begin

text \<open>
  Model of \<open>domain/transform/matcher/match_core.py\<close>: the identity of a row and its record in the cache, the fuzzy
  candidates, the refinement by topology, the decision, and the source dedup; with the topology services of
  \<open>usecases/topology_match.py\<close> and \<open>usecases/topology_resolve.py\<close>.

  The cache is a function from a field and its value to the records found.  A row is a dictionary whose
  \<open>target_id\<close> is text when it is present.
\<close>

section \<open>Environment\<close>

record topology_match_result =
  tm_matched_target_id :: "string option"
  tm_is_ambiguous :: bool
  tm_mode :: topology_match_mode
  tm_reason :: "string option"
  tm_evidence :: "(string, pyval) dict"

record match_env =
  me_find :: "string \<Rightarrow> pyval \<Rightarrow> (string, pyval) dict list result"
  me_matching :: matching_rules
  me_resolve :: resolve_rules
  me_catalog :: error_catalog
  me_topology_service :: "(string list \<Rightarrow> string list \<Rightarrow> topology_match_result result) option"
  me_locator :: "(source_record \<Rightarrow> string list option result) option"
  me_node_id_field :: "string option"
  me_md5 :: "string \<Rightarrow> string"
  me_score :: score_env

text \<open>\<open>MatchCore.__init__\<close>.\<close>

definition make_match_core :: "match_env \<Rightarrow> match_env result" where
  "make_match_core env =
     (if ma_identity_rules (me_matching env) = [] then Inl (ValueError ''matching identity_rules must not be empty'') else Inr env)"

definition match_error ::
    "match_env \<Rightarrow> string \<Rightarrow> string option \<Rightarrow> string \<Rightarrow> row_ref option \<Rightarrow> diagnostic_item result" where
  "match_error env code fld message rref = build_error (me_catalog env) MATCH code fld (Some message) rref None None"

section \<open>Identity\<close>

definition conflict_error :: "match_env \<Rightarrow> identity \<Rightarrow> string \<Rightarrow> row_ref option \<Rightarrow> diagnostic_item result" where
  "conflict_error env i rule_name rref =
     match_error env ''MATCH_CONFLICT_TARGET'' (Some (id_primary i))
       (''multiple existing candidates found'' @ (if rule_name = [] then [] else '' ('' @ rule_name @ '')'')) rref"

type_synonym identity_outcome = "identity option \<times> (string, pyval) dict option \<times> match_status \<times> diagnostic_item option"

fun identity_loop ::
    "match_env \<Rightarrow> match_context \<Rightarrow> (string, pyval) dict \<Rightarrow> identity_rule list \<Rightarrow> identity option \<Rightarrow> identity_outcome result" where
  "identity_loop env ctx row [] known =
     (case known of
        None \<Rightarrow> bind_r (match_error env ''MATCH_IDENTITY_MISSING'' None ''identity value is empty'' (mctx_row_ref ctx))
                 (\<lambda>d. Inr (None, None, Match_NOT_FOUND, Some d))
      | Some i \<Rightarrow> Inr (Some i, None, Match_NOT_FOUND, None))"
| "identity_loop env ctx row (rule # rules) known =
     (let candidate = ir_build rule row ctx;
          known' = (case known of None \<Rightarrow> Some candidate | Some i \<Rightarrow> Some i)
      in if primary_value candidate = [] then identity_loop env ctx row rules known
         else bind_r (me_find env (id_primary candidate) (PStr (primary_value candidate))) (\<lambda>found.
           if 1 < length found
           then bind_r (conflict_error env candidate (ir_name rule) (mctx_row_ref ctx))
                  (\<lambda>d. Inr (known', None, Match_NOT_FOUND, Some d))
           else (case found of
               hit # _ \<Rightarrow> Inr (Some candidate, Some hit, Match_MATCHED, None)
             | [] \<Rightarrow> identity_loop env ctx row rules known')))"

definition match_identity :: "match_env \<Rightarrow> match_context \<Rightarrow> (string, pyval) dict \<Rightarrow> identity_outcome result" where
  "match_identity env ctx row = identity_loop env ctx row (ma_identity_rules (me_matching env)) None"

section \<open>Candidates\<close>

text \<open>\<open>candidate.get("_id") or candidate.get("target_id")\<close>.\<close>

definition candidate_id :: "(string, pyval) dict \<Rightarrow> pyval" where
  "candidate_id c = (let v = dict_get_or c ''_id'' PNone in if truthy v then v else dict_get_or c ''target_id'' PNone)"

definition candidate_id_text :: "(string, pyval) dict \<Rightarrow> string option" where
  "candidate_id_text c = (if candidate_id c = PNone then None else Some (py_str (candidate_id c)))"

definition candidate_dedup_key :: "(string, pyval) dict \<Rightarrow> string" where
  "candidate_dedup_key c =
     (case candidate_id_text c of
        Some s \<Rightarrow> ''id:'' @ s
      | None \<Rightarrow> py_join ''|'' (map (\<lambda>k. k @ ''='' @ py_str (dict_get_or c k PNone)) (sort (dict_keys c))))"

definition read_value :: "string \<Rightarrow> (string, pyval) dict \<Rightarrow> (string, pyval) dict \<Rightarrow> identity \<Rightarrow> pyval" where
  "read_value fld row desired i =
     (case map_of desired fld of
        Some v \<Rightarrow> v
      | None \<Rightarrow> if fld = id_primary i then PStr (primary_value i) else dict_get_or row fld PNone)"

text \<open>The flag tells that the limit is reached.  The keys seen are those of the candidates found.\<close>

fun take_candidates ::
    "nat \<Rightarrow> (string, pyval) dict list \<Rightarrow> (string, pyval) dict list \<Rightarrow> (string, pyval) dict list \<times> bool" where
  "take_candidates limit [] found = (found, False)"
| "take_candidates limit (c # cs) found =
     (if candidate_dedup_key c \<in> set (map candidate_dedup_key found) then take_candidates limit cs found
      else if limit \<le> length (found @ [c]) then (found @ [c], True) else take_candidates limit cs (found @ [c]))"

fun block_loop ::
    "match_env \<Rightarrow> (string, pyval) dict \<Rightarrow> (string, pyval) dict \<Rightarrow> identity \<Rightarrow> nat \<Rightarrow> string list
     \<Rightarrow> (string, pyval) dict list \<Rightarrow> (string, pyval) dict list result" where
  "block_loop env row desired i limit [] found = Inr found"
| "block_loop env row desired i limit (key_name # keys) found =
     (let v = read_value key_name row desired i
      in if blank_value v then block_loop env row desired i limit keys found
         else (case me_find env key_name v of
             Inl e \<Rightarrow> if is_value_error e then block_loop env row desired i limit keys found else Inl e
           | Inr matches \<Rightarrow>
               (case take_candidates limit matches found of
                  (found', True) \<Rightarrow> Inr found'
                | (found', False) \<Rightarrow> block_loop env row desired i limit keys found')))"

definition collect_blocking_candidates ::
    "match_env \<Rightarrow> (string, pyval) dict \<Rightarrow> (string, pyval) dict \<Rightarrow> identity \<Rightarrow> (string, pyval) dict list result" where
  "collect_blocking_candidates env row desired i =
     (let fuzzy = ma_fuzzy (me_matching env)
      in if fz_blocking_keys fuzzy = [] then Inr []
         else block_loop env row desired i (nat (max 1 (fz_max_candidates fuzzy))) (fz_blocking_keys fuzzy) [])"

definition build_source_values ::
    "match_env \<Rightarrow> (string, pyval) dict \<Rightarrow> (string, pyval) dict \<Rightarrow> identity \<Rightarrow> (string, pyval) dict" where
  "build_source_values env row desired i =
     (let fuzzy = ma_fuzzy (me_matching env)
      in map (\<lambda>fld. (fld, read_value fld row desired i)) (score_fields (me_score env) (fz_comparators fuzzy) (fz_weights fuzzy)))"

definition build_candidate_scores :: "scored list \<Rightarrow> (string, py_float) dict" where
  "build_candidate_scores ranked = fold (\<lambda>(c, s). AList.update (candidate_dedup_key c) s) ranked []"

definition build_top_candidates :: "scored list \<Rightarrow> nat \<Rightarrow> (string option \<times> py_float) list" where
  "build_top_candidates ranked top_k = map (\<lambda>(c, s). (candidate_id_text c, s)) (take top_k ranked)"

section \<open>The state of a decision\<close>

record match_state =
  ms_existing :: "(string, pyval) dict option"
  ms_status :: match_status
  ms_score :: "py_float option"
  ms_reason :: string
  ms_records :: "(string, pyval) dict list"
  ms_scores :: "(string, py_float) dict"
  ms_top :: "(string option \<times> py_float) list"

definition nothing_found :: "string \<Rightarrow> match_state" where
  "nothing_found reason =
     \<lparr>ms_existing = None, ms_status = Match_NOT_FOUND, ms_score = None, ms_reason = reason, ms_records = [], ms_scores = [], ms_top = []\<rparr>"

definition top_limit :: "match_env \<Rightarrow> nat" where
  "top_limit env = nat (max 1 (fz_top_k (ma_fuzzy (me_matching env))))"

definition decide_ranked :: "match_env \<Rightarrow> scored list \<Rightarrow> match_state" where
  "decide_ranked env ranked =
     (let fuzzy = ma_fuzzy (me_matching env);
          accept = float_min one_float (float_pos (fz_accept_threshold fuzzy));
          review = float_min accept (float_pos (fz_review_threshold fuzzy));
          (best, score) = hd ranked;
          decided = (\<lambda>existing status reason.
            \<lparr>ms_existing = existing, ms_status = status, ms_score = Some score, ms_reason = reason, ms_records = map fst ranked,
             ms_scores = build_candidate_scores ranked, ms_top = build_top_candidates ranked (top_limit env)\<rparr>)
      in if is_tie (me_score env) ranked (float_pos (fz_tie_delta fuzzy)) then decided None Match_AMBIGUOUS FUZZY_TIE
         else if float_le accept score then decided (Some best) Match_MATCHED FUZZY_ACCEPT
         else if float_le review score then decided None Match_AMBIGUOUS FUZZY_REVIEW
         else decided None Match_NOT_FOUND FUZZY_REJECT)"

definition match_with_fuzzy ::
    "match_env \<Rightarrow> (string, pyval) dict \<Rightarrow> (string, pyval) dict \<Rightarrow> identity \<Rightarrow> match_state result" where
  "match_with_fuzzy env row desired i =
     bind_r (collect_blocking_candidates env row desired i) (\<lambda>candidates.
       let fuzzy = ma_fuzzy (me_matching env);
           ranked = rank_candidates (me_score env) (build_source_values env row desired i) candidates
             (fz_comparators fuzzy) (fz_weights fuzzy) (max 0 (fz_score_round fuzzy))
       in Inr (if candidates = [] then nothing_found FUZZY_NO_CANDIDATES
               else if ranked = [] then nothing_found FUZZY_NO_RANKED
               else decide_ranked env ranked))"

definition exact_state :: "match_env \<Rightarrow> (string, pyval) dict option \<Rightarrow> match_state" where
  "exact_state env existing =
     (let scored = (case existing of None \<Rightarrow> [] | Some r \<Rightarrow> [(r, one_float)])
      in \<lparr>ms_existing = existing, ms_status = Match_MATCHED, ms_score = Some one_float, ms_reason = IDENTITY_EXACT,
          ms_records = map fst scored, ms_scores = build_candidate_scores scored,
          ms_top = build_top_candidates scored (top_limit env)\<rparr>)"

text \<open>The state before the topology, and the match mode.\<close>

definition first_state ::
    "match_env \<Rightarrow> (string, pyval) dict \<Rightarrow> (string, pyval) dict \<Rightarrow> identity \<Rightarrow> (string, pyval) dict option \<Rightarrow> match_status
     \<Rightarrow> (match_state \<times> string) result" where
  "first_state env row desired i existing status =
     (if status = Match_MATCHED then Inr (exact_state env existing, ''exact'')
      else if fz_enabled (ma_fuzzy (me_matching env))
      then bind_r (match_with_fuzzy env row desired i) (\<lambda>st. Inr (st, ''fuzzy''))
      else Inr (nothing_found IDENTITY_NOT_FOUND, ''exact''))"

section \<open>Topology\<close>

definition should_apply_topology :: "topology_match_policy \<Rightarrow> match_state \<Rightarrow> bool" where
  "should_apply_topology p st =
     (if \<not> tmp_enabled p then False
      else if tmp_apply_on p = ''all_candidates'' then 0 < length (ms_records st)
      else tmp_apply_on p = ''ambiguous_only'' \<and> ms_status st = Match_AMBIGUOUS \<and> 1 < length (ms_records st))"

definition candidate_rows_by_topology_id ::
    "(string, pyval) dict list \<Rightarrow> string \<Rightarrow> (string, (string, pyval) dict) dict" where
  "candidate_rows_by_topology_id records node_id_field =
     fold (\<lambda>c rows. let v = dict_get_or c node_id_field PNone
       in if blank_value v then rows else dict_setdefault rows (py_str v) c) records []"

fun topology_reason_code :: "topology_match_mode \<Rightarrow> string" where
  "topology_reason_code EXACT_CANONICAL_PATH = ''topology_exact_canonical_path''"
| "topology_reason_code EXACT_LEAF_PARENT_CHAIN = ''topology_exact_leaf_parent_chain''"
| "topology_reason_code EXACT_LEAF_ROOT_DEPTH = ''topology_exact_leaf_root_depth''"
| "topology_reason_code AMBIGUOUS = TOPOLOGY_AMBIGUOUS"
| "topology_reason_code NO_MATCH = TOPOLOGY_NO_MATCH"

type_synonym refined = "match_state \<times> topology_match_result option \<times> diagnostic_item option"

definition confirm_topology :: "match_state \<Rightarrow> (string, (string, pyval) dict) dict \<Rightarrow> topology_match_result \<Rightarrow> refined" where
  "confirm_topology st rows res =
     (case Option.bind (tm_matched_target_id res) (map_of rows) of
        Some c \<Rightarrow>
          (st\<lparr>ms_existing := Some c, ms_status := Match_MATCHED, ms_reason := topology_reason_code (tm_mode res),
             ms_score := map_of (ms_scores st) (candidate_dedup_key c)\<rparr>, Some res, None)
      | None \<Rightarrow>
          if tm_is_ambiguous res
          then (st\<lparr>ms_status := Match_AMBIGUOUS, ms_reason := TOPOLOGY_AMBIGUOUS\<rparr>, Some res, None)
          else if tm_mode res = NO_MATCH
          then (st\<lparr>ms_status := Match_AMBIGUOUS, ms_reason := TOPOLOGY_NO_MATCH\<rparr>, Some res, None)
          else (st, Some res, None))"

definition refine_with_topology :: "match_env \<Rightarrow> 'a transform_result \<Rightarrow> match_state \<Rightarrow> refined result" where
  "refine_with_topology env enriched st =
     (case (ma_topology (me_matching env), me_locator env, me_topology_service env, me_node_id_field env) of
        (Some p, Some build, Some service, Some node_id_field) \<Rightarrow>
          if \<not> tmp_enabled p \<or> ms_records st = [] \<or> \<not> should_apply_topology p st then Inr (st, None, None)
          else bind_r (build (tr_record enriched)) (\<lambda>locator. case locator of
             None \<Rightarrow>
               if tmp_on_missing p = ''hard_error''
               then bind_r (match_error env ''TOPOLOGY_SOURCE_PATH_EMPTY'' None ''topology source path is empty for current row''
                              (tr_row_ref enriched)) (\<lambda>d. Inr (st, None, Some d))
               else Inr (st, None, None)
           | Some segments \<Rightarrow>
               (let rows = candidate_rows_by_topology_id (ms_records st) node_id_field
                in if rows = [] then Inr (st, None, None)
                   else bind_r (service segments (dict_keys rows)) (\<lambda>res. Inr (confirm_topology st rows res))))
      | _ \<Rightarrow> Inr (st, None, None))"

section \<open>The decision\<close>

definition to_match_candidates :: "(string option \<times> py_float) list \<Rightarrow> string \<Rightarrow> match_candidate list" where
  "to_match_candidates tops match_mode =
     map (\<lambda>(tid, s). \<lparr>mc_target_id = tid, mc_identity = None, mc_score = Some s, mc_match_mode = match_mode, mc_evidence = None\<rparr>) tops"

definition build_selected_candidate ::
    "(string, pyval) dict option \<Rightarrow> identity \<Rightarrow> py_float option \<Rightarrow> string \<Rightarrow> match_candidate option" where
  "build_selected_candidate existing i score match_mode =
     map_option (\<lambda>r. \<lparr>mc_target_id = candidate_id_text r,
         mc_identity = (if primary_value i = [] then None else Some (primary_value i)), mc_score = score,
         mc_match_mode = match_mode, mc_evidence = Some [(''identity_primary'', PStr (id_primary i))]\<rparr>) existing"

definition build_decision ::
    "identity \<Rightarrow> match_state \<Rightarrow> string \<Rightarrow> topology_match_result option \<Rightarrow> match_decision" where
  "build_decision i st match_mode topology =
     (let candidates = to_match_candidates (ms_top st) match_mode;
          selected_mode = (case topology of
              Some res \<Rightarrow> if tm_matched_target_id res \<noteq> None then mode_value (tm_mode res) else match_mode
            | None \<Rightarrow> match_mode);
          selected = (if ms_status st = Match_MATCHED
            then build_selected_candidate (ms_existing st) i (ms_score st) selected_mode else None)
      in \<lparr>md_status = ms_status st, md_reason_code = (if ms_reason st = [] then IDENTITY_NOT_FOUND else ms_reason st),
          md_message = None, md_selected = selected,
          md_candidates = (case selected of Some c \<Rightarrow> if candidates = [] then [c] else candidates | None \<Rightarrow> candidates),
          md_score = ms_score st, md_topology_match_mode = map_option tm_mode topology,
          md_topology_reason = Option.bind topology tm_reason,
          md_topology_evidence = (case topology of None \<Rightarrow> [] | Some res \<Rightarrow> tm_evidence res),
          md_meta = [(''match_mode'', PStr match_mode), (''topology_applied'', PBool (topology \<noteq> None))]\<rparr>)"

definition ensure_row_ref :: "match_context \<Rightarrow> identity \<Rightarrow> row_ref" where
  "ensure_row_ref ctx i =
     (case mctx_row_ref ctx of
        None \<Rightarrow> \<lparr>rr_line_no = Some (mctx_line_no ctx), rr_row_id = ''line:'' @ int_str (mctx_line_no ctx),
               rr_identity_primary = PStr (id_primary i), rr_identity_value = PStr (primary_value i)\<rparr>
      | Some r \<Rightarrow>
          if rr_identity_primary r = PStr (id_primary i) \<and> rr_identity_value r = PStr (primary_value i) then r
          else r\<lparr>rr_identity_primary := PStr (id_primary i), rr_identity_value := PStr (primary_value i)\<rparr>)"

definition build_matched_row ::
    "match_env \<Rightarrow> match_context \<Rightarrow> (string, pyval) dict \<Rightarrow> (string, pyval) dict \<Rightarrow> identity \<Rightarrow> match_state \<Rightarrow> string
     \<Rightarrow> topology_match_result option \<Rightarrow> matched_row" where
  "build_matched_row env ctx row desired i st match_mode topology =
     (let (fingerprint, fingerprint_fields) = build_fingerprint (me_md5 env) desired (ma_ignored_fields (me_matching env))
      in \<lparr>mr_row_ref = ensure_row_ref ctx i, mr_identity = i, mr_desired_state = desired, mr_existing = ms_existing st,
          mr_fingerprint = fingerprint, mr_fingerprint_fields = fingerprint_fields,
          mr_match_decision = build_decision i st match_mode topology,
          mr_source_links = (case ma_build_links (me_matching env) of None \<Rightarrow> [] | Some build \<Rightarrow> build row ctx),
          mr_target_id = get_str (dict_get_or row ''target_id'' PNone)\<rparr>)"

text \<open>The results without a row.\<close>

definition unmatched :: "'a transform_result \<Rightarrow> match_context \<Rightarrow> diagnostic_item list \<Rightarrow> matched_row transform_result" where
  "unmatched enriched ctx errs = with_added_errors errs (with_row_ref (mctx_row_ref ctx) (with_row None enriched))"

definition match :: "match_env \<Rightarrow> (string, pyval) dict transform_result \<Rightarrow> matched_row transform_result result" where
  "match env enriched =
     (let ctx = build_match_context enriched;
          missing = match_error env ''MATCH_IDENTITY_MISSING'' None
      in case tr_row enriched of
           None \<Rightarrow>
             if tr_errors enriched \<noteq> [] then Inr (unmatched enriched ctx [])
             else bind_r (missing ''empty enriched row'' (mctx_row_ref ctx)) (\<lambda>d. Inr (unmatched enriched ctx [d]))
         | Some row \<Rightarrow>
             bind_r (match_identity env ctx row) (\<lambda>(found, existing, status, error).
               case (error, found) of
                 (Some d, _) \<Rightarrow> Inr (unmatched enriched ctx [d])
               | (None, None) \<Rightarrow>
                   bind_r (missing ''identity value is empty'' (mctx_row_ref ctx)) (\<lambda>d. Inr (unmatched enriched ctx [d]))
               | (None, Some i) \<Rightarrow>
                   if primary_value i = []
                   then bind_r (missing ''identity value is empty'' (mctx_row_ref ctx)) (\<lambda>d. Inr (unmatched enriched ctx [d]))
                   else (let desired = rr_build_desired_state (me_resolve env) row
                         in bind_r (first_state env row desired i existing status) (\<lambda>(st, match_mode).
                            bind_r (refine_with_topology env enriched st) (\<lambda>(st, topology, topology_error).
                            case topology_error of
                              Some d \<Rightarrow> Inr (unmatched enriched ctx [d])
                            | None \<Rightarrow>
                                (let m = build_matched_row env ctx row desired i st match_mode topology
                                 in Inr (with_row_ref (Some (mr_row_ref m)) (with_row (Some m) enriched))))))))"

section \<open>Source dedup\<close>

definition build_source_dedup_key :: "identity \<Rightarrow> string option" where
  "build_source_dedup_key i =
     (let primary = py_strip (id_primary i); v = py_strip (primary_value i)
      in if v = [] then None else if primary = [] then None else Some (primary @ '':'' @ v))"

definition drop_matched_row ::
    "matched_row transform_result \<Rightarrow> diagnostic_item option \<Rightarrow> diagnostic_item option \<Rightarrow> string \<Rightarrow> matched_row transform_result" where
  "drop_matched_row matched warning error reason =
     (let t = set_meta ''match_drop_reason'' (PStr reason) (with_row None matched);
          t = (case warning of None \<Rightarrow> t | Some d \<Rightarrow> add_warning_item d t)
      in case error of None \<Rightarrow> t | Some d \<Rightarrow> add_error_item d t)"

definition source_warning :: "match_env \<Rightarrow> string \<Rightarrow> string \<Rightarrow> matched_row \<Rightarrow> diagnostic_item result" where
  "source_warning env code message m =
     build_warning (me_catalog env) MATCH code (Some (id_primary (mr_identity m))) (Some message) (Some (mr_row_ref m)) None None"

definition source_error :: "match_env \<Rightarrow> string \<Rightarrow> string \<Rightarrow> matched_row \<Rightarrow> diagnostic_item result" where
  "source_error env code message m = match_error env code (Some (id_primary (mr_identity m))) message (Some (mr_row_ref m))"

text \<open>\<open>check\<close> is \<open>check_and_register\<close> of the store.\<close>

definition apply_dedup ::
    "match_env \<Rightarrow> matched_row transform_result \<Rightarrow> matched_row \<Rightarrow> dedup_result \<Rightarrow> matched_row transform_result result" where
  "apply_dedup env matched m outcome =
     (case outcome of
        FIRST \<Rightarrow> Inr matched
      | DUPLICATE \<Rightarrow>
          bind_r (source_warning env ''MATCH_DUPLICATE_SOURCE'' ''duplicate row in source batch'' m)
            (\<lambda>d. Inr (drop_matched_row matched (Some d) None ''duplicate_source''))
      | DEDUP_CONFLICT \<Rightarrow>
          if sdr_on_conflict (ma_source_dedup (me_matching env)) = ''warn''
          then bind_r (source_warning env ''MATCH_CONFLICT_SOURCE'' ''conflicting rows in source batch'' m)
                 (\<lambda>d. Inr (drop_matched_row matched (Some d) None ''conflict_source''))
          else bind_r (source_error env ''MATCH_CONFLICT_SOURCE'' ''conflicting rows in source batch'' m)
                 (\<lambda>d. Inr (drop_matched_row matched None (Some d) ''conflict_source'')))"

definition match_with_source_dedup ::
    "match_env \<Rightarrow> (string \<Rightarrow> string \<Rightarrow> 's \<Rightarrow> 's \<times> dedup_result) \<Rightarrow> (string, pyval) dict transform_result
     \<Rightarrow> ('s, matched_row transform_result) step" where
  "match_with_source_dedup env check enriched =
     bind_s (lift_s (match env enriched)) (\<lambda>matched.
       case tr_row matched of
         None \<Rightarrow> return_s matched
       | Some m \<Rightarrow>
           if \<not> sdr_enabled (ma_source_dedup (me_matching env)) then return_s matched
           else (case build_source_dedup_key (mr_identity m) of
               None \<Rightarrow> return_s matched
             | Some key \<Rightarrow>
                 bind_s (call_s (check key (mr_fingerprint m))) (\<lambda>outcome. lift_s (apply_dedup env matched m outcome))))"

definition match_stream ::
    "match_env \<Rightarrow> (string \<Rightarrow> string \<Rightarrow> 's \<Rightarrow> 's \<times> dedup_result) \<Rightarrow> (string, pyval) dict transform_result stream
     \<Rightarrow> 's \<Rightarrow> 's \<times> matched_row transform_result stream" where
  "match_stream env check = map_stream (match_with_source_dedup env check)"

section \<open>The topology services\<close>

text \<open>\<open>snapshot\<close> is the query port; \<open>canonicalize\<close> the canonicalizer of the segments.\<close>

definition build_source_locator ::
    "(string list \<Rightarrow> string list result) \<Rightarrow> string list \<Rightarrow> source_record \<Rightarrow> string list option result" where
  "build_source_locator canonicalize path_fields rec =
     bind_r (canonicalize (map (\<lambda>f. case dict_get_or (src_values rec) f PNone of PNone \<Rightarrow> [] | v \<Rightarrow> py_str v) path_fields)) (\<lambda>segments.
       let normalized = filter (\<lambda>s. py_strip s \<noteq> []) segments
       in Inr (if normalized = [] then None else Some normalized))"

definition source_locator_builder ::
    "(string list \<Rightarrow> string list result) option \<Rightarrow> string list \<Rightarrow> (source_record \<Rightarrow> string list option result) option" where
  "source_locator_builder canonicalizer path_fields =
     (let resolved = filter (\<lambda>f. py_strip f \<noteq> []) path_fields
      in case canonicalizer of
           None \<Rightarrow> None
         | Some canonicalize \<Rightarrow> if resolved = [] then None else Some (build_source_locator canonicalize resolved))"

definition topology_match_compare ::
    "(string \<Rightarrow> string list outcome) \<Rightarrow> topology_match_mode list \<Rightarrow> string list \<Rightarrow> string list \<Rightarrow> topology_match_result outcome" where
  "topology_match_compare canonical ladder segments ids =
     bind_o (compare_topology_candidates canonical segments ids ladder) (\<lambda>c. Some (Inr
       \<lparr>tm_matched_target_id = matched_candidate_id c, tm_is_ambiguous = is_ambiguous c, tm_mode = comparison_mode c,
        tm_reason = comparison_reason c, tm_evidence = comparison_evidence c\<rparr>))"

definition topology_link_resolve ::
    "(string \<Rightarrow> string list outcome) \<Rightarrow> topology_match_mode list \<Rightarrow> string \<Rightarrow> string list \<Rightarrow> string list \<Rightarrow> topology_link_result outcome" where
  "topology_link_resolve canonical ladder fld segments ids =
     bind_o (compare_topology_candidates canonical segments ids ladder) (\<lambda>c. Some (Inr
       \<lparr>tl_resolved_field = fld, tl_resolved_target_id = opt_str (matched_candidate_id c), tl_is_pending = False,
        tl_is_ambiguous = is_ambiguous c, tl_mode = comparison_mode c, tl_reason = comparison_reason c,
        tl_evidence = comparison_evidence c\<rparr>))"

end
