(* ===== verification/Resolve_Decision.thy ===== *)
theory Resolve_Decision
  imports Resolver
begin

text \<open>
  What the compiled resolve rules decide: the operation and the changes of a row, and what becomes of the merge policy.
\<close>

section \<open>Reflexivity of equality\<close>

lemma py_eq_refl: "json_ok v \<Longrightarrow> py_eq v v"
proof (induction v rule: json_ok.induct)
  case (2 vs)
  then show ?case by (auto simp: zip_same_conv_map in_set_zip)
next
  case (3 d)
  then have "case map_of d k of None \<Rightarrow> False | Some w \<Rightarrow> py_eq v w" if "(k, v) \<in> set d" for k v
  proof -
    have "dict_ok d" using 3(2) by simp
    then have "map_of d k = Some v" "json_ok v" using that by (auto simp: dict_ok_def)
    then show ?thesis using 3(1) [OF that refl] by simp
  qed
  then show ?case by auto
qed simp_all

section \<open>The merge\<close>

lemma update_known:
  "k \<in> fst ` set d \<Longrightarrow> map fst (AList.update k v d) = map fst d"
  by (induction d) auto

lemma update_at: "k \<notin> fst ` set pre \<Longrightarrow> AList.update k v (pre @ (k, w) # rest) = pre @ (k, v) # rest"
  by (induction pre) auto

lemma restore_dict:
  "\<lbrakk>distinct (map fst (pre @ d)); map fst e = map fst d\<rbrakk> \<Longrightarrow> fold (\<lambda>(k, v). AList.update k v) d (pre @ e) = pre @ d"
proof (induction d arbitrary: pre e)
  case (Cons p d)
  obtain k v where p: "p = (k, v)" by (cases p)
  obtain w e' where e: "e = (k, w) # e'" "map fst e' = map fst d" using Cons.prems(2) by (cases e) (auto simp: p)
  have "fold (\<lambda>(k, v). AList.update k v) d ((pre @ [(k, v)]) @ e') = (pre @ [(k, v)]) @ d"
    using Cons.prems(1) e(2) by (intro Cons.IH) (auto simp: p)
  moreover have "k \<notin> fst ` set pre" using Cons.prems(1) by (auto simp: p)
  ultimately show ?case by (simp add: p e update_at)
qed simp

lemma compiled_merge_keys:
  "\<forall>r \<in> set rules. mfs_field r \<in> fst ` set desired \<Longrightarrow> map fst (compiled_merge rules existing desired) = map fst desired"
proof (cases existing)
  case (Some old)
  let ?step = "\<lambda>rule merged. if old = [] \<or> \<not> blank_value (dict_get_or merged (mfs_field rule) PNone) then merged
            else (let fallback = normalize_for_mode (dict_get_or old (str_or (mfs_existing rule) (mfs_field rule)) PNone) (mfs_normalize rule)
                  in if blank_value fallback then merged else AList.update (mfs_field rule) fallback merged)"
  assume "\<forall>r \<in> set rules. mfs_field r \<in> fst ` set desired"
  then have "map fst (fold ?step rules merged) = map fst desired" if "map fst merged = map fst desired" for merged
    using that
  proof (induction rules arbitrary: merged)
    case (Cons r rules)
    have "mfs_field r \<in> fst ` set merged" using Cons.prems by (metis list.set_intros(1) list.set_map)
    then have "map fst (?step r merged) = map fst desired" using Cons.prems(2) by (simp add: Let_def update_known)
    with Cons show ?case by simp
  qed simp
  then show ?thesis by (simp add: compiled_merge_def Some)
qed (simp add: compiled_merge_def)

lemma merge_restored:
  assumes "dict_ok (mr_desired_state m)" "rr_merge_policy rules = compile_merge spec"
    "\<And>s. spec = Some s \<Longrightarrow> \<forall>r \<in> set (mgs_fields s). mfs_field r \<in> fst ` set (mr_desired_state m)"
  shows "merge_desired rules m = (mr_desired_state m, [])"
proof -
  let ?d = "mr_desired_state m"
  have "collect_changed_fields ?d ?d = []"
    using assms(1) py_eq_refl by (auto simp: collect_changed_fields_def filter_empty_conv dict_get_or_def dict_ok_def split: option.split dest!: map_of_SomeD)
  moreover have "fold (\<lambda>(k, v). AList.update k v) ?d (compiled_merge (mgs_fields s) (mr_existing m) ?d) = ?d" if "spec = Some s" for s
    using restore_dict [of "[]" ?d] compiled_merge_keys [OF assms(3) [OF that]] assms(1) by (simp add: dict_ok_def)
  ultimately show ?thesis using assms(2) by (auto simp: merge_desired_def compile_merge_def Let_def split: option.split)
qed

text \<open>The links do not depend on the rules.\<close>

lemma links_rules [simp]:
  "resolve_error (env\<lparr>re_rules := r\<rparr>) = resolve_error env"
  "create_pending_link (env\<lparr>re_rules := r\<rparr>) = create_pending_link env"
  "hard_error (env\<lparr>re_rules := r\<rparr>) = hard_error env"
  "finish_link (env\<lparr>re_rules := r\<rparr>) = finish_link env"
  "finish_outcome (env\<lparr>re_rules := r\<rparr>) = finish_outcome env"
  "apply_topology_policy (env\<lparr>re_rules := r\<rparr>) = apply_topology_policy env"
  "resolve_with_topology (env\<lparr>re_rules := r\<rparr>) = resolve_with_topology env"
  "apply_topology_decision (env\<lparr>re_rules := r\<rparr>) = apply_topology_decision env"
  "is_topology_link_enabled (env\<lparr>re_rules := r\<rparr>) = is_topology_link_enabled env"
  "validate_sink_mutations (env\<lparr>re_rules := r\<rparr>) = validate_sink_mutations env"
proof -
  show error: "resolve_error (env\<lparr>re_rules := r\<rparr>) = resolve_error env" by (simp add: fun_eq_iff resolve_error_def cong: if_cong option.case_cong topology_action.case_cong sum.case_cong)
  show pend: "create_pending_link (env\<lparr>re_rules := r\<rparr>) = create_pending_link env"
    by (simp add: fun_eq_iff create_pending_link_def build_expires_at_def error cong: if_cong option.case_cong topology_action.case_cong sum.case_cong)
  show hard: "hard_error (env\<lparr>re_rules := r\<rparr>) = hard_error env" by (simp add: fun_eq_iff hard_error_def error cong: if_cong option.case_cong topology_action.case_cong sum.case_cong)
  show fin: "finish_link (env\<lparr>re_rules := r\<rparr>) = finish_link env" by (simp add: fun_eq_iff finish_link_def pend hard cong: if_cong option.case_cong topology_action.case_cong sum.case_cong)
  show out: "finish_outcome (env\<lparr>re_rules := r\<rparr>) = finish_outcome env" by (simp add: fun_eq_iff finish_outcome_def fin cong: if_cong option.case_cong topology_action.case_cong sum.case_cong)
  show pol: "apply_topology_policy (env\<lparr>re_rules := r\<rparr>) = apply_topology_policy env" by (simp add: fun_eq_iff apply_topology_policy_def cong: if_cong option.case_cong topology_action.case_cong sum.case_cong)
  show "resolve_with_topology (env\<lparr>re_rules := r\<rparr>) = resolve_with_topology env" by (simp add: fun_eq_iff resolve_with_topology_def pol cong: if_cong option.case_cong topology_action.case_cong sum.case_cong)
  show "apply_topology_decision (env\<lparr>re_rules := r\<rparr>) = apply_topology_decision env"
    by (simp add: fun_eq_iff apply_topology_decision_def pend hard fin out cong: if_cong option.case_cong topology_action.case_cong sum.case_cong)
  show "is_topology_link_enabled (env\<lparr>re_rules := r\<rparr>) = is_topology_link_enabled env" by (simp add: fun_eq_iff is_topology_link_enabled_def cong: if_cong option.case_cong topology_action.case_cong sum.case_cong)
  show "validate_sink_mutations (env\<lparr>re_rules := r\<rparr>) = validate_sink_mutations env" by (simp add: fun_eq_iff validate_sink_mutations_def cong: if_cong option.case_cong topology_action.case_cong sum.case_cong)
qed

lemma resolve_links_rules [simp]: "resolve_links (env\<lparr>re_rules := r\<rparr>) m rec meta batch acc = resolve_links env m rec meta batch acc"
proof -
  have one: "resolve_link (env\<lparr>re_rules := r\<rparr>) = resolve_link env" by (simp add: fun_eq_iff resolve_link_def cong: if_cong option.case_cong topology_action.case_cong sum.case_cong)
  have "link_loop (env\<lparr>re_rules := r\<rparr>) m rec meta batch rules acc = link_loop env m rec meta batch rules acc" for rules acc
    by (induction rules arbitrary: acc) (simp_all add: one cong: if_cong)
  then show ?thesis by (simp add: resolve_links_def)
qed

section \<open>The diff\<close>

definition rule_output :: "diff_field_spec \<Rightarrow> string" where
  "rule_output r = str_or (dfs_output r) (dfs_field r)"

definition rule_wants :: "(string, pyval) dict \<Rightarrow> diff_field_spec \<Rightarrow> pyval" where
  "rule_wants desired r = normalize_for_mode (dict_get_or desired (dfs_field r) PNone) (dfs_normalize r)"

definition rule_has :: "(string, pyval) dict \<Rightarrow> diff_field_spec \<Rightarrow> pyval" where
  "rule_has old r = normalize_for_mode (dict_get_or old (str_or (dfs_existing r) (dfs_field r)) PNone) (dfs_normalize r)"

text \<open>The reference: the outputs of the rules that are not ignored and whose values differ.\<close>

definition diff_spec_of ::
    "diff_field_spec list \<Rightarrow> string list \<Rightarrow> (string, pyval) dict \<Rightarrow> (string, pyval) dict \<Rightarrow> (string, pyval) dict" where
  "diff_spec_of rules ignored old desired =
     map (\<lambda>r. (rule_output r, rule_wants desired r))
       (filter (\<lambda>r. dfs_field r \<notin> set ignored \<and> \<not> py_eq (rule_has old r) (rule_wants desired r)) rules)"

definition diff_step ::
    "string list \<Rightarrow> (string, pyval) dict \<Rightarrow> (string, pyval) dict \<Rightarrow> diff_field_spec \<Rightarrow> (string, pyval) dict \<Rightarrow> (string, pyval) dict" where
  "diff_step ignored old desired r changes =
     (if dfs_field r \<in> set ignored \<or> py_eq (rule_has old r) (rule_wants desired r) then changes
      else AList.update (rule_output r) (rule_wants desired r) changes)"

lemma compiled_diff_fold:
  "old \<noteq> [] \<Longrightarrow> compiled_diff rules ignored (Some old) desired = fold (diff_step ignored old desired) rules []"
  unfolding compiled_diff_def diff_step_def rule_has_def rule_wants_def rule_output_def Let_def
  by (auto intro!: fold_cong)

lemma compiled_diff_spec:
  assumes "distinct (map rule_output rules)" "old \<noteq> []"
  shows "compiled_diff rules ignored (Some old) desired = diff_spec_of rules ignored old desired"
proof -
  have "fold (diff_step ignored old desired) rules acc = acc @ diff_spec_of rules ignored old desired"
    if "\<forall>r \<in> set rules. rule_output r \<notin> fst ` set acc" for acc
    using assms(1) that
  proof (induction rules arbitrary: acc)
    case (Cons r rules)
    show ?case
    proof (cases "dfs_field r \<in> set ignored \<or> py_eq (rule_has old r) (rule_wants desired r)")
      case True
      then have "diff_step ignored old desired r acc = acc" "diff_spec_of (r # rules) ignored old desired = diff_spec_of rules ignored old desired"
        by (auto simp: diff_spec_of_def diff_step_def)
      moreover have "fold (diff_step ignored old desired) rules acc = acc @ diff_spec_of rules ignored old desired"
        by (rule Cons.IH) (use Cons.prems in simp_all)
      ultimately show ?thesis by (simp only: fold.simps comp_apply)
    next
      case False
      have "rule_output r \<notin> fst ` set acc" using Cons.prems(2) by simp
      with False have "diff_step ignored old desired r acc = acc @ [(rule_output r, rule_wants desired r)]"
        by (simp add: diff_step_def update_fresh)
      moreover have "fold (diff_step ignored old desired) rules (acc @ [(rule_output r, rule_wants desired r)])
          = (acc @ [(rule_output r, rule_wants desired r)]) @ diff_spec_of rules ignored old desired"
      proof (rule Cons.IH)
        show "distinct (map rule_output rules)" using Cons.prems(1) by simp
        have "rule_output q \<noteq> rule_output r" if "q \<in> set rules" for q using that Cons.prems(1) by (metis distinct.simps(2) image_eqI list.set_map list.simps(9))
        then show "\<forall>q \<in> set rules. rule_output q \<notin> fst ` set (acc @ [(rule_output r, rule_wants desired r)])"
          using Cons.prems(2) by simp
      qed
      ultimately show ?thesis using False by (simp add: diff_spec_of_def)
    qed
  qed (simp add: diff_spec_of_def)
  from this [of "[]"] show ?thesis by (simp add: compiled_diff_fold assms(2))
qed

section \<open>The rows that are planned\<close>

lemma compile_rules_fields:
  assumes "compile_rules block sink = Inr rules" "rb_diff block = Some diff" "build_diff_rules diff sink = Inr drules"
  shows "rr_diff_policy rules = Some (compiled_diff drules (dfp_ignore_fields diff))" "rr_merge_policy rules = compile_merge (rb_merge block)"
  using assms by (auto simp: compile_rules_def split: option.splits)

lemma compile_rules_diff: "compile_rules block sink = Inr rules \<Longrightarrow> rr_diff_policy rules \<noteq> None \<and> rr_merge_policy rules = compile_merge (rb_merge block)"
  by (auto simp: compile_rules_def bind_r_Inr_iff split: option.splits)

interpretation rows: link_condition env m meta "\<lambda>db acc. True" "\<lambda>db. True" for env m meta
  by unfold_locales (simp_all add: wp_s_def split: prod.split sum.split)

lemma resolve_row:
  assumes "resolve env m rec target_ids meta batch db = (db', Inr (Some row, errs, warns))"
  shows "\<exists>target_id desired. row = resolved_of env m target_id desired \<and> target_id \<noteq> [] \<and> resolve_target_id m target_ids = Some target_id
    \<and> resolve_decision_status m \<in> {Match_MATCHED, Match_NOT_FOUND}"
proof -
  have status: "resolve_decision_status m \<in> {Match_MATCHED, Match_NOT_FOUND}"
  proof (rule ccontr)
    assume "resolve_decision_status m \<notin> {Match_MATCHED, Match_NOT_FOUND}"
    then have "resolve_decision_status m = Match_AMBIGUOUS \<or> resolve_decision_status m = Match_CONFLICT_SOURCE"
      by (cases "resolve_decision_status m") auto
    then show False using assms by (auto simp: resolve_def Let_def step_defs split: sum.splits prod.splits if_splits)
  qed
  let ?Q = "\<lambda>(row, errs, warns) db. \<forall>r. row = Some r \<longrightarrow> (\<exists>target_id desired. r = resolved_of env m target_id desired \<and> target_id \<noteq> []
    \<and> resolve_target_id m target_ids = Some target_id)"
  have "wp_s (resolve env m rec target_ids meta batch) ?Q (\<lambda>db. True) db"
    by (rule rows.resolve_wp) (auto intro!: finish_resolve_wp)
  from wp_result [OF this assms] status show ?thesis by auto
qed

section \<open>Properties\<close>

text \<open>
  C3. With compiled rules a planned row is a creation without changes when the matcher found no record, and otherwise carries
  the id of the existing record and exactly the fields of the diff that differ after normalisation; it is skipped when there
  is none and updated otherwise.  No planned row is a conflict, and the fingerprints decide nothing.
\<close>

theorem resolve_operation_exact:
  assumes "compile_rules block sink = Inr (re_rules env)" "rb_diff block = Some diff" "build_diff_rules diff sink = Inr drules"
    "distinct (map rule_output drules)" "resolve env m rec target_ids meta batch db = (db', Inr (Some row, errs, warns))"
  shows "if resolve_decision_status m = Match_NOT_FOUND then rv_op row = Resolve_CREATE \<and> rv_changes row = []
    else resolve_decision_status m = Match_MATCHED
      \<and> (\<exists>old. mr_existing m = Some old \<and> rv_target_id row = Some (py_str (dict_get_or old ''_id'' PNone))
          \<and> rv_changes row = diff_spec_of drules (dfp_ignore_fields diff) old (rv_desired_state row)
          \<and> rv_op row = (if rv_changes row = [] then Resolve_SKIP else Resolve_UPDATE))"
proof -
  obtain tid desired where row: "row = resolved_of env m tid desired" and tid: "tid \<noteq> []" "resolve_target_id m target_ids = Some tid"
    and status: "resolve_decision_status m \<in> {Match_MATCHED, Match_NOT_FOUND}"
    using resolve_row [OF assms(5)] by blast
  note rules = compile_rules_fields [OF assms(1-3)]
  show ?thesis
  proof (cases "resolve_decision_status m = Match_NOT_FOUND")
    case True
    then show ?thesis by (simp add: row resolved_of_def decide_op_def)
  next
    case False
    with status have matched: "resolve_decision_status m = Match_MATCHED" by simp
    then obtain old where old: "mr_existing m = Some old" "get_str (dict_get_or old ''_id'' PNone) = Some tid"
      using tid by (cases "mr_existing m") (simp_all add: resolve_target_id_def get_str_def)
    then have "old \<noteq> []" by (auto simp: get_str_def)
    from old have "tid = py_str (dict_get_or old ''_id'' PNone)" by (auto simp: get_str_def split: pyval.splits)
    with False matched old \<open>old \<noteq> []\<close> show ?thesis
      by (simp add: row resolved_of_def decide_op_def can_skip_with_fingerprint_def rules compiled_diff_spec [OF assms(4)] Let_def)
  qed
qed

lemma example_rules: "compile_rules example_block None = Inr (re_rules (example_env example_block))"
proof -
  have "\<not> isl (compile_rules example_block None)" by code_simp
  then show ?thesis by (auto simp: example_env_def dest!: not_isl_Inr)
qed

lemma resolve_operation_exact_witness:
  "\<exists>db' row. resolve (example_env example_block) (example_row\<lparr>mr_existing := Some [(''_id'', PInt 7), (''manager'', PStr ''Eve'')]\<rparr>) example_record []
        None (Some [(''name:Bob'', [''u1'', ''u1''])]) empty_db = (db', Inr (Some row, [], []))
      \<and> rv_op row = Resolve_UPDATE \<and> rv_changes row = [(''managerId'', PStr ''u1'')] \<and> rv_target_id row = Some ''7''"
proof -
  let ?env = "example_env example_block" and ?old = "[(''_id'', PInt 7), (''manager'', PStr ''Eve'')]"
  let ?row = "example_row\<lparr>mr_existing := Some ?old\<rparr>"
  let ?out = "resolve ?env ?row example_record [] None (Some [(''name:Bob'', [''u1'', ''u1''])]) empty_db"
  have out: "map_sum (\<lambda>e. ()) (\<lambda>(row, errs, warns). (map_option rv_desired_state row, errs, warns)) (snd ?out)
    = Inr (Some [(''login'', PStr ''ann''), (''manager'', PStr ''u1'')], [], [])" by code_simp
  obtain db' row where m: "?out = (db', Inr (Some row, [], []))" and state: "rv_desired_state row = [(''login'', PStr ''ann''), (''manager'', PStr ''u1'')]"
    using out by (cases ?out; cases "snd ?out") (auto split: prod.splits)
  let ?rule = "\<lparr>dfs_field = ''manager'', dfs_existing = None, dfs_output = Some ''managerId'', dfs_normalize = ''text''\<rparr>"
  let ?diff = "\<lparr>dfp_fields = [?rule], dfp_ignore_fields = [], dfp_from_sink = False, dfp_exclude_fields = [], dfp_normalize_by_type = True\<rparr>"
  have changes: "diff_spec_of [?rule] [] ?old [(''login'', PStr ''ann''), (''manager'', PStr ''u1'')] = [(''managerId'', PStr ''u1'')]"
    "py_str (dict_get_or ?old ''_id'' PNone) = ''7''" by code_simp+
  have "if resolve_decision_status ?row = Match_NOT_FOUND then rv_op row = Resolve_CREATE \<and> rv_changes row = []
    else resolve_decision_status ?row = Match_MATCHED
      \<and> (\<exists>old. mr_existing ?row = Some old \<and> rv_target_id row = Some (py_str (dict_get_or old ''_id'' PNone))
          \<and> rv_changes row = diff_spec_of [?rule] (dfp_ignore_fields ?diff) old (rv_desired_state row)
          \<and> rv_op row = (if rv_changes row = [] then Resolve_SKIP else Resolve_UPDATE))"
    by (rule resolve_operation_exact [OF example_rules _ _ _ m]) (simp_all add: example_block_def build_diff_rules_def)
  then have "rv_changes row = [(''managerId'', PStr ''u1'')] \<and> rv_op row = Resolve_UPDATE \<and> rv_target_id row = Some ''7''"
    using changes state by (simp add: example_row_def resolve_decision_status_def)
  with m show ?thesis by blast
qed

text \<open>
  The compiled policy that fills empty fields from the existing record has no effect on fields of the desired state: the
  resolver restores every one of them, so that it acts on the row as if there were no policy.
\<close>

theorem merge_policy_undone:
  assumes "compile_rules block sink = Inr rules" "dict_ok (mr_desired_state m)"
    "\<And>s. rb_merge block = Some s \<Longrightarrow> \<forall>r \<in> set (mgs_fields s). mfs_field r \<in> fst ` set (mr_desired_state m)"
  shows "resolve (env\<lparr>re_rules := rules\<rparr>) m rec target_ids meta batch
    = resolve (env\<lparr>re_rules := rules\<lparr>rr_merge_policy := None\<rparr>\<rparr>) m rec target_ids meta batch"
proof -
  let ?none = "rules\<lparr>rr_merge_policy := None\<rparr>"
  obtain d where diff: "rr_diff_policy rules = Some d" and merge: "rr_merge_policy rules = compile_merge (rb_merge block)"
    using compile_rules_diff [OF assms(1)] by auto
  have "decide_op md5 m desired rules = decide_op md5 m desired ?none" for md5 desired
    using diff by (simp add: decide_op_def can_skip_with_fingerprint_def)
  then have "resolved_of (env\<lparr>re_rules := rules\<rparr>) m tid desired = resolved_of (env\<lparr>re_rules := ?none\<rparr>) m tid desired" for tid desired
    by (simp add: resolved_of_def)
  then have "finish_resolve (env\<lparr>re_rules := rules\<rparr>) m target_ids mutated acc = finish_resolve (env\<lparr>re_rules := ?none\<rparr>) m target_ids mutated acc"
    for mutated acc by (simp add: finish_resolve_def cong: if_cong option.case_cong)
  then have "finish_resolve (env\<lparr>re_rules := rules\<rparr>) m target_ids mutated = finish_resolve (env\<lparr>re_rules := ?none\<rparr>) m target_ids mutated"
    for mutated by blast
  moreover have "merge_desired rules m = merge_desired ?none m"
    using merge_restored [OF assms(2) merge assms(3)] by (simp add: merge_desired_def)
  ultimately show ?thesis by (intro ext) (simp add: resolve_def Let_def split_beta)
qed

lemma merge_policy_undone_witness:
  "let m = example_row\<lparr>mr_desired_state := [(''login'', PStr ''ann''), (''manager'', PNone)], mr_existing := Some [(''_id'', PStr ''u7''), (''manager'', PStr ''Eve'')]\<rparr>;
       out = resolve (example_env example_block) m example_record [] None None empty_db
   in compiled_merge [\<lparr>mfs_field = ''manager'', mfs_existing = None, mfs_normalize = ''none''\<rparr>] (mr_existing m) (mr_desired_state m)
          = [(''login'', PStr ''ann''), (''manager'', PStr ''Eve'')]
    \<and> map_sum (\<lambda>e. ()) (\<lambda>(row, errs, warns). map_option rv_desired_state row) (snd out) = Inr (Some [(''login'', PStr ''ann''), (''manager'', PNone)])
    \<and> out = resolve (example_env example_block\<lparr>re_rules := re_rules (example_env example_block)\<lparr>rr_merge_policy := None\<rparr>\<rparr>)
        m example_record [] None None empty_db"
proof -
  let ?m = "example_row\<lparr>mr_desired_state := [(''login'', PStr ''ann''), (''manager'', PNone)], mr_existing := Some [(''_id'', PStr ''u7''), (''manager'', PStr ''Eve'')]\<rparr>"
  have facts: "compiled_merge [\<lparr>mfs_field = ''manager'', mfs_existing = None, mfs_normalize = ''none''\<rparr>] (mr_existing ?m) (mr_desired_state ?m)
          = [(''login'', PStr ''ann''), (''manager'', PStr ''Eve'')]"
    "map_sum (\<lambda>e. ()) (\<lambda>(row, errs, warns). map_option rv_desired_state row) (snd (resolve (example_env example_block) ?m example_record [] None None empty_db))
      = Inr (Some [(''login'', PStr ''ann''), (''manager'', PNone)])"
    by code_simp+
  have "resolve (example_env example_block\<lparr>re_rules := re_rules (example_env example_block)\<rparr>) ?m example_record [] None None
      = resolve (example_env example_block\<lparr>re_rules := re_rules (example_env example_block)\<lparr>rr_merge_policy := None\<rparr>\<rparr>) ?m example_record [] None None"
    by (rule merge_policy_undone [OF example_rules]) (auto simp: example_block_def)
  then show ?thesis using facts by (simp add: Let_def)
qed

end
