(* ===== verification/Match_Decision.thy ===== *)
theory Match_Decision
  imports Matcher Resolve_Decision
begin

text \<open>
  What the matcher promises: the identity rule that decides, what a matched row holds, when a fuzzy candidate is accepted,
  which rows of a source are kept, and how its decision meets the resolver.
\<close>

section \<open>The deciding identity rule\<close>

definition identities :: "match_env \<Rightarrow> match_context \<Rightarrow> (string, pyval) dict \<Rightarrow> identity list" where
  "identities env ctx row =
     filter (\<lambda>i. primary_value i \<noteq> []) (map (\<lambda>rule. ir_build rule row ctx) (ma_identity_rules (me_matching env)))"

text \<open>A record that the cache returned for some field.\<close>

definition cached :: "match_env \<Rightarrow> (string, pyval) dict \<Rightarrow> bool" where
  "cached env r \<longleftrightarrow> (\<exists>f v rs. me_find env f v = Inr rs \<and> r \<in> set rs)"

lemma cachedI: "me_find env f v = Inr rs \<Longrightarrow> r \<in> set rs \<Longrightarrow> cached env r"
  by (auto simp: cached_def)

definition hits :: "match_env \<Rightarrow> identity \<Rightarrow> (string, pyval) dict list" where
  "hits env i = (case me_find env (id_primary i) (PStr (primary_value i)) of Inl e \<Rightarrow> [] | Inr rs \<Rightarrow> rs)"

text \<open>The codes that the matcher uses are in the catalog.\<close>

definition match_codes :: "match_env \<Rightarrow> bool" where
  "match_codes env \<longleftrightarrow> (\<forall>code \<in> {''MATCH_IDENTITY_MISSING'', ''MATCH_CONFLICT_TARGET'', ''MATCH_DUPLICATE_SOURCE'',
     ''MATCH_CONFLICT_SOURCE'', ''TOPOLOGY_SOURCE_PATH_EMPTY''}. accepts (me_catalog env) code)"

lemma match_codes_accepts:
  "match_codes env \<Longrightarrow> accepts (me_catalog env) ''MATCH_IDENTITY_MISSING''"
  "match_codes env \<Longrightarrow> accepts (me_catalog env) ''MATCH_CONFLICT_TARGET''"
  "match_codes env \<Longrightarrow> accepts (me_catalog env) ''MATCH_DUPLICATE_SOURCE''"
  "match_codes env \<Longrightarrow> accepts (me_catalog env) ''MATCH_CONFLICT_SOURCE''"
  by (simp_all add: match_codes_def)

lemma match_error_accepts:
  "accepts (me_catalog env) code \<Longrightarrow> \<exists>d. match_error env code fld message rref = Inr d \<and> di_code d = code"
  by (simp add: match_error_def)

lemma identity_loop_spec:
  assumes "match_codes env"
    "\<forall>rule \<in> set rules. primary_value (ir_build rule row ctx) \<noteq> []
      \<longrightarrow> \<not> isl (me_find env (id_primary (ir_build rule row ctx)) (PStr (primary_value (ir_build rule row ctx))))"
  defines "found \<equiv> filter (\<lambda>i. primary_value i \<noteq> []) (map (\<lambda>rule. ir_build rule row ctx) rules)"
  shows "case find (\<lambda>i. hits env i \<noteq> []) found of
      None \<Rightarrow>
        (case known of
           Some i \<Rightarrow> identity_loop env ctx row rules known = Inr (Some i, None, Match_NOT_FOUND, None)
         | None \<Rightarrow>
            (case found of
               i # _ \<Rightarrow> identity_loop env ctx row rules known = Inr (Some i, None, Match_NOT_FOUND, None)
             | [] \<Rightarrow> \<exists>d. identity_loop env ctx row rules known = Inr (None, None, Match_NOT_FOUND, Some d)
                 \<and> di_code d = ''MATCH_IDENTITY_MISSING''))
    | Some i \<Rightarrow>
        if length (hits env i) = 1 then identity_loop env ctx row rules known = Inr (Some i, Some (hd (hits env i)), Match_MATCHED, None)
        else \<exists>j d. identity_loop env ctx row rules known = Inr (j, None, Match_NOT_FOUND, Some d) \<and> di_code d = ''MATCH_CONFLICT_TARGET''"
  using assms(2) unfolding found_def
proof (induction rules arbitrary: known)
  case Nil
  obtain d where "match_error env ''MATCH_IDENTITY_MISSING'' None ''identity value is empty'' (mctx_row_ref ctx) = Inr d"
    "di_code d = ''MATCH_IDENTITY_MISSING''"
    using match_error_accepts [OF match_codes_accepts(1) [OF assms(1)]] by blast
  then show ?case by (auto split: option.split)
next
  case (Cons rule rules)
  let ?c = "ir_build rule row ctx"
  have "\<forall>rule \<in> set rules. primary_value (ir_build rule row ctx) \<noteq> []
      \<longrightarrow> \<not> isl (me_find env (id_primary (ir_build rule row ctx)) (PStr (primary_value (ir_build rule row ctx))))"
    using Cons.prems by simp
  note IH = Cons.IH [OF this]
  show ?case
  proof (cases "primary_value ?c = []")
    case True
    then have "identity_loop env ctx row (rule # rules) known = identity_loop env ctx row rules known" by simp
    with True IH [of known] show ?thesis by (simp only: list.map filter.simps if_False not_not simp_thms)
  next
    case False
    then obtain rs where rs: "me_find env (id_primary ?c) (PStr (primary_value ?c)) = Inr rs"
      using Cons.prems not_isl_Inr by fastforce
    have h: "hits env ?c = rs" by (simp add: hits_def rs)
    show ?thesis
    proof (cases rs)
      case Nil
      then show ?thesis using IH [of "case known of None \<Rightarrow> Some ?c | Some i \<Rightarrow> Some i"] False h
        by (auto simp: rs Let_def split: option.splits)
    next
      case (Cons r rest)
      show ?thesis
      proof (cases rest)
        case Nil
        with Cons False h show ?thesis by (simp add: rs Let_def)
      next
        case (Cons r2 rest2)
        obtain d where "conflict_error env ?c (ir_name rule) (mctx_row_ref ctx) = Inr d" "di_code d = ''MATCH_CONFLICT_TARGET''"
          using match_error_accepts [OF match_codes_accepts(2) [OF assms(1)]] unfolding conflict_error_def by blast
        with \<open>rs = r # rest\<close> Cons False h show ?thesis by (simp add: rs Let_def)
      qed
    qed
  qed
qed

section \<open>The state of a decision\<close>

definition state_ok :: "match_env \<Rightarrow> match_state \<Rightarrow> bool" where
  "state_ok env st \<longleftrightarrow>
     (ms_status st = Match_MATCHED \<longrightarrow> ms_existing st \<noteq> None) \<and> (ms_status st = Match_NOT_FOUND \<longrightarrow> ms_existing st = None)
     \<and> (\<forall>r. ms_existing st = Some r \<longrightarrow> r \<in> set (ms_records st)) \<and> (\<forall>r \<in> set (ms_records st). cached env r)
     \<and> length (ms_top st) \<le> top_limit env"

lemma top_candidates_length: "length (build_top_candidates ranked n) \<le> n"
  by (simp add: build_top_candidates_def)

lemma take_candidates_subset: "set (fst (take_candidates n cs found)) \<subseteq> set cs \<union> set found"
  by (induction n cs found rule: take_candidates.induct) auto

lemma block_loop_cached:
  "block_loop env row desired i n keys found = Inr out \<Longrightarrow> \<forall>r \<in> set found. cached env r \<Longrightarrow> \<forall>r \<in> set out. cached env r"
proof (induction keys arbitrary: found)
  case (Cons k keys)
  let ?v = "read_value k row desired i"
  show ?case
  proof (cases "blank_value ?v")
    case True
    then show ?thesis using Cons by simp
  next
    case False
    show ?thesis
    proof (cases "me_find env k ?v")
      case (Inl e)
      with Cons False show ?thesis by (simp split: if_splits)
    next
      case (Inr rs)
      obtain found' full where t: "take_candidates n rs found = (found', full)" by (cases "take_candidates n rs found")
      then have "\<forall>r \<in> set found'. cached env r"
        using take_candidates_subset [of n rs found] Cons.prems(2) Inr by (auto intro: cachedI)
      with Cons.IH [of found'] Cons.prems(1) False Inr t show ?thesis by (cases full) simp_all
    qed
  qed
qed simp

lemma collected_cached:
  "collect_blocking_candidates env row desired i = Inr out \<Longrightarrow> \<forall>r \<in> set out. cached env r"
  using block_loop_cached [of env row desired i _ _ "[]"] by (auto simp: collect_blocking_candidates_def Let_def split: if_splits)

lemma rank_set: "fst ` set (rank_candidates se source cs comparators weights n) = set cs"
  using arg_cong [OF rank_mset, of set_mset] by simp

lemma decide_ranked_ok:
  assumes "ranked \<noteq> []" "\<forall>p \<in> set ranked. cached env (fst p)"
  shows "state_ok env (decide_ranked env ranked)"
proof -
  obtain best score where h: "hd ranked = (best, score)" by (cases "hd ranked")
  then have best: "(best, score) \<in> set ranked" using assms(1) list.set_sel(1) by metis
  have ok: "state_ok env \<lparr>ms_existing = e, ms_status = s, ms_score = Some score, ms_reason = reason, ms_records = map fst ranked,
      ms_scores = build_candidate_scores ranked, ms_top = build_top_candidates ranked (top_limit env)\<rparr>"
    if "e = (if s = Match_MATCHED then Some best else None)" for e s reason
    using assms(2) best top_candidates_length that by (auto simp: state_ok_def intro!: image_eqI [of _ fst "(best, score)"])
  show ?thesis by (simp add: decide_ranked_def Let_def h ok)
qed

lemma fuzzy_ok: "match_with_fuzzy env row desired i = Inr st \<Longrightarrow> state_ok env st"
proof -
  assume m: "match_with_fuzzy env row desired i = Inr st"
  then obtain cs where cs: "collect_blocking_candidates env row desired i = Inr cs" by (auto simp: match_with_fuzzy_def bind_r_Inr_iff)
  let ?f = "ma_fuzzy (me_matching env)"
  let ?ranked = "rank_candidates (me_score env) (build_source_values env row desired i) cs (fz_comparators ?f) (fz_weights ?f)
    (max 0 (fz_score_round ?f))"
  have c: "\<forall>p \<in> set ?ranked. cached env (fst p)" using collected_cached [OF cs] rank_set by blast
  have n: "state_ok env (nothing_found reason)" for reason by (simp add: state_ok_def nothing_found_def)
  show ?thesis using m decide_ranked_ok [OF _ c] n by (auto simp: match_with_fuzzy_def cs Let_def split: if_splits)
qed

text \<open>What the identity loop gives.\<close>

lemma identity_loop_found:
  "identity_loop env ctx row rules known = Inr (j, existing, status, None) \<Longrightarrow>
     if status = Match_MATCHED then \<exists>r. existing = Some r \<and> cached env r
     else status = Match_NOT_FOUND \<and> existing = None
       \<and> (\<forall>rule \<in> set rules. primary_value (ir_build rule row ctx) \<noteq> []
           \<longrightarrow> me_find env (id_primary (ir_build rule row ctx)) (PStr (primary_value (ir_build rule row ctx))) = Inr [])"
proof (induction rules arbitrary: known)
  case Nil
  then show ?case by (auto simp: bind_r_Inr_iff split: option.splits)
next
  case (Cons rule rules)
  let ?c = "ir_build rule row ctx"
  show ?case
  proof (cases "primary_value ?c = []")
    case True
    then show ?thesis using Cons.IH [of known] Cons.prems by simp
  next
    case False
    then obtain rs where rs: "me_find env (id_primary ?c) (PStr (primary_value ?c)) = Inr rs"
      using Cons.prems by (auto simp: Let_def bind_r_Inr_iff)
    show ?thesis
    proof (cases rs)
      case Nil
      then show ?thesis using Cons.IH [of "case known of None \<Rightarrow> Some ?c | Some i \<Rightarrow> Some i"] Cons.prems False
        by (simp add: rs Let_def split: if_splits)
    next
      case (Cons r rest)
      then have "cached env r" using cachedI [OF rs, of r] by simp
      then show ?thesis using Cons \<open>identity_loop env ctx row (rule # rules) known = _\<close> False rs
        by (auto simp: Let_def bind_r_Inr_iff split: if_splits)
    qed
  qed
qed

lemma first_state_ok:
  assumes "first_state env row desired i existing status = Inr (st, mode)"
    "status = Match_MATCHED \<Longrightarrow> \<exists>r. existing = Some r \<and> cached env r"
  shows "state_ok env st"
proof (cases "status = Match_MATCHED")
  case True
  then obtain r where "existing = Some r" "cached env r" using assms(2) by blast
  then show ?thesis using assms(1) True top_candidates_length by (auto simp: first_state_def state_ok_def exact_state_def Let_def)
next
  case False
  then show ?thesis using assms(1) fuzzy_ok
    by (auto simp: first_state_def bind_r_Inr_iff state_ok_def nothing_found_def split: if_splits)
qed

lemma candidate_rows_records:
  assumes "map_of (candidate_rows_by_topology_id records fld) k = Some c"
  shows "c \<in> set records"
proof -
  let ?step = "\<lambda>c rows. let v = dict_get_or c fld PNone in if blank_value v then rows else dict_setdefault rows (py_str v) c"
  have "map_of (fold ?step cs rows) k = Some c \<Longrightarrow> c \<in> set cs \<or> map_of rows k = Some c" for cs rows
  proof (induction cs arbitrary: rows)
    case (Cons x cs)
    from Cons.IH [of "?step x rows"] Cons.prems show ?case
      by (auto simp: Let_def dict_setdefault_def map_of_append split: if_splits option.splits)
  qed simp
  from this [of records "[]"] assms show ?thesis by (simp add: candidate_rows_by_topology_id_def)
qed

lemma refine_ok:
  assumes "refine_with_topology env t st = Inr (st', topo, e)" "state_ok env st"
  shows "state_ok env st' \<and> (ms_status st' = Match_NOT_FOUND \<longrightarrow> ms_status st = Match_NOT_FOUND)"
proof -
  have "state_ok env (fst (confirm_topology st (candidate_rows_by_topology_id (ms_records st) fld) res))
      \<and> (ms_status (fst (confirm_topology st (candidate_rows_by_topology_id (ms_records st) fld) res)) = Match_NOT_FOUND
          \<longrightarrow> ms_status st = Match_NOT_FOUND)" for res fld
    using assms(2) candidate_rows_records
    by (auto simp: confirm_topology_def state_ok_def bind_eq_Some_conv split: option.split)
  then show ?thesis using assms
    by (auto simp: refine_with_topology_def bind_r_Inr_iff Let_def split: option.splits if_splits) (metis fst_conv)+
qed

section \<open>A matched row\<close>

lemma with_row_ref_row [simp]: "tr_row (with_row_ref r t) = tr_row t" "tr_errors (with_row_ref r t) = tr_errors t"
  "tr_warnings (with_row_ref r t) = tr_warnings t"
  by (simp_all add: with_row_ref_def)

lemma match_steps:
  assumes "match env t = Inr out" "tr_row out = Some m"
  obtains row i existing status st mode st' topo where
    "tr_row t = Some row" "match_identity env (build_match_context t) row = Inr (Some i, existing, status, None)" "primary_value i \<noteq> []"
    "first_state env row (rr_build_desired_state (me_resolve env) row) i existing status = Inr (st, mode)"
    "refine_with_topology env t st = Inr (st', topo, None)"
    "m = build_matched_row env (build_match_context t) row (rr_build_desired_state (me_resolve env) row) i st' mode topo"
    "out = with_row_ref (Some (mr_row_ref m)) (with_row (Some m) t)"
proof -
  have u: "tr_row (unmatched t ctx ds) = None" for ctx ds by (simp add: unmatched_def)
  obtain row where row: "tr_row t = Some row" using assms u by (auto simp: match_def Let_def bind_r_Inr_iff split: option.splits if_splits)
  obtain found existing status error where i: "match_identity env (build_match_context t) row = Inr (found, existing, status, error)"
    using assms(1) by (auto simp: match_def Let_def bind_r_Inr_iff row)
  obtain i where found: "found = Some i" "error = None" "primary_value i \<noteq> []"
    using assms u by (auto simp: match_def Let_def bind_r_Inr_iff row i split: option.splits if_splits)
  obtain st mode where st: "first_state env row (rr_build_desired_state (me_resolve env) row) i existing status = Inr (st, mode)"
    using assms(1) by (auto simp: match_def Let_def bind_r_Inr_iff row i found)
  obtain st' topo e where st': "refine_with_topology env t st = Inr (st', topo, e)"
    using assms(1) by (auto simp: match_def Let_def bind_r_Inr_iff row i found st)
  have e: "e = None" using assms u by (auto simp: match_def Let_def row i found st st' split: option.splits)
  have "m = build_matched_row env (build_match_context t) row (rr_build_desired_state (me_resolve env) row) i st' mode topo"
    "out = with_row_ref (Some (mr_row_ref m)) (with_row (Some m) t)"
    using assms by (auto simp: match_def Let_def row i found st st' e)
  with row i found st st' e that show ?thesis by blast
qed

section \<open>Fuzzy candidates\<close>

lemma take_candidates_bound:
  "length found < n \<Longrightarrow> distinct (map candidate_dedup_key found)
    \<Longrightarrow> distinct (map candidate_dedup_key (fst (take_candidates n cs found)))
      \<and> length (fst (take_candidates n cs found)) \<le> n
      \<and> (\<not> snd (take_candidates n cs found) \<longrightarrow> length (fst (take_candidates n cs found)) < n)"
  by (induction n cs found rule: take_candidates.induct) auto

lemma block_loop_bound:
  "block_loop env row desired i n keys found = Inr out \<Longrightarrow> length found < n \<Longrightarrow> distinct (map candidate_dedup_key found)
    \<Longrightarrow> distinct (map candidate_dedup_key out) \<and> length out \<le> n"
proof (induction keys arbitrary: found)
  case (Cons k keys)
  let ?v = "read_value k row desired i"
  show ?case
  proof (cases "blank_value ?v")
    case True
    then show ?thesis using Cons by simp
  next
    case False
    show ?thesis
    proof (cases "me_find env k ?v")
      case (Inl e)
      with Cons False show ?thesis by (simp split: if_splits)
    next
      case (Inr rs)
      obtain found' full where t: "take_candidates n rs found = (found', full)" by (cases "take_candidates n rs found")
      with take_candidates_bound [OF Cons.prems(2,3), of rs] Cons.IH [of found'] Cons.prems(1) False Inr show ?thesis
        by (cases full) simp_all
    qed
  qed
qed simp

definition fuzzy_ranking ::
    "match_env \<Rightarrow> (string, pyval) dict \<Rightarrow> (string, pyval) dict \<Rightarrow> identity \<Rightarrow> (string, pyval) dict list \<Rightarrow> scored list" where
  "fuzzy_ranking env row desired i cs =
     (let fuzzy = ma_fuzzy (me_matching env)
      in rank_candidates (me_score env) (build_source_values env row desired i) cs (fz_comparators fuzzy) (fz_weights fuzzy)
           (max 0 (fz_score_round fuzzy)))"

lemma collected_bound:
  assumes "collect_blocking_candidates env row desired i = Inr cs"
  shows "distinct (map candidate_dedup_key cs) \<and> length cs \<le> nat (max 1 (fz_max_candidates (ma_fuzzy (me_matching env))))"
  using assms block_loop_bound [of env row desired i _ _ "[]" cs] by (auto simp: collect_blocking_candidates_def Let_def split: if_splits)

section \<open>Source dedup\<close>

text \<open>The key and the fingerprint that a record registers.\<close>

definition dedup_entry :: "match_env \<Rightarrow> (string, pyval) dict transform_result \<Rightarrow> (string \<times> string) option" where
  "dedup_entry env t =
     (case match env t of
        Inl e \<Rightarrow> None
      | Inr out \<Rightarrow>
          (case tr_row out of
             None \<Rightarrow> None
           | Some m \<Rightarrow>
               if sdr_enabled (ma_source_dedup (me_matching env))
               then map_option (\<lambda>k. (k, mr_fingerprint m)) (build_source_dedup_key (mr_identity m)) else None))"

text \<open>What becomes of a record when \<open>known\<close> gives the fingerprint that a key was first seen with.\<close>

definition settled ::
    "match_env \<Rightarrow> (string \<Rightarrow> string option) \<Rightarrow> (string, pyval) dict transform_result \<Rightarrow> matched_row transform_result \<Rightarrow> bool" where
  "settled env known t out \<longleftrightarrow>
     (\<exists>matched. match env t = Inr matched
       \<and> (case Option.bind (dedup_entry env t) (\<lambda>(k, f). map_option (\<lambda>g. g = f) (known k)) of
            None \<Rightarrow> out = matched
          | Some True \<Rightarrow> tr_row out = None \<and> tr_errors out = tr_errors matched
              \<and> (\<exists>d. tr_warnings out = tr_warnings matched @ [d] \<and> di_code d = ''MATCH_DUPLICATE_SOURCE'')
          | Some False \<Rightarrow> tr_row out = None
              \<and> (\<exists>d. di_code d = ''MATCH_CONFLICT_SOURCE''
                  \<and> (if sdr_on_conflict (ma_source_dedup (me_matching env)) = ''warn''
                     then tr_warnings out = tr_warnings matched @ [d] \<and> tr_errors out = tr_errors matched
                     else tr_errors out = tr_errors matched @ [d] \<and> tr_warnings out = tr_warnings matched))))"

lemma drop_matched_simps [simp]:
  "tr_row (drop_matched_row t w e reason) = None"
  "tr_errors (drop_matched_row t w e reason) = tr_errors t @ (case e of None \<Rightarrow> [] | Some d \<Rightarrow> [d])"
  "tr_warnings (drop_matched_row t w e reason) = tr_warnings t @ (case w of None \<Rightarrow> [] | Some d \<Rightarrow> [d])"
  by (simp_all add: drop_matched_row_def Let_def set_meta_def add_error_item_def add_warning_item_def split: option.split)

context dedup_store
begin

lemma dedup_step:
  assumes "match_codes env" "match env t = Inr matched"
  obtains s' out where "match_with_source_dedup env check t s = (s', Inr out)" "settled env (lookup s) t out"
    "\<And>k. lookup s' k = coalesce (lookup s k) (Option.bind (dedup_entry env t) (\<lambda>(k0, f). if k = k0 then Some f else None))"
proof (cases "dedup_entry env t")
  case None
  have "match_with_source_dedup env check t s = (s, Inr matched)"
    using None by (auto simp: match_with_source_dedup_def dedup_entry_def assms(2) step_defs split: option.splits if_splits)
  then show ?thesis by (rule that) (auto simp: settled_def None assms(2) coalesce_def split: option.split)
next
  case (Some entry)
  then obtain k f where e: "dedup_entry env t = Some (k, f)" by (cases entry) auto
  then obtain m where m: "tr_row matched = Some m" "sdr_enabled (ma_source_dedup (me_matching env))"
    "build_source_dedup_key (mr_identity m) = Some k" "f = mr_fingerprint m"
    by (auto simp: dedup_entry_def assms(2) split: option.splits if_splits)
  obtain s' r where c: "check k f s = (s', r)" by (cases "check k f s")
  have step: "match_with_source_dedup env check t s = (s', apply_dedup env matched m r)"
    using c m by (simp add: match_with_source_dedup_def assms(2) step_defs call_s_def)
  have r: "r = (case lookup s k of None \<Rightarrow> FIRST | Some g \<Rightarrow> if g = f then DUPLICATE else DEDUP_CONFLICT)"
    using check_result [of k f s] c by simp
  have "\<exists>out. apply_dedup env matched m r = Inr out"
    using match_codes_accepts [OF assms(1)]
    by (cases r) (simp_all add: apply_dedup_def source_warning_def source_error_def match_error_def split: if_split)
  then obtain out where out: "apply_dedup env matched m r = Inr out" by blast
  have "settled env (lookup s) t out"
    using out match_codes_accepts [OF assms(1)] r
    by (auto simp: settled_def e assms(2) apply_dedup_def source_warning_def source_error_def match_error_def split: option.splits if_splits)
  moreover have "lookup s' k' = coalesce (lookup s k') (Option.bind (dedup_entry env t) (\<lambda>(k0, f). if k' = k0 then Some f else None))" for k'
    using check_lookup [of k f s k'] c by (auto simp: e coalesce_def split: option.split)
  ultimately show ?thesis using that step out by simp
qed

lemma dedup_stream:
  assumes "match_codes env" "\<forall>t \<in> set ts. \<not> isl (match env t)"
  shows "\<exists>s' outs. match_stream env check (ts, None) s = (s', outs, None) \<and> length outs = length ts
    \<and> (\<forall>i < length ts. settled env (\<lambda>k. coalesce (lookup s k) (map_of (List.map_filter (dedup_entry env) (take i ts)) k)) (ts ! i) (outs ! i))"
  using assms(2)
proof (induction ts arbitrary: s)
  case Nil
  then show ?case by (simp add: match_stream_def map_stream_def)
next
  case (Cons t ts)
  then obtain matched where matched: "match env t = Inr matched" using not_isl_Inr by fastforce
  obtain s1 out where first: "match_with_source_dedup env check t s = (s1, Inr out)" "settled env (lookup s) t out"
    "\<And>k. lookup s1 k = coalesce (lookup s k) (Option.bind (dedup_entry env t) (\<lambda>(k0, f). if k = k0 then Some f else None))"
    by (rule dedup_step [OF assms(1) matched, of s]) blast
  obtain s' outs where rest: "match_stream env check (ts, None) s1 = (s', outs, None)" "length outs = length ts"
    "\<forall>i < length ts. settled env (\<lambda>k. coalesce (lookup s1 k) (map_of (List.map_filter (dedup_entry env) (take i ts)) k)) (ts ! i) (outs ! i)"
    using Cons.IH [of s1] Cons.prems by auto
  have known: "coalesce (lookup s1 k) (map_of (List.map_filter (dedup_entry env) (take i ts)) k)
      = coalesce (lookup s k) (map_of (List.map_filter (dedup_entry env) (take (Suc i) (t # ts))) k)" for i k
    by (auto simp: first(3) coalesce_def map_filter_simps split: option.splits)
  have "settled env (\<lambda>k. coalesce (lookup s k) (map_of (List.map_filter (dedup_entry env) (take i (t # ts))) k)) ((t # ts) ! i) ((out # outs) ! i)"
    if "i < length (t # ts)" for i
  proof (cases i)
    case 0
    have "(\<lambda>k. coalesce (lookup s k) None) = lookup s" by (auto simp: coalesce_def split: option.split)
    with 0 first(2) show ?thesis by (simp add: map_filter_simps)
  next
    case (Suc j)
    with rest(3) that known show ?thesis by simp
  qed
  moreover have "match_stream env check (t # ts, None) s = (s', out # outs, None)"
    using first(1) rest(1) by (simp add: match_stream_def map_stream_def)
  ultimately show ?case using rest(2) by (intro exI [of _ s'] exI [of _ "out # outs"]) simp
qed

end

section \<open>Properties\<close>

text \<open>
  C13. With fuzzy matching and topology off, the first identity rule whose value the cache knows decides: one record makes the
  row matched with that identity and score 1, several end the row with MATCH_CONFLICT_TARGET, even when a later rule would
  find one.  A row that no rule finds keeps the first identity that has a value and is not found; without any it ends
  with MATCH_IDENTITY_MISSING.
\<close>

theorem match_first_known_identity:
  assumes "tr_row t = Some row" "match_codes env" "\<not> fz_enabled (ma_fuzzy (me_matching env))" "ma_topology (me_matching env) = None"
    "\<And>f v. \<not> isl (me_find env f v)"
  defines "ids \<equiv> identities env (build_match_context t) row"
  shows "\<exists>out. match env t = Inr out
    \<and> (case find (\<lambda>i. hits env i \<noteq> []) ids of
         Some i \<Rightarrow>
           if length (hits env i) = 1
           then tr_errors out = tr_errors t \<and> (\<exists>m. tr_row out = Some m \<and> mr_identity m = i \<and> mr_existing m = Some (hd (hits env i))
             \<and> resolve_decision_status m = Match_MATCHED \<and> md_score (mr_match_decision m) = Some one_float)
           else tr_row out = None \<and> (\<exists>d. tr_errors out = tr_errors t @ [d] \<and> di_code d = ''MATCH_CONFLICT_TARGET'')
       | None \<Rightarrow>
           (case ids of
              i # _ \<Rightarrow> tr_errors out = tr_errors t \<and> (\<exists>m. tr_row out = Some m \<and> mr_identity m = i \<and> mr_existing m = None
                \<and> resolve_decision_status m = Match_NOT_FOUND)
            | [] \<Rightarrow> tr_row out = None \<and> (\<exists>d. tr_errors out = tr_errors t @ [d] \<and> di_code d = ''MATCH_IDENTITY_MISSING'')))"
proof -
  let ?ctx = "build_match_context t" and ?rules = "ma_identity_rules (me_matching env)"
  have loop: "match_identity env ?ctx row = identity_loop env ?ctx row ?rules None" by (simp add: match_identity_def)
  have ids: "filter (\<lambda>i. primary_value i \<noteq> []) (map (\<lambda>rule. ir_build rule row ?ctx) ?rules) = ids" by (simp add: ids_def identities_def)
  note spec = identity_loop_spec [OF assms(2), of ?rules row ?ctx None, unfolded ids]
  have pos: "primary_value i \<noteq> []" if "i \<in> set ids" for i using that by (auto simp: ids_def identities_def)
  have topo: "refine_with_topology env t st = Inr (st, None, None)" for st by (simp add: refine_with_topology_def assms(4))
  have failed: "match_identity env ?ctx row = Inr (j, ex, status, Some d) \<Longrightarrow> match env t = Inr (unmatched t ?ctx [d])" for j ex status d
    by (simp add: match_def Let_def assms(1) split: option.split)
  have unmatched: "tr_row (unmatched t ?ctx [d]) = None" "tr_errors (unmatched t ?ctx [d]) = tr_errors t @ [d]" for d
    by (simp_all add: unmatched_def)
  have good: "match env t = Inr (with_row_ref (Some (mr_row_ref m)) (with_row (Some m) t))"
    if "match_identity env ?ctx row = Inr (Some i, ex, status, None)" "primary_value i \<noteq> []"
      "st = (if status = Match_MATCHED then exact_state env ex else nothing_found IDENTITY_NOT_FOUND)"
      "m = build_matched_row env ?ctx row (rr_build_desired_state (me_resolve env) row) i st ''exact'' None" for i ex status st m
    using that by (simp add: match_def Let_def assms(1,3) first_state_def topo)
  have row: "mr_identity (build_matched_row env ?ctx row desired i st mode topo) = i"
    "mr_existing (build_matched_row env ?ctx row desired i st mode topo) = ms_existing st"
    "resolve_decision_status (build_matched_row env ?ctx row desired i st mode topo) = ms_status st"
    "md_score (mr_match_decision (build_matched_row env ?ctx row desired i st mode topo)) = ms_score st" for desired i st mode topo
    by (simp_all add: build_matched_row_def build_decision_def resolve_decision_status_def Let_def split_beta)
  have states: "ms_existing (exact_state env ex) = ex" "ms_status (exact_state env ex) = Match_MATCHED" "ms_score (exact_state env ex) = Some one_float"
    "ms_existing (nothing_found reason) = None" "ms_status (nothing_found reason) = Match_NOT_FOUND" for ex reason
    by (simp_all add: exact_state_def nothing_found_def Let_def)
  show ?thesis
  proof (cases "find (\<lambda>i. hits env i \<noteq> []) ids")
    case None
    show ?thesis
    proof (cases ids)
      case Nil
      with spec None assms(5) loop obtain d where "match_identity env ?ctx row = Inr (None, None, Match_NOT_FOUND, Some d)"
        "di_code d = ''MATCH_IDENTITY_MISSING''" by auto
      with failed [OF this(1)] unmatched [of d] None Nil show ?thesis by simp
    next
      case (Cons i rest)
      with spec None assms(5) loop have "match_identity env ?ctx row = Inr (Some i, None, Match_NOT_FOUND, None)" by simp
      from good [OF this pos refl refl] Cons None show ?thesis by (simp add: row states)
    qed
  next
    case (Some i)
    then have mem: "i \<in> set ids" by (auto simp: find_Some_iff)
    show ?thesis
    proof (cases "length (hits env i) = 1")
      case True
      with spec Some assms(5) loop have "match_identity env ?ctx row = Inr (Some i, Some (hd (hits env i)), Match_MATCHED, None)" by simp
      from good [OF this pos [OF mem] refl refl] Some True show ?thesis by (simp add: row states)
    next
      case False
      with spec Some assms(5) loop obtain j d where "match_identity env ?ctx row = Inr (j, None, Match_NOT_FOUND, Some d)"
        "di_code d = ''MATCH_CONFLICT_TARGET''" by auto
      with failed [OF this(1)] unmatched [of d] Some False show ?thesis by simp
    qed
  qed
qed

text \<open>
  C35. A matched row is well formed whatever the rules, the cache and the topology answer: it keeps the diagnostics of its
  record, its reference names its identity, its candidates are at most the configured number, an existing record was
  returned by the cache, and exactly a matched row has a selected candidate, which names its existing record.
\<close>

theorem matched_row_well_formed:
  assumes "match env t = Inr out" "tr_row out = Some m"
  shows "tr_errors out = tr_errors t \<and> tr_warnings out = tr_warnings t \<and> tr_row_ref out = Some (mr_row_ref m)
    \<and> rr_identity_primary (mr_row_ref m) = PStr (id_primary (mr_identity m)) \<and> primary_value (mr_identity m) \<noteq> []
    \<and> rr_identity_value (mr_row_ref m) = PStr (primary_value (mr_identity m))
    \<and> length (md_candidates (mr_match_decision m)) \<le> top_limit env
    \<and> (\<forall>r. mr_existing m = Some r \<longrightarrow> cached env r)
    \<and> (case md_selected (mr_match_decision m) of
         None \<Rightarrow> resolve_decision_status m \<noteq> Match_MATCHED
       | Some c \<Rightarrow> resolve_decision_status m = Match_MATCHED
           \<and> (\<exists>r. mr_existing m = Some r \<and> mc_target_id c = candidate_id_text r))"
proof -
  obtain row i existing status st mode st' topo where s: "match_identity env (build_match_context t) row = Inr (Some i, existing, status, None)"
    "primary_value i \<noteq> []" "first_state env row (rr_build_desired_state (me_resolve env) row) i existing status = Inr (st, mode)"
    "refine_with_topology env t st = Inr (st', topo, None)"
    "m = build_matched_row env (build_match_context t) row (rr_build_desired_state (me_resolve env) row) i st' mode topo"
    "out = with_row_ref (Some (mr_row_ref m)) (with_row (Some m) t)"
    by (rule match_steps [OF assms])
  have "status = Match_MATCHED \<Longrightarrow> \<exists>r. existing = Some r \<and> cached env r"
    using identity_loop_found [of env "build_match_context t" row _ None] s(1) by (simp add: match_identity_def split: if_splits)
  then have ok: "state_ok env st'" using refine_ok [OF s(4)] first_state_ok [OF s(3)] by blast
  have one: "1 \<le> top_limit env" by (simp add: top_limit_def)
  have ref: "rr_identity_primary (ensure_row_ref ctx i) = PStr (id_primary i)" "rr_identity_value (ensure_row_ref ctx i) = PStr (primary_value i)" for ctx
    by (auto simp: ensure_row_ref_def split: option.split)
  have out: "tr_errors out = tr_errors t" "tr_warnings out = tr_warnings t" "tr_row_ref out = Some (mr_row_ref m)"
    by (simp_all add: s(6)) (simp add: with_row_ref_def)
  show ?thesis
    using ok one unfolding out s(5)
    by (auto simp: build_matched_row_def build_decision_def resolve_decision_status_def Let_def split_beta ref s(2) state_ok_def
        to_match_candidates_def build_selected_candidate_def split: option.split)
qed

text \<open>
  C2. A row is created only when no identity rule with a value finds a record in the cache; a row that is updated or skipped
  carries the id of a record the cache returned.  Neither an ambiguous row nor one whose fuzzy match was confirmed by
  the topology is ever created.
\<close>

theorem created_rows_unknown:
  assumes "match env t = Inr out" "tr_row out = Some m" "tr_row t = Some source_row"
    "compile_rules block sink = Inr (re_rules renv)" "rb_diff block = Some diff" "build_diff_rules diff sink = Inr drules"
    "distinct (map rule_output drules)" "resolve renv m rec target_ids meta batch db = (db', Inr (Some row, errs, warns))"
  shows "if rv_op row = Resolve_CREATE
    then \<forall>i \<in> set (identities env (build_match_context t) source_row). me_find env (id_primary i) (PStr (primary_value i)) = Inr []
    else \<exists>r. cached env r \<and> rv_target_id row = Some (py_str (dict_get_or r ''_id'' PNone))"
proof -
  obtain i existing status st mode st' topo where s: "match_identity env (build_match_context t) source_row = Inr (Some i, existing, status, None)"
    "first_state env source_row (rr_build_desired_state (me_resolve env) source_row) i existing status = Inr (st, mode)"
    "refine_with_topology env t st = Inr (st', topo, None)"
    "m = build_matched_row env (build_match_context t) source_row (rr_build_desired_state (me_resolve env) source_row) i st' mode topo"
    by (rule match_steps [OF assms(1,2)]) (simp add: assms(3))
  note found = identity_loop_found [of env "build_match_context t" source_row _ None, folded match_identity_def, OF s(1) [unfolded match_identity_def]]
  have ok: "state_ok env st'" "ms_status st' = Match_NOT_FOUND \<Longrightarrow> ms_status st = Match_NOT_FOUND"
    using refine_ok [OF s(3)] first_state_ok [OF s(2)] found by (auto split: if_splits)
  have m: "resolve_decision_status m = ms_status st'" "mr_existing m = ms_existing st'"
    by (simp_all add: s(4) build_matched_row_def build_decision_def resolve_decision_status_def Let_def split_beta)
  note op = resolve_operation_exact [OF assms(4-8)]
  show ?thesis
  proof (cases "ms_status st' = Match_NOT_FOUND")
    case True
    then have "ms_status st = Match_NOT_FOUND" using ok(2) by simp
    then have "status \<noteq> Match_MATCHED" using s(2) by (auto simp: first_state_def exact_state_def Let_def)
    then show ?thesis using found op True m by (auto simp: identities_def)
  next
    case False
    then obtain r where "mr_existing m = Some r" "rv_op row \<noteq> Resolve_CREATE" "rv_target_id row = Some (py_str (dict_get_or r ''_id'' PNone))"
      using op m by (auto split: if_splits)
    then show ?thesis using ok(1) m by (auto simp: state_ok_def)
  qed
qed

text \<open>
  The fuzzy matcher looks at no more than the configured number of records of the cache, pairwise different, and accepts
  one only when its score reaches the threshold, is the highest, and leads the second by at least the tie delta.
\<close>

theorem fuzzy_accepts_clear_winner:
  assumes "match_with_fuzzy env row desired i = Inr st"
  defines "fuzzy \<equiv> ma_fuzzy (me_matching env)"
  shows "\<exists>cs. collect_blocking_candidates env row desired i = Inr cs \<and> distinct (map candidate_dedup_key cs)
    \<and> length cs \<le> nat (max 1 (fz_max_candidates fuzzy)) \<and> mset (ms_records st) = mset cs
    \<and> (let ranked = fuzzy_ranking env row desired i cs in
        ms_status st = Match_MATCHED \<longrightarrow>
          (\<exists>c s rest. ranked = (c, s) # rest \<and> ms_existing st = Some c \<and> ms_score st = Some s
            \<and> float_le (float_min one_float (float_pos (fz_accept_threshold fuzzy))) s
            \<and> (\<forall>(c', s') \<in> set rest. float_le s' s \<and> float_le s' (snd (hd rest)))
            \<and> (rest \<noteq> [] \<longrightarrow> float_le (float_pos (float_pos (fz_tie_delta fuzzy))) (se_sub (me_score env) s (snd (hd rest))))))"
proof -
  obtain cs where cs: "collect_blocking_candidates env row desired i = Inr cs" using assms(1) by (auto simp: match_with_fuzzy_def bind_r_Inr_iff)
  let ?ranked = "fuzzy_ranking env row desired i cs"
  have st: "st = (if cs = [] then nothing_found FUZZY_NO_CANDIDATES else if ?ranked = [] then nothing_found FUZZY_NO_RANKED
      else decide_ranked env ?ranked)"
    using assms(1) by (simp add: match_with_fuzzy_def cs fuzzy_ranking_def Let_def split: if_splits)
  have records: "ms_records (decide_ranked env ?ranked) = map fst ?ranked" by (simp add: decide_ranked_def Let_def split_beta)
  have ms: "mset (map fst ?ranked) = mset cs" using rank_mset by (simp only: fuzzy_ranking_def Let_def)
  have sorted: "sorted_wrt (\<lambda>p q. float_le (snd q) (snd p)) ?ranked" by (simp add: fuzzy_ranking_def Let_def rank_sorted)
  have winner: "ms_status st = Match_MATCHED \<longrightarrow>
          (\<exists>c s rest. ?ranked = (c, s) # rest \<and> ms_existing st = Some c \<and> ms_score st = Some s
            \<and> float_le (float_min one_float (float_pos (fz_accept_threshold fuzzy))) s
            \<and> (\<forall>(c', s') \<in> set rest. float_le s' s \<and> float_le s' (snd (hd rest)))
            \<and> (rest \<noteq> [] \<longrightarrow> float_le (float_pos (float_pos (fz_tie_delta fuzzy))) (se_sub (me_score env) s (snd (hd rest)))))"
  proof
    assume m: "ms_status st = Match_MATCHED"
    then have "?ranked \<noteq> []" and st: "st = decide_ranked env ?ranked" using st by (auto simp: nothing_found_def split: if_splits)
    then obtain c s rest where r: "?ranked = (c, s) # rest" by (cases ?ranked) auto
    have "\<not> is_tie (me_score env) ?ranked (float_pos (fz_tie_delta fuzzy))"
      "float_le (float_min one_float (float_pos (fz_accept_threshold fuzzy))) s" "ms_existing st = Some c" "ms_score st = Some s"
      using m unfolding st decide_ranked_def by (auto simp: r fuzzy_def Let_def split: if_splits)
    moreover have "\<forall>(c', s') \<in> set rest. float_le s' s \<and> float_le s' (snd (hd rest))" using sorted r by (cases rest) auto
    ultimately show "\<exists>c s rest. ?ranked = (c, s) # rest \<and> ms_existing st = Some c \<and> ms_score st = Some s
            \<and> float_le (float_min one_float (float_pos (fz_accept_threshold fuzzy))) s
            \<and> (\<forall>(c', s') \<in> set rest. float_le s' s \<and> float_le s' (snd (hd rest)))
            \<and> (rest \<noteq> [] \<longrightarrow> float_le (float_pos (float_pos (fz_tie_delta fuzzy))) (se_sub (me_score env) s (snd (hd rest))))"
      using r by (intro exI [of _ c] exI [of _ s] exI [of _ rest]) (auto simp: is_tie_def hd_conv_nth)
  qed
  have "mset (ms_records st) = mset cs"
    using st records ms by (auto simp: nothing_found_def split: if_splits)
  with cs collected_bound [OF cs] winner show ?thesis by (auto simp: fuzzy_def Let_def)
qed

text \<open>
  C14. With the store of a run, source dedup keeps exactly the first record of every identity: a later one with the same
  fingerprint is dropped with a MATCH_DUPLICATE_SOURCE warning, one with another fingerprint is dropped with
  MATCH_CONFLICT_SOURCE as the policy says, and the fingerprint that decides is the one of the first record.
\<close>

theorem source_dedup_keeps_first:
  assumes "match_codes env" "\<forall>t \<in> set ts. \<not> isl (match env t)"
  shows "\<exists>seen outs. match_stream env local_check (ts, None) [] = (seen, outs, None) \<and> length outs = length ts
    \<and> (\<forall>i < length ts. settled env (map_of (List.map_filter (dedup_entry env) (take i ts))) (ts ! i) (outs ! i))"
  using local_store.dedup_stream [OF assms, of "[]"] by (simp add: coalesce_def)

section \<open>Configuration without effect\<close>

text \<open>\<open>on_duplicate\<close> is read from the specification and never used: a duplicate is a warning under \<open>error\<close> too.\<close>

lemma on_duplicate_ignored:
  "match_with_source_dedup (env\<lparr>me_matching := rules\<lparr>ma_source_dedup := d\<lparr>sdr_on_duplicate := x\<rparr>\<rparr>\<rparr>) check t
    = match_with_source_dedup (env\<lparr>me_matching := rules\<lparr>ma_source_dedup := d\<rparr>\<rparr>) check t"
proof -
  let ?e = "env\<lparr>me_matching := rules\<lparr>ma_source_dedup := d\<lparr>sdr_on_duplicate := x\<rparr>\<rparr>\<rparr>" and ?f = "env\<lparr>me_matching := rules\<lparr>ma_source_dedup := d\<rparr>\<rparr>"
  have error: "match_error ?e = match_error ?f" by (simp add: fun_eq_iff match_error_def)
  have "identity_loop ?e ctx row rs known = identity_loop ?f ctx row rs known" for ctx row rs known
    by (induction rs arbitrary: known) (simp_all add: error conflict_error_def Let_def cong: if_cong list.case_cong option.case_cong)
  then have identity: "match_identity ?e = match_identity ?f" by (simp add: fun_eq_iff match_identity_def)
  have "block_loop ?e row desired i n keys found = block_loop ?f row desired i n keys found" for row desired i n keys found
    by (induction keys arbitrary: found) (simp_all add: Let_def cong: if_cong sum.case_cong)
  then have "match_with_fuzzy ?e = match_with_fuzzy ?f"
    by (simp add: fun_eq_iff match_with_fuzzy_def collect_blocking_candidates_def build_source_values_def decide_ranked_def top_limit_def
        cong: if_cong)
  then have first: "first_state ?e = first_state ?f" by (simp add: fun_eq_iff first_state_def exact_state_def top_limit_def cong: if_cong)
  have refine: "refine_with_topology ?e t st = refine_with_topology ?f t st" for st
    by (simp add: refine_with_topology_def error cong: option.case_cong if_cong)
  have row: "build_matched_row ?e = build_matched_row ?f" by (simp add: fun_eq_iff build_matched_row_def)
  have "match ?e t = match ?f t"
    by (simp add: match_def error identity first refine row Let_def cong: if_cong option.case_cong)
  moreover have "apply_dedup ?e = apply_dedup ?f"
    by (simp add: fun_eq_iff apply_dedup_def source_warning_def source_error_def error cong: dedup_result.case_cong if_cong)
  ultimately show ?thesis by (simp add: match_with_source_dedup_def cong: option.case_cong if_cong)
qed

text \<open>A rule without \<open>primary\<close> whose name is not one of its fields never gives an identity.\<close>

lemma unnamed_primary_dead:
  assumes "str_or (mru_primary r) [] = []" "mru_name r \<noteq> []" "mru_name r \<notin> set (mru_fields r)" "mru_fields r \<noteq> []"
  shows "validate_match_rule r = None" "primary_value (ir_build (build_identity_rule texts r) row ctx) = []"
proof -
  have keep: "map_of (fold (\<lambda>n. AList.update n (f n)) ns d) k = map_of d k" if "k \<notin> set ns" for f ns d and k :: string
    using that by (induction ns arbitrary: d) (simp_all add: update_conv')
  show "primary_value (ir_build (build_identity_rule texts r) row ctx) = []"
    using assms by (simp add: build_identity_rule_def primary_value_def rule_primary_def dict_get_or_def keep)
  show "validate_match_rule r = None" using assms by (auto simp: validate_match_rule_def str_or_def split: option.splits list.splits)
qed

section \<open>Examples\<close>

text \<open>Exact arithmetic on decimals; the only weight of the examples is 1, so that no quotient is needed.\<close>

definition float_plus :: "int \<Rightarrow> py_float \<Rightarrow> py_float \<Rightarrow> py_float" where
  "float_plus sign f g =
     (let e = min (exp10 f) (exp10 g)
      in make_float (mantissa f * 10 ^ nat (exp10 f - e) + sign * mantissa g * 10 ^ nat (exp10 g - e)) e)"

definition example_scores :: score_env where
  "example_scores =
     \<lparr>se_add = float_plus 1, se_sub = float_plus (- 1), se_mul = (\<lambda>f g. make_float (mantissa f * mantissa g) (exp10 f + exp10 g)),
      se_div = (\<lambda>f g. f), se_round = (\<lambda>f n. f), se_order = id\<rparr>"

definition example_match_block :: "bool \<Rightarrow> match_block" where
  "example_match_block fuzzy =
     \<lparr>mb_identity_rules = [\<lparr>mru_name = ''login'', mru_fields = [''login''], mru_primary = None\<rparr>,
        \<lparr>mru_name = ''mail'', mru_fields = [''mail''], mru_primary = Some ''mail''\<rparr>],
      mb_ignored_fields = [], mb_source_dedup = \<lparr>sdr_enabled = True, sdr_on_duplicate = ''warn'', sdr_on_conflict = ''error''\<rparr>,
      mb_fuzzy = \<lparr>fz_enabled = fuzzy, fz_blocking_keys = [''login'', ''dept''], fz_comparators = [(''mail'', ''casefold'')],
        fz_weights = [(''mail'', one_float)], fz_accept_threshold = PyFloat 9 (- 1), fz_review_threshold = PyFloat 7 (- 1),
        fz_tie_delta = PyFloat 5 (- 2), fz_max_candidates = 50, fz_top_k = 3, fz_score_round = 4\<rparr>,
      mb_topology = None\<rparr>"

definition example_match_env :: "bool \<Rightarrow> (string \<Rightarrow> pyval \<Rightarrow> (string, pyval) dict list result) \<Rightarrow> match_env" where
  "example_match_env fuzzy lookup =
     \<lparr>me_find = lookup,
      me_matching = (case compile_match False \<lparr>ot_row_ref = (\<lambda>r. ''ref''), ot_diagnostics = (\<lambda>ds. ''[]''), ot_class_attribute = (\<lambda>n. None)\<rparr>
        (example_match_block fuzzy) of Inr rules \<Rightarrow> rules),
      me_resolve = re_rules (example_env example_block), me_catalog = make_catalog [] False, me_topology_service = None,
      me_locator = None, me_node_id_field = None, me_md5 = id, me_score = example_scores\<rparr>"

definition example_source :: "(string, pyval) dict \<Rightarrow> (string, pyval) dict transform_result" where
  "example_source row =
     \<lparr>tr_record = example_record, tr_row = Some row, tr_row_ref = None, tr_match_key = Some ''k'', tr_meta = [], tr_secret_candidates = [],
      tr_errors = [], tr_warnings = []\<rparr>"

definition known_mail :: "string \<Rightarrow> pyval \<Rightarrow> (string, pyval) dict list result" where
  "known_mail f v = (if f = ''mail'' \<and> v = PStr ''a@x'' then Inr [[(''_id'', PStr ''u7''), (''manager'', PStr ''Eve'')]] else Inr [])"

definition same_dept :: "string \<Rightarrow> pyval \<Rightarrow> (string, pyval) dict list result" where
  "same_dept f v =
     (if f = ''dept'' then Inr [[(''_id'', PStr ''u1''), (''mail'', PStr ''b@x'')], [(''_id'', PStr ''u2''), (''mail'', PStr ''A@X'')]]
      else Inr [])"

lemma example_codes: "match_codes (example_match_env fuzzy lookup)"
  by (simp add: match_codes_def example_match_env_def accepts_def make_catalog_def register_many_def)

lemma match_first_known_identity_witness:
  "\<exists>out m. match (example_match_env False known_mail) (example_source [(''login'', PStr ''ann''), (''mail'', PStr ''a@x'')]) = Inr out
    \<and> tr_row out = Some m \<and> id_primary (mr_identity m) = ''mail'' \<and> resolve_decision_status m = Match_MATCHED"
proof -
  let ?env = "example_match_env False known_mail" and ?row = "[(''login'', PStr ''ann''), (''mail'', PStr ''a@x'')]"
  let ?ids = "identities ?env (build_match_context (example_source ?row)) ?row"
  have facts: "\<not> fz_enabled (ma_fuzzy (me_matching ?env))" "ma_topology (me_matching ?env) = None"
    "find (\<lambda>i. hits ?env i \<noteq> []) ?ids = Some \<lparr>id_primary = ''mail'', id_values = [(''mail'', ''a@x'')]\<rparr>"
    "length (hits ?env \<lparr>id_primary = ''mail'', id_values = [(''mail'', ''a@x'')]\<rparr>) = 1"
    by code_simp+
  have row: "tr_row (example_source ?row) = Some ?row" by (simp add: example_source_def)
  have find: "\<not> isl (me_find ?env f v)" for f v by (simp add: example_match_env_def known_mail_def)
  from match_first_known_identity [OF row example_codes facts(1,2) find] facts(3,4) show ?thesis by auto
qed

lemma matched_row_well_formed_witness:
  "\<exists>out m. match (example_match_env True same_dept) (example_source [(''login'', PStr ''ann''), (''dept'', PStr ''d''), (''mail'', PStr ''a@x'')]) = Inr out
    \<and> tr_row out = Some m \<and> md_selected (mr_match_decision m) \<noteq> None \<and> length (md_candidates (mr_match_decision m)) \<le> 3"
proof -
  let ?env = "example_match_env True same_dept"
  let ?t = "example_source [(''login'', PStr ''ann''), (''dept'', PStr ''d''), (''mail'', PStr ''a@x'')]"
  have facts: "map_sum (\<lambda>e. ()) (\<lambda>out. map_option (\<lambda>m. resolve_decision_status m) (tr_row out)) (match ?env ?t) = Inr (Some Match_MATCHED)"
    "top_limit ?env = 3" by code_simp+
  then obtain out m where m: "match ?env ?t = Inr out" "tr_row out = Some m" "resolve_decision_status m = Match_MATCHED"
    by (cases "match ?env ?t") auto
  from matched_row_well_formed [OF m(1,2)] m facts show ?thesis by (auto split: option.splits)
qed

lemma fuzzy_accepts_clear_winner_witness:
  "\<exists>st. match_with_fuzzy (example_match_env True same_dept) [(''dept'', PStr ''d''), (''mail'', PStr ''a@x'')] [] \<lparr>id_primary = ''login'', id_values = []\<rparr> = Inr st
    \<and> ms_status st = Match_MATCHED \<and> (\<exists>c s. ms_existing st = Some c \<and> ms_score st = Some s \<and> float_le (PyFloat 9 (- 1)) s)"
proof -
  let ?env = "example_match_env True same_dept"
  let ?out = "match_with_fuzzy ?env [(''dept'', PStr ''d''), (''mail'', PStr ''a@x'')] [] \<lparr>id_primary = ''login'', id_values = []\<rparr>"
  have facts: "map_sum (\<lambda>e. ()) ms_status ?out = Inr Match_MATCHED"
    "float_min one_float (float_pos (fz_accept_threshold (ma_fuzzy (me_matching ?env)))) = PyFloat 9 (- 1)" by code_simp+
  then obtain st where st: "?out = Inr st" "ms_status st = Match_MATCHED" by (cases ?out) auto
  from fuzzy_accepts_clear_winner [OF st(1)] st facts show ?thesis by (auto simp: Let_def)
qed

lemma created_rows_unknown_witness:
  "\<exists>out m db' row. match (example_match_env False known_mail) (example_source [(''login'', PStr ''ann''), (''mail'', PStr ''a@x''), (''manager'', PInt 5)]) = Inr out
    \<and> tr_row out = Some m \<and> resolve (example_env example_block) m example_record [] None None empty_db = (db', Inr (Some row, [], []))
    \<and> rv_target_id row = Some ''u7''"
proof -
  let ?env = "example_match_env False known_mail"
  let ?t = "example_source [(''login'', PStr ''ann''), (''mail'', PStr ''a@x''), (''manager'', PInt 5)]"
  let ?m = "the (tr_row (projr (match ?env ?t)))"
  let ?out = "resolve (example_env example_block) ?m example_record [] None None empty_db"
  have matched: "map_sum (\<lambda>e. ()) (\<lambda>out. tr_row out \<noteq> None) (match ?env ?t) = Inr True" by code_simp
  then obtain out m where m: "match ?env ?t = Inr out" "tr_row out = Some m" by (cases "match ?env ?t") auto
  have resolved: "map_sum (\<lambda>e. ()) (\<lambda>(row, errs, warns). (map_option (\<lambda>r. (rv_op r, rv_target_id r)) row, errs, warns)) (snd ?out)
      = Inr (Some (Resolve_UPDATE, Some ''u7''), [], [])" by code_simp
  then obtain db' row where r: "?out = (db', Inr (Some row, [], []))" "rv_target_id row = Some ''u7''" "rv_op row \<noteq> Resolve_CREATE"
    by (cases ?out; cases "snd ?out") (auto split: prod.splits)
  have rm: "?m = m" using m by simp
  let ?rule = "\<lparr>dfs_field = ''manager'', dfs_existing = None, dfs_output = Some ''managerId'', dfs_normalize = ''text''\<rparr>"
  have "\<exists>r. cached ?env r \<and> rv_target_id row = Some (py_str (dict_get_or r ''_id'' PNone))"
    using created_rows_unknown [OF m _ example_rules _ _ _ r(1) [unfolded rm], where drules = "[?rule]"] r(3)
    by (simp add: example_source_def example_block_def build_diff_rules_def)
  then show ?thesis using m r unfolding rm by blast
qed

lemma source_dedup_keeps_first_witness:
  "let row = \<lambda>dept. example_source [(''login'', PStr ''ann''), (''manager'', PStr dept)];
       env = example_match_env False (\<lambda>f v. Inr []); ts = [row ''a'', row ''a'', row ''b'']
   in \<exists>seen outs. match_stream env local_check (ts, None) [] = (seen, outs, None) \<and> tr_row (outs ! 0) \<noteq> None
    \<and> tr_row (outs ! 1) = None \<and> tr_errors (outs ! 1) = [] \<and> tr_row (outs ! 2) = None \<and> tr_errors (outs ! 2) \<noteq> []"
proof -
  let ?row = "\<lambda>dept. example_source [(''login'', PStr ''ann''), (''manager'', PStr dept)]"
  let ?env = "example_match_env False (\<lambda>f v. Inr [])" and ?ts = "[?row ''a'', ?row ''a'', ?row ''b'']"
  have ok: "map_sum (\<lambda>e. ()) (\<lambda>out. (tr_row out \<noteq> None, tr_errors out)) (match ?env (?row ''a'')) = Inr (True, [])"
    "map_sum (\<lambda>e. ()) (\<lambda>out. (tr_row out \<noteq> None, tr_errors out)) (match ?env (?row ''b'')) = Inr (True, [])"
    by code_simp+
  have entries: "map_option fst (dedup_entry ?env (?row ''a'')) = Some ''login:ann''" "map_option fst (dedup_entry ?env (?row ''b'')) = Some ''login:ann''"
    "dedup_entry ?env (?row ''a'') \<noteq> dedup_entry ?env (?row ''b'')" by code_simp+
  obtain f where f: "dedup_entry ?env (?row ''a'') = Some (''login:ann'', f)" using entries(1) by auto
  obtain g where g: "dedup_entry ?env (?row ''b'') = Some (''login:ann'', g)" using entries(2) by auto
  have "f \<noteq> g" using entries(3) unfolding f g by simp
  note fg = f g this
  have policy: "sdr_on_conflict (ma_source_dedup (me_matching ?env)) = ''error''" by code_simp
  have ok': "\<forall>t \<in> set ?ts. \<not> isl (match ?env t)" using ok by (cases "match ?env (?row ''a'')"; cases "match ?env (?row ''b'')") auto
  obtain seen outs where s: "match_stream ?env local_check (?ts, None) [] = (seen, outs, None)"
    "\<forall>i < 3. settled ?env (map_of (List.map_filter (dedup_entry ?env) (take i ?ts))) (?ts ! i) (outs ! i)"
    using source_dedup_keeps_first [OF example_codes ok'] by auto
  have "settled ?env (map_of []) (?row ''a'') (outs ! 0)" "settled ?env (map_of [(''login:ann'', f)]) (?row ''a'') (outs ! 1)"
    "settled ?env (map_of [(''login:ann'', f), (''login:ann'', f)]) (?row ''b'') (outs ! 2)"
    using spec [OF s(2), of 0] spec [OF s(2), of 1] spec [OF s(2), of 2] by (simp_all add: map_filter_simps fg numeral_2_eq_2)
  with ok fg policy have "tr_row (outs ! 0) \<noteq> None" "tr_row (outs ! 1) = None" "tr_errors (outs ! 1) = []" "tr_row (outs ! 2) = None" "tr_errors (outs ! 2) \<noteq> []"
    by (auto simp: settled_def)
  with s(1) show ?thesis by (auto simp: Let_def)
qed

end
