(* ===== verification/Pipeline.thy ===== *)
theory Pipeline
  imports Stages
begin

text \<open>
  What the stages and the orchestrator promise, and how the resolve pipeline meets the plan builder: every record is
  accounted for, batching changes nothing, hooks follow the life of a stage, and the diagnostics a record brings along are
  forgotten.
\<close>

section \<open>Batches of a stage\<close>

lemma map_items_append:
  "map_items f (xs @ ys) ending st =
     (case map_items f xs None st of
        (st', out, Some e) \<Rightarrow> (st', out, Some e)
      | (st', out, None) \<Rightarrow> (let (st'', more, e) = map_items f ys ending st' in (st'', out @ more, e)))"
proof (induction xs arbitrary: st)
  case (Cons x xs)
  show ?case
  proof (cases "f x st")
    case (Pair st' r)
    then show ?thesis using Cons [of st'] by (cases r) (auto simp: split_beta split: option.split prod.split)
  qed
qed (simp add: split_beta)

lemma run_batches_map: "run_batches (\<lambda>batch. map_items f batch None) batches st = map_items f (concat batches) None st"
proof (induction batches arbitrary: st)
  case (Cons batch batches)
  then show ?case by (simp add: map_items_append split: prod.split option.split)
qed simp

section \<open>Resolve\<close>

lemma resolve_one_to_one:
  assumes "accepts (re_catalog env) ''INTERNAL_ERROR''" "\<And>m rec meta. codes_known (resolve env m rec [] meta (Some index))"
  shows "one_to_one (\<lambda>matched. on_db (resolve_record env index matched))"
  unfolding one_to_one_def on_db_def resolve_record_def
  by (auto simp: step_defs boundary_result [OF assms] Let_def split_beta split: sum.split prod.split option.split)

lemma resolve_ignores_diagnostics:
  assumes "tr_row t \<noteq> None"
  shows "resolve_record env index (t\<lparr>tr_errors := es, tr_warnings := ws\<rparr>) = resolve_record env index t"
  using assms by (auto simp: resolve_record_def with_row_def fun_eq_iff cong: option.case_cong)

text \<open>A record as it would be had no stage before reported anything on it.\<close>

definition silenced :: "'a transform_result \<Rightarrow> 'a transform_result" where
  "silenced t = (if tr_row t = None then t else t\<lparr>tr_errors := [], tr_warnings := []\<rparr>)"

lemma silenced_simps [simp]: "tr_row (silenced t) = tr_row t"
  by (simp add: silenced_def)

lemma index_silenced: "build_batch_index env (map silenced ts) = build_batch_index env ts"
proof -
  have "fold (\<lambda>r index. case tr_row r of None \<Rightarrow> index | Some row \<Rightarrow> index_row names fld row index) (map silenced ts) index
      = fold (\<lambda>r index. case tr_row r of None \<Rightarrow> index | Some row \<Rightarrow> index_row names fld row index) ts index" for names fld index
    by (induction ts arbitrary: index) simp_all
  then show ?thesis by (simp add: build_batch_index_def split_beta)
qed

lemma resolve_silenced: "resolve_record env index (silenced t) = resolve_record env index t"
  using resolve_ignores_diagnostics [of t env index] by (auto simp: silenced_def)

lemma map_items_silenced:
  "map_items (\<lambda>t. on_db (resolve_record env index t)) (map silenced ts) ending st = map_items (\<lambda>t. on_db (resolve_record env index t)) ts ending st"
  by (induction ts arbitrary: st) (simp_all add: resolve_silenced split: prod.split sum.split)

section \<open>The monitor\<close>

definition hooks_quiet :: "pipeline_hooks \<Rightarrow> bool" where
  "hooks_quiet h \<longleftrightarrow> hk_start h = Some (\<lambda>n. None) \<and> hk_complete h = Some (\<lambda>n c. None) \<and> hk_error h = Some (\<lambda>n e. None) \<and> hk_abort h = Some (\<lambda>n. None)"

text \<open>The reference: what a stage that yields these elements, then ends so, shows to a consumer that takes \<open>pulls\<close>.\<close>

definition observed :: "string \<Rightarrow> nat option \<Rightarrow> 'a stream \<Rightarrow> hook_event list \<times> 'a list \<times> stream_end" where
  "observed name pulls source =
     (let xs = fst source; closed = (case pulls of None \<Rightarrow> False | Some k \<Rightarrow> k \<le> length xs);
          taken = (case pulls of None \<Rightarrow> xs | Some k \<Rightarrow> take k xs)
      in (if taken = [] then []
          else Stage_Start name #
            [if closed then Stage_Abort name
             else (case snd source of None \<Rightarrow> Stage_Complete name (length xs) | Some e \<Rightarrow> Stage_Error name e)],
          taken, if closed then Closed else (case snd source of None \<Rightarrow> Exhausted | Some e \<Rightarrow> Raised e)))"

lemma monitored_running:
  assumes "hooks_quiet h" "0 < count" "\<And>k. pulls = Some k \<Longrightarrow> count \<le> k"
  shows "monitored_loop h name ending pulls count xs =
    ([if (\<exists>k. pulls = Some k \<and> k \<le> count + length xs) then Stage_Abort name
      else (case ending of None \<Rightarrow> Stage_Complete name (count + length xs) | Some e \<Rightarrow> Stage_Error name e)],
     (case pulls of None \<Rightarrow> xs | Some k \<Rightarrow> take (k - count) xs),
     if (\<exists>k. pulls = Some k \<and> k \<le> count + length xs) then Closed else (case ending of None \<Rightarrow> Exhausted | Some e \<Rightarrow> Raised e))"
  using assms(2,3)
proof (induction xs arbitrary: count)
  case Nil
  then show ?case using assms(1)
    by (auto simp: hooks_quiet_def call_hook_def monitored_error_def Let_def split: option.splits)
next
  case (Cons x xs)
  show ?case
  proof (cases "pulls = Some count")
    case True
    then show ?thesis using assms(1) Cons.prems by (simp add: hooks_quiet_def call_hook_def)
  next
    case False
    have "Suc count \<le> k" if "pulls = Some k" for k using Cons.prems(2) [OF that] that False by (cases "k = count") auto
    from Cons.IH [of "Suc count", OF _ this]
    have "monitored_loop h name ending pulls (Suc count) xs =
      ([if (\<exists>k. pulls = Some k \<and> k \<le> Suc count + length xs) then Stage_Abort name
        else (case ending of None \<Rightarrow> Stage_Complete name (Suc count + length xs) | Some e \<Rightarrow> Stage_Error name e)],
       (case pulls of None \<Rightarrow> xs | Some k \<Rightarrow> take (k - Suc count) xs),
       if (\<exists>k. pulls = Some k \<and> k \<le> Suc count + length xs) then Closed else (case ending of None \<Rightarrow> Exhausted | Some e \<Rightarrow> Raised e))"
      by simp
    moreover have "take (k - count) (x # xs) = x # take (k - Suc count) xs" if "pulls = Some k" for k
    proof -
      have "k - count = Suc (k - Suc count)" using Cons.prems(2) [OF that] that False by (cases "k = count") simp_all
      then show ?thesis by simp
    qed
    ultimately show ?thesis using False Cons.prems(1) by (simp split: option.split)
  qed
qed

section \<open>Resolvers that never raise\<close>

definition calm :: "resolve_env \<Rightarrow> bool" where
  "calm env \<longleftrightarrow> \<not> cat_strict (re_catalog env) \<and> re_topology_service env = None"

lemma calm_codes: "calm env \<Longrightarrow> accepts (re_catalog env) code"
  by (simp add: calm_def accepts_def)

lemma calm_append: "calm env \<Longrightarrow> \<not> isl (append_dsl_issues (re_catalog env) stage rref on_error found diags)"
proof (induction found arbitrary: diags)
  case (Cons i found)
  obtain errs warns where "diags = (errs, warns)" by (cases diags)
  then show ?case using Cons calm_codes by simp
next
  case Nil
  then show ?case by (cases diags) simp
qed

lemma calm_links:
  assumes "calm env"
  shows "never_raises (create_pending_link env m rule meta key reason acc)" "never_raises (hard_error env m rule reason acc)"
    "never_raises (finish_link env m rule meta rid reason used acc)" "never_raises (finish_outcome env m rule meta found acc)"
    "never_raises (apply_topology_decision env m rule meta found acc d)" "never_raises (resolve_link env m rec meta batch rule acc)"
proof -
  note [simp] = calm_codes [OF assms]
  show pend: "never_raises (create_pending_link env m rule meta key reason acc)" for key reason acc
    unfolding create_pending_link_def Let_def by (auto intro!: never simp: resolve_error_def)
  show hard: "never_raises (hard_error env m rule reason acc)" for reason acc
    unfolding hard_error_def by (auto intro!: never simp: resolve_error_def)
  show fin: "never_raises (finish_link env m rule meta rid reason used acc)" for rid reason used acc
    unfolding finish_link_def by (auto intro!: never pend hard split: option.split)
  show out: "never_raises (finish_outcome env m rule meta found acc)" for found acc by (simp add: finish_outcome_def fin)
  show dec: "never_raises (apply_topology_decision env m rule meta found acc d)" for found acc d
    unfolding apply_topology_decision_def by (auto intro!: never pend hard fin out split: option.split topology_action.split)
  have topo: "resolve_with_topology env rule rec ids = Inr None" for ids using assms by (simp add: resolve_with_topology_def calm_def)
  have ret: "never_raises (return_s (acc, True) :: (identity_db, link_acc \<times> bool) step)" by (rule never)
  have decided: "never_raises (bind_s (lift_s (resolve_with_topology env rule rec ids)) (apply_topology_decision env m rule meta found acc))" for ids found
    by (intro never_bind dec never_basic(4)) (simp add: topo)
  have "\<not> isl (snd (resolve_link env m rec meta batch rule acc db))" for db
    unfolding resolve_link_def Let_def
    using ret decided out by (simp add: never_raises_def)
  then show "never_raises (resolve_link env m rec meta batch rule acc)" by (simp add: never_raises_def)
qed

lemma calm_resolve:
  assumes "calm env"
  shows "never_raises (resolve env m rec target_ids meta batch)"
proof -
  note [simp] = calm_codes [OF assms]
  have loop: "never_raises (link_loop env m rec meta batch rules acc)" for rules acc
    by (induction rules arbitrary: acc) (auto intro!: never calm_links [OF assms] split: prod.split)
  have links: "never_raises (resolve_links env m rec meta batch acc)" for acc
    unfolding resolve_links_def by (auto intro!: never loop simp: resolve_error_def)
  have valid: "\<not> isl (validate_sink_mutations env m desired mutated diags)" for desired mutated diags
    using calm_append [OF assms] by (auto simp: validate_sink_mutations_def Let_def isl_def bind_r_def split: option.split sum.split)
  have fin: "never_raises (finish_resolve env m target_ids mutated acc)" for mutated acc
    unfolding finish_resolve_def by (auto intro!: never valid simp: resolve_error_def split: option.split prod.split)
  show ?thesis
    unfolding resolve_def Let_def by (auto intro!: never links fin simp: resolve_error_def split: prod.split)
qed

lemma never_codes_known: "never_raises m \<Longrightarrow> codes_known m"
  unfolding codes_known_def never_raises_def by (metis isl_def)

section \<open>Properties\<close>

text \<open>
  Working in micro-batches, whatever their size, the flush interval and the clock, the match stage yields the same results
  in the same order and changes the world in the same way as a stage that works record by record, also when a record raises.
\<close>

theorem match_stage_unbatched:
  "match_stage cat matcher batch_size flush_interval_ms elapsed source = map_items (match_record cat matcher) (map snd source) None"
  by (simp add: match_stage_def run_batches_map fun_eq_iff iter_micro_batches_def micro_concat)

text \<open>
  Buffering loses, duplicates and reorders nothing within a key: no batch is empty or larger than the limit, a batch of a
  keyed stage has one key only, and the records of every key come in the order of the stream.
\<close>

theorem buffering_exact:
  "concat (buffer_into_batches batch_size None source) = source
   \<and> filter (\<lambda>x. key x = k) (concat (buffer_into_batches batch_size (Some key) source)) = filter (\<lambda>x. key x = k) source
   \<and> (\<forall>b \<in> set (buffer_into_batches batch_size None source) \<union> set (buffer_into_batches batch_size (Some key) source).
        b \<noteq> [] \<and> int (length b) \<le> max 1 batch_size)
   \<and> (\<forall>b \<in> set (buffer_into_batches batch_size (Some key) source). \<exists>k. \<forall>x \<in> set b. key x = k)"
proof -
  let ?n = "if batch_size \<le> 0 then 1 else nat batch_size"
  have n: "0 < ?n" "int ?n = max 1 batch_size" by auto
  have "buckets_ok ?n key []" by (simp add: buckets_ok_def)
  note keyed = keyed_spec [OF n(1) this, of k source]
  have "\<forall>b \<in> set (fixed_batches ?n [] source) \<union> set (keyed_batches ?n key [] source). b \<noteq> [] \<and> int (length b) \<le> max 1 batch_size"
    using fixed_sizes [of "[]" ?n] n conjunct2 [OF keyed] by fastforce
  then show ?thesis using keyed fixed_concat [of ?n "[]" source]
    by (simp add: buffer_into_batches_def Let_def del: keyed_batches.simps fixed_batches.simps)
qed

text \<open>
  C36. Hooks that do not raise are called exactly as the stage lives: none when the consumer takes nothing, otherwise the start
  followed by one of completion with the number of elements, error, or abort when the consumer stops early.  The consumer gets
  the elements it takes and the end of the stage unchanged.
\<close>

theorem hooks_follow_stage:
  assumes "hooks_quiet h"
  shows "monitored h name pulls source = observed name pulls source"
proof (cases "fst source")
  case Nil
  then show ?thesis by (auto simp: monitored_def observed_def monitored_error_def split: option.splits)
next
  case (Cons x xs)
  show ?thesis
  proof (cases "pulls = Some 0")
    case True
    then show ?thesis by (simp add: monitored_def observed_def Cons)
  next
    case False
    have one: "Suc 0 \<le> k" if "pulls = Some k" for k using that False by (cases k) simp_all
    have "take k (x # xs) = x # take (k - Suc 0) xs" if "pulls = Some k" for k using one [OF that] by (cases k) simp_all
    have first: "monitored h name pulls source = (let (more, ys, end') = monitored_loop h name (snd source) pulls 1 xs
        in (Stage_Start name # more, x # ys, end'))"
      using assms False by (simp add: monitored_def Cons hooks_quiet_def call_hook_def split_beta)
    have "0 < (1 :: nat)" by simp
    from monitored_running [OF assms this, of pulls name "snd source" xs] one
    have rest: "monitored_loop h name (snd source) pulls 1 xs =
      ([if (\<exists>k. pulls = Some k \<and> k \<le> 1 + length xs) then Stage_Abort name
        else (case snd source of None \<Rightarrow> Stage_Complete name (1 + length xs) | Some e \<Rightarrow> Stage_Error name e)],
       (case pulls of None \<Rightarrow> xs | Some k \<Rightarrow> take (k - 1) xs),
       if (\<exists>k. pulls = Some k \<and> k \<le> 1 + length xs) then Closed else (case snd source of None \<Rightarrow> Exhausted | Some e \<Rightarrow> Raised e))"
      by simp
    show ?thesis
      unfolding first rest using False by (cases pulls; cases "snd source") (auto simp: observed_def Cons take_Cons' gr0_conv_Suc)
  qed
qed

definition quiet_hooks :: pipeline_hooks where
  "quiet_hooks = \<lparr>hk_bind = None, hk_start = Some (\<lambda>n. None), hk_complete = Some (\<lambda>n c. None), hk_error = Some (\<lambda>n e. None),
     hk_abort = Some (\<lambda>n. None)\<rparr>"

lemma hooks_follow_stage_witness:
  "monitored quiet_hooks ''resolve'' (Some 1) ([1 :: int, 2], None) = ([Stage_Start ''resolve'', Stage_Abort ''resolve''], [1], Closed)
   \<and> monitored quiet_hooks ''resolve'' None ([1 :: int, 2], None) = ([Stage_Start ''resolve'', Stage_Complete ''resolve'' 2], [1, 2], Exhausted)"
proof -
  have "hooks_quiet quiet_hooks" by (simp add: hooks_quiet_def quiet_hooks_def)
  then show ?thesis by (simp add: hooks_follow_stage observed_def)
qed

text \<open>
  C11. Whatever the resolver does with them, every record that enters the resolve stages leaves them as one result, in order, and
  the plan built from the results counts each of them once, as valid or as failed.
\<close>

theorem resolve_pipeline_accounts:
  assumes "accepts (re_catalog env) ''INTERNAL_ERROR''"
    "\<And>m rec meta. codes_known (resolve env m rec [] meta (Some (build_batch_index env records)))"
  shows "\<exists>st' results. resolve_pipeline env (records, None) st = (st', results, None) \<and> length results = length records
    \<and> (let s = snd (plan_result_of (fst (build_from_stream results new_builder)))
       in sm_rows_total s = int (length records) \<and> sm_valid_rows s + sm_failed_rows s = int (length records))"
proof -
  let ?index = "build_batch_index env records"
  let ?stage = "\<lambda>matched. on_db (resolve_record env ?index matched)"
  obtain st' results where run: "map_items ?stage records None (set_index ?index st) = (st', results, None)" "length results = length records"
    using one_to_one_stream [OF resolve_one_to_one [OF assms]] by blast
  have pipeline: "\<exists>st'. resolve_pipeline env (records, None) st = (st', results, None)"
    using run by (cases records) (simp_all add: resolve_pipeline_def context_stage_def resolve_stage_def get_index_def set_index_def map_stream_def
        del: map_items.simps(2))
  have "int (length results) = int (length (List.map_filter accepted results)) + int (length (filter (\<lambda>t. accepted t = None) results))"
    by (induction results) (auto simp: List.map_filter_simps split: option.split)
  then have "let s = snd (plan_result_of (fst (build_from_stream results new_builder)))
       in sm_rows_total s = int (length records) \<and> sm_valid_rows s + sm_failed_rows s = int (length records)"
    using run(2) by (simp add: build_from_stream_def plan_result_of_def build_fold_spec new_builder_def Let_def)
  then show ?thesis using pipeline run(2) by blast
qed

lemma resolve_pipeline_accounts_witness:
  "\<exists>st' results. resolve_pipeline (example_env example_block) ([replayed_result example_row [], (replayed_result example_row [])\<lparr>tr_row := None\<rparr>], None)
       \<lparr>rt_db = empty_db, rt_index = None\<rparr> = (st', results, None) \<and> length results = 2
     \<and> sm_failed_rows (snd (plan_result_of (fst (build_from_stream results new_builder)))) \<le> 2"
proof -
  let ?env = "example_env example_block"
  have calm: "calm ?env" by (simp add: calm_def example_env_def make_catalog_def)
  obtain st' results where "resolve_pipeline ?env ([replayed_result example_row [], (replayed_result example_row [])\<lparr>tr_row := None\<rparr>], None)
       \<lparr>rt_db = empty_db, rt_index = None\<rparr> = (st', results, None)" "length results = 2"
      "let s = snd (plan_result_of (fst (build_from_stream results new_builder))) in sm_rows_total s = 2 \<and> sm_valid_rows s + sm_failed_rows s = 2"
    using resolve_pipeline_accounts [OF calm_codes [OF calm] never_codes_known [OF calm_resolve [OF calm]],
        of "[replayed_result example_row [], (replayed_result example_row [])\<lparr>tr_row := None\<rparr>]" "\<lparr>rt_db = empty_db, rt_index = None\<rparr>"]
    by auto
  moreover have "0 \<le> sm_valid_rows (snd (plan_result_of (fst (build_from_stream results new_builder))))"
    by (simp add: build_from_stream_def plan_result_of_def build_fold_spec new_builder_def)
  ultimately show ?thesis by (auto simp: Let_def)
qed

text \<open>
  The resolve stages forget what the stages before them reported: records that still have a row are resolved, and planned,
  exactly as if no stage had added an error or a warning to them.
\<close>

theorem upstream_errors_forgotten:
  "resolve_pipeline env (map silenced records, ending) st = resolve_pipeline env (records, ending) st"
proof (cases ending)
  case None
  then show ?thesis
    using map_items_silenced [of env "build_batch_index env records" records None]
    by (cases records) (simp_all add: resolve_pipeline_def context_stage_def resolve_stage_def get_index_def set_index_def map_stream_def
        index_silenced index_silenced [of env "_ # _", simplified] del: map_items.simps(2))
qed (simp add: resolve_pipeline_def context_stage_def resolve_stage_def)

end
