(* ===== verification/Vault_Store.thy ===== *)
theory Vault_Store
  imports Vault_Bytes
begin

text \<open>
  The vault database: the records of \<open>domain/secrets/models.py\<close>, the errors of \<open>domain/secrets/errors.py\<close>, the
  connection of \<open>infra/sqlite/engine.py\<close> (explicit transactions, joining an open one, retry after a schema change,
  the readonly probe) and every operation of \<open>infra/secrets/sqlite/repository.py\<close>.

  The state has the tables, the tables to go back to while a transaction is open, and the faults that the next
  statements meet: a statement of the database may fail with any error at any time, and the error may also have ended
  the transaction (as a full disk does).  Whether the file can be written, and the texts of clock and operating system,
  are in the environment.
\<close>

section \<open>Errors\<close>

datatype vault_error_class =
    SecretKeyConfigError | VaultStartupKeyValidationError | VaultStartupProbeCorruptedError
  | VaultStartupStorageReadonlyError | VaultStartupUninitializedReadonlyError | SecretStoreError | SecretReadError
  | SecretDecryptionError | SecretIntegrityError | SecretNotFoundError | VaultAdminPasswordConfigError
  | VaultAdminAccessDeniedError | VaultManagementOperationError

fun vault_error_code :: "vault_error_class \<Rightarrow> string" where
  "vault_error_code SecretKeyConfigError = ''VAULT_STARTUP_KEY_CONFIG_ERROR''"
| "vault_error_code VaultStartupKeyValidationError = ''VAULT_STARTUP_KEY_VALIDATION_ERROR''"
| "vault_error_code VaultStartupProbeCorruptedError = ''VAULT_STARTUP_PROBE_CORRUPTED''"
| "vault_error_code VaultStartupStorageReadonlyError = ''VAULT_STARTUP_STORAGE_READONLY''"
| "vault_error_code VaultStartupUninitializedReadonlyError = ''VAULT_STARTUP_UNINITIALIZED_READONLY''"
| "vault_error_code SecretStoreError = ''SECRET_STORE_ERROR''"
| "vault_error_code SecretReadError = ''SECRET_READ_ERROR''"
| "vault_error_code SecretDecryptionError = ''SECRET_DECRYPTION_ERROR''"
| "vault_error_code SecretIntegrityError = ''SECRET_INTEGRITY_ERROR''"
| "vault_error_code SecretNotFoundError = ''SECRET_NOT_FOUND''"
| "vault_error_code VaultAdminPasswordConfigError = ''VAULT_MANAGEMENT_ADMIN_PASSWORD_CONFIG_ERROR''"
| "vault_error_code VaultAdminAccessDeniedError = ''VAULT_MANAGEMENT_ADMIN_ACCESS_DENIED''"
| "vault_error_code VaultManagementOperationError = ''VAULT_MANAGEMENT_OPERATION_ERROR''"

fun default_message :: "vault_error_class \<Rightarrow> string" where
  "default_message SecretKeyConfigError = ''Invalid vault key configuration''"
| "default_message VaultStartupKeyValidationError = ''Vault startup key validation failed''"
| "default_message VaultStartupProbeCorruptedError = ''Vault startup probe is corrupted''"
| "default_message VaultStartupStorageReadonlyError = ''Vault storage is readonly''"
| "default_message VaultStartupUninitializedReadonlyError = ''Vault storage is readonly and probe is missing''"
| "default_message SecretStoreError = ''Failed to store secret''"
| "default_message SecretReadError = ''Failed to read secret''"
| "default_message SecretDecryptionError = ''Failed to decrypt secret''"
| "default_message SecretIntegrityError = ''Secret integrity check failed''"
| "default_message SecretNotFoundError = ''Secret not found''"
| "default_message VaultAdminPasswordConfigError = ''Vault admin password gate is misconfigured''"
| "default_message VaultAdminAccessDeniedError = ''Vault admin access denied''"
| "default_message VaultManagementOperationError = ''Vault management operation failed''"

text \<open>
  An error of \<open>sqlite3\<close>: the name of its class, its \<open>sqlite_errorcode\<close>, its text.  An exception
  in the vault is a domain error, an error of \<open>sqlite3\<close> or one of Python's own.
\<close>

datatype sqlite_error = Sqlite_Error (se_class: string) (se_code: "int option") (se_text: string)

definition se_operational :: "sqlite_error \<Rightarrow> bool" where
  "se_operational e \<longleftrightarrow> se_class e = ''OperationalError''"

datatype vault_error =
    Vault_Domain vault_error_class string "(string, pyval) dict"
  | Vault_Sqlite sqlite_error
  | Vault_Py py_error

fun vault_class_name :: "vault_error_class \<Rightarrow> string" where
  "vault_class_name SecretKeyConfigError = ''SecretKeyConfigError''"
| "vault_class_name VaultStartupKeyValidationError = ''VaultStartupKeyValidationError''"
| "vault_class_name VaultStartupProbeCorruptedError = ''VaultStartupProbeCorruptedError''"
| "vault_class_name VaultStartupStorageReadonlyError = ''VaultStartupStorageReadonlyError''"
| "vault_class_name VaultStartupUninitializedReadonlyError = ''VaultStartupUninitializedReadonlyError''"
| "vault_class_name SecretStoreError = ''SecretStoreError''"
| "vault_class_name SecretReadError = ''SecretReadError''"
| "vault_class_name SecretDecryptionError = ''SecretDecryptionError''"
| "vault_class_name SecretIntegrityError = ''SecretIntegrityError''"
| "vault_class_name SecretNotFoundError = ''SecretNotFoundError''"
| "vault_class_name VaultAdminPasswordConfigError = ''VaultAdminPasswordConfigError''"
| "vault_class_name VaultAdminAccessDeniedError = ''VaultAdminAccessDeniedError''"
| "vault_class_name VaultManagementOperationError = ''VaultManagementOperationError''"

text \<open>\<open>type(exc).__name__\<close>.\<close>

fun py_class_name :: "py_error \<Rightarrow> string" where
  "py_class_name (ValueError m) = ''ValueError''"
| "py_class_name (KeyError m) = ''KeyError''"
| "py_class_name (RuntimeError m) = ''RuntimeError''"
| "py_class_name (UnknownDiagnosticCode c) = ''UnknownDiagnosticCodeError''"
| "py_class_name (OtherError c m) = c"
| "py_class_name (MissingRequiredSecret c f m) = ''MissingRequiredSecretError''"
| "py_class_name (DslLoadError c m) = ''DslLoadError''"

fun error_type :: "vault_error \<Rightarrow> string" where
  "error_type (Vault_Domain c m ds) = vault_class_name c"
| "error_type (Vault_Sqlite e) = se_class e"
| "error_type (Vault_Py p) = py_class_name p"

fun is_class :: "vault_error_class \<Rightarrow> vault_error \<Rightarrow> bool" where
  "is_class c (Vault_Domain d m ds) = (d = c)"
| "is_class c _ = False"

definition reason_detail :: "string \<Rightarrow> (string, pyval) dict" where
  "reason_detail r = [(''reason'', PStr r)]"

section \<open>Records\<close>

datatype token = Token_Bytes bytes | Token_Text string

record vault_secret =
  vr_dataset :: string
  vr_field :: string
  vr_match_key :: "string option"
  vr_locator_hash :: string
  vr_locator_version :: string
  vr_ciphertext :: token
  vr_cipher_algo :: string
  vr_key_version :: string
  vr_dek_version :: string
  vr_run_id :: "string option"
  vr_created_at :: string
  vr_updated_at :: string
  vr_secret_id :: "int option"

record vault_dek =
  vk_dek_version :: string
  vk_wrapped_dek :: token
  vk_wrap_algo :: string
  vk_wrap_key_version :: string
  vk_is_active :: bool
  vk_created_at :: string
  vk_updated_at :: string

record vault_probe =
  vp_probe_name :: string
  vp_ciphertext :: token
  vp_cipher_algo :: string
  vp_key_version :: string
  vp_dek_version :: string
  vp_created_at :: string
  vp_updated_at :: string

record unseal_metadata =
  um_key_version :: string
  um_kdf_algo :: string
  um_kdf_salt :: token
  um_kdf_time_cost :: int
  um_kdf_memory_cost_kib :: int
  um_kdf_parallelism :: int
  um_kdf_hash_len :: int
  um_hmac_algo :: string
  um_hmac_salt :: token
  um_hmac_digest :: token
  um_created_at :: string
  um_updated_at :: string

record master_key =
  mk_key_version :: string
  mk_key_material :: string
  mk_is_active :: bool

section \<open>State\<close>

text \<open>
  The tables; the sequence of \<open>secret_id\<close> is part of them.  A value of \<open>vault_management_meta\<close> may be NULL.
\<close>

record vault_tables =
  vt_secrets :: "vault_secret list"
  vt_sequence :: int
  vt_deks :: "vault_dek list"
  vt_probes :: "vault_probe list"
  vt_unseal :: "unseal_metadata option"
  vt_meta :: "(string, string option) dict"

definition empty_vault :: vault_tables where
  "empty_vault = \<lparr>vt_secrets = [], vt_sequence = 0, vt_deks = [], vt_probes = [], vt_unseal = None, vt_meta = []\<rparr>"

record sqlite_fault =
  sf_error :: sqlite_error
  sf_ends_transaction :: bool

text \<open>
  \<open>vs_saved\<close> is there exactly while \<open>in_transaction\<close>.  \<open>vs_faults\<close> tells of each of the next statements whether
  it fails.  \<open>vs_clock\<close> counts the readings of the clock and of the random sources.  \<open>vs_key\<close> is the key that
  the lazy key provider keeps.
\<close>

record vault_state =
  vs_tables :: vault_tables
  vs_saved :: "vault_tables option"
  vs_faults :: "sqlite_fault option list"
  vs_clock :: nat
  vs_key :: "master_key option"

type_synonym 'a vstep = "(vault_state, vault_error, 'a) gstep"

record vault_config =
  vc_readonly :: bool
  vc_foreign_keys :: bool
  vc_begin_locks :: bool
  vc_db_path :: string
  vc_pid :: int

definition raise_v :: "vault_error \<Rightarrow> 'a vstep" where
  "raise_v e = lift_s (Inl e)"

text \<open>What another connection reads: the tables as the last transaction left them.\<close>

definition committed :: "vault_state \<Rightarrow> vault_tables" where
  "committed st = (case vs_saved st of None \<Rightarrow> vs_tables st | Some t \<Rightarrow> t)"

section \<open>The connection\<close>

definition end_transaction :: "vault_state \<Rightarrow> vault_state" where
  "end_transaction st = st\<lparr>vs_tables := committed st, vs_saved := None\<rparr>"

text \<open>\<open>SQLITE_SCHEMA\<close> is 17.\<close>

definition is_schema_changed :: "sqlite_error \<Rightarrow> bool" where
  "is_schema_changed e \<longleftrightarrow> se_code e = Some 17 \<or> py_contains ''schema has changed'' (py_lower (se_text e))"

text \<open>
  A statement meets its fault, if it has one, before anything else.  The error of a schema change does not end a
  transaction.
\<close>

definition meet_fault :: "unit vstep" where
  "meet_fault st =
     (case vs_faults st of
        [] \<Rightarrow> (st, Inr ())
      | None # rest \<Rightarrow> (st\<lparr>vs_faults := rest\<rparr>, Inr ())
      | Some f # rest \<Rightarrow>
          (let st' = st\<lparr>vs_faults := rest\<rparr>
           in (if sf_ends_transaction f \<and> \<not> is_schema_changed (sf_error f) then end_transaction st' else st', Inl (Vault_Sqlite (sf_error f)))))"

definition readonly_error :: sqlite_error where
  "readonly_error = Sqlite_Error ''OperationalError'' (Some 8) ''attempt to write a readonly database''"

definition need_write :: "vault_config \<Rightarrow> unit vstep" where
  "need_write cf = (if vc_readonly cf then raise_v (Vault_Sqlite readonly_error) else return_s ())"

definition in_transaction :: "bool vstep" where
  "in_transaction = call_s (\<lambda>st. (st, vs_saved st \<noteq> None))"

text \<open>\<open>SqliteEngine.execute\<close> on a SELECT and on a statement that writes.\<close>

definition run_select :: "(vault_tables \<Rightarrow> 'a) \<Rightarrow> 'a vstep" where
  "run_select q = bind_s meet_fault (\<lambda>_. call_s (\<lambda>st. (st, q (vs_tables st))))"

definition run_write :: "vault_config \<Rightarrow> (vault_tables \<Rightarrow> sqlite_error + vault_tables \<times> 'a) \<Rightarrow> 'a vstep" where
  "run_write cf f =
     bind_s meet_fault (\<lambda>_. bind_s (need_write cf) (\<lambda>_.
     bind_s (call_s (\<lambda>st. (st, f (vs_tables st)))) (\<lambda>r.
       (case r of
          Inl e \<Rightarrow> raise_v (Vault_Sqlite e)
        | Inr (t, a) \<Rightarrow> bind_s (update_s (\<lambda>st. st\<lparr>vs_tables := t\<rparr>)) (\<lambda>_. return_s a)))))"

definition run_begin :: "vault_config \<Rightarrow> bool \<Rightarrow> unit vstep" where
  "run_begin cf locks =
     bind_s meet_fault (\<lambda>_. bind_s (if locks then need_write cf else return_s ())
       (\<lambda>_. update_s (\<lambda>st. st\<lparr>vs_saved := Some (vs_tables st)\<rparr>)))"

definition no_transaction_error :: "string \<Rightarrow> sqlite_error" where
  "no_transaction_error verb = Sqlite_Error ''OperationalError'' (Some 1) (''cannot '' @ verb @ '' - no transaction is active'')"

definition run_commit :: "unit vstep" where
  "run_commit =
     bind_s meet_fault (\<lambda>_. bind_s in_transaction (\<lambda>open_tx.
       (if open_tx then update_s (\<lambda>st. st\<lparr>vs_saved := None\<rparr>)
        else raise_v (Vault_Sqlite (no_transaction_error ''commit'')))))"

definition run_rollback :: "unit vstep" where
  "run_rollback =
     bind_s meet_fault (\<lambda>_. bind_s in_transaction (\<lambda>open_tx.
       (if open_tx then update_s end_transaction
        else raise_v (Vault_Sqlite (no_transaction_error ''rollback'')))))"

definition engine_transaction :: "vault_config \<Rightarrow> bool \<Rightarrow> 'a vstep \<Rightarrow> 'a vstep" where
  "engine_transaction cf locks body =
     bind_s in_transaction (\<lambda>open_tx.
       (if open_tx then raise_v (Vault_Py (RuntimeError ''Nested transactions are not supported''))
        else bind_s (run_begin cf locks)
          (\<lambda>_. try_s (bind_s body (\<lambda>a. bind_s run_commit (\<lambda>_. return_s a)))
                 (\<lambda>e. bind_s run_rollback (\<lambda>_. raise_v e)))))"

definition autobegin :: "vault_config \<Rightarrow> 'a vstep \<Rightarrow> 'a vstep" where
  "autobegin cf body =
     bind_s in_transaction (\<lambda>open_tx. if open_tx then body else engine_transaction cf (vc_begin_locks cf) body)"

definition is_readonly :: "vault_config \<Rightarrow> bool vstep" where
  "is_readonly cf =
     bind_s in_transaction (\<lambda>open_tx.
      if open_tx then return_s False
      else try_s (bind_s (run_begin cf True) (\<lambda>_. bind_s run_rollback (\<lambda>_. return_s False)))
        (\<lambda>e. case e of
            Vault_Sqlite se \<Rightarrow>
              (if se_operational se \<and> py_contains ''readonly'' (py_lower (se_text se)) then return_s True else raise_v e)
          | _ \<Rightarrow> raise_v e))"

text \<open>\<open>SQLITE_BUSY\<close> is 5 and \<open>SQLITE_LOCKED\<close> 6.\<close>

definition is_busy_timeout :: "sqlite_error \<Rightarrow> bool" where
  "is_busy_timeout e \<longleftrightarrow> se_code e = Some 5 \<or> se_code e = Some 6
     \<or> py_contains ''database is locked'' (py_lower (se_text e)) \<or> py_contains ''database is busy'' (py_lower (se_text e))"

fun execute_with_retry :: "'a vstep \<Rightarrow> nat \<Rightarrow> 'a vstep" where
  "execute_with_retry statement 0 = statement"
| "execute_with_retry statement (Suc n) =
     try_s statement (\<lambda>e. case e of
         Vault_Sqlite se \<Rightarrow>
           (if se_operational se \<and> is_schema_changed se then execute_with_retry statement n else raise_v e)
       | _ \<Rightarrow> raise_v e)"

definition SQLITE_SCHEMA_MAX_RETRIES :: nat where
  "SQLITE_SCHEMA_MAX_RETRIES = 2"

section \<open>The repository: errors and statements\<close>

definition vault_error_details ::
    "vault_config \<Rightarrow> sqlite_error \<Rightarrow> string \<Rightarrow> (string, pyval) dict option \<Rightarrow> (string, pyval) dict" where
  "vault_error_details cf e operation extra =
     (let reason = (if is_busy_timeout e then ''busy_timeout'' else if is_schema_changed e then ''schema_changed'' else ''sqlite_error'');
          base = [(''reason'', PStr reason), (''op'', PStr operation), (''db_path'', PStr (vc_db_path cf)),
                  (''current_pid'', PInt (vc_pid cf)), (''sqlite_error'', PStr (se_text e))]
            @ (if reason = ''schema_changed'' then [(''schema_retries'', PInt (int SQLITE_SCHEMA_MAX_RETRIES))] else [])
            @ (if reason = ''busy_timeout'' then [(''lock_holder_pid'', PStr ''unknown'')] else [])
      in (case extra of None \<Rightarrow> base | Some ds \<Rightarrow> foldl (\<lambda>d (k, v). AList.update k v d) base ds))"

definition map_store_error :: "vault_config \<Rightarrow> string \<Rightarrow> (string, pyval) dict option \<Rightarrow> sqlite_error \<Rightarrow> vault_error" where
  "map_store_error cf operation extra e =
     Vault_Domain SecretStoreError ''Failed to store vault data'' (vault_error_details cf e operation extra)"

definition map_read_error :: "vault_config \<Rightarrow> string \<Rightarrow> (string, pyval) dict option \<Rightarrow> sqlite_error \<Rightarrow> vault_error" where
  "map_read_error cf operation extra e =
     Vault_Domain SecretReadError ''Failed to read vault data'' (vault_error_details cf e operation extra)"

definition on_sqlite_error :: "(sqlite_error \<Rightarrow> vault_error) \<Rightarrow> 'a vstep \<Rightarrow> 'a vstep" where
  "on_sqlite_error f m = try_s m (\<lambda>e. case e of Vault_Sqlite se \<Rightarrow> raise_v (f se) | _ \<Rightarrow> raise_v e)"

definition execute_write ::
    "vault_config \<Rightarrow> string \<Rightarrow> (string, pyval) dict option
     \<Rightarrow> (vault_tables \<Rightarrow> sqlite_error + vault_tables \<times> 'a) \<Rightarrow> 'a vstep" where
  "execute_write cf operation details f =
     on_sqlite_error (map_store_error cf operation details) (execute_with_retry (run_write cf f) SQLITE_SCHEMA_MAX_RETRIES)"

definition fetch_read ::
    "vault_config \<Rightarrow> string \<Rightarrow> (string, pyval) dict option \<Rightarrow> (vault_tables \<Rightarrow> 'a) \<Rightarrow> 'a vstep" where
  "fetch_read cf operation details q =
     on_sqlite_error (map_read_error cf operation details) (execute_with_retry (run_select q) SQLITE_SCHEMA_MAX_RETRIES)"

text \<open>A domain error is a \<open>RuntimeError\<close> too.\<close>

fun nested_text :: "vault_error \<Rightarrow> bool" where
  "nested_text (Vault_Domain c m ds) = py_contains ''Nested'' m"
| "nested_text (Vault_Py (RuntimeError m)) = py_contains ''Nested'' m"
| "nested_text _ = False"

definition transaction_v :: "vault_config \<Rightarrow> 'a vstep \<Rightarrow> 'a vstep" where
  "transaction_v cf body =
     try_s (engine_transaction cf True body)
       (\<lambda>e. if nested_text e then raise_v (Vault_Py (RuntimeError ''Nested vault transactions are not supported''))
            else (case e of
                Vault_Sqlite se \<Rightarrow> raise_v (map_store_error cf ''transaction_begin'' None se)
              | _ \<Rightarrow> raise_v e))"

end
