(* ===== verification/Vault_Repository.thy ===== *)
theory Vault_Repository
  imports Vault_Store "HOL-Library.Product_Lexorder"
begin

text \<open>
  Every operation of \<open>SqliteVaultRepository\<close>.  A table is the list of its rows in the order of their row ids;
  a SELECT with ORDER BY and LIMIT 1 is \<open>first_by\<close> of the rows that its WHERE takes.  Texts compare by code point,
  as SQLite's BINARY collation does.
\<close>

section \<open>Selecting\<close>

text \<open>The row that comes before every other one in the order.\<close>

fun first_by :: "('a \<Rightarrow> 'k :: linorder) \<Rightarrow> 'a list \<Rightarrow> 'a option" where
  "first_by key [] = None"
| "first_by key (r # rs) = (case first_by key rs of None \<Rightarrow> Some r | Some q \<Rightarrow> if key r < key q then Some q else Some r)"

lemma first_by_None [simp]: "first_by key rs = None \<longleftrightarrow> rs = []"
  by (cases rs) (auto split: option.split)

lemma first_by_in: "first_by key rs = Some r \<Longrightarrow> r \<in> set rs"
  by (induction rs arbitrary: r) (auto split: option.splits if_splits)

lemma first_by_max: "first_by key rs = Some r \<Longrightarrow> q \<in> set rs \<Longrightarrow> key q \<le> key r"
proof (induction rs arbitrary: r)
  case (Cons x xs)
  show ?case
  proof (cases "first_by key xs")
    case None
    then show ?thesis using Cons.prems by auto
  next
    case (Some y)
    then show ?thesis using Cons.prems Cons.IH [OF Some] by (auto split: if_splits)
  qed
qed simp

lemma first_by_strict: "r \<in> set rs \<Longrightarrow> (\<And>q. q \<in> set rs \<Longrightarrow> q \<noteq> r \<Longrightarrow> key q < key r) \<Longrightarrow> first_by key rs = Some r"
  by (metis first_by_None first_by_in first_by_max leD list.set_cases list.simps(3) not_None_eq option.exhaust)

definition secret_order :: "vault_secret \<Rightarrow> string \<times> int" where
  "secret_order r = (vr_updated_at r, case vr_secret_id r of None \<Rightarrow> 0 | Some i \<Rightarrow> i)"

definition same_scope :: "vault_secret \<Rightarrow> vault_secret \<Rightarrow> bool" where
  "same_scope q r \<longleftrightarrow> vr_dataset r = vr_dataset q \<and> vr_field r = vr_field q \<and> vr_locator_version r = vr_locator_version q
     \<and> vr_locator_hash r = vr_locator_hash q \<and> str_or (vr_run_id r) [] = str_or (vr_run_id q) []"

definition at_locator :: "string \<Rightarrow> string \<Rightarrow> string \<Rightarrow> string \<Rightarrow> vault_secret \<Rightarrow> bool" where
  "at_locator dataset fld locator_hash locator_version r \<longleftrightarrow>
     vr_dataset r = dataset \<and> vr_field r = fld \<and> vr_locator_hash r = locator_hash \<and> vr_locator_version r = locator_version"

section \<open>Secrets\<close>

definition foreign_key_error :: sqlite_error where
  "foreign_key_error = Sqlite_Error ''IntegrityError'' (Some 787) ''FOREIGN KEY constraint failed''"

definition overwrite_secret :: "vault_secret \<Rightarrow> vault_secret \<Rightarrow> vault_secret" where
  "overwrite_secret new r = r\<lparr>vr_ciphertext := vr_ciphertext new, vr_cipher_algo := vr_cipher_algo new,
     vr_key_version := vr_key_version new, vr_dek_version := vr_dek_version new, vr_updated_at := vr_updated_at new\<rparr>"

text \<open>The statement; AUTOINCREMENT takes a new id for a row that turns out to be there, too.\<close>

definition put_secret :: "vault_config \<Rightarrow> vault_secret \<Rightarrow> vault_tables \<Rightarrow> sqlite_error + vault_tables \<times> unit" where
  "put_secret cf r t =
     (if vc_foreign_keys cf \<and> vr_dek_version r \<notin> vk_dek_version ` set (vt_deks t) then Inl foreign_key_error
      else Inr (t\<lparr>vt_sequence := vt_sequence t + 1,
                  vt_secrets := (if \<exists>q \<in> set (vt_secrets t). same_scope r q
                     then map (\<lambda>q. if same_scope r q then overwrite_secret r q else q) (vt_secrets t)
                     else vt_secrets t @ [r\<lparr>vr_secret_id := Some (vt_sequence t + 1)\<rparr>])\<rparr>, ()))"

definition upsert_secret :: "vault_config \<Rightarrow> vault_secret \<Rightarrow> unit vstep" where
  "upsert_secret cf r =
     execute_write cf ''upsert_secret''
       (Some [(''dataset'', PStr (vr_dataset r)), (''field'', PStr (vr_field r)), (''run_id'', opt_str (vr_run_id r)),
              (''locator_version'', PStr (vr_locator_version r)), (''key_version'', PStr (vr_key_version r))])
       (put_secret cf r)"

definition select_secret ::
    "string \<Rightarrow> string \<Rightarrow> (vault_secret \<Rightarrow> bool) \<Rightarrow> vault_tables \<Rightarrow> vault_secret option" where
  "select_secret dataset fld P t =
     first_by secret_order (filter (\<lambda>r. vr_dataset r = dataset \<and> vr_field r = fld \<and> P r) (vt_secrets t))"

definition get_secret_by_match_key ::
    "vault_config \<Rightarrow> string \<Rightarrow> string \<Rightarrow> string \<Rightarrow> string \<Rightarrow> string \<Rightarrow> vault_secret option vstep" where
  "get_secret_by_match_key cf dataset fld match_key locator_hash locator_version =
     (let details = (\<lambda>lookup. [(''dataset'', PStr dataset), (''field'', PStr fld), (''match_key'', PStr match_key),
                               (''lookup_mode'', PStr lookup)])
      in bind_s (fetch_read cf ''get_secret'' (Some (details ''match_key''))
             (select_secret dataset fld (\<lambda>r. vr_match_key r = Some match_key)))
           (\<lambda>row. case row of
              Some r \<Rightarrow> return_s (Some r)
            | None \<Rightarrow> fetch_read cf ''get_secret'' (Some (details ''locator_hash_fallback''))
                (select_secret dataset fld (at_locator dataset fld locator_hash locator_version))))"

definition select_in_scope ::
    "string \<Rightarrow> string \<Rightarrow> string \<Rightarrow> string \<Rightarrow> string option \<Rightarrow> vault_tables \<Rightarrow> vault_secret option" where
  "select_in_scope dataset fld locator_hash locator_version run_id t =
     (let here = at_locator dataset fld locator_hash locator_version;
          global = select_secret dataset fld (\<lambda>r. here r \<and> vr_run_id r = None) t
      in (case run_id of
            None \<Rightarrow> global
          | Some run \<Rightarrow> (case select_secret dataset fld (\<lambda>r. here r \<and> vr_run_id r = Some run) t of
                Some r \<Rightarrow> Some r
              | None \<Rightarrow> global)))"

definition get_secret_row ::
    "vault_config \<Rightarrow> string \<Rightarrow> string \<Rightarrow> string option \<Rightarrow> string \<Rightarrow> string \<Rightarrow> string option \<Rightarrow> vault_secret option vstep" where
  "get_secret_row cf dataset fld match_key locator_hash locator_version run_id =
     (if str_or match_key [] \<noteq> [] then get_secret_by_match_key cf dataset fld (str_or match_key []) locator_hash locator_version
      else fetch_read cf ''get_secret''
        (Some [(''dataset'', PStr dataset), (''field'', PStr fld), (''run_id'', opt_str run_id),
               (''locator_version'', PStr locator_version)])
        (select_in_scope dataset fld locator_hash locator_version run_id))"

definition delete_rows :: "(vault_secret \<Rightarrow> bool) \<Rightarrow> vault_tables \<Rightarrow> sqlite_error + vault_tables \<times> int" where
  "delete_rows P t =
     Inr (t\<lparr>vt_secrets := filter (\<lambda>r. \<not> P r) (vt_secrets t)\<rparr>, int (length (filter P (vt_secrets t))))"

definition delete_secret ::
    "vault_config \<Rightarrow> string \<Rightarrow> string \<Rightarrow> string \<Rightarrow> string \<Rightarrow> string option \<Rightarrow> int vstep" where
  "delete_secret cf dataset fld locator_hash locator_version run_id =
     execute_write cf ''delete_secret''
       (Some [(''dataset'', PStr dataset), (''field'', PStr fld), (''run_id'', opt_str run_id),
              (''locator_version'', PStr locator_version)])
       (delete_rows (\<lambda>r. at_locator dataset fld locator_hash locator_version r \<and> vr_run_id r = run_id))"

section \<open>Data encryption keys\<close>

definition deactivate_others :: "vault_dek \<Rightarrow> vault_tables \<Rightarrow> sqlite_error + vault_tables \<times> unit" where
  "deactivate_others d t =
     Inr (t\<lparr>vt_deks := map (\<lambda>q. if vk_is_active q \<and> vk_dek_version q \<noteq> vk_dek_version d
                              then q\<lparr>vk_is_active := False, vk_updated_at := vk_updated_at d\<rparr> else q) (vt_deks t)\<rparr>, ())"

definition overwrite_dek :: "vault_dek \<Rightarrow> vault_dek \<Rightarrow> vault_dek" where
  "overwrite_dek new d = d\<lparr>vk_wrapped_dek := vk_wrapped_dek new, vk_wrap_algo := vk_wrap_algo new,
     vk_wrap_key_version := vk_wrap_key_version new, vk_is_active := vk_is_active new, vk_updated_at := vk_updated_at new\<rparr>"

definition put_dek :: "vault_dek \<Rightarrow> vault_tables \<Rightarrow> sqlite_error + vault_tables \<times> unit" where
  "put_dek d t =
     Inr (t\<lparr>vt_deks := (if vk_dek_version d \<in> vk_dek_version ` set (vt_deks t)
        then map (\<lambda>q. if vk_dek_version q = vk_dek_version d then overwrite_dek d q else q) (vt_deks t)
        else vt_deks t @ [d])\<rparr>, ())"

definition upsert_dek :: "vault_config \<Rightarrow> vault_dek \<Rightarrow> unit vstep" where
  "upsert_dek cf d =
     autobegin cf
       (bind_s (if vk_is_active d
                then execute_write cf ''deactivate_other_dek'' (Some [(''dek_version'', PStr (vk_dek_version d))]) (deactivate_others d)
                else return_s ())
          (\<lambda>_. execute_write cf ''upsert_dek''
             (Some [(''dek_version'', PStr (vk_dek_version d)), (''key_version'', PStr (vk_wrap_key_version d))]) (put_dek d)))"

definition dek_with :: "string \<Rightarrow> vault_tables \<Rightarrow> vault_dek option" where
  "dek_with v t = find (\<lambda>d. vk_dek_version d = v) (vt_deks t)"

definition get_dek :: "vault_config \<Rightarrow> string \<Rightarrow> vault_dek option vstep" where
  "get_dek cf v = fetch_read cf ''get_dek'' (Some [(''dek_version'', PStr v)]) (dek_with v)"

definition active_dek :: "vault_tables \<Rightarrow> vault_dek option" where
  "active_dek t = first_by (\<lambda>d. (vk_updated_at d, vk_dek_version d)) (filter vk_is_active (vt_deks t))"

definition get_active_dek :: "vault_config \<Rightarrow> vault_dek option vstep" where
  "get_active_dek cf = fetch_read cf ''get_active_dek'' None active_dek"

definition ordered_deks :: "vault_tables \<Rightarrow> vault_dek list" where
  "ordered_deks t = rev (sort_key (\<lambda>d. (vk_is_active d, vk_updated_at d, vk_dek_version d)) (vt_deks t))"

definition list_deks :: "vault_config \<Rightarrow> vault_dek list vstep" where
  "list_deks cf = fetch_read cf ''list_deks'' None ordered_deks"

section \<open>Probes\<close>

definition overwrite_probe :: "vault_probe \<Rightarrow> vault_probe \<Rightarrow> vault_probe" where
  "overwrite_probe new p = p\<lparr>vp_ciphertext := vp_ciphertext new, vp_cipher_algo := vp_cipher_algo new,
     vp_key_version := vp_key_version new, vp_dek_version := vp_dek_version new, vp_updated_at := vp_updated_at new\<rparr>"

definition put_probe :: "vault_probe \<Rightarrow> vault_tables \<Rightarrow> sqlite_error + vault_tables \<times> unit" where
  "put_probe p t =
     Inr (t\<lparr>vt_probes := (if vp_probe_name p \<in> vp_probe_name ` set (vt_probes t)
        then map (\<lambda>q. if vp_probe_name q = vp_probe_name p then overwrite_probe p q else q) (vt_probes t)
        else vt_probes t @ [p])\<rparr>, ())"

definition upsert_probe :: "vault_config \<Rightarrow> vault_probe \<Rightarrow> unit vstep" where
  "upsert_probe cf p = execute_write cf ''upsert_probe'' (Some [(''key_version'', PStr (vp_key_version p))]) (put_probe p)"

definition get_probe :: "vault_config \<Rightarrow> string \<Rightarrow> vault_probe option vstep" where
  "get_probe cf name = fetch_read cf ''get_probe'' None (\<lambda>t. find (\<lambda>p. vp_probe_name p = name) (vt_probes t))"

section \<open>Unseal metadata\<close>

definition put_unseal :: "unseal_metadata \<Rightarrow> vault_tables \<Rightarrow> sqlite_error + vault_tables \<times> unit" where
  "put_unseal m t =
     Inr (t\<lparr>vt_unseal := Some (case vt_unseal t of None \<Rightarrow> m | Some p \<Rightarrow> m\<lparr>um_created_at := um_created_at p\<rparr>)\<rparr>, ())"

definition upsert_unseal_metadata :: "vault_config \<Rightarrow> unseal_metadata \<Rightarrow> unit vstep" where
  "upsert_unseal_metadata cf m =
     execute_write cf ''upsert_unseal_metadata''
       (Some [(''key_version'', PStr (um_key_version m)), (''kdf_algo'', PStr (um_kdf_algo m))]) (put_unseal m)"

definition get_unseal_metadata :: "vault_config \<Rightarrow> unseal_metadata option vstep" where
  "get_unseal_metadata cf = fetch_read cf ''get_unseal_metadata'' (Some []) vt_unseal"

section \<open>Management metadata\<close>

definition get_meta_value :: "vault_config \<Rightarrow> string \<Rightarrow> string option vstep" where
  "get_meta_value cf k =
     fetch_read cf ''get_vault_management_meta'' (Some [(''meta_key'', PStr k)])
       (\<lambda>t. case map_of (vt_meta t) k of Some (Some v) \<Rightarrow> Some v | _ \<Rightarrow> None)"

definition set_meta_value :: "vault_config \<Rightarrow> string \<Rightarrow> string \<Rightarrow> unit vstep" where
  "set_meta_value cf k v =
     execute_write cf ''set_vault_management_meta'' (Some [(''meta_key'', PStr k)])
       (\<lambda>t. Inr (t\<lparr>vt_meta := AList.update k (Some v) (vt_meta t)\<rparr>, ()))"

definition delete_meta_value :: "vault_config \<Rightarrow> string \<Rightarrow> unit vstep" where
  "delete_meta_value cf k =
     execute_write cf ''delete_vault_management_meta'' (Some [(''meta_key'', PStr k)])
       (\<lambda>t. Inr (t\<lparr>vt_meta := AList.delete k (vt_meta t)\<rparr>, ()))"

definition get_last_rotated_at :: "vault_config \<Rightarrow> string option vstep" where
  "get_last_rotated_at cf = get_meta_value cf ''last_rotated_at''"

definition set_last_rotated_at :: "vault_config \<Rightarrow> string \<Rightarrow> unit vstep" where
  "set_last_rotated_at cf iso_utc = set_meta_value cf ''last_rotated_at'' iso_utc"

definition set_last_rotation_result :: "vault_config \<Rightarrow> string \<Rightarrow> string option \<Rightarrow> unit vstep" where
  "set_last_rotation_result cf res reason =
     autobegin cf
       (bind_s (set_meta_value cf ''last_rotation_result'' res)
          (\<lambda>_. case reason of
             None \<Rightarrow> delete_meta_value cf ''last_rotation_reason''
           | Some r \<Rightarrow> set_meta_value cf ''last_rotation_reason'' r))"

definition get_last_rotation_result :: "vault_config \<Rightarrow> string option vstep" where
  "get_last_rotation_result cf = get_meta_value cf ''last_rotation_result''"

definition get_last_rotation_reason :: "vault_config \<Rightarrow> string option vstep" where
  "get_last_rotation_reason cf = get_meta_value cf ''last_rotation_reason''"

definition get_last_rotation_run_id :: "vault_config \<Rightarrow> string option vstep" where
  "get_last_rotation_run_id cf = get_meta_value cf ''last_rotation_run_id''"

definition set_last_rotation_run_id :: "vault_config \<Rightarrow> string option \<Rightarrow> unit vstep" where
  "set_last_rotation_run_id cf run_id =
     (case run_id of
        None \<Rightarrow> delete_meta_value cf ''last_rotation_run_id''
      | Some r \<Rightarrow> set_meta_value cf ''last_rotation_run_id'' r)"

end
