(* ===== verification/Vault_Crypto.thy ===== *)
theory Vault_Crypto
  imports Vault_Repository Json_Text
begin

text \<open>
  \<open>infra/secrets/fernet_envelope_cipher.py\<close>, \<open>infra/secrets/unseal.py\<close>, the key providers of \<open>unseal.py\<close> and
  \<open>usecases/management/vault/verify.py\<close>, and \<open>secret_locator_service.py\<close>.

  The cryptographic packages are arguments, in \<open>crypto_env\<close>: which byte strings are Fernet keys, Fernet's encryption
  (with what it draws from clock and random source) and decryption, Argon2id, SHA-256, HMAC-SHA-256; so are the texts
  of the clock and the random bytes, which depend on how often these sources were read before.
\<close>

datatype fernet_result = Fernet_Plain bytes | Fernet_Invalid_Token | Fernet_Failed

record crypto_env =
  ce_config :: vault_config
  ce_now :: "nat \<Rightarrow> string"
  ce_random :: "nat \<Rightarrow> nat \<Rightarrow> bytes"
  ce_uuid :: "nat \<Rightarrow> string"
  ce_fernet_key :: "bytes \<Rightarrow> bool"
  ce_fernet_encrypt :: "nat \<Rightarrow> bytes \<Rightarrow> bytes \<Rightarrow> bytes option"
  ce_fernet_decrypt :: "bytes \<Rightarrow> bytes \<Rightarrow> fernet_result"
  ce_argon2id :: "bytes \<Rightarrow> bytes \<Rightarrow> int \<Rightarrow> int \<Rightarrow> int \<Rightarrow> int \<Rightarrow> string + bytes"
  ce_sha256 :: "bytes \<Rightarrow> bytes"
  ce_hmac_sha256 :: "bytes \<Rightarrow> bytes \<Rightarrow> bytes"

definition tick :: "nat vstep" where
  "tick = call_s (\<lambda>st. (st\<lparr>vs_clock := vs_clock st + 1\<rparr>, vs_clock st))"

definition get_utc_now_iso :: "crypto_env \<Rightarrow> string vstep" where
  "get_utc_now_iso ce = bind_s tick (\<lambda>n. return_s (ce_now ce n))"

definition urandom :: "crypto_env \<Rightarrow> nat \<Rightarrow> bytes vstep" where
  "urandom ce len = bind_s tick (\<lambda>n. return_s (ce_random ce n len))"

definition uuid4_hex :: "crypto_env \<Rightarrow> string vstep" where
  "uuid4_hex ce = bind_s tick (\<lambda>n. return_s (ce_uuid ce n))"

section \<open>The envelope cipher\<close>

definition FERNET_V1 :: string where
  "FERNET_V1 = ''FERNET_V1''"

definition integrity_error :: "string \<Rightarrow> (string, pyval) dict \<Rightarrow> vault_error" where
  "integrity_error m ds = Vault_Domain SecretIntegrityError m ds"

definition ensure_algo :: "string \<Rightarrow> string \<Rightarrow> vault_error + unit" where
  "ensure_algo algo kind =
     (if algo \<noteq> FERNET_V1
      then Inl (integrity_error ''Unsupported vault algorithm''
        [(''reason'', PStr ''unsupported_algorithm''), (''algo_kind'', PStr kind), (''algo'', PStr algo), (''expected'', PStr FERNET_V1)])
      else Inr ())"

definition build_fernet_from_dek :: "crypto_env \<Rightarrow> bytes \<Rightarrow> vault_error + bytes" where
  "build_fernet_from_dek ce dek =
     (if ce_fernet_key ce dek then Inr dek else Inl (integrity_error ''Invalid DEK format'' (reason_detail ''invalid_dek'')))"

definition build_fernet_from_master_key :: "crypto_env \<Rightarrow> string \<Rightarrow> vault_error + bytes" where
  "build_fernet_from_master_key ce master_key =
     (if ce_fernet_key ce (utf8_encode master_key) then Inr (utf8_encode master_key)
      else Inl (Vault_Domain SecretKeyConfigError ''Invalid master key format'' (reason_detail ''invalid_master_key'')))"

definition token_bytes :: "token \<Rightarrow> bytes" where
  "token_bytes tok = (case tok of Token_Bytes b \<Rightarrow> b | Token_Text s \<Rightarrow> utf8_encode s)"

definition normalize_token :: "token \<Rightarrow> string \<Rightarrow> vault_error + bytes" where
  "normalize_token tok ctx =
     (if token_bytes tok = []
      then Inl (integrity_error ''Ciphertext token is empty'' [(''reason'', PStr ''empty_token''), (''context'', PStr ctx)])
      else Inr (token_bytes tok))"

text \<open>At least nine bytes, the first of them Fernet's version byte.\<close>

definition fernet_envelope :: "bytes \<Rightarrow> bool" where
  "fernet_envelope bs \<longleftrightarrow> 9 \<le> length bs \<and> hd bs = char_of (128 :: nat)"

definition validate_token_shape :: "bytes \<Rightarrow> string \<Rightarrow> vault_error + unit" where
  "validate_token_shape tok ctx =
     (case urlsafe_b64decode (padded tok) of
        None \<Rightarrow> Inl (integrity_error ''Ciphertext token has invalid base64 format''
          [(''reason'', PStr ''invalid_base64''), (''context'', PStr ctx)])
      | Some decoded \<Rightarrow>
          (if fernet_envelope decoded then Inr ()
           else Inl (integrity_error ''Ciphertext token has invalid Fernet envelope''
             [(''reason'', PStr ''invalid_fernet_envelope''), (''context'', PStr ctx)])))"

definition encrypt :: "crypto_env \<Rightarrow> string \<Rightarrow> bytes \<Rightarrow> string \<Rightarrow> token vstep" where
  "encrypt ce plaintext dek cipher_algo =
     bind_s (lift_s (ensure_algo cipher_algo ''cipher'')) (\<lambda>_.
     bind_s (lift_s (build_fernet_from_dek ce dek)) (\<lambda>k.
     bind_s tick (\<lambda>n. lift_s
       (case ce_fernet_encrypt ce n k (utf8_encode plaintext) of
          Some tok \<Rightarrow> Inr (Token_Bytes tok)
        | None \<Rightarrow> Inl (integrity_error ''Failed to encrypt secret payload''
            [(''reason'', PStr ''encrypt_failed''), (''cipher_algo'', PStr cipher_algo)])))))"

definition open_token :: "token \<Rightarrow> string \<Rightarrow> vault_error + bytes" where
  "open_token tok ctx =
     (case normalize_token tok ctx of
        Inl e \<Rightarrow> Inl e
      | Inr bs \<Rightarrow> (case validate_token_shape bs ctx of Inl e \<Rightarrow> Inl e | Inr u \<Rightarrow> Inr bs))"

definition decrypt :: "crypto_env \<Rightarrow> token \<Rightarrow> bytes \<Rightarrow> string \<Rightarrow> vault_error + string" where
  "decrypt ce ciphertext dek cipher_algo =
     (case ensure_algo cipher_algo ''cipher'' of Inl e \<Rightarrow> Inl e | Inr _ \<Rightarrow>
     (case open_token ciphertext ''ciphertext'' of Inl e \<Rightarrow> Inl e | Inr bs \<Rightarrow>
     (case build_fernet_from_dek ce dek of Inl e \<Rightarrow> Inl e | Inr k \<Rightarrow>
     (case ce_fernet_decrypt ce k bs of
        Fernet_Invalid_Token \<Rightarrow> Inl (Vault_Domain SecretDecryptionError ''Failed to decrypt secret payload''
          [(''reason'', PStr ''invalid_token''), (''cipher_algo'', PStr cipher_algo)])
      | Fernet_Failed \<Rightarrow> Inl (integrity_error ''Secret payload integrity check failed''
          [(''reason'', PStr ''decrypt_failed''), (''cipher_algo'', PStr cipher_algo)])
      | Fernet_Plain p \<Rightarrow> (case utf8_decode p of
            Some s \<Rightarrow> Inr s
          | None \<Rightarrow> Inl (integrity_error ''Secret payload has invalid utf-8 encoding'' (reason_detail ''invalid_utf8'')))))))"

definition wrap_dek :: "crypto_env \<Rightarrow> bytes \<Rightarrow> string \<Rightarrow> string \<Rightarrow> token vstep" where
  "wrap_dek ce dek master_key wrap_algo =
     bind_s (lift_s (ensure_algo wrap_algo ''wrap'')) (\<lambda>_.
     bind_s (lift_s (build_fernet_from_master_key ce master_key)) (\<lambda>k.
     bind_s tick (\<lambda>n. lift_s
       (case ce_fernet_encrypt ce n k dek of
          Some tok \<Rightarrow> Inr (Token_Bytes tok)
        | None \<Rightarrow> Inl (integrity_error ''Failed to wrap DEK''
            [(''reason'', PStr ''wrap_failed''), (''wrap_algo'', PStr wrap_algo)])))))"

definition unwrap_dek :: "crypto_env \<Rightarrow> token \<Rightarrow> string \<Rightarrow> string \<Rightarrow> vault_error + bytes" where
  "unwrap_dek ce wrapped master_key wrap_algo =
     (case ensure_algo wrap_algo ''wrap'' of Inl e \<Rightarrow> Inl e | Inr _ \<Rightarrow>
     (case open_token wrapped ''wrapped_dek'' of Inl e \<Rightarrow> Inl e | Inr bs \<Rightarrow>
     (case build_fernet_from_master_key ce master_key of Inl e \<Rightarrow> Inl e | Inr k \<Rightarrow>
     (case ce_fernet_decrypt ce k bs of
        Fernet_Plain d \<Rightarrow> Inr d
      | Fernet_Invalid_Token \<Rightarrow> Inl (Vault_Domain SecretDecryptionError ''Failed to unwrap DEK''
          [(''reason'', PStr ''invalid_token''), (''wrap_algo'', PStr wrap_algo)])
      | Fernet_Failed \<Rightarrow> Inl (integrity_error ''Wrapped DEK integrity check failed''
          [(''reason'', PStr ''unwrap_failed''), (''wrap_algo'', PStr wrap_algo)])))))"

section \<open>Unsealing\<close>

definition key_error :: "string \<Rightarrow> (string, pyval) dict \<Rightarrow> vault_error" where
  "key_error m ds = Vault_Domain SecretKeyConfigError m ds"

definition require_passphrase :: "string \<Rightarrow> vault_error + unit" where
  "require_passphrase p =
     (if p = [] then Inl (key_error ''Vault unseal passphrase is empty'' (reason_detail ''unseal_passphrase_empty'')) else Inr ())"

definition unsupported_param :: "string \<Rightarrow> string \<Rightarrow> vault_error" where
  "unsupported_param what param =
     key_error (''Unsupported vault unseal KDF '' @ what) [(''reason'', PStr ''unsupported_unseal_kdf_params''), (''param'', PStr param)]"

definition validate_kdf_params :: "unseal_metadata \<Rightarrow> vault_error + unit" where
  "validate_kdf_params m =
     (let salt_len = length (token_bytes (um_kdf_salt m)) in
      if \<not> (16 \<le> salt_len \<and> salt_len \<le> 128) then Inl (unsupported_param ''salt length'' ''kdf_salt'')
      else if \<not> (1 \<le> um_kdf_time_cost m \<and> um_kdf_time_cost m \<le> 10) then Inl (unsupported_param ''time cost'' ''kdf_time_cost'')
      else if \<not> (8192 \<le> um_kdf_memory_cost_kib m \<and> um_kdf_memory_cost_kib m \<le> 1048576)
      then Inl (unsupported_param ''memory cost'' ''kdf_memory_cost_kib'')
      else if \<not> (1 \<le> um_kdf_parallelism m \<and> um_kdf_parallelism m \<le> 16)
      then Inl (unsupported_param ''parallelism'' ''kdf_parallelism'')
      else Inr ())"

definition derive_raw_key :: "crypto_env \<Rightarrow> string \<Rightarrow> unseal_metadata \<Rightarrow> vault_error + bytes" where
  "derive_raw_key ce passphrase m =
     (if um_kdf_algo m \<noteq> ''argon2id''
      then Inl (key_error ''Unsupported vault unseal KDF'' [(''reason'', PStr ''unsupported_unseal_kdf''), (''kdf_algo'', PStr (um_kdf_algo m))])
      else case validate_kdf_params m of
        Inl e \<Rightarrow> Inl e
      | Inr _ \<Rightarrow>
          (if um_kdf_hash_len m \<noteq> 32
           then Inl (key_error ''Unsupported vault unseal key length''
             [(''reason'', PStr ''unsupported_unseal_key_length''), (''kdf_hash_len'', PInt (um_kdf_hash_len m))])
           else case ce_argon2id ce (utf8_encode passphrase) (token_bytes (um_kdf_salt m)) (um_kdf_time_cost m)
                  (um_kdf_memory_cost_kib m) (um_kdf_parallelism m) (um_kdf_hash_len m) of
               Inr raw \<Rightarrow> Inr raw
             | Inl exc_type \<Rightarrow> Inl (key_error ''Failed to derive vault unseal key''
                 [(''reason'', PStr ''unseal_kdf_failed''), (''error_type'', PStr exc_type)])))"

definition build_hmac :: "crypto_env \<Rightarrow> bytes \<Rightarrow> unseal_metadata \<Rightarrow> vault_error + bytes" where
  "build_hmac ce raw_key m =
     (if um_hmac_algo m \<noteq> ''hmac-sha256''
      then Inl (key_error ''Unsupported vault unseal HMAC'' [(''reason'', PStr ''unsupported_unseal_hmac''), (''hmac_algo'', PStr (um_hmac_algo m))])
      else Inr (ce_hmac_sha256 ce raw_key (''ankey-vault-unseal-v1'' @ ''|'' @ token_bytes (um_hmac_salt m))))"

definition to_master_key :: "string \<Rightarrow> bytes \<Rightarrow> master_key" where
  "to_master_key key_version raw_key =
     \<lparr>mk_key_version = key_version, mk_key_material = urlsafe_b64encode raw_key, mk_is_active = True\<rparr>"

definition fresh_metadata :: "string \<Rightarrow> string \<Rightarrow> bytes \<Rightarrow> bytes \<Rightarrow> unseal_metadata" where
  "fresh_metadata key_version now_utc kdf_salt hmac_salt =
     \<lparr>um_key_version = key_version, um_kdf_algo = ''argon2id'', um_kdf_salt = Token_Bytes kdf_salt, um_kdf_time_cost = 3,
      um_kdf_memory_cost_kib = 65536, um_kdf_parallelism = 4, um_kdf_hash_len = 32, um_hmac_algo = ''hmac-sha256'',
      um_hmac_salt = Token_Bytes hmac_salt, um_hmac_digest = Token_Bytes [], um_created_at = now_utc, um_updated_at = now_utc\<rparr>"

definition create_metadata :: "crypto_env \<Rightarrow> string \<Rightarrow> string \<Rightarrow> string \<Rightarrow> (unseal_metadata \<times> master_key) vstep" where
  "create_metadata ce passphrase key_version now_utc =
     bind_s (lift_s (require_passphrase passphrase)) (\<lambda>_.
     bind_s (urandom ce 32) (\<lambda>kdf_salt.
     bind_s (urandom ce 32) (\<lambda>hmac_salt.
       (let m = fresh_metadata key_version now_utc kdf_salt hmac_salt in
        bind_s (lift_s (derive_raw_key ce passphrase m)) (\<lambda>raw_key.
        bind_s (lift_s (build_hmac ce raw_key m)) (\<lambda>digest.
          return_s (m\<lparr>um_hmac_digest := Token_Bytes digest\<rparr>, to_master_key key_version raw_key)))))))"

definition derive_key :: "crypto_env \<Rightarrow> string \<Rightarrow> unseal_metadata \<Rightarrow> vault_error + master_key" where
  "derive_key ce passphrase m =
     (case require_passphrase passphrase of Inl e \<Rightarrow> Inl e | Inr _ \<Rightarrow>
     (case derive_raw_key ce passphrase m of Inl e \<Rightarrow> Inl e | Inr raw_key \<Rightarrow>
     (case build_hmac ce raw_key m of Inl e \<Rightarrow> Inl e | Inr expected \<Rightarrow>
       (if expected \<noteq> token_bytes (um_hmac_digest m)
        then Inl (key_error ''Vault unseal passphrase is invalid'' (reason_detail ''unseal_passphrase_invalid''))
        else Inr (to_master_key (um_key_version m) raw_key)))))"

section \<open>Key providers\<close>

record key_provider =
  kp_active :: "master_key vstep"
  kp_all :: "master_key list vstep"
  kp_find :: "string \<Rightarrow> master_key option vstep"

definition load_active_key :: "crypto_env \<Rightarrow> string option \<Rightarrow> master_key vstep" where
  "load_active_key ce passphrase =
     (case passphrase of
        None \<Rightarrow> raise_v (key_error ''Vault unseal passphrase was not provided'' (reason_detail ''unseal_passphrase_missing''))
      | Some p \<Rightarrow> bind_s (get_unseal_metadata (ce_config ce)) (\<lambda>metadata. case metadata of
            None \<Rightarrow> raise_v (key_error ''Vault unseal metadata is missing'' (reason_detail ''unseal_metadata_missing''))
          | Some m \<Rightarrow> lift_s (derive_key ce p m)))"

definition unsealed_active_key :: "crypto_env \<Rightarrow> string option \<Rightarrow> master_key vstep" where
  "unsealed_active_key ce passphrase st =
     (case vs_key st of
        Some k \<Rightarrow> (st, Inr k)
      | None \<Rightarrow> bind_s (load_active_key ce passphrase) (\<lambda>k. bind_s (update_s (\<lambda>s. s\<lparr>vs_key := Some k\<rparr>)) (\<lambda>_. return_s k)) st)"

definition unsealed_provider :: "crypto_env \<Rightarrow> string option \<Rightarrow> key_provider" where
  "unsealed_provider ce passphrase =
     \<lparr>kp_active = unsealed_active_key ce passphrase,
      kp_all = bind_s (unsealed_active_key ce passphrase) (\<lambda>k. return_s [k]),
      kp_find = (\<lambda>v. bind_s (unsealed_active_key ce passphrase) (\<lambda>k. return_s (if mk_key_version k = v then Some k else None)))\<rparr>"

text \<open>A keyring that is not empty; of two keys with one version the later is found.\<close>

definition static_provider :: "master_key list \<Rightarrow> key_provider" where
  "static_provider keyring =
     \<lparr>kp_active = return_s (hd keyring), kp_all = return_s keyring,
      kp_find = (\<lambda>v. return_s (find (\<lambda>k. mk_key_version k = v) (rev keyring)))\<rparr>"

definition candidate_master_keys :: "key_provider \<Rightarrow> string \<Rightarrow> master_key list vstep" where
  "candidate_master_keys kp wrap_key_version =
     bind_s (kp_find kp wrap_key_version) (\<lambda>hinted.
     bind_s (kp_all kp) (\<lambda>keys. return_s
       (case hinted of
          None \<Rightarrow> keys
        | Some h \<Rightarrow> h # filter (\<lambda>k. mk_key_version k \<noteq> mk_key_version h) keys)))"

text \<open>
  The loop over the candidates: a key that does not fit is passed over, \<open>None\<close> when none fits; a key that is no
  Fernet key ends it.
\<close>

fun unwrap_with :: "crypto_env \<Rightarrow> vault_dek \<Rightarrow> master_key list \<Rightarrow> vault_error + bytes option" where
  "unwrap_with ce d [] = Inr None"
| "unwrap_with ce d (k # ks) =
     (case unwrap_dek ce (vk_wrapped_dek d) (mk_key_material k) (vk_wrap_algo d) of
        Inr dek \<Rightarrow> Inr (Some dek)
      | Inl e \<Rightarrow> (if is_class SecretDecryptionError e \<or> is_class SecretIntegrityError e then unwrap_with ce d ks else Inl e))"

definition unwrap_by_provider :: "crypto_env \<Rightarrow> key_provider \<Rightarrow> vault_error \<Rightarrow> vault_dek \<Rightarrow> bytes vstep" where
  "unwrap_by_provider ce kp failure d =
     bind_s (candidate_master_keys kp (vk_wrap_key_version d)) (\<lambda>keys.
     bind_s (lift_s (unwrap_with ce d keys)) (\<lambda>found.
       case found of Some dek \<Rightarrow> return_s dek | None \<Rightarrow> raise_v failure))"

section \<open>The locator\<close>

definition locator_empty :: "pyval \<Rightarrow> bool" where
  "locator_empty v \<longleftrightarrow> v = PNone \<or> v = PStr [] \<or> v = PList [] \<or> v = PDict []"

fun normalize_ref_value :: "pyval \<Rightarrow> pyval" where
  "normalize_ref_value (PDict d) =
     PDict (filter (\<lambda>(k, v). \<not> locator_empty v) (sort_key fst (map (\<lambda>(k, v). (k, normalize_ref_value v)) d)))"
| "normalize_ref_value (PList vs) = PList (filter (\<lambda>v. \<not> locator_empty v) (map normalize_ref_value vs))"
| "normalize_ref_value v = v"

text \<open>\<open>json.dumps\<close> with \<open>ensure_ascii=False\<close> and separators without blanks.\<close>

definition raw_escape :: "char \<Rightarrow> string" where
  "raw_escape c =
     (case map_of short_escapes c of
        Some e \<Rightarrow> [backslash, e]
      | None \<Rightarrow> (if (of_char c :: nat) < 32 then escape_char c else [c]))"

definition raw_quote :: "string \<Rightarrow> string" where
  "raw_quote s = quote_char # concat (map raw_escape s) @ [quote_char]"

fun json_compact :: "pyval \<Rightarrow> string" where
  "json_compact PNone = ''null''"
| "json_compact (PBool b) = (if b then ''true'' else ''false'')"
| "json_compact (PInt i) = int_str i"
| "json_compact (PFloat f) = float_repr f"
| "json_compact (PStr s) = raw_quote s"
| "json_compact (PList vs) = ''['' @ py_join '','' (map json_compact vs) @ '']''"
| "json_compact (PDict d) = ''{'' @ py_join '','' (map (\<lambda>(k, v). raw_quote k @ '':'' @ json_compact v) d) @ ''}''"

definition canonical_source_ref_json :: "(string, pyval) dict option \<Rightarrow> string" where
  "canonical_source_ref_json source_ref =
     json_compact (normalize_ref_value (PDict (case source_ref of None \<Rightarrow> [] | Some d \<Rightarrow> d)))"

definition build_locator_hash :: "crypto_env \<Rightarrow> string \<Rightarrow> string \<Rightarrow> (string, pyval) dict option \<Rightarrow> string \<Rightarrow> vault_error + string" where
  "build_locator_hash ce dataset fld source_ref locator_version =
     (if locator_version \<noteq> ''v1'' then Inl (Vault_Py (ValueError (''Unsupported locator version: '' @ locator_version)))
      else Inr (hexdigest (ce_sha256 ce (utf8_encode
        (locator_version @ ''|'' @ dataset @ ''|'' @ fld @ ''|'' @ canonical_source_ref_json source_ref)))))"

end
