(* ===== verification/Vault_Services.thy ===== *)
theory Vault_Services
  imports Vault_Crypto
begin

text \<open>
  The domain services of the vault: \<open>SecretVaultWriteService\<close>, \<open>SecretVaultReadService\<close>,
  \<open>VaultRetentionService\<close> with its policy, and \<open>VaultStartupGuard\<close>.  A service is its operations; what its
  constructor takes is in \<open>crypto_env\<close>, the key provider and the settings.
\<close>

record vault_settings =
  st_locator_version :: string
  st_cipher_algo :: string
  st_wrap_algo :: string

definition default_settings :: vault_settings where
  "default_settings = \<lparr>st_locator_version = ''v1'', st_cipher_algo = FERNET_V1, st_wrap_algo = FERNET_V1\<rparr>"

definition match_key_ref :: "string \<Rightarrow> (string, pyval) dict option" where
  "match_key_ref k = Some [(''match_key'', PStr k)]"

section \<open>Writing secrets\<close>

definition store_failed :: "string \<Rightarrow> vault_error" where
  "store_failed reason = Vault_Domain SecretStoreError ''Failed to store secrets in vault'' (reason_detail reason)"

definition store_unwrap_failed :: "vault_dek \<Rightarrow> vault_error" where
  "store_unwrap_failed d = Vault_Domain SecretStoreError ''Failed to store secrets in vault''
     [(''reason'', PStr ''dek_unwrap_failed''), (''dek_version'', PStr (vk_dek_version d)), (''key_version'', PStr (vk_wrap_key_version d))]"

definition new_dek :: "string \<Rightarrow> token \<Rightarrow> string \<Rightarrow> string \<Rightarrow> string \<Rightarrow> vault_dek" where
  "new_dek version wrapped wrap_algo key_version now =
     \<lparr>vk_dek_version = version, vk_wrapped_dek = wrapped, vk_wrap_algo = wrap_algo, vk_wrap_key_version = key_version,
      vk_is_active = True, vk_created_at = now, vk_updated_at = now\<rparr>"

definition ensure_active_dek ::
    "crypto_env \<Rightarrow> key_provider \<Rightarrow> vault_settings \<Rightarrow> master_key \<Rightarrow> string \<Rightarrow> (vault_dek \<times> bytes) vstep" where
  "ensure_active_dek ce kp cs active_key now =
     bind_s (get_active_dek (ce_config ce)) (\<lambda>active. case active of
         Some d \<Rightarrow> bind_s (unwrap_by_provider ce kp (store_unwrap_failed d) d) (\<lambda>dek. return_s (d, dek))
       | None \<Rightarrow>
           bind_s (urandom ce 32) (\<lambda>raw. let dek = urlsafe_b64encode raw in
           bind_s (wrap_dek ce dek (mk_key_material active_key) (st_wrap_algo cs)) (\<lambda>wrapped.
           bind_s (uuid4_hex ce) (\<lambda>hex.
             (let d = new_dek (''dek_'' @ hex) wrapped (st_wrap_algo cs) (mk_key_version active_key) now in
              bind_s (upsert_dek (ce_config ce) d) (\<lambda>_. return_s (d, dek)))))))"

definition new_secret ::
    "vault_settings \<Rightarrow> string \<Rightarrow> string \<Rightarrow> string \<Rightarrow> string \<Rightarrow> token \<Rightarrow> master_key \<Rightarrow> vault_dek \<Rightarrow> string option \<Rightarrow> string \<Rightarrow> vault_secret" where
  "new_secret cs dataset fld match_key locator_hash ciphertext key d run_id now =
     \<lparr>vr_dataset = dataset, vr_field = fld, vr_match_key = Some match_key, vr_locator_hash = locator_hash,
      vr_locator_version = st_locator_version cs, vr_ciphertext = ciphertext, vr_cipher_algo = st_cipher_algo cs,
      vr_key_version = mk_key_version key, vr_dek_version = vk_dek_version d, vr_run_id = run_id,
      vr_created_at = now, vr_updated_at = now, vr_secret_id = None\<rparr>"

definition put_one ::
    "crypto_env \<Rightarrow> vault_settings \<Rightarrow> string \<Rightarrow> string \<Rightarrow> master_key \<Rightarrow> vault_dek \<times> bytes \<Rightarrow> string option \<Rightarrow> string
     \<Rightarrow> string \<times> string \<Rightarrow> unit vstep" where
  "put_one ce cs dataset match_key key dd run_id now = (\<lambda>(fld, plaintext).
     bind_s (lift_s (build_locator_hash ce dataset fld (match_key_ref match_key) (st_locator_version cs))) (\<lambda>locator_hash.
     bind_s (encrypt ce plaintext (snd dd) (st_cipher_algo cs)) (\<lambda>ciphertext.
       upsert_secret (ce_config ce) (new_secret cs dataset fld match_key locator_hash ciphertext key (fst dd) run_id now))))"

fun put_each :: "(string \<times> string \<Rightarrow> unit vstep) \<Rightarrow> (string, string) dict \<Rightarrow> unit vstep" where
  "put_each put [] = return_s ()"
| "put_each put (s # ss) = bind_s (put s) (\<lambda>_. put_each put ss)"

text \<open>The handlers of \<open>put_many\<close>.\<close>

definition store_error_of :: "vault_error \<Rightarrow> vault_error" where
  "store_error_of e =
     (if is_class SecretStoreError e then e
      else if is_class SecretReadError e then store_failed ''dek_read_failed''
      else if is_class SecretKeyConfigError e \<or> is_class SecretIntegrityError e \<or> is_class SecretDecryptionError e
           \<or> (case e of Vault_Py p \<Rightarrow> is_value_error p | _ \<Rightarrow> False) then store_failed ''crypto_error''
      else store_failed ''unexpected_error'')"

definition put_in_transaction ::
    "crypto_env \<Rightarrow> key_provider \<Rightarrow> vault_settings \<Rightarrow> string \<Rightarrow> string \<Rightarrow> (string, string) dict \<Rightarrow> string option \<Rightarrow> string \<Rightarrow> unit vstep" where
  "put_in_transaction ce kp cs dataset match_key secrets run_id now =
     bind_s (kp_active kp) (\<lambda>key.
     bind_s (ensure_active_dek ce kp cs key now) (\<lambda>dd.
       put_each (put_one ce cs dataset match_key key dd run_id now) secrets))"

definition put_many ::
    "crypto_env \<Rightarrow> key_provider \<Rightarrow> vault_settings \<Rightarrow> string \<Rightarrow> string \<Rightarrow> (string, string) dict \<Rightarrow> string option \<Rightarrow> unit vstep" where
  "put_many ce kp cs dataset match_key secrets run_id =
     (if secrets = [] then return_s ()
      else if py_strip match_key = [] then raise_v (store_failed ''match_key_missing'')
      else bind_s (get_utc_now_iso ce) (\<lambda>now.
        try_s (transaction_v (ce_config ce) (put_in_transaction ce kp cs dataset (py_strip match_key) secrets run_id now))
          (\<lambda>e. raise_v (store_error_of e))))"

section \<open>Reading secrets\<close>

definition read_failed :: "(string, pyval) dict \<Rightarrow> vault_error" where
  "read_failed ds = Vault_Domain SecretReadError ''Failed to read secret from vault'' ds"

definition read_unwrap_failed :: "vault_dek \<Rightarrow> vault_error" where
  "read_unwrap_failed d = Vault_Domain SecretDecryptionError ''Failed to decrypt secret''
     [(''reason'', PStr ''dek_unwrap_failed''), (''dek_version'', PStr (vk_dek_version d)), (''key_version'', PStr (vk_wrap_key_version d))]"

text \<open>\<open>source_ref\<close> when it is a dict.\<close>

definition extract_match_key :: "(string, pyval) dict option \<Rightarrow> string option" where
  "extract_match_key source_ref =
     (case source_ref of
        None \<Rightarrow> None
      | Some d \<Rightarrow> (case map_of d ''match_key'' of
            Some (PStr s) \<Rightarrow> (if py_strip s = [] then None else Some (py_strip s))
          | _ \<Rightarrow> None))"

definition dek_not_found :: "vault_secret \<Rightarrow> vault_error" where
  "dek_not_found r = read_failed [(''reason'', PStr ''dek_not_found''), (''dek_version'', PStr (vr_dek_version r)),
     (''locator_version'', PStr (vr_locator_version r))]"

definition load_secret ::
    "crypto_env \<Rightarrow> key_provider \<Rightarrow> vault_settings \<Rightarrow> string \<Rightarrow> string \<Rightarrow> string \<Rightarrow> string option \<Rightarrow> string option vstep" where
  "load_secret ce kp cs dataset fld match_key run_id =
     bind_s (lift_s (build_locator_hash ce dataset fld (match_key_ref match_key) (st_locator_version cs))) (\<lambda>locator_hash.
     bind_s (get_secret_row (ce_config ce) dataset fld (Some match_key) locator_hash (st_locator_version cs) run_id) (\<lambda>row.
       case row of
         None \<Rightarrow> return_s None
       | Some r \<Rightarrow>
           bind_s (get_dek (ce_config ce) (vr_dek_version r)) (\<lambda>dek_row.
             case dek_row of
               None \<Rightarrow> raise_v (dek_not_found r)
             | Some d \<Rightarrow>
                 bind_s (unwrap_by_provider ce kp (read_unwrap_failed d) d) (\<lambda>dek.
                 bind_s (lift_s (decrypt ce (vr_ciphertext r) dek (vr_cipher_algo r))) (\<lambda>plain. return_s (Some plain))))))"

definition read_error_of :: "vault_settings \<Rightarrow> vault_error \<Rightarrow> vault_error" where
  "read_error_of cs e =
     (if is_class SecretReadError e \<or> is_class SecretDecryptionError e \<or> is_class SecretIntegrityError e then e
      else if is_class SecretKeyConfigError e then read_failed (reason_detail ''key_config_error'')
      else if (case e of Vault_Py p \<Rightarrow> is_value_error p | _ \<Rightarrow> False)
      then read_failed [(''reason'', PStr ''locator_error''), (''locator_version'', PStr (st_locator_version cs))]
      else read_failed (reason_detail ''unexpected_error''))"

definition get_secret ::
    "crypto_env \<Rightarrow> key_provider \<Rightarrow> vault_settings \<Rightarrow> string option \<Rightarrow> string \<Rightarrow> string \<Rightarrow> (string, pyval) dict option
     \<Rightarrow> string option \<Rightarrow> string option vstep" where
  "get_secret ce kp cs default_run_id dataset fld source_ref run_id =
     (case extract_match_key source_ref of
        None \<Rightarrow> return_s None
      | Some k \<Rightarrow> try_s (load_secret ce kp cs dataset fld k (if run_id \<noteq> None then run_id else default_run_id))
          (\<lambda>e. raise_v (read_error_of cs e)))"

section \<open>Retention\<close>

record secret_lifecycle_policy =
  lp_mode :: string
  lp_delete_on_success :: bool
  lp_ttl_seconds :: "int option"

text \<open>A \<open>bool\<close> is an \<open>int\<close>: \<open>ttl_seconds: true\<close> is taken and stays \<open>True\<close>, which equals 1.\<close>

definition normalize_secret_lifecycle :: "(string, pyval) dict option \<Rightarrow> secret_lifecycle_policy" where
  "normalize_secret_lifecycle raw =
     (let field_of = (\<lambda>k. case raw of None \<Rightarrow> PNone | Some d \<Rightarrow> dict_get_or d k PNone);
          mode = (case field_of ''mode'' of PStr m \<Rightarrow> if m \<in> {''persistent'', ''ephemeral''} then m else ''persistent'' | _ \<Rightarrow> ''persistent'');
          ttl = (case field_of ''ttl_seconds'' of PInt n \<Rightarrow> if 0 < n then Some n else None | PBool True \<Rightarrow> Some 1 | _ \<Rightarrow> None)
      in \<lparr>lp_mode = mode,
          lp_delete_on_success = (case field_of ''delete_on_success'' of PBool b \<Rightarrow> b | _ \<Rightarrow> mode = ''ephemeral''),
          lp_ttl_seconds = ttl\<rparr>)"

record retention_counters =
  rc_deleted :: int
  rc_kept :: int
  rc_skipped :: int
  rc_errors :: int

definition no_counters :: retention_counters where
  "no_counters = \<lparr>rc_deleted = 0, rc_kept = 0, rc_skipped = 0, rc_errors = 0\<rparr>"

definition retire_field ::
    "crypto_env \<Rightarrow> vault_settings \<Rightarrow> string \<Rightarrow> string \<Rightarrow> string option \<Rightarrow> string \<Rightarrow> retention_counters \<Rightarrow> retention_counters vstep" where
  "retire_field ce cs dataset match_key run_id fld c =
     try_s
       (bind_s (lift_s (build_locator_hash ce dataset fld (match_key_ref match_key) (st_locator_version cs))) (\<lambda>locator_hash.
        bind_s (delete_secret (ce_config ce) dataset fld locator_hash (st_locator_version cs) run_id) (\<lambda>deleted. return_s
          (if 0 < deleted then c\<lparr>rc_deleted := rc_deleted c + deleted\<rparr> else c\<lparr>rc_skipped := rc_skipped c + 1\<rparr>))))
       (\<lambda>e. if is_class SecretStoreError e \<or> (case e of Vault_Py p \<Rightarrow> is_value_error p | _ \<Rightarrow> False)
            then return_s (c\<lparr>rc_errors := rc_errors c + 1\<rparr>) else raise_v e)"

fun retire_fields :: "(string \<Rightarrow> retention_counters \<Rightarrow> retention_counters vstep) \<Rightarrow> string list \<Rightarrow> retention_counters \<Rightarrow> retention_counters vstep" where
  "retire_fields retire [] c = return_s c"
| "retire_fields retire (f # fs) c = bind_s (retire f c) (retire_fields retire fs)"

definition on_apply_success ::
    "crypto_env \<Rightarrow> vault_settings \<Rightarrow> string \<Rightarrow> (string, pyval) dict option \<Rightarrow> string list \<Rightarrow> (string, pyval) dict option
     \<Rightarrow> string option \<Rightarrow> retention_counters vstep" where
  "on_apply_success ce cs dataset source_ref secret_fields secret_lifecycle run_id =
     (let n = int (length secret_fields); policy = normalize_secret_lifecycle secret_lifecycle in
      if secret_fields = [] then return_s no_counters
      else if lp_mode policy \<noteq> ''ephemeral'' \<or> \<not> lp_delete_on_success policy then return_s (no_counters\<lparr>rc_kept := n\<rparr>)
      else case extract_match_key source_ref of
          None \<Rightarrow> return_s (no_counters\<lparr>rc_skipped := n\<rparr>)
        | Some k \<Rightarrow> retire_fields (retire_field ce cs dataset k run_id) secret_fields no_counters)"

section \<open>The startup guard\<close>

record guard_settings = vault_settings +
  gs_probe_name :: string
  gs_probe_payload :: string
  gs_strict_readonly :: bool

definition guard_error :: "vault_error_class \<Rightarrow> (string, pyval) dict \<Rightarrow> vault_error" where
  "guard_error c ds = Vault_Domain c (default_message c) ds"

definition corrupted :: "string \<Rightarrow> string \<Rightarrow> vault_error" where
  "corrupted reason probe_name =
     guard_error VaultStartupProbeCorruptedError [(''reason'', PStr reason), (''probe_name'', PStr probe_name)]"

text \<open>\<open>except E as exc: raise F\<close> for the classes listed.\<close>

definition on_class :: "vault_error_class list \<Rightarrow> vault_error \<Rightarrow> 'a vstep \<Rightarrow> 'a vstep" where
  "on_class cs f m = try_s m (\<lambda>e. if \<exists>c \<in> set cs. is_class c e then raise_v f else raise_v e)"

definition load_probe :: "crypto_env \<Rightarrow> guard_settings \<Rightarrow> vault_probe option vstep" where
  "load_probe ce gs =
     on_class [SecretReadError] (corrupted ''probe_read_failed'' (gs_probe_name gs)) (get_probe (ce_config ce) (gs_probe_name gs))"

definition guard_unwrap_failed :: "vault_dek \<Rightarrow> vault_error" where
  "guard_unwrap_failed d = guard_error VaultStartupKeyValidationError
     [(''reason'', PStr ''dek_unwrap_failed''), (''dek_version'', PStr (vk_dek_version d)), (''key_version'', PStr (vk_wrap_key_version d))]"

definition guard_ensure_active_dek ::
    "crypto_env \<Rightarrow> key_provider \<Rightarrow> guard_settings \<Rightarrow> master_key \<Rightarrow> string \<Rightarrow> (vault_dek \<times> bytes) vstep" where
  "guard_ensure_active_dek ce kp gs active_key now =
     (let name = gs_probe_name gs in
      bind_s (on_class [SecretReadError] (corrupted ''dek_read_failed'' name) (get_active_dek (ce_config ce))) (\<lambda>active. case active of
         Some d \<Rightarrow> bind_s (unwrap_by_provider ce kp (guard_unwrap_failed d) d) (\<lambda>dek. return_s (d, dek))
       | None \<Rightarrow>
           bind_s (urandom ce 32) (\<lambda>raw. let dek = urlsafe_b64encode raw in
           bind_s (on_class [SecretDecryptionError, SecretIntegrityError] (corrupted ''dek_wrap_failed'' name)
                     (wrap_dek ce dek (mk_key_material active_key) (st_wrap_algo gs))) (\<lambda>wrapped.
           bind_s (uuid4_hex ce) (\<lambda>hex.
             (let d = new_dek (''dek_'' @ hex) wrapped (st_wrap_algo gs) (mk_key_version active_key) now in
              bind_s (on_class [SecretStoreError] (corrupted ''dek_write_failed'' name) (upsert_dek (ce_config ce) d))
                (\<lambda>_. return_s (d, dek))))))))"

definition new_probe :: "guard_settings \<Rightarrow> token \<Rightarrow> master_key \<Rightarrow> vault_dek \<Rightarrow> string \<Rightarrow> vault_probe" where
  "new_probe gs ciphertext key d now =
     \<lparr>vp_probe_name = gs_probe_name gs, vp_ciphertext = ciphertext, vp_cipher_algo = st_cipher_algo gs,
      vp_key_version = mk_key_version key, vp_dek_version = vk_dek_version d, vp_created_at = now, vp_updated_at = now\<rparr>"

definition create_probe :: "crypto_env \<Rightarrow> key_provider \<Rightarrow> guard_settings \<Rightarrow> master_key \<Rightarrow> vault_probe vstep" where
  "create_probe ce kp gs active_key =
     (let name = gs_probe_name gs in
      bind_s (get_utc_now_iso ce) (\<lambda>now.
      bind_s (guard_ensure_active_dek ce kp gs active_key now) (\<lambda>(d, dek).
      bind_s (on_class [SecretDecryptionError, SecretIntegrityError] (corrupted ''probe_encrypt_failed'' name)
                (encrypt ce (gs_probe_payload gs) dek (st_cipher_algo gs))) (\<lambda>ciphertext.
      bind_s (on_class [SecretStoreError] (corrupted ''probe_write_failed'' name)
                (upsert_probe (ce_config ce) (new_probe gs ciphertext active_key d now))) (\<lambda>_.
      bind_s (load_probe ce gs) (\<lambda>stored. case stored of
          None \<Rightarrow> raise_v (corrupted ''probe_write_missing'' name)
        | Some p \<Rightarrow> return_s p))))))"

definition validate_probe_record :: "guard_settings \<Rightarrow> vault_probe \<Rightarrow> vault_error + unit" where
  "validate_probe_record gs p =
     (let wrong = (\<lambda>reason. Inl (corrupted reason (vp_probe_name p))) in
      if vp_probe_name p \<noteq> gs_probe_name gs then wrong ''probe_name_mismatch''
      else if vp_cipher_algo p = [] then wrong ''probe_cipher_algo_missing''
      else if vp_key_version p = [] then wrong ''probe_key_version_missing''
      else if vp_dek_version p = [] then wrong ''probe_dek_version_missing''
      else if token_bytes (vp_ciphertext p) = [] then wrong ''probe_ciphertext_missing''
      else Inr ())"

definition corrupted_dek :: "string \<Rightarrow> vault_probe \<Rightarrow> vault_error" where
  "corrupted_dek reason p = guard_error VaultStartupProbeCorruptedError
     [(''reason'', PStr reason), (''probe_name'', PStr (vp_probe_name p)), (''dek_version'', PStr (vp_dek_version p))]"

definition load_probe_dek :: "crypto_env \<Rightarrow> vault_probe \<Rightarrow> vault_dek vstep" where
  "load_probe_dek ce p =
     bind_s (on_class [SecretReadError] (corrupted_dek ''probe_dek_read_failed'' p) (get_dek (ce_config ce) (vp_dek_version p)))
       (\<lambda>d. case d of Some r \<Rightarrow> return_s r | None \<Rightarrow> raise_v (corrupted_dek ''probe_dek_missing'' p))"

definition verify_probe :: "crypto_env \<Rightarrow> key_provider \<Rightarrow> guard_settings \<Rightarrow> vault_probe \<Rightarrow> unit vstep" where
  "verify_probe ce kp gs p =
     bind_s (load_probe_dek ce p) (\<lambda>d.
     bind_s (unwrap_by_provider ce kp (guard_unwrap_failed d) d) (\<lambda>dek.
       (case decrypt ce (vp_ciphertext p) dek (vp_cipher_algo p) of
          Inl e \<Rightarrow>
            (if is_class SecretDecryptionError e
             then raise_v (guard_error VaultStartupKeyValidationError
               [(''reason'', PStr ''probe_decrypt_failed''), (''probe_name'', PStr (vp_probe_name p)),
                (''key_version'', PStr (vp_key_version p)), (''dek_version'', PStr (vp_dek_version p))])
             else if is_class SecretIntegrityError e then raise_v (corrupted_dek ''probe_ciphertext_corrupted'' p)
             else raise_v e)
        | Inr plain \<Rightarrow>
            (if plain \<noteq> gs_probe_payload gs then raise_v (corrupted ''probe_payload_mismatch'' (vp_probe_name p)) else return_s ()))))"

definition ensure_probe ::
    "crypto_env \<Rightarrow> key_provider \<Rightarrow> guard_settings \<Rightarrow> bool \<Rightarrow> master_key \<Rightarrow> vault_probe option \<Rightarrow> vault_probe vstep" where
  "ensure_probe ce kp gs readonly active_key found =
     (case found of
        Some p \<Rightarrow> return_s p
      | None \<Rightarrow> (if readonly
          then raise_v (guard_error VaultStartupUninitializedReadonlyError
            [(''reason'', PStr ''probe_missing''), (''probe_name'', PStr (gs_probe_name gs))])
          else create_probe ce kp gs active_key))"

definition ensure_ready :: "crypto_env \<Rightarrow> key_provider \<Rightarrow> guard_settings \<Rightarrow> unit vstep" where
  "ensure_ready ce kp gs =
     bind_s (kp_active kp) (\<lambda>active_key.
     bind_s (is_readonly (ce_config ce)) (\<lambda>readonly.
     bind_s (load_probe ce gs) (\<lambda>found.
     bind_s (ensure_probe ce kp gs readonly active_key found) (\<lambda>p.
     bind_s (lift_s (validate_probe_record gs p)) (\<lambda>_.
     bind_s (verify_probe ce kp gs p) (\<lambda>_.
       (if readonly \<and> gs_strict_readonly gs
        then raise_v (guard_error VaultStartupStorageReadonlyError
          [(''reason'', PStr ''readonly_storage''), (''probe_name'', PStr (gs_probe_name gs)), (''policy'', PStr ''strict_v1'')])
        else return_s ())))))))"

end
