(* ===== verification/Vault_Management.thy ===== *)
theory Vault_Management
  imports Vault_Services
begin

text \<open>
  \<open>usecases/management/vault\<close>: initialising the unseal metadata, status, verifying a passphrase, rotating it and
  rewrapping every data encryption key, with the post-verification of \<open>verify.py\<close>.
\<close>

text \<open>What the constructor takes; the factories are steps, as the default ones read clock and random source.\<close>

record management =
  mg_crypto :: crypto_env
  mg_now :: "string vstep"
  mg_run_id :: "string vstep"
  mg_key_version :: "string vstep"
  mg_post_verify :: "master_key list \<Rightarrow> unit vstep"

definition default_run_id :: "crypto_env \<Rightarrow> string vstep" where
  "default_run_id ce = bind_s (uuid4_hex ce) (\<lambda>h. return_s (''vault_mgmt_'' @ h))"

definition default_key_version :: "crypto_env \<Rightarrow> string vstep" where
  "default_key_version ce = bind_s (uuid4_hex ce) (\<lambda>h. return_s (''mk_'' @ h))"

definition operation_failed :: "string \<Rightarrow> (string, pyval) dict \<Rightarrow> vault_error" where
  "operation_failed m ds = Vault_Domain VaultManagementOperationError m ds"

definition guard_post_verify :: "crypto_env \<Rightarrow> guard_settings \<Rightarrow> master_key list \<Rightarrow> unit vstep" where
  "guard_post_verify ce gs keyring =
     (if keyring = []
      then raise_v (operation_failed ''Vault keyring is empty for post-verify'' (reason_detail ''empty_keyring_for_verify''))
      else ensure_ready ce (static_provider keyring) gs)"

definition make_management :: "crypto_env \<Rightarrow> guard_settings \<Rightarrow> management" where
  "make_management ce gs = \<lparr>mg_crypto = ce, mg_now = get_utc_now_iso ce, mg_run_id = default_run_id ce,
     mg_key_version = default_key_version ce, mg_post_verify = guard_post_verify ce gs\<rparr>"

abbreviation mg_config :: "management \<Rightarrow> vault_config" where
  "mg_config mg \<equiv> ce_config (mg_crypto mg)"

record management_status =
  vst_key_versions :: "string list"
  vst_active_key_version :: "string option"
  vst_initialized :: bool
  vst_dek_total :: int
  vst_dek_rewrap_required :: int
  vst_last_rotated_at :: "string option"
  vst_last_rotation_result :: "string option"
  vst_last_rotation_reason :: "string option"
  vst_last_rotation_run_id :: "string option"

record management_result =
  vres_operation :: string
  vres_run :: string
  vres_active_key_version :: string
  vres_dek_rewrapped_count :: int
  vres_rotated_at :: "string option"

section \<open>Helpers\<close>

definition effective_run_id :: "management \<Rightarrow> string option \<Rightarrow> string vstep" where
  "effective_run_id mg run_id = (if str_or run_id [] \<noteq> [] then return_s (str_or run_id []) else mg_run_id mg)"

definition mark_success :: "management \<Rightarrow> string \<Rightarrow> string \<Rightarrow> string option \<Rightarrow> unit vstep" where
  "mark_success mg run_id reason rotated_at =
     bind_s (set_last_rotation_run_id (mg_config mg) (Some run_id)) (\<lambda>_.
     bind_s (set_last_rotation_result (mg_config mg) ''ok'' (Some reason)) (\<lambda>_.
       case rotated_at of None \<Rightarrow> return_s () | Some iso_utc \<Rightarrow> set_last_rotated_at (mg_config mg) iso_utc))"

definition mark_failed :: "management \<Rightarrow> string \<Rightarrow> string \<Rightarrow> unit vstep" where
  "mark_failed mg run_id reason =
     bind_s (set_last_rotation_run_id (mg_config mg) (Some run_id)) (\<lambda>_.
       set_last_rotation_result (mg_config mg) ''failed'' (Some reason))"

definition as_operation_error :: "string \<Rightarrow> string \<Rightarrow> string \<Rightarrow> vault_error \<Rightarrow> vault_error" where
  "as_operation_error reason run_id operation e =
     (if is_class VaultManagementOperationError e then e
      else operation_failed ''Vault management operation failed''
        [(''reason'', PStr (if is_class SecretReadError e \<or> is_class SecretStoreError e then ''storage_error''
            else if is_class SecretKeyConfigError e \<or> is_class SecretDecryptionError e \<or> is_class SecretIntegrityError e
            then ''crypto_error'' else reason)),
         (''operation'', PStr operation), (''run_id'', PStr run_id), (''error_type'', PStr (error_type e))])"

text \<open>The handler of the three operations: the failure is noted, then reported.\<close>

definition or_mark_failed :: "management \<Rightarrow> string \<Rightarrow> string \<Rightarrow> string \<Rightarrow> 'a vstep \<Rightarrow> 'a vstep" where
  "or_mark_failed mg run_id operation reason m =
     try_s m (\<lambda>e. bind_s (mark_failed mg run_id reason) (\<lambda>_. raise_v (as_operation_error reason run_id operation e)))"

fun draw_key_version :: "management \<Rightarrow> string list \<Rightarrow> nat \<Rightarrow> string vstep" where
  "draw_key_version mg existing 0 =
     raise_v (operation_failed ''Failed to generate unique master key version'' (reason_detail ''key_version_collision''))"
| "draw_key_version mg existing (Suc n) =
     bind_s (mg_key_version mg) (\<lambda>v. if v \<notin> set existing then return_s v else draw_key_version mg existing n)"

definition unique_key_version :: "management \<Rightarrow> string list \<Rightarrow> string vstep" where
  "unique_key_version mg existing = draw_key_version mg existing 10"

definition require_metadata :: "management \<Rightarrow> string \<Rightarrow> string option \<Rightarrow> unseal_metadata vstep" where
  "require_metadata mg operation run_id =
     bind_s (get_unseal_metadata (mg_config mg)) (\<lambda>m. case m of
         Some md \<Rightarrow> return_s md
       | None \<Rightarrow> raise_v (operation_failed ''Vault unseal metadata is not initialized''
           [(''reason'', PStr ''unseal_not_initialized''), (''operation'', PStr operation), (''run_id'', opt_str run_id)]))"

definition mgmt_unwrap_dek :: "management \<Rightarrow> master_key list \<Rightarrow> vault_dek \<Rightarrow> vault_error + bytes" where
  "mgmt_unwrap_dek mg keys d =
     (case unwrap_with (mg_crypto mg) d keys of
        Inl e \<Rightarrow> Inl e
      | Inr (Some dek) \<Rightarrow> Inr dek
      | Inr None \<Rightarrow> Inl (operation_failed ''Failed to unwrap DEK during vault-management operation''
          [(''reason'', PStr ''dek_unwrap_failed''), (''dek_version'', PStr (vk_dek_version d)),
           (''wrap_key_version'', PStr (vk_wrap_key_version d))]))"

section \<open>Rewrapping\<close>

definition rewrapped_dek :: "vault_dek \<Rightarrow> token \<Rightarrow> string \<Rightarrow> string \<Rightarrow> vault_dek" where
  "rewrapped_dek d wrapped key_version updated_at =
     d\<lparr>vk_wrapped_dek := wrapped, vk_wrap_key_version := key_version, vk_updated_at := updated_at\<rparr>"

definition rewrap_one :: "management \<Rightarrow> master_key \<Rightarrow> master_key list \<Rightarrow> string \<Rightarrow> vault_dek \<Rightarrow> unit vstep" where
  "rewrap_one mg active_key candidates updated_at d =
     bind_s (lift_s (mgmt_unwrap_dek mg candidates d)) (\<lambda>dek.
     bind_s (wrap_dek (mg_crypto mg) dek (mk_key_material active_key) (vk_wrap_algo d)) (\<lambda>wrapped.
       upsert_dek (mg_config mg) (rewrapped_dek d wrapped (mk_key_version active_key) updated_at)))"

fun rewrap_each :: "(vault_dek \<Rightarrow> unit vstep) \<Rightarrow> vault_dek list \<Rightarrow> int \<Rightarrow> int vstep" where
  "rewrap_each one [] n = return_s n"
| "rewrap_each one (d # ds) n = bind_s (one d) (\<lambda>_. rewrap_each one ds (n + 1))"

definition rewrap_in_transaction ::
    "management \<Rightarrow> master_key \<Rightarrow> master_key list \<Rightarrow> string \<Rightarrow> string \<Rightarrow> unseal_metadata option \<Rightarrow> int vstep" where
  "rewrap_in_transaction mg active_key candidates run_id in_progress_reason new_metadata =
     bind_s (mg_now mg) (\<lambda>updated_at.
       transaction_v (mg_config mg)
         (bind_s (set_last_rotation_run_id (mg_config mg) (Some run_id)) (\<lambda>_.
          bind_s (set_last_rotation_result (mg_config mg) ''rotating'' (Some in_progress_reason)) (\<lambda>_.
          bind_s (case new_metadata of None \<Rightarrow> return_s () | Some m \<Rightarrow> upsert_unseal_metadata (mg_config mg) m) (\<lambda>_.
          bind_s (list_deks (mg_config mg)) (\<lambda>ds.
            rewrap_each (rewrap_one mg active_key candidates updated_at) ds 0))))))"

section \<open>Operations\<close>

definition already_initialized :: "string \<Rightarrow> unseal_metadata \<Rightarrow> vault_error" where
  "already_initialized run_id m = operation_failed ''Vault unseal metadata is already initialized''
     [(''reason'', PStr ''already_initialized''), (''run_id'', PStr run_id), (''active_key_version'', PStr (um_key_version m))]"

definition init_keyring :: "management \<Rightarrow> string \<Rightarrow> string option \<Rightarrow> management_result vstep" where
  "init_keyring mg passphrase run_id =
     bind_s (effective_run_id mg run_id) (\<lambda>run.
     bind_s (get_unseal_metadata (mg_config mg)) (\<lambda>existing. case existing of
       Some m \<Rightarrow> raise_v (already_initialized run m)
     | None \<Rightarrow>
         bind_s (mg_now mg) (\<lambda>now.
         bind_s (unique_key_version mg []) (\<lambda>version.
         bind_s (create_metadata (mg_crypto mg) passphrase version now) (\<lambda>(metadata, active_key).
         bind_s (or_mark_failed mg run ''init'' ''init_failed''
             (transaction_v (mg_config mg)
                (bind_s (upsert_unseal_metadata (mg_config mg) metadata) (\<lambda>_. mg_post_verify mg [active_key])))) (\<lambda>_.
         bind_s (mark_success mg run ''init_completed'' (Some now)) (\<lambda>_.
           return_s \<lparr>vres_operation = ''init'', vres_run = run, vres_active_key_version = mk_key_version active_key,
             vres_dek_rewrapped_count = 0, vres_rotated_at = Some now\<rparr>)))))))"

definition status :: "management \<Rightarrow> management_status vstep" where
  "status mg =
     bind_s (get_unseal_metadata (mg_config mg)) (\<lambda>metadata.
     bind_s (list_deks (mg_config mg)) (\<lambda>deks.
     bind_s (get_last_rotated_at (mg_config mg)) (\<lambda>rotated_at.
     bind_s (get_last_rotation_result (mg_config mg)) (\<lambda>res.
     bind_s (get_last_rotation_reason (mg_config mg)) (\<lambda>reason.
     bind_s (get_last_rotation_run_id (mg_config mg)) (\<lambda>run.
       (let active = map_option um_key_version metadata in return_s
         \<lparr>vst_key_versions = (case active of None \<Rightarrow> [] | Some v \<Rightarrow> [v]), vst_active_key_version = active,
          vst_initialized = (metadata \<noteq> None), vst_dek_total = int (length deks),
          vst_dek_rewrap_required = int (case active of None \<Rightarrow> length deks
             | Some v \<Rightarrow> length (filter (\<lambda>d. vk_wrap_key_version d \<noteq> v) deks)),
          vst_last_rotated_at = rotated_at, vst_last_rotation_result = res, vst_last_rotation_reason = reason,
          vst_last_rotation_run_id = run\<rparr>)))))))"

definition verify_unseal :: "management \<Rightarrow> string \<Rightarrow> master_key vstep" where
  "verify_unseal mg passphrase =
     bind_s (require_metadata mg ''status'' None) (\<lambda>metadata.
     bind_s (lift_s (derive_key (mg_crypto mg) passphrase metadata)) (\<lambda>active_key.
     bind_s (mg_post_verify mg [active_key]) (\<lambda>_. return_s active_key)))"

definition rotate_and_rewrap :: "management \<Rightarrow> string \<Rightarrow> string \<Rightarrow> string option \<Rightarrow> management_result vstep" where
  "rotate_and_rewrap mg current_passphrase new_passphrase run_id =
     bind_s (effective_run_id mg run_id) (\<lambda>run.
     bind_s (require_metadata mg ''rotate'' (Some run)) (\<lambda>metadata.
     bind_s (lift_s (derive_key (mg_crypto mg) current_passphrase metadata)) (\<lambda>old_key.
     bind_s (mg_now mg) (\<lambda>now.
     bind_s (unique_key_version mg [um_key_version metadata]) (\<lambda>version.
     bind_s (create_metadata (mg_crypto mg) new_passphrase version now) (\<lambda>(new_metadata, new_key).
     bind_s (or_mark_failed mg run ''rotate'' ''rotate_failed''
         (bind_s (rewrap_in_transaction mg new_key [old_key] run ''rotate_in_progress'' (Some new_metadata)) (\<lambda>n.
          bind_s (mg_post_verify mg [new_key]) (\<lambda>_. return_s n)))) (\<lambda>n.
     bind_s (mark_success mg run ''rotate_completed'' (Some now)) (\<lambda>_.
       return_s \<lparr>vres_operation = ''rotate'', vres_run = run, vres_active_key_version = mk_key_version new_key,
         vres_dek_rewrapped_count = n, vres_rotated_at = Some now\<rparr>))))))))"

definition rewrap_all_dek :: "management \<Rightarrow> string \<Rightarrow> string option \<Rightarrow> management_result vstep" where
  "rewrap_all_dek mg passphrase run_id =
     bind_s (effective_run_id mg run_id) (\<lambda>run.
     bind_s (require_metadata mg ''rewrap'' (Some run)) (\<lambda>metadata.
     bind_s (lift_s (derive_key (mg_crypto mg) passphrase metadata)) (\<lambda>active_key.
     bind_s (or_mark_failed mg run ''rewrap'' ''rewrap_failed''
         (bind_s (rewrap_in_transaction mg active_key [active_key] run ''rewrap_in_progress'' None) (\<lambda>n.
          bind_s (mg_post_verify mg [active_key]) (\<lambda>_. return_s n)))) (\<lambda>n.
     bind_s (mark_success mg run ''rewrap_completed'' None) (\<lambda>_.
       return_s \<lparr>vres_operation = ''rewrap'', vres_run = run, vres_active_key_version = mk_key_version active_key,
         vres_dek_rewrapped_count = n, vres_rotated_at = None\<rparr>)))))"

end
