(* ===== verification/Vault_Logic.thy ===== *)
theory Vault_Logic
  imports Vault_Management
begin

text \<open>
  Reasoning about steps of the vault.  \<open>wpe\<close> is the weakest precondition with the exception in the second
  postcondition.  Two conditions on a step, each closed under the ways to build steps: \<open>in_tx\<close>, that inside a
  transaction it neither commits nor, when it ends normally, leaves the transaction; and \<open>keeps P\<close>, that it keeps
  a condition on the tables, whatever statement fails.
\<close>

section \<open>Weakest preconditions\<close>

definition wpe :: "('s, 'e, 'a) gstep \<Rightarrow> ('a \<Rightarrow> 's \<Rightarrow> bool) \<Rightarrow> ('e \<Rightarrow> 's \<Rightarrow> bool) \<Rightarrow> 's \<Rightarrow> bool" where
  "wpe m Q E st = (case m st of (st', Inl e) \<Rightarrow> E e st' | (st', Inr a) \<Rightarrow> Q a st')"

named_theorems wpes "weakest preconditions with the exception"

lemma wpe_bind [wpes]: "wpe (bind_s m f) Q E = wpe m (\<lambda>a. wpe (f a) Q E) E"
  by (simp add: fun_eq_iff wpe_def bind_s_def split: prod.split sum.split)

lemma wpe_try [wpes]: "wpe (try_s m h) Q E = wpe m Q (\<lambda>e. wpe (h e) Q E)"
  by (simp add: fun_eq_iff wpe_def try_s_def split: prod.split sum.split)

lemma wpe_return [wpes]: "wpe (return_s a) Q E = Q a"
  by (simp add: fun_eq_iff wpe_def return_s_def)

lemma wpe_raise [wpes]: "wpe (raise_v e) Q E = E e"
  by (simp add: fun_eq_iff wpe_def raise_v_def lift_s_def)

lemma wpe_lift [wpes]: "wpe (lift_s r) Q E st = (case r of Inl e \<Rightarrow> E e st | Inr a \<Rightarrow> Q a st)"
  by (simp add: wpe_def lift_s_def)

lemma wpe_update [wpes]: "wpe (update_s f) Q E = (\<lambda>st. Q () (f st))"
  by (simp add: fun_eq_iff wpe_def update_s_def)

lemma wpe_call [wpes]: "wpe (call_s f) Q E = (\<lambda>st. Q (snd (f st)) (fst (f st)))"
  by (simp add: fun_eq_iff wpe_def call_s_def split: prod.split)

lemma wpe_if [wpes]: "wpe (if b then m else n) Q E = (if b then wpe m Q E else wpe n Q E)"
  by simp

lemma wpe_mono:
  "wpe m Q E st \<Longrightarrow> (\<And>a st'. Q a st' \<Longrightarrow> Q' a st') \<Longrightarrow> (\<And>e st'. E e st' \<Longrightarrow> E' e st') \<Longrightarrow> wpe m Q' E' st"
  by (auto simp: wpe_def split: prod.split sum.split)

lemma wpe_conj: "wpe m Q E st \<Longrightarrow> wpe m Q' E' st \<Longrightarrow> wpe m (\<lambda>a s. Q a s \<and> Q' a s) (\<lambda>e s. E e s \<and> E' e s) st"
  by (auto simp: wpe_def split: prod.split sum.split)

lemma wpe_Inr: "wpe m Q E st \<Longrightarrow> m st = (st', Inr a) \<Longrightarrow> Q a st'"
  by (simp add: wpe_def)

lemma wpe_Inl: "wpe m Q E st \<Longrightarrow> m st = (st', Inl e) \<Longrightarrow> E e st'"
  by (simp add: wpe_def)

lemma wpe_meet_fault [wpes]:
  "wpe meet_fault Q E st =
     (case vs_faults st of
        [] \<Rightarrow> Q () st
      | None # rest \<Rightarrow> Q () (st\<lparr>vs_faults := rest\<rparr>)
      | Some f # rest \<Rightarrow> E (Vault_Sqlite (sf_error f))
          (if sf_ends_transaction f \<and> \<not> is_schema_changed (sf_error f) then end_transaction (st\<lparr>vs_faults := rest\<rparr>)
           else st\<lparr>vs_faults := rest\<rparr>))"
proof (cases "vs_faults st")
  case (Cons f rest)
  then show ?thesis by (cases f) (simp_all add: wpe_def meet_fault_def Let_def)
qed (simp add: wpe_def meet_fault_def)

lemma wpe_in_transaction [wpes]: "wpe in_transaction Q E = (\<lambda>st. Q (vs_saved st \<noteq> None) st)"
  by (simp add: in_transaction_def wpes)

section \<open>Inside a transaction\<close>

definition in_tx :: "'a vstep \<Rightarrow> bool" where
  "in_tx m \<longleftrightarrow> (\<forall>t st. vs_saved st = Some t \<longrightarrow> wpe m (\<lambda>a s. vs_saved s = Some t) (\<lambda>e s. committed s = t) st)"

text \<open>A statement: an error that leads to a retry has left the transaction open.\<close>

definition statement_tx :: "'a vstep \<Rightarrow> bool" where
  "statement_tx m \<longleftrightarrow> (\<forall>t st. vs_saved st = Some t \<longrightarrow> wpe m (\<lambda>a s. vs_saved s = Some t)
     (\<lambda>e s. committed s = t \<and> (\<forall>se. e = Vault_Sqlite se \<and> is_schema_changed se \<longrightarrow> vs_saved s = Some t)) st)"

named_theorems txs "steps that stay inside their transaction"

lemma committed_simps [simp]:
  "vs_saved st = Some t \<Longrightarrow> committed st = t" "vs_saved st = None \<Longrightarrow> committed st = vs_tables st"
  "committed (end_transaction st) = committed st" "vs_saved (end_transaction st) = None"
  "vs_tables (end_transaction st) = committed st"
  "committed (st\<lparr>vs_faults := fs\<rparr>) = committed st" "committed (st\<lparr>vs_clock := n\<rparr>) = committed st"
  "committed (st\<lparr>vs_key := k\<rparr>) = committed st"
  by (simp_all add: committed_def end_transaction_def split: option.split)

lemma in_tx_return [txs]: "in_tx (return_s a)"
  by (simp add: in_tx_def wpes)

lemma in_tx_raise [txs]: "in_tx (raise_v e)"
  by (simp add: in_tx_def wpes)

lemma in_tx_lift [txs]: "in_tx (lift_s r)"
  by (simp add: in_tx_def wpes split: sum.split)

lemma in_tx_tick [txs]: "in_tx tick"
  by (simp add: in_tx_def tick_def wpes)

lemma in_tx_cached [txs]: "in_tx (update_s (\<lambda>st. st\<lparr>vs_key := k\<rparr>))"
  by (simp add: in_tx_def wpes)

lemma in_tx_bind [txs]: "in_tx m \<Longrightarrow> (\<And>a. in_tx (f a)) \<Longrightarrow> in_tx (bind_s m f)"
  by (fastforce simp: in_tx_def wpes elim: wpe_mono)

text \<open>A handler that raises again.\<close>

lemma in_tx_reraise [txs]: "in_tx m \<Longrightarrow> in_tx (try_s m (\<lambda>e. raise_v (g e)))"
  by (fastforce simp: in_tx_def wpes elim: wpe_mono)

lemma in_tx_on_sqlite_error [txs]: "in_tx m \<Longrightarrow> in_tx (on_sqlite_error f m)"
  by (fastforce simp: in_tx_def on_sqlite_error_def wpes elim: wpe_mono split: vault_error.split)

lemma in_tx_on_class [txs]: "in_tx m \<Longrightarrow> in_tx (on_class cs f m)"
  by (fastforce simp: in_tx_def on_class_def wpes elim: wpe_mono)

lemma statement_select [txs]: "statement_tx (run_select q)"
  by (simp add: statement_tx_def run_select_def wpes split: list.split option.split)

lemma statement_write [txs]: "statement_tx (run_write cf f)"
  by (auto simp: statement_tx_def run_write_def need_write_def wpes split: list.split option.split sum.split)

lemma in_tx_retry [txs]: "statement_tx m \<Longrightarrow> in_tx (execute_with_retry m n)"
proof (induction n)
  case 0
  then show ?case by (fastforce simp: statement_tx_def in_tx_def elim: wpe_mono)
next
  case (Suc n)
  have "wpe (execute_with_retry m (Suc n)) (\<lambda>a s. vs_saved s = Some t) (\<lambda>e s. committed s = t) st" if "vs_saved st = Some t" for t st
  proof -
    have first: "wpe m (\<lambda>a s. vs_saved s = Some t)
        (\<lambda>e s. committed s = t \<and> (\<forall>se. e = Vault_Sqlite se \<and> is_schema_changed se \<longrightarrow> vs_saved s = Some t)) st"
      using Suc.prems that by (simp add: statement_tx_def)
    have again: "wpe (case e of Vault_Sqlite se \<Rightarrow>
          if se_operational se \<and> is_schema_changed se then execute_with_retry m n else raise_v e | _ \<Rightarrow> raise_v e)
        (\<lambda>a s. vs_saved s = Some t) (\<lambda>e s. committed s = t) s"
      if "committed s = t \<and> (\<forall>se. e = Vault_Sqlite se \<and> is_schema_changed se \<longrightarrow> vs_saved s = Some t)" for e s
      using that Suc.IH [OF Suc.prems] by (cases e) (simp_all add: wpes in_tx_def)
    show ?thesis unfolding execute_with_retry.simps wpe_try by (rule wpe_mono [OF first], assumption, rule again)
  qed
  then show ?case by (simp add: in_tx_def)
qed

lemma in_tx_execute_write [txs]: "in_tx (execute_write cf operation ds f)"
  by (simp add: execute_write_def txs)

lemma in_tx_fetch_read [txs]: "in_tx (fetch_read cf operation ds q)"
  by (simp add: fetch_read_def txs)

lemma in_tx_autobegin [txs]: "in_tx m \<Longrightarrow> in_tx (autobegin cf m)"
  by (simp add: in_tx_def autobegin_def wpes)

lemma in_tx_repository [txs]:
  "in_tx (upsert_secret cf r)" "in_tx (get_secret_row cf dataset fld mk h v run_id)" "in_tx (delete_secret cf dataset fld h v run_id)"
  "in_tx (upsert_dek cf d)" "in_tx (get_dek cf v)" "in_tx (get_active_dek cf)" "in_tx (list_deks cf)"
  "in_tx (upsert_probe cf p)" "in_tx (get_probe cf name)" "in_tx (upsert_unseal_metadata cf m)" "in_tx (get_unseal_metadata cf)"
  "in_tx (set_last_rotation_run_id cf (Some w))" "in_tx (set_last_rotation_result cf x (Some y))"
  by (auto simp: upsert_secret_def get_secret_row_def get_secret_by_match_key_def delete_secret_def upsert_dek_def get_dek_def
      get_active_dek_def list_deks_def upsert_probe_def get_probe_def upsert_unseal_metadata_def get_unseal_metadata_def
      set_last_rotation_run_id_def set_last_rotation_result_def set_meta_value_def Let_def intro!: txs split: option.split)

text \<open>
  A transaction around such a step: when it ends normally it is committed, when it raises the tables that others
  read are those from before - even when the rollback fails.
\<close>

lemma engine_transaction_wpe:
  assumes body: "in_tx body" and out: "vs_saved st = None"
  shows "wpe (engine_transaction cf locks body) (\<lambda>a s. vs_saved s = None) (\<lambda>e s. committed s = vs_tables st) st"
proof -
  have rollback: "wpe run_rollback (\<lambda>u s. committed s = t) (\<lambda>e s. committed s = t) s" if "committed s = t" for s t
    using that by (auto simp: run_rollback_def wpes split: list.split option.split)
  have commit: "wpe run_commit (\<lambda>u s. vs_saved s = None) (\<lambda>e s. committed s = t) s" if "vs_saved s = Some t" for s t
    using that by (auto simp: run_commit_def wpes split: list.split option.split)
  have guarded: "wpe (try_s (bind_s body (\<lambda>a. bind_s run_commit (\<lambda>_. return_s a))) (\<lambda>e. bind_s run_rollback (\<lambda>_. raise_v e)))
      (\<lambda>a s. vs_saved s = None) (\<lambda>e s. committed s = t) s" if "vs_saved s = Some t" for s t
  proof -
    have "wpe body (\<lambda>a s. vs_saved s = Some t) (\<lambda>e s. committed s = t) s" using body that by (simp add: in_tx_def)
    then show ?thesis by (auto simp: wpes elim!: wpe_mono intro!: wpe_mono [OF commit] wpe_mono [OF rollback] rollback)
  qed
  have start: "wpe (run_begin cf locks) (\<lambda>u s. vs_saved s = Some (vs_tables st)) (\<lambda>e s. committed s = vs_tables st) st"
    using out by (auto simp: run_begin_def need_write_def wpes split: list.split option.split)
  show ?thesis
    using out unfolding engine_transaction_def wpe_bind [of in_transaction] wpe_in_transaction
    by (simp add: wpe_bind [of "run_begin cf locks"]) (rule wpe_mono [OF start], auto intro: guarded)
qed

lemma transaction_wpe:
  assumes "in_tx body" "vs_saved st = None"
  shows "wpe (transaction_v cf body) (\<lambda>a s. vs_saved s = None) (\<lambda>e s. committed s = vs_tables st) st"
  using engine_transaction_wpe [OF assms, of cf True]
  by (auto simp: transaction_v_def wpes elim!: wpe_mono split: vault_error.split)

section \<open>What one statement does\<close>

text \<open>
  After a failure only the list of coming faults is different, or the transaction is over as well.
\<close>

definition moved :: "vault_state \<Rightarrow> vault_state \<Rightarrow> bool" where
  "moved st s \<longleftrightarrow> s\<lparr>vs_faults := []\<rparr> = st\<lparr>vs_faults := []\<rparr>"

lemma moved_ex: "moved st s \<longleftrightarrow> (\<exists>fs. s = st\<lparr>vs_faults := fs\<rparr>)"
  by (cases s; cases st) (auto simp: moved_def)

definition backed :: "vault_state \<Rightarrow> vault_state \<Rightarrow> bool" where
  "backed st s \<longleftrightarrow> moved st s \<or> moved (end_transaction st) s"

lemma moved_simps [simp]:
  "moved st st" "moved (st\<lparr>vs_faults := fs\<rparr>) s = moved st s" "moved st (s\<lparr>vs_faults := fs\<rparr>) = moved st s"
  by (auto simp: moved_def)

lemma end_transaction_faults [simp]: "end_transaction (st\<lparr>vs_faults := fs\<rparr>) = (end_transaction st)\<lparr>vs_faults := fs\<rparr>"
  by (simp add: end_transaction_def)

lemma backed_simps [simp]:
  "backed st st" "backed st (end_transaction st)" "backed (st\<lparr>vs_faults := fs\<rparr>) s = backed st s"
  "backed st (s\<lparr>vs_faults := fs\<rparr>) = backed st s"
  by (simp_all add: backed_def)

lemma moved_parts:
  "moved st s \<Longrightarrow> vs_tables s = vs_tables st \<and> vs_saved s = vs_saved st \<and> vs_key s = vs_key st \<and> vs_clock s = vs_clock st"
  by (auto simp: moved_ex)

lemma moved_trans: "moved st s \<Longrightarrow> moved s s' \<Longrightarrow> moved st s'"
  by (auto simp: moved_def)

lemma backed_committed: "backed st s \<Longrightarrow> committed s = committed st"
  by (auto simp: backed_def moved_ex)

definition statement_failed :: "vault_state \<Rightarrow> vault_error \<Rightarrow> vault_state \<Rightarrow> bool" where
  "statement_failed st e s \<longleftrightarrow> (\<exists>se. e = Vault_Sqlite se \<and> backed st s \<and> (is_schema_changed se \<longrightarrow> moved st s))"

lemma retry_wpe:
  assumes "\<And>s. moved st s \<Longrightarrow> wpe m Q (statement_failed st) s" "moved st s"
  shows "wpe (execute_with_retry m n) Q (statement_failed st) s"
  using assms(2)
proof (induction n arbitrary: s)
  case 0
  then show ?case using assms(1) by simp
next
  case (Suc n)
  have again: "wpe (case e of Vault_Sqlite se \<Rightarrow>
          if se_operational se \<and> is_schema_changed se then execute_with_retry m n else raise_v e | _ \<Rightarrow> raise_v e)
        Q (statement_failed st) s'" if failed: "statement_failed st e s'" for e s'
  proof -
    obtain se where e: "e = Vault_Sqlite se" and open_tx: "is_schema_changed se \<longrightarrow> moved st s'"
      using failed by (auto simp: statement_failed_def)
    show ?thesis using failed open_tx Suc.IH [of s'] by (simp add: e wpes)
  qed
  show ?case
    unfolding execute_with_retry.simps wpe_try by (rule wpe_mono [OF assms(1) [OF Suc.prems]], assumption, rule again)
qed

lemma select_wpe: "moved st s \<Longrightarrow> wpe (run_select q) (\<lambda>a s. a = q (vs_tables st) \<and> moved st s) (statement_failed st) s"
  by (auto simp: run_select_def wpes statement_failed_def moved_parts split: list.split option.split)
    (auto simp: moved_ex backed_def)

lemma readonly_not_schema [simp]: "\<not> is_schema_changed readonly_error"
  by code_simp

definition written :: "(vault_tables \<Rightarrow> sqlite_error + vault_tables \<times> 'a) \<Rightarrow> vault_state \<Rightarrow> 'a \<Rightarrow> vault_state \<Rightarrow> bool" where
  "written f st a s \<longleftrightarrow> (\<exists>t. f (vs_tables st) = Inr (t, a) \<and> moved (st\<lparr>vs_tables := t\<rparr>) s)"

lemma write_wpe:
  assumes "\<And>e. f (vs_tables st) = Inl e \<Longrightarrow> \<not> is_schema_changed e" "moved st s"
  shows "wpe (run_write cf f) (\<lambda>a s. \<not> vc_readonly cf \<and> written f st a s) (statement_failed st) s"
proof -
  obtain fs where s: "s = st\<lparr>vs_faults := fs\<rparr>" using assms(2) by (auto simp: moved_ex)
  have "wpe (bind_s (need_write cf) (\<lambda>_. bind_s (call_s (\<lambda>st. (st, f (vs_tables st)))) (\<lambda>r. (case r of
          Inl e \<Rightarrow> raise_v (Vault_Sqlite e)
        | Inr (t, a) \<Rightarrow> bind_s (update_s (\<lambda>st. st\<lparr>vs_tables := t\<rparr>)) (\<lambda>_. return_s a)))))
      (\<lambda>a s. \<not> vc_readonly cf \<and> written f st a s) (statement_failed st) (st\<lparr>vs_faults := rest\<rparr>)" for rest
  proof (cases "f (vs_tables st)")
    case (Inl e)
    then show ?thesis using assms(1) by (auto simp: need_write_def wpes statement_failed_def)
  next
    case (Inr p)
    obtain t a where p: "p = (t, a)" by (cases p)
    show ?thesis using Inr p by (auto simp: need_write_def wpes statement_failed_def written_def moved_def)
  qed
  then show ?thesis
    unfolding s run_write_def wpe_bind [of meet_fault] wpe_meet_fault
    by (auto simp: statement_failed_def split: list.split option.split)
qed

definition failed_with :: "vault_error_class \<Rightarrow> vault_state \<Rightarrow> vault_error \<Rightarrow> vault_state \<Rightarrow> bool" where
  "failed_with c st e s \<longleftrightarrow> is_class c e \<and> backed st s"

lemma fetch_read_wpe [wpes]:
  "wpe (fetch_read cf operation ds q) (\<lambda>a s. a = q (vs_tables st) \<and> moved st s) (failed_with SecretReadError st) st"
  unfolding fetch_read_def on_sqlite_error_def wpe_try
  by (rule wpe_mono [OF retry_wpe [OF select_wpe]])
    (auto simp: statement_failed_def failed_with_def wpes map_read_error_def)

lemma execute_write_wpe:
  assumes "\<And>e. f (vs_tables st) = Inl e \<Longrightarrow> \<not> is_schema_changed e"
  shows "wpe (execute_write cf operation ds f) (\<lambda>a s. \<not> vc_readonly cf \<and> written f st a s) (failed_with SecretStoreError st) st"
  unfolding execute_write_def on_sqlite_error_def wpe_try
  by (rule wpe_mono [OF retry_wpe [OF write_wpe [OF assms]]])
    (auto simp: statement_failed_def failed_with_def wpes map_store_error_def)

section \<open>Keeping a condition on the tables\<close>

definition inv_both :: "(vault_tables \<Rightarrow> bool) \<Rightarrow> vault_state \<Rightarrow> bool" where
  "inv_both P st \<longleftrightarrow> P (vs_tables st) \<and> P (committed st)"

definition keeps :: "(vault_tables \<Rightarrow> bool) \<Rightarrow> 'a vstep \<Rightarrow> bool" where
  "keeps P m \<longleftrightarrow> (\<forall>st. inv_both P st \<longrightarrow> wpe m (\<lambda>a. inv_both P) (\<lambda>e. inv_both P) st)"

named_theorems keeping "steps that keep a condition on the tables"

lemma keeps_final: "keeps P m \<Longrightarrow> inv_both P st \<Longrightarrow> inv_both P (fst (m st))"
  by (cases "m st"; cases "snd (m st)") (auto simp: keeps_def wpe_def)

lemma inv_both_moved: "moved st s \<Longrightarrow> inv_both P s = inv_both P st"
  by (auto simp: moved_ex inv_both_def)

lemma inv_both_backed: "backed st s \<Longrightarrow> inv_both P st \<Longrightarrow> inv_both P s"
  by (auto simp: backed_def inv_both_def moved_ex)

lemma keeps_basic [keeping]:
  "keeps P (return_s a)" "keeps P (raise_v e)" "keeps P (lift_s r)" "keeps P tick"
  "keeps P (update_s (\<lambda>st. st\<lparr>vs_key := k\<rparr>))" "keeps P in_transaction"
  by (simp_all add: keeps_def wpes tick_def inv_both_def split: sum.split)

lemma keeps_bind [keeping]: "keeps P m \<Longrightarrow> (\<And>a. keeps P (f a)) \<Longrightarrow> keeps P (bind_s m f)"
  by (fastforce simp: keeps_def wpes elim: wpe_mono)

lemma keeps_try [keeping]: "keeps P m \<Longrightarrow> (\<And>e. keeps P (h e)) \<Longrightarrow> keeps P (try_s m h)"
  by (fastforce simp: keeps_def wpes elim: wpe_mono)

lemma keeps_on_class [keeping]: "keeps P m \<Longrightarrow> keeps P (on_class cs f m)"
  by (auto simp: on_class_def intro!: keeping)

lemma keeps_fetch_read [keeping]: "keeps P (fetch_read cf operation ds q)"
  unfolding keeps_def
  by (intro allI impI, rule wpe_mono [OF fetch_read_wpe]) (auto simp: failed_with_def inv_both_moved inv_both_backed)

lemma keeps_execute_write:
  assumes "\<And>t e. f t = Inl e \<Longrightarrow> \<not> is_schema_changed e" "\<And>t t' a. P t \<Longrightarrow> f t = Inr (t', a) \<Longrightarrow> P t'"
  shows "keeps P (execute_write cf operation ds f)"
proof -
  have "inv_both P s" if "inv_both P st" "written f st a s" for st a s
    using that assms(2) by (auto simp: inv_both_def written_def moved_ex committed_def split: option.splits)
  then have post: "inv_both P s" if "inv_both P st" "\<not> vc_readonly cf \<and> written f st a s" for st a s
    using that by blast
  show ?thesis
    unfolding keeps_def
  proof (intro allI impI)
    fix st
    assume inv: "inv_both P st"
    show "wpe (execute_write cf operation ds f) (\<lambda>a. inv_both P) (\<lambda>e. inv_both P) st"
      by (rule wpe_mono [OF execute_write_wpe [of f st, OF assms(1)]])
        (auto intro: post [OF inv] inv_both_backed [OF _ inv] simp: failed_with_def)
  qed
qed

lemma keeps_meet_fault [keeping]: "keeps P meet_fault"
  by (auto simp: keeps_def wpes inv_both_def split: list.split option.split)

lemma keeps_begin [keeping]: "keeps P (run_begin cf locks)"
proof -
  have "keeps P (update_s (\<lambda>st. st\<lparr>vs_saved := Some (vs_tables st)\<rparr>))" by (simp add: keeps_def wpes inv_both_def)
  then show ?thesis by (auto simp: run_begin_def need_write_def intro!: keeping)
qed

lemma keeps_commit [keeping]: "keeps P run_commit"
proof -
  have "keeps P (update_s (\<lambda>st. st\<lparr>vs_saved := None\<rparr>))" by (simp add: keeps_def wpes inv_both_def)
  then show ?thesis by (auto simp: run_commit_def intro!: keeping)
qed

lemma keeps_rollback [keeping]: "keeps P run_rollback"
proof -
  have "keeps P (update_s end_transaction)" by (simp add: keeps_def wpes inv_both_def)
  then show ?thesis by (auto simp: run_rollback_def intro!: keeping)
qed

lemma keeps_engine_transaction [keeping]: "keeps P m \<Longrightarrow> keeps P (engine_transaction cf locks m)"
  by (auto simp: engine_transaction_def intro!: keeping)

lemma keeps_autobegin [keeping]: "keeps P m \<Longrightarrow> keeps P (autobegin cf m)"
  by (auto simp: autobegin_def intro!: keeping)

lemma keeps_is_readonly [keeping]: "keeps P (is_readonly cf)"
  by (auto simp: is_readonly_def intro!: keeping split: vault_error.split)

lemma keeps_transaction [keeping]: "keeps P m \<Longrightarrow> keeps P (transaction_v cf m)"
  by (auto simp: transaction_v_def intro!: keeping split: vault_error.split)

end
