(* ===== verification/Vault_Safety.thy ===== *)
theory Vault_Safety
  imports Vault_Logic
begin

text \<open>
  The services of the vault inside a transaction and their invariant: a key provider as a locale, interpreted on the
  two providers of the code; a condition on the tables as a locale, interpreted on the invariant \<open>vault_ok\<close>; the
  atomicity of \<open>put_many\<close>, the invariant of every operation, the deletions of the retention service.
\<close>

section \<open>Key providers\<close>

text \<open>
  What the services rely on: asking for keys stays inside the transaction and changes no table, whatever fails.
\<close>

locale vault_key_provider =
  fixes kp :: key_provider
  assumes provider_tx: "in_tx (kp_active kp)" "in_tx (kp_all kp)" "in_tx (kp_find kp v)"
    and provider_keeps: "keeps P (kp_active kp)" "keeps P (kp_all kp)" "keeps P (kp_find kp v)"
begin

lemma candidates_tx [txs]: "in_tx (candidate_master_keys kp v)"
  by (auto simp: candidate_master_keys_def intro!: txs provider_tx)

lemma candidates_keep [keeping]: "keeps P (candidate_master_keys kp v)"
  by (auto simp: candidate_master_keys_def intro!: keeping provider_keeps)

lemma unwrap_tx [txs]: "in_tx (unwrap_by_provider ce kp e d)"
  by (auto simp: unwrap_by_provider_def intro!: txs split: option.split)

lemma unwrap_keeps [keeping]: "keeps P (unwrap_by_provider ce kp e d)"
  by (auto simp: unwrap_by_provider_def intro!: keeping split: option.split)

end

lemma in_tx_crypto [txs]:
  "in_tx (get_utc_now_iso ce)" "in_tx (urandom ce n)" "in_tx (uuid4_hex ce)"
  "in_tx (encrypt ce plaintext dek algo)" "in_tx (wrap_dek ce dek material algo)"
  by (auto simp: get_utc_now_iso_def urandom_def uuid4_hex_def encrypt_def wrap_dek_def intro!: txs)

lemma keeps_crypto [keeping]:
  "keeps P (get_utc_now_iso ce)" "keeps P (urandom ce n)" "keeps P (uuid4_hex ce)"
  "keeps P (encrypt ce plaintext dek algo)" "keeps P (wrap_dek ce dek material algo)"
  by (auto simp: get_utc_now_iso_def urandom_def uuid4_hex_def encrypt_def wrap_dek_def intro!: keeping)

lemma keeps_reads [keeping]:
  "keeps P (get_secret_row cf dataset fld mk h v run_id)" "keeps P (get_dek cf w)" "keeps P (get_active_dek cf)"
  "keeps P (list_deks cf)" "keeps P (get_probe cf name)" "keeps P (get_unseal_metadata cf)"
  by (auto simp: get_secret_row_def get_secret_by_match_key_def get_dek_def get_active_dek_def list_deks_def get_probe_def
      get_unseal_metadata_def Let_def intro!: keeping split: option.split)

lemma in_tx_unsealed [txs]: "in_tx (unsealed_active_key ce passphrase)"
proof -
  have load: "in_tx (load_active_key ce passphrase)"
    by (auto simp: load_active_key_def intro!: txs split: option.split)
  have "in_tx (bind_s (load_active_key ce passphrase) (\<lambda>k. bind_s (update_s (\<lambda>s. s\<lparr>vs_key := Some k\<rparr>)) (\<lambda>_. return_s k)))"
    by (intro txs load)
  then show ?thesis by (simp add: in_tx_def wpe_def unsealed_active_key_def split: option.split)
qed

lemma keeps_unsealed [keeping]: "keeps P (unsealed_active_key ce passphrase)"
proof -
  have load: "keeps P (load_active_key ce passphrase)"
    by (auto simp: load_active_key_def intro!: keeping split: option.split)
  have "keeps P (bind_s (load_active_key ce passphrase) (\<lambda>k. bind_s (update_s (\<lambda>s. s\<lparr>vs_key := Some k\<rparr>)) (\<lambda>_. return_s k)))"
    by (intro keeping load)
  then show ?thesis by (simp add: keeps_def wpe_def unsealed_active_key_def split: option.split)
qed

interpretation unsealed: vault_key_provider "unsealed_provider ce passphrase" for ce passphrase
  by unfold_locales (auto simp: unsealed_provider_def intro!: txs keeping)

interpretation static: vault_key_provider "static_provider keyring" for keyring
  by unfold_locales (auto simp: static_provider_def intro!: txs keeping)

section \<open>Writing is atomic\<close>

context vault_key_provider
begin

lemma ensure_active_dek_tx [txs]: "in_tx (ensure_active_dek ce kp cs key now)"
  by (auto simp: ensure_active_dek_def Let_def intro!: txs split: option.split)

lemma put_one_tx [txs]: "in_tx (put_one ce cs dataset match_key key dd run_id now s)"
  by (cases s) (auto simp: put_one_def intro!: txs)

lemma put_each_tx [txs]: "in_tx (put_each (put_one ce cs dataset match_key key dd run_id now) ss)"
  by (induction ss) (auto intro!: txs)

lemma put_in_transaction_tx [txs]: "in_tx (put_in_transaction ce kp cs dataset match_key ss run_id now)"
  by (auto simp: put_in_transaction_def intro!: txs provider_tx)

lemma put_many_all_or_nothing:
  assumes "vs_saved st = None" "put_many ce kp cs dataset match_key secrets run_id st = (st', r)"
  shows "case r of Inl e \<Rightarrow> committed st' = committed st | Inr u \<Rightarrow> vs_saved st' = None"
proof -
  have "wpe (put_many ce kp cs dataset match_key secrets run_id) (\<lambda>u s. vs_saved s = None) (\<lambda>e s. committed s = vs_tables st) st"
    using assms(1)
    by (auto simp: put_many_def wpes get_utc_now_iso_def tick_def
        intro!: wpe_mono [OF transaction_wpe [OF put_in_transaction_tx]])
  then show ?thesis using assms by (auto simp: wpe_def split: sum.splits)
qed

end

section \<open>Conditions on the tables\<close>

definition only_active :: "vault_dek \<Rightarrow> vault_tables \<Rightarrow> bool" where
  "only_active d t \<longleftrightarrow> (\<forall>q \<in> set (vt_deks t). vk_is_active q \<longrightarrow> vk_dek_version q = vk_dek_version d)"

text \<open>A condition that every statement of the repository keeps is kept by every service.\<close>

locale vault_condition =
  fixes cf :: vault_config and P :: "vault_tables \<Rightarrow> bool"
  assumes secret_kept: "P t \<Longrightarrow> put_secret cf r t = Inr (t', u) \<Longrightarrow> P t'"
    and delete_kept: "P t \<Longrightarrow> delete_rows D t = Inr (t', n) \<Longrightarrow> P t'"
    and deactivate_kept: "P t \<Longrightarrow> deactivate_others d t = Inr (t', u) \<Longrightarrow> P t'"
    and dek_kept: "P t \<Longrightarrow> vk_is_active d \<longrightarrow> only_active d t \<Longrightarrow> put_dek d t = Inr (t', u) \<Longrightarrow> P t'"
    and probe_kept: "P t \<Longrightarrow> put_probe p t = Inr (t', u) \<Longrightarrow> P t'"
    and unseal_kept: "P t \<Longrightarrow> put_unseal m t = Inr (t', u) \<Longrightarrow> P t'"
    and meta_kept: "P t \<Longrightarrow> P (t\<lparr>vt_meta := AList.update k v (vt_meta t)\<rparr>)" "P t \<Longrightarrow> P (t\<lparr>vt_meta := AList.delete k (vt_meta t)\<rparr>)"
begin

lemma foreign_key_not_schema: "put_secret cf r t = Inl e \<Longrightarrow> \<not> is_schema_changed e"
  using put_secret_def [of cf r t] by (auto simp: foreign_key_error_def is_schema_changed_def py_lower_def split: if_splits)

lemma writes_keep [keeping]:
  "keeps P (upsert_secret cf r)" "keeps P (delete_secret cf dataset fld h v run_id)" "keeps P (upsert_probe cf p)"
  "keeps P (upsert_unseal_metadata cf m)" "keeps P (set_meta_value cf k w)" "keeps P (delete_meta_value cf k)"
  subgoal unfolding upsert_secret_def by (rule keeps_execute_write) (erule foreign_key_not_schema, erule secret_kept)
  subgoal unfolding delete_secret_def by (rule keeps_execute_write) (simp add: delete_rows_def, erule delete_kept)
  subgoal unfolding upsert_probe_def by (rule keeps_execute_write) (simp add: put_probe_def, erule probe_kept)
  subgoal unfolding upsert_unseal_metadata_def by (rule keeps_execute_write) (simp add: put_unseal_def, erule unseal_kept)
  subgoal unfolding set_meta_value_def by (rule keeps_execute_write) (use meta_kept(1) in auto)
  subgoal unfolding delete_meta_value_def by (rule keeps_execute_write) (use meta_kept(2) in auto)
  done

lemma upsert_dek_keeps [keeping]: "keeps P (upsert_dek cf d)"
proof -
  have put: "wpe (execute_write cf operation ds (put_dek d)) (\<lambda>a. inv_both P) (\<lambda>e. inv_both P) s"
    if inv: "inv_both P s" and active: "vk_is_active d \<longrightarrow> only_active d (vs_tables s)" for operation ds s
  proof (rule wpe_mono [OF execute_write_wpe])
    fix a :: unit and s'
    assume "\<not> vc_readonly cf \<and> written (put_dek d) s a s'"
    then obtain t where "put_dek d (vs_tables s) = Inr (t, a)" "moved (s\<lparr>vs_tables := t\<rparr>) s'" by (auto simp: written_def)
    then show "inv_both P s'" using dek_kept [OF _ active] inv
      by (auto simp: inv_both_moved) (auto simp: inv_both_def committed_def split: option.splits)
  qed (auto simp: put_dek_def failed_with_def inv_both_backed inv)
  have "keeps P (bind_s (if vk_is_active d
                then execute_write cf ''deactivate_other_dek'' (Some [(''dek_version'', PStr (vk_dek_version d))]) (deactivate_others d)
                else return_s ())
          (\<lambda>_. execute_write cf ''upsert_dek''
             (Some [(''dek_version'', PStr (vk_dek_version d)), (''key_version'', PStr (vk_wrap_key_version d))]) (put_dek d)))"
  proof (cases "vk_is_active d")
    case False
    then show ?thesis by (simp add: keeps_def wpes put)
  next
    case True
    have first: "wpe (execute_write cf operation ds (deactivate_others d))
        (\<lambda>a s'. inv_both P s' \<and> only_active d (vs_tables s')) (\<lambda>e. inv_both P) s" if inv: "inv_both P s" for operation ds s
    proof (rule wpe_mono [OF execute_write_wpe])
      fix a :: unit and s'
      assume "\<not> vc_readonly cf \<and> written (deactivate_others d) s a s'"
      then obtain t where t: "deactivate_others d (vs_tables s) = Inr (t, a)" and s': "moved (s\<lparr>vs_tables := t\<rparr>) s'"
        by (auto simp: written_def)
      have "P t" using deactivate_kept [OF _ t] inv by (simp add: inv_both_def)
      moreover have "only_active d t" using t by (auto simp: deactivate_others_def only_active_def)
      ultimately show "inv_both P s' \<and> only_active d (vs_tables s')" using inv s'
        by (auto simp: inv_both_moved moved_parts) (auto simp: inv_both_def committed_def split: option.splits)
    qed (auto simp: deactivate_others_def failed_with_def inv_both_backed inv)
    then show ?thesis using True by (auto simp: keeps_def wpes intro!: wpe_mono [OF first] put)
  qed
  then show ?thesis by (simp add: upsert_dek_def keeping)
qed

lemma rotation_marks_keep [keeping]:
  "keeps P (set_last_rotation_run_id cf w)" "keeps P (set_last_rotation_result cf x y)" "keeps P (set_last_rotated_at cf z)"
  by (auto simp: set_last_rotation_run_id_def set_last_rotation_result_def set_last_rotated_at_def intro!: keeping split: option.split)

end

text \<open>The services, for a provider and a condition.\<close>

locale vault_services = vault_key_provider kp + vault_condition "ce_config ce" P
  for kp :: key_provider and ce :: crypto_env and P :: "vault_tables \<Rightarrow> bool"
begin

lemma put_many_keeps: "keeps P (put_many ce kp cs dataset match_key secrets run_id)"
proof -
  have dek: "keeps P (ensure_active_dek ce kp cs key now)" for key now
    by (auto simp: ensure_active_dek_def Let_def intro!: keeping split: option.split)
  have one: "keeps P (put_one ce cs dataset mk key dd run_id now s)" for mk key dd now s
    by (cases s) (auto simp: put_one_def intro!: keeping)
  have each: "keeps P (put_each (put_one ce cs dataset mk key dd run_id now) ss)" for mk key dd now ss
    by (induction ss) (auto intro!: keeping one)
  show ?thesis by (auto simp: put_many_def put_in_transaction_def intro!: keeping provider_keeps dek each)
qed

lemma get_secret_keeps: "keeps P (get_secret ce kp cs dr dataset fld source_ref run_id)"
  by (auto simp: get_secret_def load_secret_def intro!: keeping split: option.split)

lemma on_apply_success_keeps: "keeps P (on_apply_success ce cs dataset source_ref fs lifecycle run_id)"
proof -
  have one: "keeps P (retire_field ce cs dataset mk run_id f c)" for mk f c
    by (auto simp: retire_field_def intro!: keeping)
  have each: "keeps P (retire_fields (retire_field ce cs dataset mk run_id) gs c)" for mk gs c
    by (induction gs arbitrary: c) (auto intro!: keeping one)
  show ?thesis by (auto simp: on_apply_success_def Let_def intro!: keeping each split: option.split)
qed

lemma ensure_ready_keeps: "keeps P (ensure_ready ce kp gs)"
proof -
  have probe: "keeps P (load_probe ce gs)" by (auto simp: load_probe_def intro!: keeping)
  have dek: "keeps P (guard_ensure_active_dek ce kp gs key now)" for key now
    by (auto simp: guard_ensure_active_dek_def Let_def intro!: keeping split: option.split)
  have create: "keeps P (create_probe ce kp gs key)" for key
    by (auto simp: create_probe_def Let_def intro!: keeping dek probe split: option.split prod.split)
  have verify: "keeps P (verify_probe ce kp gs p)" for p
    by (auto simp: verify_probe_def load_probe_dek_def intro!: keeping split: option.split sum.split)
  show ?thesis by (auto simp: ensure_ready_def ensure_probe_def intro!: keeping provider_keeps create verify probe split: option.split)
qed

end

section \<open>The invariant\<close>

definition scope_of :: "vault_secret \<Rightarrow> string \<times> string \<times> string \<times> string \<times> string" where
  "scope_of r = (vr_dataset r, vr_field r, vr_locator_version r, vr_locator_hash r, str_or (vr_run_id r) [])"

text \<open>
  Versions of the data encryption keys are unique and at most one key is active; the ids of the secrets are unique
  and none is above the sequence; a scope has one secret; the key of every secret is there.
\<close>

definition deks_ok :: "vault_dek list \<Rightarrow> bool" where
  "deks_ok ds \<longleftrightarrow> distinct (map vk_dek_version ds) \<and> length (filter vk_is_active ds) \<le> 1"

definition has_id_up_to :: "int \<Rightarrow> vault_secret \<Rightarrow> bool" where
  "has_id_up_to n r \<longleftrightarrow> (case vr_secret_id r of None \<Rightarrow> False | Some i \<Rightarrow> i \<le> n)"

definition secrets_ok :: "vault_secret list \<Rightarrow> int \<Rightarrow> bool" where
  "secrets_ok rs n \<longleftrightarrow> list_all (has_id_up_to n) rs \<and> distinct (map vr_secret_id rs) \<and> distinct (map scope_of rs)"

definition vault_ok :: "vault_config \<Rightarrow> vault_tables \<Rightarrow> bool" where
  "vault_ok cf t \<longleftrightarrow> deks_ok (vt_deks t) \<and> secrets_ok (vt_secrets t) (vt_sequence t)
   \<and> (vc_foreign_keys cf \<longrightarrow> vr_dek_version ` set (vt_secrets t) \<subseteq> vk_dek_version ` set (vt_deks t))
   \<and> distinct (map vp_probe_name (vt_probes t)) \<and> distinct (map fst (vt_meta t))"

lemma at_most_one:
  assumes "distinct (map key xs)"
  shows "length (filter P xs) \<le> 1 \<longleftrightarrow> (\<exists>k. \<forall>x \<in> set xs. P x \<longrightarrow> key x = k)"
  using assms
proof (induction xs)
  case (Cons x xs)
  have none: "filter P xs = [] \<longleftrightarrow> (\<forall>y \<in> set xs. \<not> P y)" by (simp add: filter_empty_conv)
  have other: "y \<in> set xs \<Longrightarrow> key y \<noteq> key x" for y
    using Cons.prems by (metis distinct.simps(2) imageI list.set_map list.simps(9))
  show ?case
  proof (cases "P x")
    case True
    then have "length (filter P (x # xs)) \<le> 1 \<longleftrightarrow> (\<forall>y \<in> set xs. \<not> P y)" using none by auto
    also have "\<dots> \<longleftrightarrow> (\<exists>k. \<forall>y \<in> set (x # xs). P y \<longrightarrow> key y = k)" using True other by (auto 4 3)
    finally show ?thesis .
  next
    case False
    then show ?thesis using Cons by simp
  qed
qed simp

lemma deks_ok_iff:
  "deks_ok ds \<longleftrightarrow> distinct (map vk_dek_version ds) \<and> (\<exists>v. \<forall>d \<in> set ds. vk_is_active d \<longrightarrow> vk_dek_version d = v)"
  using at_most_one [of vk_dek_version ds vk_is_active] by (auto simp: deks_ok_def)

lemma same_scope_of: "same_scope q r \<longleftrightarrow> scope_of r = scope_of q"
  by (auto simp: same_scope_def scope_of_def)

lemma map_if_keep: "(\<And>x. g (h x) = g x) \<Longrightarrow> map g (map (\<lambda>x. if C x then h x else x) xs) = map g xs"
  by simp

lemma overwrite_keeps [simp]:
  "scope_of (overwrite_secret r q) = scope_of q" "vr_secret_id (overwrite_secret r q) = vr_secret_id q"
  "vr_dek_version (overwrite_secret r q) = vr_dek_version r" "scope_of (r\<lparr>vr_secret_id := i\<rparr>) = scope_of r"
  "vk_dek_version (overwrite_dek d e) = vk_dek_version e" "vk_is_active (overwrite_dek d e) = vk_is_active d"
  "vp_probe_name (overwrite_probe p w) = vp_probe_name w"
  by (simp_all add: scope_of_def overwrite_secret_def overwrite_dek_def overwrite_probe_def)

lemma vault_ok_update:
  "vault_ok cf (t\<lparr>vt_deks := ds\<rparr>) \<longleftrightarrow> deks_ok ds \<and> secrets_ok (vt_secrets t) (vt_sequence t)
     \<and> (vc_foreign_keys cf \<longrightarrow> vr_dek_version ` set (vt_secrets t) \<subseteq> vk_dek_version ` set ds)
     \<and> distinct (map vp_probe_name (vt_probes t)) \<and> distinct (map fst (vt_meta t))"
  "vault_ok cf (t\<lparr>vt_probes := ps\<rparr>) \<longleftrightarrow> deks_ok (vt_deks t) \<and> secrets_ok (vt_secrets t) (vt_sequence t)
     \<and> (vc_foreign_keys cf \<longrightarrow> vr_dek_version ` set (vt_secrets t) \<subseteq> vk_dek_version ` set (vt_deks t))
     \<and> distinct (map vp_probe_name ps) \<and> distinct (map fst (vt_meta t))"
  "vault_ok cf (t\<lparr>vt_unseal := m\<rparr>) = vault_ok cf t"
  by (simp_all add: vault_ok_def)

lemma put_secret_ok:
  assumes ok: "vault_ok cf t" and put: "put_secret cf r t = Inr (t', u)"
  shows "vault_ok cf t'"
proof -
  have old: "secrets_ok (vt_secrets t) (vt_sequence t)" using ok by (simp add: vault_ok_def)
  have rows: "vt_secrets t' = (if \<exists>q \<in> set (vt_secrets t). same_scope r q
      then map (\<lambda>q. if same_scope r q then overwrite_secret r q else q) (vt_secrets t)
      else vt_secrets t @ [r\<lparr>vr_secret_id := Some (vt_sequence t + 1)\<rparr>])"
    and rest: "vt_sequence t' = vt_sequence t + 1" "vt_deks t' = vt_deks t" "vt_probes t' = vt_probes t" "vt_meta t' = vt_meta t"
    and fk: "vc_foreign_keys cf \<longrightarrow> vr_dek_version r \<in> vk_dek_version ` set (vt_deks t)"
    using put by (auto simp: put_secret_def split: if_splits)
  have "secrets_ok (vt_secrets t') (vt_sequence t')"
  proof (cases "\<exists>q \<in> set (vt_secrets t). same_scope r q")
    case True
    let ?f = "\<lambda>q. if same_scope r q then overwrite_secret r q else q"
    have "map scope_of (map ?f (vt_secrets t)) = map scope_of (vt_secrets t)"
      "map vr_secret_id (map ?f (vt_secrets t)) = map vr_secret_id (vt_secrets t)" by simp_all
    moreover have "list_all (has_id_up_to (vt_sequence t + 1)) (map ?f (vt_secrets t))"
      using old by (auto simp: secrets_ok_def list_all_iff has_id_up_to_def split: option.splits)
    ultimately show ?thesis using True old unfolding rows rest secrets_ok_def by (simp only: if_True)
  next
    case False
    have "Some (vt_sequence t + 1) \<notin> vr_secret_id ` set (vt_secrets t)"
    proof
      assume "Some (vt_sequence t + 1) \<in> vr_secret_id ` set (vt_secrets t)"
      then obtain q where "q \<in> set (vt_secrets t)" "vr_secret_id q = Some (vt_sequence t + 1)" by auto
      then show False using old by (auto simp: secrets_ok_def list_all_iff has_id_up_to_def)
    qed
    moreover have "scope_of r \<notin> scope_of ` set (vt_secrets t)" using False by (auto simp: same_scope_of)
    moreover have "list_all (has_id_up_to (vt_sequence t + 1)) (vt_secrets t)"
      using old by (auto simp: secrets_ok_def list_all_iff has_id_up_to_def split: option.splits)
    ultimately show ?thesis using False old unfolding rows rest secrets_ok_def
      by (simp only: if_False) (simp add: has_id_up_to_def)
  qed
  moreover have used: "vr_dek_version ` set (vt_secrets t') \<subseteq> insert (vr_dek_version r) (vr_dek_version ` set (vt_secrets t))"
  proof (rule image_subsetI)
    fix q
    assume "q \<in> set (vt_secrets t')"
    then have "q \<in> set (vt_secrets t) \<or> vr_dek_version q = vr_dek_version r" unfolding rows by (auto split: if_split_asm)
    then show "vr_dek_version q \<in> insert (vr_dek_version r) (vr_dek_version ` set (vt_secrets t))" by blast
  qed
  have "vc_foreign_keys cf \<longrightarrow> vr_dek_version ` set (vt_secrets t) \<subseteq> vk_dek_version ` set (vt_deks t)" using ok by (simp add: vault_ok_def)
  then have "vc_foreign_keys cf \<longrightarrow> vr_dek_version ` set (vt_secrets t') \<subseteq> vk_dek_version ` set (vt_deks t)"
    using fk order_trans [OF used] by (simp only: insert_subset) blast
  ultimately show ?thesis using ok by (simp add: vault_ok_def rest)
qed

lemma deactivate_ok:
  assumes "vault_ok cf t" "deactivate_others d t = Inr (t', u)"
  shows "vault_ok cf t'"
proof -
  let ?f = "\<lambda>q. if vk_is_active q \<and> vk_dek_version q \<noteq> vk_dek_version d then q\<lparr>vk_is_active := False, vk_updated_at := vk_updated_at d\<rparr> else q"
  have t': "t' = t\<lparr>vt_deks := map ?f (vt_deks t)\<rparr>" using assms(2) by (simp add: deactivate_others_def)
  have versions: "map vk_dek_version (map ?f (vt_deks t)) = map vk_dek_version (vt_deks t)" by simp
  then have sets: "vk_dek_version ` set (map ?f (vt_deks t)) = vk_dek_version ` set (vt_deks t)" by (metis list.set_map)
  have "\<forall>q \<in> set (map ?f (vt_deks t)). vk_is_active q \<longrightarrow> vk_dek_version q = vk_dek_version d" by auto
  then have "deks_ok (map ?f (vt_deks t))" using assms(1) unfolding vault_ok_def deks_ok_iff versions by blast
  then show ?thesis using assms(1) unfolding t' vault_ok_update sets by (simp add: vault_ok_def)
qed

lemma put_dek_ok:
  assumes ok: "vault_ok cf t" and active: "vk_is_active d \<longrightarrow> only_active d t" and put: "put_dek d t = Inr (t', u)"
  shows "vault_ok cf t'"
proof -
  let ?f = "\<lambda>q. if vk_dek_version q = vk_dek_version d then overwrite_dek d q else q"
  let ?ds = "if vk_dek_version d \<in> vk_dek_version ` set (vt_deks t) then map ?f (vt_deks t) else vt_deks t @ [d]"
  have t': "t' = t\<lparr>vt_deks := ?ds\<rparr>" using put by (simp add: put_dek_def)
  obtain v where v: "\<And>q. q \<in> set (vt_deks t) \<Longrightarrow> vk_is_active q \<Longrightarrow> vk_dek_version q = v"
    using ok by (auto simp: vault_ok_def deks_ok_iff)
  have dist: "distinct (map vk_dek_version (vt_deks t))" using ok by (simp add: vault_ok_def deks_ok_def)
  have versions: "map vk_dek_version (map ?f (vt_deks t)) = map vk_dek_version (vt_deks t)" by simp
  have "distinct (map vk_dek_version ?ds)"
  proof (cases "vk_dek_version d \<in> vk_dek_version ` set (vt_deks t)")
    case True
    then show ?thesis using dist by (simp only: if_True versions)
  qed (use dist in simp)
  moreover have "\<forall>q \<in> set ?ds. vk_is_active q \<longrightarrow> vk_dek_version q = (if vk_is_active d then vk_dek_version d else v)"
    using v active by (auto simp: only_active_def)
  ultimately have "deks_ok ?ds" unfolding deks_ok_iff by blast
  moreover have "vk_dek_version ` set (map ?f (vt_deks t)) = vk_dek_version ` set (vt_deks t)" using versions by (metis list.set_map)
  then have "vk_dek_version ` set (vt_deks t) \<subseteq> vk_dek_version ` set ?ds" by (simp del: list.set_map) blast
  moreover have "vc_foreign_keys cf \<longrightarrow> vr_dek_version ` set (vt_secrets t) \<subseteq> vk_dek_version ` set (vt_deks t)"
    "secrets_ok (vt_secrets t) (vt_sequence t)" "distinct (map vp_probe_name (vt_probes t))" "distinct (map fst (vt_meta t))"
    using ok by (simp_all add: vault_ok_def)
  ultimately show ?thesis unfolding t' vault_ok_update by blast
qed

lemma delete_ok:
  assumes "vault_ok cf t" "delete_rows D t = Inr (t', n)"
  shows "vault_ok cf t'"
proof -
  have t': "t' = t\<lparr>vt_secrets := filter (\<lambda>r. \<not> D r) (vt_secrets t)\<rparr>" using assms(2) by (simp add: delete_rows_def)
  show ?thesis using assms(1) unfolding t' vault_ok_def secrets_ok_def by (auto simp: distinct_map_filter list_all_iff)
qed

lemma probe_ok:
  assumes "vault_ok cf t" "put_probe p t = Inr (t', u)"
  shows "vault_ok cf t'"
proof -
  let ?f = "\<lambda>q. if vp_probe_name q = vp_probe_name p then overwrite_probe p q else q"
  let ?ps = "if vp_probe_name p \<in> vp_probe_name ` set (vt_probes t) then map ?f (vt_probes t) else vt_probes t @ [p]"
  have t': "t' = t\<lparr>vt_probes := ?ps\<rparr>" using assms(2) by (simp add: put_probe_def)
  have names: "map vp_probe_name (map ?f (vt_probes t)) = map vp_probe_name (vt_probes t)" by simp
  have "distinct (map vp_probe_name ?ps)"
  proof (cases "vp_probe_name p \<in> vp_probe_name ` set (vt_probes t)")
    case True
    then show ?thesis using assms(1) by (simp only: if_True names vault_ok_def)
  qed (use assms(1) in \<open>simp add: vault_ok_def\<close>)
  then show ?thesis using assms(1) unfolding t' vault_ok_update by (simp only: vault_ok_def) blast
qed

interpretation invariant: vault_condition cf "vault_ok cf" for cf
proof
  fix t t' :: vault_tables and p and u :: unit
  assume "vault_ok cf t" "put_probe p t = Inr (t', u)"
  then show "vault_ok cf t'" by (rule probe_ok)
next
  fix t :: vault_tables and k v
  assume "vault_ok cf t"
  then show "vault_ok cf (t\<lparr>vt_meta := AList.update k v (vt_meta t)\<rparr>)" "vault_ok cf (t\<lparr>vt_meta := AList.delete k (vt_meta t)\<rparr>)"
    by (simp_all add: vault_ok_def distinct_update distinct_delete)
next
  fix t t' :: vault_tables and m and u :: unit
  assume "vault_ok cf t" "put_unseal m t = Inr (t', u)"
  then show "vault_ok cf t'" by (auto simp: put_unseal_def vault_ok_update)
qed (fact put_secret_ok delete_ok deactivate_ok put_dek_ok)+

interpretation services: vault_services "unsealed_provider ce passphrase" ce "vault_ok (ce_config ce)" for ce passphrase
  by unfold_locales

interpretation guard: vault_services "static_provider keyring" ce "vault_ok (ce_config ce)" for ce keyring
  by unfold_locales

end
