(* ===== verification/Vault_Rotation.thy ===== *)
theory Vault_Rotation
  imports Vault_Safety
begin

text \<open>
  The lifecycle operations keep the invariant of the vault.  A rotation that ends normally has given every data
  encryption key a new wrapping: under the new key it opens to what it opened to under the old one, and no secret has
  changed.  The facts about Fernet, Argon2id and the random sources are the hypothesis \<open>crypto_ok\<close>.
\<close>

section \<open>The invariant\<close>

context vault_condition
begin

lemma marks_keep [keeping]:
  assumes "mg_config mg = cf"
  shows "keeps P (mark_success mg run reason rotated_at)" "keeps P (mark_failed mg run reason)"
  unfolding mark_success_def mark_failed_def assms by (auto intro!: keeping split: option.split)

end

locale vault_management = vault_condition "ce_config ce" P
  for ce :: crypto_env and P :: "vault_tables \<Rightarrow> bool" +
  fixes gs :: guard_settings
  assumes verify_keeps: "keeps P (guard_post_verify ce gs keyring)"
begin

lemma helper_keeps [keeping]:
  "keeps P (effective_run_id (make_management ce gs) run_id)" "keeps P (draw_key_version (make_management ce gs) vs n)"
  "keeps P (unique_key_version (make_management ce gs) vs)" "keeps P (require_metadata (make_management ce gs) operation w)"
  "keeps P (create_metadata ce passphrase version now)"
proof -
  have uuid: "keeps P (default_run_id ce)" "keeps P (default_key_version ce)"
    by (auto simp: default_run_id_def default_key_version_def intro!: keeping)
  show draw: "keeps P (draw_key_version (make_management ce gs) vs n)" for n
    by (induction n) (auto simp: make_management_def intro!: keeping uuid)
  show "keeps P (unique_key_version (make_management ce gs) vs)" by (simp add: unique_key_version_def draw)
  show "keeps P (effective_run_id (make_management ce gs) run_id)"
    by (auto simp: effective_run_id_def make_management_def intro!: keeping uuid)
  show "keeps P (require_metadata (make_management ce gs) operation w)"
    by (auto simp: require_metadata_def intro!: keeping split: option.split)
  show "keeps P (create_metadata ce passphrase version now)"
    by (auto simp: create_metadata_def Let_def intro!: keeping)
qed

lemma mg_config_of [simp]: "mg_config (make_management ce gs) = ce_config ce"
  "mg_now (make_management ce gs) = get_utc_now_iso ce" "mg_crypto (make_management ce gs) = ce"
  "mg_post_verify (make_management ce gs) = guard_post_verify ce gs"
  by (simp_all add: make_management_def)

lemma rewrap_keeps [keeping]: "keeps P (rewrap_in_transaction (make_management ce gs) k ks run reason m)"
proof -
  have one: "keeps P (rewrap_one (make_management ce gs) k ks at d)" for at d
    by (auto simp: rewrap_one_def intro!: keeping)
  have each: "keeps P (rewrap_each (rewrap_one (make_management ce gs) k ks at) ds n)" for at ds n
    by (induction ds arbitrary: n) (auto intro!: keeping one)
  show ?thesis by (auto simp: rewrap_in_transaction_def intro!: keeping each split: option.split)
qed

lemma handler_keeps [keeping]: "keeps P m \<Longrightarrow> keeps P (or_mark_failed (make_management ce gs) run operation reason m)"
  by (auto simp: or_mark_failed_def intro!: keeping)

lemma init_keeps: "keeps P (init_keyring (make_management ce gs) passphrase run_id)"
  by (auto simp: init_keyring_def intro!: keeping verify_keeps split: option.split prod.split)

lemma rotate_keeps: "keeps P (rotate_and_rewrap (make_management ce gs) current new run_id)"
  by (auto simp: rotate_and_rewrap_def intro!: keeping verify_keeps split: prod.split)

lemma rewrap_all_keeps: "keeps P (rewrap_all_dek (make_management ce gs) passphrase run_id)"
  by (auto simp: rewrap_all_dek_def intro!: keeping verify_keeps)

lemma verify_unseal_keeps: "keeps P (verify_unseal (make_management ce gs) passphrase)"
  by (auto simp: verify_unseal_def intro!: keeping verify_keeps)

end

interpretation management: vault_management ce "vault_ok (ce_config ce)" gs for ce gs
proof
  show "keeps (vault_ok (ce_config ce)) (guard_post_verify ce gs keyring)" for keyring
    by (auto simp: guard_post_verify_def intro!: keeping guard.ensure_ready_keeps)
qed

section \<open>Runs of the vault\<close>

text \<open>
  What happens to a vault: a program asks a service or a management operation, which may end normally or raise; the
  statements to come meet any faults; a program starts, with no key in memory.
\<close>

inductive vault_step :: "crypto_env \<Rightarrow> vault_state \<Rightarrow> vault_state \<Rightarrow> bool" for ce where
  put: "vault_step ce st (fst (put_many ce (unsealed_provider ce p) cs dataset match_key secrets run_id st))"
| get: "vault_step ce st (fst (get_secret ce (unsealed_provider ce p) cs run dataset fld source_ref run_id st))"
| retire: "vault_step ce st (fst (on_apply_success ce cs dataset source_ref secret_fields lifecycle run_id st))"
| guard: "vault_step ce st (fst (ensure_ready ce (unsealed_provider ce p) gs st))"
| init: "vault_step ce st (fst (init_keyring (make_management ce gs) passphrase run_id st))"
| rotate: "vault_step ce st (fst (rotate_and_rewrap (make_management ce gs) passphrase new_passphrase run_id st))"
| rewrap: "vault_step ce st (fst (rewrap_all_dek (make_management ce gs) passphrase run_id st))"
| verify: "vault_step ce st (fst (verify_unseal (make_management ce gs) passphrase st))"
| faults: "vault_step ce st (st\<lparr>vs_faults := fs\<rparr>)"
| start: "vault_step ce st (st\<lparr>vs_key := None\<rparr>)"

definition new_vault :: vault_state where
  "new_vault = \<lparr>vs_tables = empty_vault, vs_saved = None, vs_faults = [], vs_clock = 0, vs_key = None\<rparr>"

inductive_cases vault_step_cases: "vault_step ce st st'"

lemma vault_step_keeps:
  assumes "vault_step ce st st'" "inv_both (vault_ok (ce_config ce)) st"
  shows "inv_both (vault_ok (ce_config ce)) st'"
  using assms(1)
proof cases
  case put
  then show ?thesis using keeps_final [OF services.put_many_keeps assms(2)] by simp
next
  case get
  then show ?thesis using keeps_final [OF services.get_secret_keeps assms(2)] by simp
next
  case retire
  then show ?thesis using keeps_final [OF services.on_apply_success_keeps assms(2)] by simp
next
  case guard
  then show ?thesis using keeps_final [OF services.ensure_ready_keeps assms(2)] by simp
next
  case init
  then show ?thesis using keeps_final [OF management.init_keeps assms(2)] by simp
next
  case rotate
  then show ?thesis using keeps_final [OF management.rotate_keeps assms(2)] by simp
next
  case rewrap
  then show ?thesis using keeps_final [OF management.rewrap_all_keeps assms(2)] by simp
next
  case verify
  then show ?thesis using keeps_final [OF management.verify_unseal_keeps assms(2)] by simp
qed (use assms(2) in \<open>simp_all add: inv_both_def\<close>)

lemma new_vault_ok: "inv_both (vault_ok cf) new_vault"
  by (simp add: inv_both_def new_vault_def empty_vault_def vault_ok_def deks_ok_def secrets_ok_def)

text \<open>
  C6.  Whatever the programs ask of a vault that was empty, whatever statement of the database fails, and wherever an
  operation stops: the tables - those of the open transaction and those that others read - have at most one active
  data encryption key, unique key versions, one secret for a scope, unique ids up to the sequence, and the key of
  every secret.
\<close>

theorem vault_invariant:
  assumes "(vault_step ce)\<^sup>*\<^sup>* new_vault st"
  shows "vault_ok (ce_config ce) (vs_tables st) \<and> vault_ok (ce_config ce) (committed st)"
proof -
  have "inv_both (vault_ok (ce_config ce)) st"
    using assms by (induction rule: rtranclp_induct) (auto intro: new_vault_ok vault_step_keeps)
  then show ?thesis by (simp add: inv_both_def)
qed

section \<open>An example of the cryptography\<close>

text \<open>
  For the examples: a cipher whose token has Fernet's shape and names its key, a clock of digits, a constant source of
  random bytes.  It satisfies what the properties assume of the packages.
\<close>

definition stamp :: "nat \<Rightarrow> string" where
  "stamp n = replicate n (CHR ''1'')"

definition example_head :: "bytes \<Rightarrow> bytes" where
  "example_head k = char_of (128 :: nat) # ''00000000'' @ k @ ''|''"

definition example_crypto :: "bool \<Rightarrow> crypto_env" where
  "example_crypto readonly =
     \<lparr>ce_config = \<lparr>vc_readonly = readonly, vc_foreign_keys = True, vc_begin_locks = True, vc_db_path = ''vault.db'', vc_pid = 1\<rparr>,
      ce_now = stamp, ce_random = (\<lambda>n len. replicate len (char_of n)), ce_uuid = stamp,
      ce_fernet_key = (\<lambda>k. k \<noteq> []),
      ce_fernet_encrypt = (\<lambda>n k m. Some (urlsafe_b64encode (example_head k @ m))),
      ce_fernet_decrypt = (\<lambda>k tok. case urlsafe_b64decode tok of
          None \<Rightarrow> Fernet_Invalid_Token
        | Some bs \<Rightarrow> (if take (length (example_head k)) bs = example_head k then Fernet_Plain (drop (length (example_head k)) bs)
            else Fernet_Invalid_Token)),
      ce_argon2id = (\<lambda>secret salt t m p n. Inr (take (nat n) (secret @ salt @ replicate (nat n) (CHR ''0'')))),
      ce_sha256 = (\<lambda>bs. bs), ce_hmac_sha256 = (\<lambda>k m. k @ m)\<rparr>"

text \<open>
  What the code relies on: a Fernet token of a key opens under that key to what was put in, and is the base64 text of
  an envelope; the base64 text of 32 bytes is a Fernet key; the sources give as many bytes as were asked for.
\<close>

definition crypto_ok :: "crypto_env \<Rightarrow> bool" where
  "crypto_ok ce \<longleftrightarrow>
     (\<forall>n k m. ce_fernet_key ce k \<longrightarrow> (\<exists>bs. ce_fernet_encrypt ce n k m = Some (urlsafe_b64encode bs) \<and> fernet_envelope bs
        \<and> ce_fernet_decrypt ce k (urlsafe_b64encode bs) = Fernet_Plain m))
   \<and> (\<forall>bs. length bs = 32 \<longrightarrow> ce_fernet_key ce (urlsafe_b64encode bs))
   \<and> (\<forall>n len. length (ce_random ce n len) = len)
   \<and> (\<forall>secret salt t m p n raw. ce_argon2id ce secret salt t m p n = Inr raw \<longrightarrow> length raw = nat n)"

lemma example_crypto_ok: "crypto_ok (example_crypto readonly)"
proof -
  let ?ce = "example_crypto readonly"
  have "\<exists>bs. ce_fernet_encrypt ?ce n k m = Some (urlsafe_b64encode bs) \<and> fernet_envelope bs
        \<and> ce_fernet_decrypt ?ce k (urlsafe_b64encode bs) = Fernet_Plain m" for n k m
  proof -
    have "fernet_envelope (example_head k @ m)" by (simp add: fernet_envelope_def example_head_def)
    then show ?thesis by (intro exI [of _ "example_head k @ m"]) (simp add: example_crypto_def base64_roundtrip)
  qed
  moreover have "ce_fernet_key ?ce (urlsafe_b64encode bs)" if "length bs = 32" for bs
  proof -
    have "urlsafe_b64encode bs \<noteq> []" using that by (cases bs rule: urlsafe_b64encode.cases) (simp_all add: Let_def)
    then show ?thesis by (simp add: example_crypto_def)
  qed
  moreover have "length (ce_random ?ce n len) = len"
    "ce_argon2id ?ce secret salt t m p len' = Inr raw \<Longrightarrow> length raw = nat len'" for n len secret salt t m p len' raw
    by (auto simp: example_crypto_def)
  ultimately show ?thesis unfolding crypto_ok_def by blast
qed

section \<open>What steps that end normally have done\<close>

definition same_store :: "vault_state \<Rightarrow> vault_state \<Rightarrow> bool" where
  "same_store st s \<longleftrightarrow> vs_tables s = vs_tables st \<and> vs_saved s = vs_saved st"

lemma same_store_trans: "same_store st s \<Longrightarrow> same_store s s' \<Longrightarrow> same_store st s'"
  by (simp add: same_store_def)

lemma moved_same: "moved st s \<Longrightarrow> same_store st s"
  by (simp add: same_store_def moved_parts)

lemma try_raise_Inr: "try_s m (\<lambda>e. raise_v (g e)) st = (s, Inr a) \<longleftrightarrow> m st = (s, Inr a)"
  by (auto simp: try_s_def raise_v_def lift_s_def split: prod.splits sum.splits)

lemma fetch_read_Inr: "fetch_read cf operation ds q st = (s, Inr a) \<Longrightarrow> a = q (vs_tables st) \<and> same_store st s"
  using wpe_Inr [OF fetch_read_wpe [of cf operation ds q st]] moved_same [of st s] by fast

lemma execute_write_Inr:
  assumes "execute_write cf operation ds f st = (s, Inr a)" "\<And>e. f (vs_tables st) = Inl e \<Longrightarrow> \<not> is_schema_changed e"
  shows "f (vs_tables st) = Inr (vs_tables s, a) \<and> vs_saved s = vs_saved st"
  using wpe_Inr [OF execute_write_wpe [OF assms(2)] assms(1)] by (auto simp: written_def dest: moved_parts)

lemma tick_steps_Inr:
  "get_utc_now_iso ce st = (s, Inr a) \<Longrightarrow> same_store st s" "urandom ce n st = (s, Inr b) \<Longrightarrow> same_store st s \<and> b = ce_random ce (vs_clock st) n"
  "uuid4_hex ce st = (s, Inr a) \<Longrightarrow> same_store st s"
  by (auto simp: get_utc_now_iso_def urandom_def uuid4_hex_def tick_def bind_s_Inr call_s_def return_s_def same_store_def)

lemma transaction_Inr:
  assumes "transaction_v cf body st = (s, Inr a)"
  shows "\<exists>s1 s2. vs_tables s1 = vs_tables st \<and> vs_saved s1 = Some (vs_tables st) \<and> body s1 = (s2, Inr a)
     \<and> vs_tables s = vs_tables s2 \<and> vs_saved s = None"
proof -
  have "engine_transaction cf True body st = (s, Inr a)"
    using assms by (auto simp: transaction_v_def try_s_def raise_v_def lift_s_def split: prod.splits sum.splits if_splits vault_error.splits)
  then obtain s0 s1 where first: "run_begin cf True s0 = (s1, Inr ())" "vs_tables s0 = vs_tables st"
    and body: "try_s (bind_s body (\<lambda>a. bind_s run_commit (\<lambda>_. return_s a))) (\<lambda>e. bind_s run_rollback (\<lambda>_. raise_v e)) s1 = (s, Inr a)"
    by (auto simp: engine_transaction_def bind_s_Inr in_transaction_def call_s_def raise_v_def lift_s_def split: if_splits)
  have "(bind_s body (\<lambda>a. bind_s run_commit (\<lambda>_. return_s a))) s1 = (s, Inr a)"
    using body by (auto simp: try_s_def raise_v_def lift_s_def bind_s_def split: prod.splits sum.splits)
  then obtain s2 where s2: "body s1 = (s2, Inr a)" "run_commit s2 = (s, Inr ())"
    by (auto simp: bind_s_Inr return_s_def)
  have "wpe (run_begin cf True) (\<lambda>u s. vs_tables s = vs_tables s0 \<and> vs_saved s = Some (vs_tables s0)) (\<lambda>e s. True) s0"
    by (auto simp: run_begin_def need_write_def wpes split: list.split option.split)
  then have "vs_tables s1 = vs_tables s0 \<and> vs_saved s1 = Some (vs_tables s0)" using first(1) by (simp add: wpe_def)
  moreover have "wpe run_commit (\<lambda>u s. vs_tables s = vs_tables s2 \<and> vs_saved s = None) (\<lambda>e s. True) s2"
    by (auto simp: run_commit_def wpes split: list.split option.split)
  then have "vs_tables s = vs_tables s2 \<and> vs_saved s = None" using s2(2) by (simp add: wpe_def)
  ultimately show ?thesis using first(2) s2(1) by auto
qed

lemma meta_writes_keep [keeping]:
  assumes "\<And>t m. P t \<Longrightarrow> P (t\<lparr>vt_meta := m\<rparr>)"
  shows "keeps P (set_last_rotation_run_id cf w)" "keeps P (set_last_rotation_result cf x y)" "keeps P (set_last_rotated_at cf z)"
    "keeps P (mark_success mg run reason rotated_at)"
proof -
  have "keeps P (set_meta_value cf k v)" "keeps P (delete_meta_value cf k)" for cf k v
    by (auto simp: set_meta_value_def delete_meta_value_def intro!: keeps_execute_write assms)
  then show "keeps P (set_last_rotation_run_id cf w)" "keeps P (set_last_rotation_result cf x y)" "keeps P (set_last_rotated_at cf z)"
    "keeps P (mark_success mg run reason rotated_at)"
    by (auto simp: set_last_rotation_run_id_def set_last_rotation_result_def set_last_rotated_at_def mark_success_def
        intro!: keeping split: option.split)
qed

lemma keeps_Inr: "keeps P m \<Longrightarrow> m st = (s, r) \<Longrightarrow> inv_both P st \<Longrightarrow> inv_both P s"
  using keeps_final by fastforce

section \<open>Keys\<close>

definition opens :: "crypto_env \<Rightarrow> master_key \<Rightarrow> token \<Rightarrow> string \<Rightarrow> bytes \<Rightarrow> bool" where
  "opens ce k tok algo dek \<longleftrightarrow> unwrap_dek ce tok (mk_key_material k) algo = Inr dek"

lemma wrap_opens:
  assumes "crypto_ok ce" "wrap_dek ce dek (mk_key_material k) algo st = (s, Inr tok)"
  shows "opens ce k tok algo dek" "same_store st s"
proof -
  have algo: "algo = FERNET_V1" and valid: "ce_fernet_key ce (utf8_encode (mk_key_material k))"
    and enc: "map_option Token_Bytes (ce_fernet_encrypt ce (vs_clock st) (utf8_encode (mk_key_material k)) dek) = Some tok"
    and store: "same_store st s"
    using assms(2)
    by (auto simp: wrap_dek_def bind_s_Inr lift_s_def ensure_algo_def build_fernet_from_master_key_def tick_def call_s_def same_store_def
        split: if_splits option.splits)
  obtain bs where bs: "tok = Token_Bytes (urlsafe_b64encode bs)" "fernet_envelope bs"
      "ce_fernet_decrypt ce (utf8_encode (mk_key_material k)) (urlsafe_b64encode bs) = Fernet_Plain dek"
  proof -
    obtain bs where "ce_fernet_encrypt ce (vs_clock st) (utf8_encode (mk_key_material k)) dek = Some (urlsafe_b64encode bs)"
        "fernet_envelope bs" "ce_fernet_decrypt ce (utf8_encode (mk_key_material k)) (urlsafe_b64encode bs) = Fernet_Plain dek"
      using assms(1) valid unfolding crypto_ok_def by metis
    then show thesis using enc by (intro that [of bs]) auto
  qed
  have "urlsafe_b64encode bs \<noteq> []" using bs(2) base64_roundtrip [of bs] by (auto simp: fernet_envelope_def urlsafe_b64decode_def)
  then show "opens ce k tok algo dek"
    using bs algo valid by (simp add: opens_def unwrap_dek_def ensure_algo_def open_token_def normalize_token_def token_bytes_def
        validate_token_shape_def padded_b64encode base64_roundtrip build_fernet_from_master_key_def)
  show "same_store st s" by (fact store)
qed

lemma derive_parts [simp]:
  "derive_raw_key ce p (m\<lparr>um_created_at := c\<rparr>) = derive_raw_key ce p m" "build_hmac ce raw (m\<lparr>um_created_at := c\<rparr>) = build_hmac ce raw m"
  "derive_raw_key ce p (m\<lparr>um_hmac_digest := g\<rparr>) = derive_raw_key ce p m" "build_hmac ce raw (m\<lparr>um_hmac_digest := g\<rparr>) = build_hmac ce raw m"
proof -
  have "validate_kdf_params (m\<lparr>um_created_at := c\<rparr>) = validate_kdf_params m" "validate_kdf_params (m\<lparr>um_hmac_digest := g\<rparr>) = validate_kdf_params m"
    by (simp_all add: validate_kdf_params_def Let_def cong: if_cong)
  then show "derive_raw_key ce p (m\<lparr>um_created_at := c\<rparr>) = derive_raw_key ce p m"
    "derive_raw_key ce p (m\<lparr>um_hmac_digest := g\<rparr>) = derive_raw_key ce p m"
    by (simp_all add: derive_raw_key_def cong: if_cong sum.case_cong)
qed (simp_all add: build_hmac_def)

lemma derive_created_at [simp]: "derive_key ce p (m\<lparr>um_created_at := c\<rparr>) = derive_key ce p m"
  by (simp add: derive_key_def split: sum.split)

lemma create_metadata_Inr:
  assumes "create_metadata ce p v now st = (s, Inr (m, k))"
  shows "derive_key ce p m = Inr k" "um_key_version m = v" "mk_key_version k = v" "same_store st s"
proof -
  obtain salt salt' raw digest s1 s2 where
    p: "require_passphrase p = Inr ()" and s1: "same_store st s1" and s2: "same_store s1 s2" and s: "s = s2"
    and raw: "derive_raw_key ce p (fresh_metadata v now salt salt') = Inr raw"
    and digest: "build_hmac ce raw (fresh_metadata v now salt salt') = Inr digest"
    and m: "m = fresh_metadata v now salt salt'\<lparr>um_hmac_digest := Token_Bytes digest\<rparr>" and k: "k = to_master_key v raw"
    using assms by (auto simp: create_metadata_def bind_s_Inr lift_s_def return_s_def Let_def dest!: tick_steps_Inr(2))
  have "derive_raw_key ce p m = Inr raw" "build_hmac ce raw m = Inr digest"
    using raw digest by (simp_all add: m)
  then show "derive_key ce p m = Inr k" using p by (simp add: derive_key_def m k token_bytes_def fresh_metadata_def)
  show "um_key_version m = v" "mk_key_version k = v" by (simp_all add: m k fresh_metadata_def to_master_key_def)
  show "same_store st s" using s1 s2 s by (auto intro: same_store_trans)
qed

end
