(* ===== verification/Vault_Promises.thy ===== *)
theory Vault_Promises
  imports Vault_Rotation
begin

text \<open>
  What the vault promises when it answers: a rotation that ends normally, a guard that passes, a secret that was
  stored, a secret that was retired.  Statements may fail in every way the state allows; what is shown holds whenever
  the operation ends normally all the same.
\<close>

section \<open>The wrapping of a key\<close>

definition wrapping :: "vault_tables \<Rightarrow> string \<Rightarrow> (token \<times> string \<times> string) option" where
  "wrapping t v = map_option (\<lambda>d. (vk_wrapped_dek d, vk_wrap_algo d, vk_wrap_key_version d)) (dek_with v t)"

definition wrap_of :: "vault_dek \<Rightarrow> token \<times> string \<times> string" where
  "wrap_of d = (vk_wrapped_dek d, vk_wrap_algo d, vk_wrap_key_version d)"

lemma find_map_if:
  assumes "\<And>x. K (f x) = K x"
  shows "find (\<lambda>x. K x = v) (map f xs) = map_option f (find (\<lambda>x. K x = v) xs)"
  using assms by (induction xs) auto

lemma find_append: "find P (xs @ ys) = (case find P xs of None \<Rightarrow> find P ys | Some x \<Rightarrow> Some x)"
  by (induction xs) auto

lemma find_None_image: "find (\<lambda>x. K x = v) xs = None \<longleftrightarrow> v \<notin> K ` set xs"
  by (induction xs) auto

lemma find_SomeD: "find P xs = Some x \<Longrightarrow> x \<in> set xs \<and> P x"
  by (induction xs) (auto split: if_splits)

lemma wrapping_deactivate:
  assumes "deactivate_others d t = Inr (t', u)"
  shows "wrapping t' v = wrapping t v"
proof -
  let ?f = "\<lambda>q. if vk_is_active q \<and> vk_dek_version q \<noteq> vk_dek_version d then q\<lparr>vk_is_active := False, vk_updated_at := vk_updated_at d\<rparr> else q"
  have t': "vt_deks t' = map ?f (vt_deks t)" using assms by (auto simp: deactivate_others_def)
  have "dek_with v t' = map_option ?f (dek_with v t)" unfolding dek_with_def t' by (rule find_map_if) simp
  then show ?thesis by (simp add: wrapping_def option.map_comp o_def) (rule option.map_cong, auto)
qed

lemma wrapping_put_dek:
  assumes "put_dek d t = Inr (t', u)"
  shows "wrapping t' v = (if v = vk_dek_version d then Some (wrap_of d) else wrapping t v)"
proof (cases "vk_dek_version d \<in> vk_dek_version ` set (vt_deks t)")
  case True
  let ?f = "\<lambda>q. if vk_dek_version q = vk_dek_version d then overwrite_dek d q else q"
  have "vt_deks t' = map ?f (vt_deks t)" using assms True by (auto simp: put_dek_def)
  then have look: "dek_with v t' = map_option ?f (dek_with v t)" unfolding dek_with_def by (simp only:) (rule find_map_if, simp)
  have "dek_with v t = None \<longleftrightarrow> v \<notin> vk_dek_version ` set (vt_deks t)" by (simp add: dek_with_def find_None_image)
  moreover have "dek_with v t = Some q \<Longrightarrow> vk_dek_version q = v" for q by (auto simp: dek_with_def dest: find_SomeD)
  ultimately show ?thesis using True look
    by (cases "dek_with v t") (auto simp: wrapping_def wrap_of_def overwrite_dek_def)
next
  case False
  then have t': "vt_deks t' = vt_deks t @ [d]" using assms by (auto simp: put_dek_def)
  have "dek_with (vk_dek_version d) t = None" using False by (simp add: dek_with_def find_None_image)
  then show ?thesis unfolding wrapping_def wrap_of_def
    by (auto simp: dek_with_def t' find_append split: option.split)
qed

text \<open>The tables other than the keys.\<close>

definition other_tables :: "vault_tables \<Rightarrow> vault_secret list \<times> vault_probe list \<times> unseal_metadata option" where
  "other_tables t = (vt_secrets t, vt_probes t, vt_unseal t)"

lemma other_tables_deks:
  "deactivate_others d t = Inr (t', u) \<Longrightarrow> other_tables t' = other_tables t" "put_dek d t = Inr (t', u) \<Longrightarrow> other_tables t' = other_tables t"
  by (auto simp: deactivate_others_def put_dek_def other_tables_def)

lemma upsert_dek_Inr:
  assumes "upsert_dek cf d st = (s, Inr u)" "vs_saved st = Some t0"
  shows "vs_saved s = Some t0" "other_tables (vs_tables s) = other_tables (vs_tables st)"
    "wrapping (vs_tables s) v = (if v = vk_dek_version d then Some (wrap_of d) else wrapping (vs_tables st) v)"
proof -
  have never: "put_dek d t \<noteq> Inl e" "deactivate_others d t \<noteq> Inl e" for t e by (simp_all add: put_dek_def deactivate_others_def)
  obtain s1 where first: "(if vk_is_active d
        then execute_write cf ''deactivate_other_dek'' (Some [(''dek_version'', PStr (vk_dek_version d))]) (deactivate_others d)
        else return_s ()) st = (s1, Inr ())"
    and second: "execute_write cf ''upsert_dek''
        (Some [(''dek_version'', PStr (vk_dek_version d)), (''key_version'', PStr (vk_wrap_key_version d))]) (put_dek d) s1 = (s, Inr u)"
    using assms by (auto simp: upsert_dek_def autobegin_def in_transaction_def bind_s_Inr call_s_def)
  have s1: "vs_saved s1 = Some t0 \<and> other_tables (vs_tables s1) = other_tables (vs_tables st) \<and> wrapping (vs_tables s1) v = wrapping (vs_tables st) v"
  proof (cases "vk_is_active d")
    case True
    then have "deactivate_others d (vs_tables st) = Inr (vs_tables s1, ()) \<and> vs_saved s1 = vs_saved st"
      using first never by (intro execute_write_Inr) auto
    then show ?thesis using assms(2) wrapping_deactivate [of d "vs_tables st" "vs_tables s1" "()"] other_tables_deks(1) by auto
  qed (use first assms(2) in \<open>auto simp: return_s_def\<close>)
  have "put_dek d (vs_tables s1) = Inr (vs_tables s, u) \<and> vs_saved s = vs_saved s1"
    using second never by (intro execute_write_Inr) auto
  then show "vs_saved s = Some t0" "other_tables (vs_tables s) = other_tables (vs_tables st)"
    "wrapping (vs_tables s) v = (if v = vk_dek_version d then Some (wrap_of d) else wrapping (vs_tables st) v)"
    using s1 wrapping_put_dek [of d "vs_tables s1" "vs_tables s" u v] other_tables_deks(2) [of d "vs_tables s1" "vs_tables s" u] by auto
qed

section \<open>Rewrapping\<close>

text \<open>What a key had, opened by the old key, it has again under the new one.\<close>

definition rewrapped_to :: "crypto_env \<Rightarrow> master_key list \<Rightarrow> master_key \<Rightarrow> vault_dek \<Rightarrow> vault_tables \<Rightarrow> bool" where
  "rewrapped_to ce old new d t \<longleftrightarrow> (\<exists>dek tok. unwrap_with ce d old = Inr (Some dek)
     \<and> wrapping t (vk_dek_version d) = Some (tok, vk_wrap_algo d, mk_key_version new) \<and> opens ce new tok (vk_wrap_algo d) dek)"

lemma rewrap_one_Inr:
  assumes ok: "crypto_ok ce" and step: "rewrap_one mg new old at d st = (s, Inr u)" and mg: "mg_crypto mg = ce" and tx: "vs_saved st = Some t0"
  shows "vs_saved s = Some t0" "other_tables (vs_tables s) = other_tables (vs_tables st)"
    "rewrapped_to ce old new d (vs_tables s)" "v \<noteq> vk_dek_version d \<Longrightarrow> wrapping (vs_tables s) v = wrapping (vs_tables st) v"
proof -
  obtain dek tok s1 where dek: "mgmt_unwrap_dek mg old d = Inr dek"
    and wrap: "wrap_dek ce dek (mk_key_material new) (vk_wrap_algo d) st = (s1, Inr tok)"
    and put: "upsert_dek (ce_config ce) (rewrapped_dek d tok (mk_key_version new) at) s1 = (s, Inr u)"
    using step mg by (auto simp: rewrap_one_def bind_s_Inr lift_s_def)
  note opened = wrap_opens [OF ok wrap]
  have s1: "vs_saved s1 = Some t0" "vs_tables s1 = vs_tables st" using opened(2) tx by (simp_all add: same_store_def)
  note stored = upsert_dek_Inr [OF put s1(1)]
  show "vs_saved s = Some t0" "other_tables (vs_tables s) = other_tables (vs_tables st)" using stored(1,2) s1(2) by simp_all
  show "v \<noteq> vk_dek_version d \<Longrightarrow> wrapping (vs_tables s) v = wrapping (vs_tables st) v"
    using stored(3) [of v] s1(2) by (simp add: rewrapped_dek_def)
  have "unwrap_with ce d old = Inr (Some dek)"
    using dek mg by (auto simp: mgmt_unwrap_dek_def split: sum.splits option.splits)
  moreover have "wrapping (vs_tables s) (vk_dek_version d) = Some (tok, vk_wrap_algo d, mk_key_version new)"
    using stored(3) [of "vk_dek_version d"] by (simp add: rewrapped_dek_def wrap_of_def)
  ultimately show "rewrapped_to ce old new d (vs_tables s)" using opened(1) by (auto simp: rewrapped_to_def)
qed

lemma rewrapped_to_wrapping:
  "wrapping t' (vk_dek_version d) = wrapping t (vk_dek_version d) \<Longrightarrow> rewrapped_to ce old new d t' = rewrapped_to ce old new d t"
  by (simp add: rewrapped_to_def)

lemma rewrap_each_Inr:
  assumes "crypto_ok ce" "rewrap_each (rewrap_one mg new old at) ds n st = (s, Inr m)" "mg_crypto mg = ce" "vs_saved st = Some t0"
    "distinct (map vk_dek_version ds)"
  shows "vs_saved s = Some t0 \<and> other_tables (vs_tables s) = other_tables (vs_tables st) \<and> m = n + int (length ds)
     \<and> (\<forall>d \<in> set ds. rewrapped_to ce old new d (vs_tables s))
     \<and> (\<forall>v. v \<notin> vk_dek_version ` set ds \<longrightarrow> wrapping (vs_tables s) v = wrapping (vs_tables st) v)"
  using assms(2,4,5)
proof (induction ds arbitrary: n st)
  case Nil
  then show ?case by (auto simp: return_s_def)
next
  case (Cons d ds)
  then obtain s1 where one: "rewrap_one mg new old at d st = (s1, Inr ())"
    and rest: "rewrap_each (rewrap_one mg new old at) ds (n + 1) s1 = (s, Inr m)" by (auto simp: bind_s_Inr)
  note d = rewrap_one_Inr [OF assms(1) one assms(3) Cons.prems(2)]
  note ds = Cons.IH [OF rest d(1)]
  have fresh: "vk_dek_version d \<notin> vk_dek_version ` set ds" "distinct (map vk_dek_version ds)" using Cons.prems(3) by auto
  have "rewrapped_to ce old new d (vs_tables s)"
    using d(3) ds [OF fresh(2)] fresh(1) rewrapped_to_wrapping [of "vs_tables s" d "vs_tables s1"] by blast
  then show ?case using ds [OF fresh(2)] d by auto
qed

section \<open>The guard\<close>

lemma on_class_Inr [simp]: "on_class cs f m st = (s, Inr a) \<longleftrightarrow> m st = (s, Inr a)"
  by (auto simp: on_class_def try_s_def raise_v_def lift_s_def split: prod.splits sum.splits if_splits)

lemma return_Inr [simp]: "return_s a st = (s, Inr b) \<longleftrightarrow> s = st \<and> b = a"
  by (auto simp: return_s_def)

lemma raise_Inr [simp]: "raise_v e st = (s, Inr b) \<longleftrightarrow> False"
  by (auto simp: raise_v_def lift_s_def)

lemma lift_Inr [simp]: "lift_s r st = (s, Inr b) \<longleftrightarrow> s = st \<and> r = Inr b"
  by (auto simp: lift_s_def)

lemma unwrap_with_opens:
  "unwrap_with ce d ks = Inr (Some dek) \<Longrightarrow> \<exists>k \<in> set ks. opens ce k (vk_wrapped_dek d) (vk_wrap_algo d) dek"
  by (induction ks) (auto simp: opens_def split: sum.splits if_splits)

lemma unwrap_static_Inr:
  assumes "unwrap_by_provider ce (static_provider keyring) e d st = (s, Inr dek)"
  shows "s = st \<and> (\<exists>k \<in> set keyring. opens ce k (vk_wrapped_dek d) (vk_wrap_algo d) dek)"
proof -
  define keys where "keys = (case find (\<lambda>k. mk_key_version k = vk_wrap_key_version d) (rev keyring) of
      None \<Rightarrow> keyring | Some h \<Rightarrow> h # filter (\<lambda>k. mk_key_version k \<noteq> mk_key_version h) keyring)"
  have "s = st" "unwrap_with ce d keys = Inr (Some dek)"
    using assms by (auto simp: unwrap_by_provider_def candidate_master_keys_def static_provider_def bind_s_Inr keys_def split: option.splits)
  moreover have "set keys \<subseteq> set keyring"
    by (auto simp: keys_def dest: find_SomeD split: option.splits)
  ultimately show ?thesis using unwrap_with_opens [of ce d keys dek] by blast
qed

lemma is_readonly_Inr:
  assumes "is_readonly cf st = (s, Inr b)" "vs_saved st = None"
  shows "vs_tables s = vs_tables st" "committed s = vs_tables st" "\<not> b \<Longrightarrow> \<not> vc_readonly cf"
proof -
  have rollback: "wpe run_rollback (\<lambda>u s. vs_tables s = t \<and> committed s = t) (\<lambda>e s. vs_tables s = t \<and> committed s = t) s" if "vs_tables s = t" "vs_saved s = Some t" for s t
    using that by (auto simp: run_rollback_def wpes split: list.split option.split)
  have start: "wpe (run_begin cf True) (\<lambda>u s. vs_tables s = vs_tables st \<and> vs_saved s = Some (vs_tables st) \<and> \<not> vc_readonly cf)
      (\<lambda>e s. vs_tables s = vs_tables st \<and> committed s = vs_tables st) st"
    using assms(2) by (auto simp: run_begin_def need_write_def wpes split: list.split option.split)
  have "wpe (is_readonly cf) (\<lambda>b s. vs_tables s = vs_tables st \<and> committed s = vs_tables st \<and> (b \<or> \<not> vc_readonly cf)) (\<lambda>e s. True) st"
    unfolding is_readonly_def wpe_bind [of in_transaction] wpe_in_transaction using assms(2)
    by (auto simp: wpes intro!: wpe_mono [OF start] wpe_mono [OF rollback] split: vault_error.split)
  then show "vs_tables s = vs_tables st" "committed s = vs_tables st" "\<not> b \<Longrightarrow> \<not> vc_readonly cf"
    using assms(1) by (auto simp: wpe_def)
qed

definition probe_with :: "string \<Rightarrow> vault_tables \<Rightarrow> vault_probe option" where
  "probe_with name t = find (\<lambda>p. vp_probe_name p = name) (vt_probes t)"

text \<open>The probe is there, its key opens with a key of the ring, and it says what the guard wrote.\<close>

definition probe_readable :: "crypto_env \<Rightarrow> master_key list \<Rightarrow> guard_settings \<Rightarrow> vault_tables \<Rightarrow> bool" where
  "probe_readable ce keyring gs t \<longleftrightarrow> (\<exists>p d k dek. probe_with (gs_probe_name gs) t = Some p \<and> dek_with (vp_dek_version p) t = Some d
     \<and> k \<in> set keyring \<and> opens ce k (vk_wrapped_dek d) (vk_wrap_algo d) dek
     \<and> decrypt ce (vp_ciphertext p) dek (vp_cipher_algo p) = Inr (gs_probe_payload gs))"

lemma load_probe_Inr:
  "load_probe ce gs st = (s, Inr p) \<Longrightarrow> p = probe_with (gs_probe_name gs) (vs_tables st) \<and> same_store st s"
  by (auto simp: load_probe_def get_probe_def probe_with_def dest: fetch_read_Inr)

lemma verify_probe_Inr:
  assumes "verify_probe ce (static_provider keyring) gs p st = (s, Inr u)"
  shows "same_store st s" "\<exists>d k dek. dek_with (vp_dek_version p) (vs_tables st) = Some d \<and> k \<in> set keyring
     \<and> opens ce k (vk_wrapped_dek d) (vk_wrap_algo d) dek \<and> decrypt ce (vp_ciphertext p) dek (vp_cipher_algo p) = Inr (gs_probe_payload gs)"
proof -
  obtain d s1 s2 dek where read: "get_dek (ce_config ce) (vp_dek_version p) st = (s1, Inr (Some d))"
    and unwrap: "unwrap_by_provider ce (static_provider keyring) (guard_unwrap_failed d) d s1 = (s2, Inr dek)"
    and "s = s2" "decrypt ce (vp_ciphertext p) dek (vp_cipher_algo p) = Inr (gs_probe_payload gs)"
    using assms by (auto simp: verify_probe_def load_probe_dek_def bind_s_Inr split: option.splits sum.splits if_splits)
  moreover have "dek_with (vp_dek_version p) (vs_tables st) = Some d" "same_store st s1"
    using fetch_read_Inr [OF read [unfolded get_dek_def]] by simp_all
  ultimately show "same_store st s" "\<exists>d k dek. dek_with (vp_dek_version p) (vs_tables st) = Some d \<and> k \<in> set keyring
     \<and> opens ce k (vk_wrapped_dek d) (vk_wrap_algo d) dek \<and> decrypt ce (vp_ciphertext p) dek (vp_cipher_algo p) = Inr (gs_probe_payload gs)"
    using unwrap_static_Inr [OF unwrap] by blast+
qed

lemma create_probe_Inr:
  assumes "create_probe ce kp gs key st = (s, Inr p)"
  shows "probe_with (gs_probe_name gs) (vs_tables s) = Some p"
proof -
  obtain s1 where "load_probe ce gs s1 = (s, Inr (Some p))"
    using assms by (auto simp: create_probe_def Let_def bind_s_Inr split: option.splits prod.splits)
  then show ?thesis by (auto simp: same_store_def dest!: load_probe_Inr)
qed

lemma ensure_ready_Inr:
  assumes "ensure_ready ce (static_provider keyring) gs st = (s, Inr u)" "vs_saved st = None"
  shows "probe_readable ce keyring gs (vs_tables s)" "gs_strict_readonly gs \<Longrightarrow> \<not> vc_readonly (ce_config ce)"
    "probe_with (gs_probe_name gs) (vs_tables st) \<noteq> None \<Longrightarrow> vs_tables s = vs_tables st \<and> committed s = vs_tables st"
proof -
  obtain readonly s1 found s2 p s3 where
    ro: "is_readonly (ce_config ce) st = (s1, Inr readonly)"
    and load: "load_probe ce gs s1 = (s2, Inr found)"
    and probe: "ensure_probe ce (static_provider keyring) gs readonly (hd keyring) found s2 = (s3, Inr p)"
    and check: "verify_probe ce (static_provider keyring) gs p s3 = (s, Inr ())"
    and strict: "\<not> (readonly \<and> gs_strict_readonly gs)"
  proof -
    have active: "kp_active (static_provider keyring) = return_s (hd keyring)" by (simp add: static_provider_def)
    show thesis using assms(1) that unfolding ensure_ready_def bind_s_Inr active return_Inr lift_Inr
      by (elim exE conjE) (simp split: if_split_asm)
  qed
  note verified = verify_probe_Inr [OF check]
  have same: "same_store a b \<Longrightarrow> committed b = committed a" for a b by (simp add: same_store_def committed_def split: option.split)
  have "probe_with (gs_probe_name gs) (vs_tables s3) = Some p \<and>
      (probe_with (gs_probe_name gs) (vs_tables st) \<noteq> None \<longrightarrow> vs_tables s3 = vs_tables st \<and> committed s3 = vs_tables st)"
  proof (cases found)
    case None
    then have "create_probe ce (static_provider keyring) gs (hd keyring) s2 = (s3, Inr p)"
      using probe by (simp add: ensure_probe_def split: if_splits)
    then show ?thesis using create_probe_Inr None load_probe_Inr [OF load] is_readonly_Inr(1) [OF ro assms(2)] by simp
  next
    case (Some q)
    then have "s3 = s2" "q = p" using probe by (simp_all add: ensure_probe_def)
    then show ?thesis using Some load_probe_Inr [OF load] same [of s1 s2] is_readonly_Inr(1,2) [OF ro assms(2)]
      by (simp add: same_store_def)
  qed
  then show "probe_readable ce keyring gs (vs_tables s)"
    "probe_with (gs_probe_name gs) (vs_tables st) \<noteq> None \<Longrightarrow> vs_tables s = vs_tables st \<and> committed s = vs_tables st"
    using verified same [OF verified(1)] by (auto simp: same_store_def probe_readable_def)
  show "gs_strict_readonly gs \<Longrightarrow> \<not> vc_readonly (ce_config ce)" using strict is_readonly_Inr(3) [OF ro assms(2)] by blast
qed

text \<open>
  C18.  A passphrase that \<open>verify_unseal\<close> accepts gives the key that the stored metadata stand for, the startup probe
  reads back under this key, and with the strict policy the storage can be written.
\<close>

theorem accepted_passphrase_opens:
  assumes "verify_unseal (make_management ce gs) passphrase st = (st', Inr key)" "vs_saved st = None"
  shows "(\<exists>m. vt_unseal (vs_tables st) = Some m \<and> derive_key ce passphrase m = Inr key)
    \<and> probe_readable ce [key] gs (vs_tables st') \<and> (gs_strict_readonly gs \<longrightarrow> \<not> vc_readonly (ce_config ce))"
proof -
  obtain m s1 where read: "get_unseal_metadata (ce_config ce) st = (s1, Inr (Some m))"
    and key: "derive_key ce passphrase m = Inr key" and check: "ensure_ready ce (static_provider [key]) gs s1 = (st', Inr ())"
    using assms(1)
    by (auto simp: verify_unseal_def require_metadata_def bind_s_Inr make_management_def guard_post_verify_def split: option.splits)
  have "vt_unseal (vs_tables st) = Some m" "vs_saved s1 = None"
    using read assms(2) by (auto simp: get_unseal_metadata_def same_store_def dest!: fetch_read_Inr)
  then show ?thesis using key ensure_ready_Inr [OF check] by blast
qed

section \<open>Rotation\<close>

definition core :: "vault_tables \<Rightarrow> (vault_secret list \<times> vault_probe list \<times> unseal_metadata option) \<times> vault_dek list" where
  "core t = (other_tables t, vt_deks t)"

lemma core_meta [simp]: "core (t\<lparr>vt_meta := m\<rparr>) = core t"
  by (simp add: core_def other_tables_def)

lemma core_parts:
  "core t' = core t \<Longrightarrow> wrapping t' v = wrapping t v" "core t' = core t \<Longrightarrow> other_tables t' = other_tables t"
  "core t' = core t \<Longrightarrow> ordered_deks t' = ordered_deks t"
  by (simp_all add: core_def wrapping_def dek_with_def ordered_deks_def)

lemma meta_keeps_core:
  "keeps (\<lambda>t. core t = C) (set_last_rotation_run_id cf w)" "keeps (\<lambda>t. core t = C) (set_last_rotation_result cf x y)"
  "keeps (\<lambda>t. core t = C) (mark_success mg run reason at)"
  by (rule meta_writes_keep, simp)+

lemma keeps_core_Inr:
  assumes "\<And>C. keeps (\<lambda>t. core t = C) m" "m st = (s, r)" "core (committed st) = core (vs_tables st)"
  shows "core (vs_tables s) = core (vs_tables st) \<and> core (committed s) = core (vs_tables st)"
  using keeps_Inr [OF assms(1) assms(2), of "core (vs_tables st)"] assms(3) by (simp add: inv_both_def)

lemma in_tx_Inr:
  assumes "in_tx m" "m st = (s, Inr a)" "vs_saved st = Some t"
  shows "vs_saved s = Some t"
proof -
  have "wpe m (\<lambda>a s. vs_saved s = Some t) (\<lambda>e s. committed s = t) st" using assms(1,3) by (simp add: in_tx_def)
  then show ?thesis using assms(2) by (rule wpe_Inr)
qed

lemma effective_run_id_Inr: "effective_run_id (make_management ce gs) run_id st = (s, Inr run) \<Longrightarrow> same_store st s"
  by (auto simp: effective_run_id_def make_management_def default_run_id_def bind_s_Inr same_store_def split: if_splits dest: tick_steps_Inr)

lemma unique_key_version_Inr: "unique_key_version (make_management ce gs) vs st = (s, Inr v) \<Longrightarrow> same_store st s \<and> v \<notin> set vs"
proof -
  have "draw_key_version (make_management ce gs) vs n st = (s, Inr v) \<Longrightarrow> same_store st s \<and> v \<notin> set vs" for n
  proof (induction n arbitrary: st)
    case (Suc n)
    obtain s1 w where "uuid4_hex ce st = (s1, Inr w)"
      and rest: "(if ''mk_'' @ w \<notin> set vs then return_s (''mk_'' @ w) else draw_key_version (make_management ce gs) vs n) s1 = (s, Inr v)"
    proof -
      have "mg_key_version (make_management ce gs) = bind_s (uuid4_hex ce) (\<lambda>h. return_s (''mk_'' @ h))"
        by (simp only: make_management_def management.simps default_key_version_def)
      then show thesis using Suc.prems that unfolding draw_key_version.simps bind_s_Inr by (auto simp only: bind_s_Inr return_Inr)
    qed
    then have s1: "same_store st s1" by (auto dest: tick_steps_Inr)
    show ?case
    proof (cases "''mk_'' @ w \<notin> set vs")
      case True
      then show ?thesis using rest s1 by simp
    next
      case False
      then show ?thesis using rest s1 Suc.IH [of s1] same_store_trans by auto
    qed
  qed simp
  then show "unique_key_version (make_management ce gs) vs st = (s, Inr v) \<Longrightarrow> same_store st s \<and> v \<notin> set vs"
    by (simp add: unique_key_version_def)
qed

lemma set_ordered_deks [simp]: "set (ordered_deks t) = set (vt_deks t)" "length (ordered_deks t) = length (vt_deks t)"
  by (simp_all add: ordered_deks_def)

lemma distinct_ordered_deks: "distinct (map vk_dek_version (vt_deks t)) \<Longrightarrow> distinct (map vk_dek_version (ordered_deks t))"
  unfolding ordered_deks_def by (simp add: rev_map [symmetric] distinct_map distinct_sort inj_on_def)

lemma rewrap_in_transaction_Inr:
  assumes ok: "crypto_ok ce" and run: "rewrap_in_transaction (make_management ce gs) new old run reason (Some m) st = (s, Inr n)"
    and versions: "distinct (map vk_dek_version (vt_deks (vs_tables st)))"
  shows "vs_saved s = None" "n = int (length (vt_deks (vs_tables st)))"
    "vt_secrets (vs_tables s) = vt_secrets (vs_tables st)" "vt_probes (vs_tables s) = vt_probes (vs_tables st)"
    "\<exists>c. vt_unseal (vs_tables s) = Some (m\<lparr>um_created_at := c\<rparr>)"
    "\<forall>d \<in> set (vt_deks (vs_tables st)). rewrapped_to ce old new d (vs_tables s)"
proof -
  let ?mg = "make_management ce gs" and ?cf = "ce_config ce"
  have mg: "mg_config ?mg = ?cf" "mg_crypto ?mg = ce" "mg_now ?mg = get_utc_now_iso ce" by (simp_all add: make_management_def)
  obtain s0 at s1 s2 s3 s4 s5 s6 where
    now: "get_utc_now_iso ce st = (s0, Inr at)"
    and s1: "vs_tables s1 = vs_tables s0" "vs_saved s1 = Some (vs_tables s0)"
    and a: "set_last_rotation_run_id ?cf (Some run) s1 = (s2, Inr ())"
    and b: "set_last_rotation_result ?cf ''rotating'' (Some reason) s2 = (s3, Inr ())"
    and c: "upsert_unseal_metadata ?cf m s3 = (s4, Inr ())"
    and d: "list_deks ?cf s4 = (s5, Inr (ordered_deks (vs_tables s4)))"
    and e: "rewrap_each (rewrap_one ?mg new old at) (ordered_deks (vs_tables s4)) 0 s5 = (s6, Inr n)"
    and s: "vs_tables s = vs_tables s6" "vs_saved s = None"
    using run unfolding rewrap_in_transaction_def mg option.case bind_s_Inr
    by (elim exE conjE) (fastforce dest!: transaction_Inr simp: bind_s_Inr list_deks_def dest: fetch_read_Inr)
  have st: "vs_tables s0 = vs_tables st" using now by (auto simp: same_store_def dest: tick_steps_Inr)
  have s2: "vs_saved s2 = Some (vs_tables st)" "core (vs_tables s2) = core (vs_tables st)"
    using in_tx_Inr [OF in_tx_repository(12) a] s1 keeps_core_Inr [OF meta_keeps_core(1) a] st by auto
  have s3: "vs_saved s3 = Some (vs_tables st)" "core (vs_tables s3) = core (vs_tables st)"
    using in_tx_Inr [OF in_tx_repository(13) b s2(1)] keeps_core_Inr [OF meta_keeps_core(2) b] s2 by auto
  have created: "\<exists>c. m = m\<lparr>um_created_at := c\<rparr>" "\<exists>c. m\<lparr>um_created_at := x\<rparr> = m\<lparr>um_created_at := c\<rparr>" for x
    by (rule exI [of _ "um_created_at m"], simp) blast
  have "put_unseal m (vs_tables s3) = Inr (vs_tables s4, ()) \<and> vs_saved s4 = vs_saved s3"
    using c unfolding upsert_unseal_metadata_def by (rule execute_write_Inr) (simp add: put_unseal_def)
  then have s4: "vs_saved s4 = Some (vs_tables st)" "vt_deks (vs_tables s4) = vt_deks (vs_tables st)"
      "vt_secrets (vs_tables s4) = vt_secrets (vs_tables st)" "vt_probes (vs_tables s4) = vt_probes (vs_tables st)"
      "\<exists>c. vt_unseal (vs_tables s4) = Some (m\<lparr>um_created_at := c\<rparr>)"
    using s3 created by (auto simp: put_unseal_def core_def other_tables_def dest!: sym [of _ "vs_tables s4"] split: option.split)
  have s5: "same_store s4 s5" using d by (auto simp: list_deks_def dest: fetch_read_Inr)
  have "vs_saved s5 = Some (vs_tables st)" using s5 s4(1) by (simp add: same_store_def)
  note rewrapped = rewrap_each_Inr [OF ok e mg(2) this distinct_ordered_deks]
  have "distinct (map vk_dek_version (vt_deks (vs_tables s4)))" using versions s4(2) by simp
  note rewrapped = rewrapped [OF this]
  have "other_tables (vs_tables s6) = other_tables (vs_tables s4)" using rewrapped s5 by (simp add: same_store_def)
  then show "vs_saved s = None" "n = int (length (vt_deks (vs_tables st)))"
    "vt_secrets (vs_tables s) = vt_secrets (vs_tables st)" "vt_probes (vs_tables s) = vt_probes (vs_tables st)"
    "\<exists>c. vt_unseal (vs_tables s) = Some (m\<lparr>um_created_at := c\<rparr>)"
    "\<forall>d \<in> set (vt_deks (vs_tables st)). rewrapped_to ce old new d (vs_tables s)"
    using rewrapped s s4 by (auto simp: other_tables_def)
qed

text \<open>
  C5.  A rotation that ends normally leaves a vault that the new passphrase opens: the stored metadata give the new
  key for it, every data encryption key that was there is wrapped under the new key and opens to what it opened to
  under the old one, the secrets are as they were, and the probe reads back under the new key.
\<close>

theorem rotation_keeps_secrets_readable:
  assumes "crypto_ok ce" "vs_saved st = None" "vault_ok (ce_config ce) (vs_tables st)"
    "probe_with (gs_probe_name gs) (vs_tables st) \<noteq> None"
    "rotate_and_rewrap (make_management ce gs) current new run_id st = (st', Inr res)"
  shows "\<exists>m old m' key. vt_unseal (vs_tables st) = Some m \<and> derive_key ce current m = Inr old
    \<and> vt_unseal (vs_tables st') = Some m' \<and> derive_key ce new m' = Inr key \<and> mk_key_version key \<noteq> um_key_version m
    \<and> (\<forall>d \<in> set (vt_deks (vs_tables st)). rewrapped_to ce [old] key d (vs_tables st'))
    \<and> vres_dek_rewrapped_count res = int (length (vt_deks (vs_tables st)))
    \<and> vt_secrets (vs_tables st') = vt_secrets (vs_tables st) \<and> probe_readable ce [key] gs (vs_tables st')"
proof -
  let ?mg = "make_management ce gs"
  have mg: "mg_config ?mg = ce_config ce" "mg_crypto ?mg = ce" "mg_now ?mg = get_utc_now_iso ce"
    "mg_post_verify ?mg [key] = ensure_ready ce (static_provider [key]) gs" for key
    by (simp_all add: make_management_def guard_post_verify_def)
  obtain s1 run s2 m old s4 now s5 version s6 nm key s7 n where
    a: "effective_run_id ?mg run_id st = (s1, Inr run)"
    and b: "get_unseal_metadata (ce_config ce) s1 = (s2, Inr (Some m))"
    and old: "derive_key ce current m = Inr old"
    and c: "get_utc_now_iso ce s2 = (s4, Inr now)"
    and d: "unique_key_version ?mg [um_key_version m] s4 = (s5, Inr version)"
    and e: "create_metadata ce new version now s5 = (s6, Inr (nm, key))"
    and f: "or_mark_failed ?mg run ''rotate'' ''rotate_failed''
         (bind_s (rewrap_in_transaction ?mg key [old] run ''rotate_in_progress'' (Some nm)) (\<lambda>n.
          bind_s (ensure_ready ce (static_provider [key]) gs) (\<lambda>_. return_s n))) s6 = (s7, Inr n)"
    and g: "mark_success ?mg run ''rotate_completed'' (Some now) s7 = (st', Inr ())"
    and res: "vres_dek_rewrapped_count res = n"
    using assms(5) unfolding rotate_and_rewrap_def require_metadata_def mg
    by (auto simp: bind_s_Inr mg split: option.splits prod.splits)
  have "(bind_s (rewrap_in_transaction ?mg key [old] run ''rotate_in_progress'' (Some nm)) (\<lambda>n.
          bind_s (ensure_ready ce (static_provider [key]) gs) (\<lambda>_. return_s n))) s6 = (s7, Inr n)"
    using f by (auto simp: or_mark_failed_def try_s_def bind_s_def raise_v_def lift_s_def split: prod.splits sum.splits)
  then obtain s8 where rewrap: "rewrap_in_transaction ?mg key [old] run ''rotate_in_progress'' (Some nm) s6 = (s8, Inr n)"
    and check: "ensure_ready ce (static_provider [key]) gs s8 = (s7, Inr ())"
    by (auto simp: bind_s_Inr)
  have "same_store st s1" "same_store s1 s2" "same_store s2 s4" "same_store s4 s5" "same_store s5 s6"
    using a effective_run_id_Inr b c d e by (auto simp: get_unseal_metadata_def dest: fetch_read_Inr tick_steps_Inr unique_key_version_Inr create_metadata_Inr(4))
  then have s6: "vs_tables s6 = vs_tables st" "vs_tables s1 = vs_tables st" by (auto simp: same_store_def)
  have m: "vt_unseal (vs_tables st) = Some m" using b s6 by (auto simp: get_unseal_metadata_def dest: fetch_read_Inr)
  note made = create_metadata_Inr [OF e]
  have "distinct (map vk_dek_version (vt_deks (vs_tables s6)))" using assms(3) s6 by (simp add: vault_ok_def deks_ok_def)
  note done_all = rewrap_in_transaction_Inr [OF assms(1) rewrap this, unfolded s6]
  note ready = ensure_ready_Inr [OF check done_all(1)]
  have "probe_with (gs_probe_name gs) (vs_tables s8) \<noteq> None" using assms(4) done_all(4) by (simp add: probe_with_def)
  then have s7: "vs_tables s7 = vs_tables s8 \<and> committed s7 = vs_tables s8" by (rule ready(3))
  then have "core (vs_tables st') = core (vs_tables s8)" using keeps_core_Inr [OF meta_keeps_core(3) g] by simp
  then have at_end: "other_tables (vs_tables st') = other_tables (vs_tables s8)" "vt_deks (vs_tables st') = vt_deks (vs_tables s8)"
    by (simp_all add: core_def)
  obtain c where c: "vt_unseal (vs_tables st') = Some (nm\<lparr>um_created_at := c\<rparr>)" using done_all(5) at_end(1) by (auto simp: other_tables_def)
  have "derive_key ce new (nm\<lparr>um_created_at := c\<rparr>) = Inr key" using made(1) by simp
  moreover have "mk_key_version key \<noteq> um_key_version m" using made(3) unique_key_version_Inr [OF d] by auto
  moreover have "rewrapped_to ce [old] key q (vs_tables st')" if "q \<in> set (vt_deks (vs_tables st))" for q
    using done_all(6) that at_end(2) by (auto simp: rewrapped_to_def wrapping_def dek_with_def)
  moreover have "vt_secrets (vs_tables st') = vt_secrets (vs_tables st)" using done_all(3) at_end(1) by (simp add: other_tables_def)
  moreover have "probe_readable ce [key] gs (vs_tables st')"
    using ready(1) s7 at_end by (simp add: probe_readable_def probe_with_def dek_with_def other_tables_def)
  ultimately show ?thesis using m old c res done_all(2) by blast
qed

end
