(* ===== verification/Vault_Roundtrip.thy ===== *)
theory Vault_Roundtrip
  imports Vault_Promises
begin

text \<open>
  A secret that was stored is read back: \<open>put_many\<close> followed by \<open>get_secret\<close>, when no statement fails.
\<close>

section \<open>Steps without faults\<close>

lemma retry_calm: "m st = (s, Inr a) \<Longrightarrow> execute_with_retry m n st = (s, Inr a)"
  by (cases n) (simp_all add: try_s_def)

lemma fetch_read_calm:
  assumes "vs_faults st = []"
  shows "fetch_read cf operation ds q st = (st, Inr (q (vs_tables st)))"
proof -
  have "run_select q st = (st, Inr (q (vs_tables st)))" using assms by (simp add: run_select_def bind_s_def meet_fault_def call_s_def)
  then have "execute_with_retry (run_select q) SQLITE_SCHEMA_MAX_RETRIES st = (st, Inr (q (vs_tables st)))" by (rule retry_calm)
  then show ?thesis by (simp add: fetch_read_def on_sqlite_error_def try_s_def)
qed

lemma execute_write_calm:
  assumes "vs_faults st = []" "\<not> vc_readonly cf" "f (vs_tables st) = Inr (t, a)"
  shows "execute_write cf operation ds f st = (st\<lparr>vs_tables := t\<rparr>, Inr a)"
proof -
  have "run_write cf f st = (st\<lparr>vs_tables := t\<rparr>, Inr a)"
    using assms by (simp add: run_write_def need_write_def bind_s_def meet_fault_def call_s_def update_s_def return_s_def)
  then have "execute_with_retry (run_write cf f) SQLITE_SCHEMA_MAX_RETRIES st = (st\<lparr>vs_tables := t\<rparr>, Inr a)" by (rule retry_calm)
  then show ?thesis by (simp add: execute_write_def on_sqlite_error_def try_s_def)
qed

lemma transaction_calm:
  assumes "vs_faults st = []" "vs_saved st = None" "\<not> vc_readonly cf"
    "body (st\<lparr>vs_saved := Some (vs_tables st)\<rparr>) = (s, Inr a)" "vs_faults s = []" "vs_saved s \<noteq> None"
  shows "transaction_v cf body st = (s\<lparr>vs_saved := None\<rparr>, Inr a)"
proof -
  have "run_begin cf True st = (st\<lparr>vs_saved := Some (vs_tables st)\<rparr>, Inr ())"
    using assms by (simp add: run_begin_def need_write_def bind_s_def meet_fault_def update_s_def return_s_def)
  moreover have "run_commit s = (s\<lparr>vs_saved := None\<rparr>, Inr ())"
    using assms by (simp add: run_commit_def bind_s_def meet_fault_def update_s_def in_transaction_def call_s_def)
  ultimately have "engine_transaction cf True body st = (s\<lparr>vs_saved := None\<rparr>, Inr a)"
    using assms by (simp add: engine_transaction_def bind_s_def in_transaction_def call_s_def try_s_def return_s_def)
  then show ?thesis by (simp add: transaction_v_def try_s_def)
qed

lemma tick_steps_calm:
  "get_utc_now_iso ce st = (st\<lparr>vs_clock := vs_clock st + 1\<rparr>, Inr (ce_now ce (vs_clock st)))"
  "urandom ce n st = (st\<lparr>vs_clock := vs_clock st + 1\<rparr>, Inr (ce_random ce (vs_clock st) n))"
  "uuid4_hex ce st = (st\<lparr>vs_clock := vs_clock st + 1\<rparr>, Inr (ce_uuid ce (vs_clock st)))"
  by (simp_all add: get_utc_now_iso_def urandom_def uuid4_hex_def tick_def bind_s_def call_s_def return_s_def)

section \<open>Keys and tokens\<close>

lemma b64_ascii: "c \<in> set (urlsafe_b64encode bs) \<Longrightarrow> (of_char c :: nat) < 128"
proof -
  have digit: "(of_char (b64_digit n) :: nat) < 128" if "n < 64" for n using that by (auto simp: b64_digit_def)
  show "c \<in> set (urlsafe_b64encode bs) \<Longrightarrow> (of_char c :: nat) < 128"
    by (induction bs rule: urlsafe_b64encode.induct) (auto simp: Let_def b64_group digit simp del: One_nat_def)
qed

lemma derived_key:
  assumes "crypto_ok ce" "derive_key ce p m = Inr k"
  shows "ce_fernet_key ce (utf8_encode (mk_key_material k))"
proof -
  obtain raw where raw: "derive_raw_key ce p m = Inr raw" and k: "k = to_master_key (um_key_version m) raw"
    using assms(2) by (auto simp: derive_key_def split: sum.splits if_splits)
  have "ce_argon2id ce (utf8_encode p) (token_bytes (um_kdf_salt m)) (um_kdf_time_cost m) (um_kdf_memory_cost_kib m)
      (um_kdf_parallelism m) 32 = Inr raw"
    using raw unfolding derive_raw_key_def by (auto split: if_splits sum.splits)
  then have "length raw = nat 32" using assms(1) unfolding crypto_ok_def by blast
  then have "length raw = 32" by simp
  moreover have "utf8_encode (urlsafe_b64encode raw) = urlsafe_b64encode raw" by (rule utf8_ascii) (use b64_ascii in blast)
  ultimately show ?thesis using assms(1) unfolding crypto_ok_def k to_master_key_def by simp
qed

lemma envelope_token:
  assumes "fernet_envelope bs"
  shows "open_token (Token_Bytes (urlsafe_b64encode bs)) x = Inr (urlsafe_b64encode bs)"
proof -
  have "urlsafe_b64encode bs \<noteq> []" using assms base64_roundtrip [of bs] by (auto simp: fernet_envelope_def urlsafe_b64decode_def)
  then show ?thesis using assms
    by (simp add: open_token_def normalize_token_def token_bytes_def validate_token_shape_def padded_b64encode base64_roundtrip)
qed

lemma encrypt_calm:
  assumes "crypto_ok ce" "ce_fernet_key ce dek"
  shows "\<exists>tok. encrypt ce plain dek FERNET_V1 st = (st\<lparr>vs_clock := vs_clock st + 1\<rparr>, Inr tok) \<and> decrypt ce tok dek FERNET_V1 = Inr plain"
proof -
  obtain bs where bs: "ce_fernet_encrypt ce (vs_clock st) dek (utf8_encode plain) = Some (urlsafe_b64encode bs)" "fernet_envelope bs"
      "ce_fernet_decrypt ce dek (urlsafe_b64encode bs) = Fernet_Plain (utf8_encode plain)"
    using assms unfolding crypto_ok_def by metis
  then have "decrypt ce (Token_Bytes (urlsafe_b64encode bs)) dek FERNET_V1 = Inr plain"
    using assms(2) by (simp add: decrypt_def ensure_algo_def envelope_token build_fernet_from_dek_def utf8_roundtrip)
  then show ?thesis using bs(1) assms(2)
    by (simp add: encrypt_def ensure_algo_def build_fernet_from_dek_def bind_s_def lift_s_def tick_def call_s_def)
qed

lemma wrap_calm:
  assumes "crypto_ok ce" "ce_fernet_key ce (utf8_encode (mk_key_material k))"
  shows "\<exists>tok. wrap_dek ce dek (mk_key_material k) FERNET_V1 st = (st\<lparr>vs_clock := vs_clock st + 1\<rparr>, Inr tok) \<and> opens ce k tok FERNET_V1 dek"
proof -
  obtain bs where bs: "ce_fernet_encrypt ce (vs_clock st) (utf8_encode (mk_key_material k)) dek = Some (urlsafe_b64encode bs)"
    using assms unfolding crypto_ok_def by metis
  then have wrap: "wrap_dek ce dek (mk_key_material k) FERNET_V1 st
      = (st\<lparr>vs_clock := vs_clock st + 1\<rparr>, Inr (Token_Bytes (urlsafe_b64encode bs)))"
    using assms(2) by (simp add: wrap_dek_def ensure_algo_def build_fernet_from_master_key_def bind_s_def lift_s_def tick_def call_s_def)
  then show ?thesis using wrap_opens(1) [OF assms(1) wrap] by blast
qed

section \<open>The provider\<close>

text \<open>The passphrase gives \<open>k\<close>, and \<open>k\<close> is the key in memory when there is one.\<close>

definition unlocked :: "crypto_env \<Rightarrow> string \<Rightarrow> master_key \<Rightarrow> vault_state \<Rightarrow> bool" where
  "unlocked ce p k st \<longleftrightarrow> (vs_key st = None \<or> vs_key st = Some k)
     \<and> (\<exists>m. vt_unseal (vs_tables st) = Some m \<and> derive_key ce p m = Inr k)"

lemma active_key_calm:
  assumes "unlocked ce p k st" "vs_faults st = []"
  shows "unsealed_active_key ce (Some p) st = (st\<lparr>vs_key := Some k\<rparr>, Inr k)"
proof (cases "vs_key st")
  case None
  then show ?thesis using assms
    by (auto simp: unlocked_def unsealed_active_key_def load_active_key_def get_unseal_metadata_def fetch_read_calm bind_s_def
        lift_s_def update_s_def return_s_def)
next
  case (Some k')
  then have "vs_key st = Some k" using assms(1) by (simp add: unlocked_def)
  then show ?thesis by (simp add: unsealed_active_key_def)
qed

lemma unwrap_calm:
  assumes "vs_key st = Some k" "opens ce k (vk_wrapped_dek d) (vk_wrap_algo d) dek"
  shows "unwrap_by_provider ce (unsealed_provider ce p) e d st = (st, Inr dek)"
proof -
  have active: "unsealed_active_key ce p st = (st, Inr k)" using assms(1) by (simp add: unsealed_active_key_def)
  have "candidate_master_keys (unsealed_provider ce p) (vk_wrap_key_version d) st = (st, Inr [k])"
    by (simp add: candidate_master_keys_def unsealed_provider_def bind_s_def active return_s_def)
  then show ?thesis using assms(2) by (simp add: unwrap_by_provider_def bind_s_def lift_s_def opens_def return_s_def)
qed

section \<open>The rows of a secret\<close>

definition row_at :: "string \<Rightarrow> string \<Rightarrow> string \<Rightarrow> vault_secret \<Rightarrow> bool" where
  "row_at dataset fld mk r \<longleftrightarrow> vr_dataset r = dataset \<and> vr_field r = fld \<and> vr_match_key r = Some mk"

text \<open>The newest rows at the place, and there is one, are of time \<open>now\<close> and say the same as \<open>new\<close>.\<close>

definition rows_at :: "string \<Rightarrow> string \<Rightarrow> string \<Rightarrow> vault_tables \<Rightarrow> vault_secret set" where
  "rows_at dataset fld mk t = {r \<in> set (vt_secrets t). row_at dataset fld mk r}"

definition says :: "vault_secret \<Rightarrow> vault_secret \<Rightarrow> bool" where
  "says new r \<longleftrightarrow> vr_updated_at r = vr_updated_at new \<and> vr_ciphertext r = vr_ciphertext new
     \<and> vr_cipher_algo r = vr_cipher_algo new \<and> vr_dek_version r = vr_dek_version new"

definition newest_says :: "vault_secret \<Rightarrow> string \<Rightarrow> string \<Rightarrow> string \<Rightarrow> vault_tables \<Rightarrow> bool" where
  "newest_says new dataset fld mk t \<longleftrightarrow> (\<exists>r \<in> rows_at dataset fld mk t. says new r)
     \<and> (\<forall>r \<in> rows_at dataset fld mk t. vr_updated_at r < vr_updated_at new \<or> says new r)"

lemma newest_selected:
  assumes "newest_says new dataset fld mk t"
  shows "\<exists>r. select_secret dataset fld (\<lambda>r. vr_match_key r = Some mk) t = Some r \<and> vr_ciphertext r = vr_ciphertext new
    \<and> vr_cipher_algo r = vr_cipher_algo new \<and> vr_dek_version r = vr_dek_version new"
proof -
  let ?rs = "filter (\<lambda>r. vr_dataset r = dataset \<and> vr_field r = fld \<and> vr_match_key r = Some mk) (vt_secrets t)"
  have rows: "rows_at dataset fld mk t = set ?rs" by (auto simp: rows_at_def row_at_def)
  obtain q where "q \<in> rows_at dataset fld mk t" and says: "says new q" using assms by (auto simp: newest_says_def)
  then have q: "q \<in> set ?rs" unfolding rows by simp
  then have "?rs \<noteq> []" by (cases ?rs) simp_all
  then obtain r where r: "first_by secret_order ?rs = Some r" by (cases "first_by secret_order ?rs") (simp_all only: first_by_None)
  have "secret_order q \<le> secret_order r" using first_by_max [OF r q] .
  then have "\<not> vr_updated_at r < vr_updated_at new" using says by (auto simp: says_def secret_order_def less_eq_prod_def)
  moreover have "r \<in> rows_at dataset fld mk t" unfolding rows using r by (rule first_by_in)
  ultimately have "says new r" using assms by (auto simp: newest_says_def)
  moreover have "select_secret dataset fld (\<lambda>r. vr_match_key r = Some mk) t = Some r" using r by (simp add: select_secret_def)
  ultimately show ?thesis by (auto simp: says_def)
qed

lemma put_secret_says:
  assumes put: "put_secret cf new t = Inr (t', u)" and place: "row_at dataset fld mk new"
    and older: "\<And>r. r \<in> set (vt_secrets t) \<Longrightarrow> row_at dataset fld mk r \<Longrightarrow> vr_updated_at r < vr_updated_at new"
    and scope: "\<And>r. r \<in> set (vt_secrets t) \<Longrightarrow> same_scope new r \<Longrightarrow> vr_match_key r = Some mk"
  shows "newest_says new dataset fld mk t'"
proof (cases "\<exists>q \<in> set (vt_secrets t). same_scope new q")
  case True
  then obtain q where q: "q \<in> set (vt_secrets t)" "same_scope new q" by blast
  let ?f = "\<lambda>q. if same_scope new q then overwrite_secret new q else q"
  have rows: "vt_secrets t' = map ?f (vt_secrets t)" using put True by (auto simp: put_secret_def split: if_splits)
  have q': "?f q = overwrite_secret new q" using q by simp
  have "row_at dataset fld mk (overwrite_secret new q)"
    using scope [OF q] q(2) place by (simp add: row_at_def overwrite_secret_def same_scope_def)
  moreover have "overwrite_secret new q \<in> set (vt_secrets t')" unfolding rows set_map
    using imageI [OF q(1), of ?f] unfolding q' .
  ultimately have "overwrite_secret new q \<in> rows_at dataset fld mk t'" by (simp add: rows_at_def)
  moreover have "says new (overwrite_secret new q)" by (simp add: says_def overwrite_secret_def)
  moreover have "vr_updated_at r < vr_updated_at new \<or> says new r" if r: "r \<in> rows_at dataset fld mk t'" for r
  proof -
    have "r \<in> ?f ` set (vt_secrets t)" "row_at dataset fld mk r" using r by (simp_all only: rows_at_def rows set_map mem_Collect_eq)
    then obtain w where w: "w \<in> set (vt_secrets t)" "r = ?f w" "row_at dataset fld mk r" by (elim imageE)
    show ?thesis
    proof (cases "same_scope new w")
      case True
      then show ?thesis using w(2) by (simp add: says_def overwrite_secret_def)
    next
      case False
      then show ?thesis using w older [of w] by simp
    qed
  qed
  ultimately show ?thesis by (auto simp: newest_says_def)
next
  case False
  have rows: "vt_secrets t' = vt_secrets t @ [new\<lparr>vr_secret_id := Some (vt_sequence t + 1)\<rparr>]"
    using put False by (auto simp: put_secret_def split: if_splits)
  have "row_at dataset fld mk (new\<lparr>vr_secret_id := i\<rparr>)" "says new (new\<lparr>vr_secret_id := i\<rparr>)" for i
    using place by (simp_all add: row_at_def says_def)
  then show ?thesis using older unfolding newest_says_def rows_at_def rows by auto
qed

text \<open>A row of another field changes nothing at the place.\<close>

definition field_rows :: "string \<Rightarrow> vault_tables \<Rightarrow> vault_secret set" where
  "field_rows fld t = {r \<in> set (vt_secrets t). vr_field r = fld}"

lemma put_secret_elsewhere:
  assumes put: "put_secret cf new t = Inr (t', u)" and other: "vr_field new \<noteq> fld"
  shows "field_rows fld t' = field_rows fld t"
proof (cases "\<exists>q \<in> set (vt_secrets t). same_scope new q")
  case True
  let ?f = "\<lambda>q. if same_scope new q then overwrite_secret new q else q"
  have rows: "vt_secrets t' = map ?f (vt_secrets t)" using put True by (auto simp: put_secret_def split: if_splits)
  have same: "vr_field (?f q) = vr_field q" "vr_field q = fld \<Longrightarrow> ?f q = q" for q
    using other by (auto simp: overwrite_secret_def same_scope_def)
  show ?thesis unfolding field_rows_def rows set_map
  proof (intro equalityI subsetI)
    fix r assume "r \<in> {r \<in> ?f ` set (vt_secrets t). vr_field r = fld}"
    then obtain q where q: "q \<in> set (vt_secrets t)" "r = ?f q" "vr_field r = fld" by blast
    have "vr_field q = fld" using q(3) unfolding q(2) same(1) .
    then have "r = q" unfolding q(2) by (rule same(2))
    then show "r \<in> {r \<in> set (vt_secrets t). vr_field r = fld}" using q(1,3) by simp
  next
    fix r assume "r \<in> {r \<in> set (vt_secrets t). vr_field r = fld}"
    then have "r = ?f r" "r \<in> set (vt_secrets t)" "vr_field r = fld" using same(2) [of r] by auto
    then show "r \<in> {r \<in> ?f ` set (vt_secrets t). vr_field r = fld}" by blast
  qed
next
  case False
  have "vt_secrets t' = vt_secrets t @ [new\<lparr>vr_secret_id := Some (vt_sequence t + 1)\<rparr>]" using put False by (auto simp: put_secret_def split: if_splits)
  then show ?thesis using other by (auto simp: field_rows_def)
qed

lemma rows_at_field: "rows_at dataset fld mk t = {r \<in> field_rows fld t. row_at dataset fld mk r}"
  by (auto simp: rows_at_def row_at_def field_rows_def)

lemma newest_says_cong: "field_rows fld t' = field_rows fld t \<Longrightarrow> newest_says new dataset fld mk t' = newest_says new dataset fld mk t"
  by (simp only: newest_says_def rows_at_field)

section \<open>Writing\<close>

definition hash_of :: "crypto_env \<Rightarrow> string \<Rightarrow> string \<Rightarrow> string \<Rightarrow> string" where
  "hash_of ce dataset fld mk = hexdigest (ce_sha256 ce (utf8_encode
     (''v1'' @ ''|'' @ dataset @ ''|'' @ fld @ ''|'' @ canonical_source_ref_json (match_key_ref mk))))"

lemma build_locator_hash_v1: "build_locator_hash ce dataset fld (match_key_ref mk) ''v1'' = Inr (hash_of ce dataset fld mk)"
  by (simp add: build_locator_hash_def hash_of_def)

text \<open>The stored rows of the match key are older, and the row of the locator is of this match key.\<close>

definition place_clear :: "crypto_env \<Rightarrow> string \<Rightarrow> string \<Rightarrow> string \<Rightarrow> string \<Rightarrow> vault_tables \<Rightarrow> bool" where
  "place_clear ce now dataset fld mk t \<longleftrightarrow> (\<forall>r \<in> field_rows fld t.
       (row_at dataset fld mk r \<longrightarrow> vr_updated_at r < now)
     \<and> (at_locator dataset fld (hash_of ce dataset fld mk) ''v1'' r \<longrightarrow> vr_match_key r = Some mk))"

definition stored :: "crypto_env \<Rightarrow> bytes \<Rightarrow> vault_dek \<Rightarrow> string \<Rightarrow> string \<Rightarrow> string \<Rightarrow> string \<Rightarrow> vault_tables \<Rightarrow> bool" where
  "stored ce dek d dataset mk fld plain t \<longleftrightarrow> (\<exists>new. newest_says new dataset fld mk t \<and> vr_dek_version new = vk_dek_version d
     \<and> vr_cipher_algo new = FERNET_V1 \<and> decrypt ce (vr_ciphertext new) dek FERNET_V1 = Inr plain)"

lemma put_one_calm:
  assumes env: "crypto_ok ce" "ce_fernet_key ce dek" "\<not> vc_readonly (ce_config ce)" "vs_faults st = []"
    and parent: "vk_dek_version d \<in> vk_dek_version ` set (vt_deks (vs_tables st))"
  shows "\<exists>s. put_one ce default_settings dataset mk key (d, dek) run_id now (fld, plain) st = (s, Inr ())
    \<and> vs_faults s = [] \<and> vs_saved s = vs_saved st \<and> vs_key s = vs_key st
    \<and> vt_deks (vs_tables s) = vt_deks (vs_tables st) \<and> vt_unseal (vs_tables s) = vt_unseal (vs_tables st)
    \<and> (place_clear ce now dataset fld mk (vs_tables st) \<longrightarrow> stored ce dek d dataset mk fld plain (vs_tables s))
    \<and> (\<forall>f. f \<noteq> fld \<longrightarrow> field_rows f (vs_tables s) = field_rows f (vs_tables st))"
proof -
  obtain tok where enc: "encrypt ce plain dek FERNET_V1 st = (st\<lparr>vs_clock := vs_clock st + 1\<rparr>, Inr tok)"
    and dec: "decrypt ce tok dek FERNET_V1 = Inr plain" using encrypt_calm [OF env(1,2)] by blast
  let ?h = "hash_of ce dataset fld mk"
  define new where "new = new_secret default_settings dataset fld mk ?h tok key d run_id now"
  obtain t where put: "put_secret (ce_config ce) new (vs_tables st) = Inr (t, ())"
    using parent by (auto simp: put_secret_def new_def new_secret_def)
  have "execute_write (ce_config ce) operation ds (put_secret (ce_config ce) new) (st\<lparr>vs_clock := vs_clock st + 1\<rparr>)
      = (st\<lparr>vs_clock := vs_clock st + 1, vs_tables := t\<rparr>, Inr ())" for operation ds
    using env(3,4) put by (intro execute_write_calm) simp_all
  then have run: "put_one ce default_settings dataset mk key (d, dek) run_id now (fld, plain) st
      = (st\<lparr>vs_clock := vs_clock st + 1, vs_tables := t\<rparr>, Inr ())"
    using enc by (simp add: put_one_def default_settings_def build_locator_hash_v1 bind_s_def lift_s_def upsert_secret_def
        new_def [unfolded default_settings_def])
  have parts: "vr_dataset new = dataset" "vr_field new = fld" "vr_match_key new = Some mk" "vr_updated_at new = now" "vr_locator_hash new = ?h"
    "vr_locator_version new = ''v1''" "vr_dek_version new = vk_dek_version d" "vr_cipher_algo new = FERNET_V1" "vr_ciphertext new = tok"
    by (simp_all add: new_def new_secret_def default_settings_def)
  have "stored ce dek d dataset mk fld plain t" if clear: "place_clear ce now dataset fld mk (vs_tables st)"
  proof -
    have "newest_says new dataset fld mk t"
    proof (rule put_secret_says [OF put])
      show "row_at dataset fld mk new" by (simp add: row_at_def parts)
      show "vr_updated_at r < vr_updated_at new" if "r \<in> set (vt_secrets (vs_tables st))" "row_at dataset fld mk r" for r
        using clear that parts by (auto simp: place_clear_def field_rows_def row_at_def)
      show "vr_match_key r = Some mk" if "r \<in> set (vt_secrets (vs_tables st))" "same_scope new r" for r
        using clear that parts by (auto simp: place_clear_def field_rows_def at_locator_def same_scope_def)
    qed
    then show ?thesis using dec parts by (auto simp: stored_def)
  qed
  moreover have "f \<noteq> fld \<Longrightarrow> field_rows f t = field_rows f (vs_tables st)" for f
    using put_secret_elsewhere [OF put, of f] parts by simp
  moreover have "vt_deks t = vt_deks (vs_tables st) \<and> vt_unseal t = vt_unseal (vs_tables st)"
    using put by (auto simp: put_secret_def split: if_splits)
  ultimately show ?thesis using env(4) run
    by (intro exI [of _ "st\<lparr>vs_clock := vs_clock st + 1, vs_tables := t\<rparr>"]) simp
qed

lemma put_each_calm:
  assumes env: "crypto_ok ce" "ce_fernet_key ce dek" "\<not> vc_readonly (ce_config ce)"
    and st: "vs_faults st = []" "vk_dek_version d \<in> vk_dek_version ` set (vt_deks (vs_tables st))" and "distinct (map fst ss)"
  shows "\<exists>s. put_each (put_one ce default_settings dataset mk key (d, dek) run_id now) ss st = (s, Inr ())
    \<and> vs_faults s = [] \<and> vs_saved s = vs_saved st \<and> vs_key s = vs_key st
    \<and> vt_deks (vs_tables s) = vt_deks (vs_tables st) \<and> vt_unseal (vs_tables s) = vt_unseal (vs_tables st)
    \<and> (\<forall>(f, plain) \<in> set ss. place_clear ce now dataset f mk (vs_tables st) \<longrightarrow> stored ce dek d dataset mk f plain (vs_tables s))
    \<and> (\<forall>f. f \<notin> fst ` set ss \<longrightarrow> field_rows f (vs_tables s) = field_rows f (vs_tables st))"
  using st \<open>distinct (map fst ss)\<close>
proof (induction ss arbitrary: st)
  case Nil
  then show ?case by (simp add: return_s_def)
next
  case (Cons a ss)
  obtain f0 p0 where a: "a = (f0, p0)" by (cases a)
  obtain s1 where one: "put_one ce default_settings dataset mk key (d, dek) run_id now (f0, p0) st = (s1, Inr ())"
    "vs_faults s1 = []" "vs_saved s1 = vs_saved st" "vs_key s1 = vs_key st" "vt_deks (vs_tables s1) = vt_deks (vs_tables st)"
    "vt_unseal (vs_tables s1) = vt_unseal (vs_tables st)"
    "place_clear ce now dataset f0 mk (vs_tables st) \<longrightarrow> stored ce dek d dataset mk f0 p0 (vs_tables s1)"
    "\<forall>f. f \<noteq> f0 \<longrightarrow> field_rows f (vs_tables s1) = field_rows f (vs_tables st)"
    using put_one_calm [OF env Cons.prems(1,2)] by blast
  have "vk_dek_version d \<in> vk_dek_version ` set (vt_deks (vs_tables s1))" "distinct (map fst ss)" "f0 \<notin> fst ` set ss"
    using Cons.prems(2,3) one(5) a by simp_all
  then obtain s where rest: "put_each (put_one ce default_settings dataset mk key (d, dek) run_id now) ss s1 = (s, Inr ())"
    "vs_faults s = []" "vs_saved s = vs_saved s1" "vs_key s = vs_key s1" "vt_deks (vs_tables s) = vt_deks (vs_tables s1)"
    "vt_unseal (vs_tables s) = vt_unseal (vs_tables s1)"
    "\<forall>(f, plain) \<in> set ss. place_clear ce now dataset f mk (vs_tables s1) \<longrightarrow> stored ce dek d dataset mk f plain (vs_tables s)"
    "\<forall>f. f \<notin> fst ` set ss \<longrightarrow> field_rows f (vs_tables s) = field_rows f (vs_tables s1)"
    using Cons.IH [OF one(2)] by blast
  have "put_each (put_one ce default_settings dataset mk key (d, dek) run_id now) (a # ss) st = (s, Inr ())"
    using one(1) rest(1) by (simp add: a bind_s_def)
  moreover have "stored ce dek d dataset mk f plain (vs_tables s)"
    if "(f, plain) \<in> set (a # ss)" "place_clear ce now dataset f mk (vs_tables st)" for f plain
  proof (cases "(f, plain) \<in> set ss")
    case True
    then have "f \<noteq> f0" using \<open>f0 \<notin> fst ` set ss\<close> by force
    then have "place_clear ce now dataset f mk (vs_tables s1)" using that(2) one(8) by (simp add: place_clear_def)
    then show ?thesis using True rest(7) by blast
  next
    case False
    then have "f = f0" "plain = p0" using that(1) a by auto
    then show ?thesis using that(2) one(7) rest(8) \<open>f0 \<notin> fst ` set ss\<close> newest_says_cong [of f0 "vs_tables s" "vs_tables s1"]
      by (auto simp: stored_def)
  qed
  ultimately show ?case using one(2-6,8) rest(2-6,8) a by (intro exI [of _ s]) auto
qed

text \<open>The active key, when there is one, opens under \<open>k\<close> to a Fernet key.\<close>

definition active_usable :: "crypto_env \<Rightarrow> master_key \<Rightarrow> vault_tables \<Rightarrow> bool" where
  "active_usable ce k t \<longleftrightarrow> (\<forall>d. active_dek t = Some d \<longrightarrow>
     (\<exists>dek. opens ce k (vk_wrapped_dek d) (vk_wrap_algo d) dek \<and> ce_fernet_key ce dek))"

lemma upsert_dek_calm:
  assumes "vs_faults st = []" "\<not> vc_readonly cf" "vs_saved st \<noteq> None" "vk_is_active d"
  shows "\<exists>t. upsert_dek cf d st = (st\<lparr>vs_tables := t\<rparr>, Inr ()) \<and> other_tables t = other_tables (vs_tables st)
    \<and> wrapping t (vk_dek_version d) = Some (wrap_of d)"
proof -
  obtain t1 where t1: "deactivate_others d (vs_tables st) = Inr (t1, ())" by (simp add: deactivate_others_def)
  obtain t2 where t2: "put_dek d t1 = Inr (t2, ())" by (simp add: put_dek_def)
  have "execute_write cf ''deactivate_other_dek'' (Some [(''dek_version'', PStr (vk_dek_version d))]) (deactivate_others d) st
      = (st\<lparr>vs_tables := t1\<rparr>, Inr ())"
    using assms t1 by (intro execute_write_calm) simp_all
  moreover have "execute_write cf ''upsert_dek'' (Some [(''dek_version'', PStr (vk_dek_version d)), (''key_version'', PStr (vk_wrap_key_version d))])
      (put_dek d) (st\<lparr>vs_tables := t1\<rparr>) = (st\<lparr>vs_tables := t2\<rparr>, Inr ())"
    using assms t2 execute_write_calm [of "st\<lparr>vs_tables := t1\<rparr>" cf "put_dek d" t2 "()"] by simp
  ultimately have "upsert_dek cf d st = (st\<lparr>vs_tables := t2\<rparr>, Inr ())"
    using assms(3,4) by (simp add: upsert_dek_def autobegin_def in_transaction_def call_s_def bind_s_def)
  then show ?thesis using other_tables_deks(1) [OF t1] other_tables_deks(2) [OF t2] wrapping_put_dek [OF t2, of "vk_dek_version d"]
    by (intro exI [of _ t2]) simp
qed

lemma wrapping_Some: "wrapping t v = Some (w, a, kv) \<longleftrightarrow>
    (\<exists>d. dek_with v t = Some d \<and> vk_wrapped_dek d = w \<and> vk_wrap_algo d = a \<and> vk_wrap_key_version d = kv)"
  by (auto simp: wrapping_def)

lemma find_distinct: "distinct (map K xs) \<Longrightarrow> d \<in> set xs \<Longrightarrow> find (\<lambda>x. K x = K d) xs = Some d"
  by (induction xs) auto

lemma ensure_active_dek_calm:
  assumes env: "crypto_ok ce" "ce_fernet_key ce (utf8_encode (mk_key_material k))" "\<not> vc_readonly (ce_config ce)"
    and st: "vs_faults st = []" "vs_saved st \<noteq> None" "vs_key st = Some k" "deks_ok (vt_deks (vs_tables st))"
      "active_usable ce k (vs_tables st)"
  shows "\<exists>s d dek d'. ensure_active_dek ce (unsealed_provider ce p) default_settings k now st = (s, Inr (d, dek))
    \<and> vs_faults s = [] \<and> vs_saved s = vs_saved st \<and> vs_key s = Some k \<and> other_tables (vs_tables s) = other_tables (vs_tables st)
    \<and> ce_fernet_key ce dek \<and> dek_with (vk_dek_version d) (vs_tables s) = Some d' \<and> opens ce k (vk_wrapped_dek d') (vk_wrap_algo d') dek"
proof (cases "active_dek (vs_tables st)")
  case (Some d)
  obtain dek where dek: "opens ce k (vk_wrapped_dek d) (vk_wrap_algo d) dek" "ce_fernet_key ce dek"
    using st(5) Some by (auto simp: active_usable_def)
  have "d \<in> set (vt_deks (vs_tables st))" using Some by (auto simp: active_dek_def dest: first_by_in)
  moreover have "distinct (map vk_dek_version (vt_deks (vs_tables st)))" using st(4) by (simp add: deks_ok_def)
  ultimately have "dek_with (vk_dek_version d) (vs_tables st) = Some d"
    unfolding dek_with_def by (rule find_distinct [rotated])
  moreover have "ensure_active_dek ce (unsealed_provider ce p) default_settings k now st = (st, Inr (d, dek))"
    using Some st(1) unwrap_calm [OF st(3) dek(1)]
    by (simp add: ensure_active_dek_def get_active_dek_def fetch_read_calm bind_s_def return_s_def)
  ultimately show ?thesis using st dek by blast
next
  case None
  define st1 where "st1 = st\<lparr>vs_clock := vs_clock st + 1\<rparr>"
  define dek where "dek = urlsafe_b64encode (ce_random ce (vs_clock st) 32)"
  have valid: "ce_fernet_key ce dek" using env(1) by (simp add: crypto_ok_def dek_def)
  obtain tok where tok: "wrap_dek ce dek (mk_key_material k) FERNET_V1 st1 = (st1\<lparr>vs_clock := vs_clock st1 + 1\<rparr>, Inr tok)"
    "opens ce k tok FERNET_V1 dek" using wrap_calm [OF env(1,2)] by blast
  define st3 where "st3 = st1\<lparr>vs_clock := vs_clock st1 + 1 + 1\<rparr>"
  define d where "d = new_dek (''dek_'' @ ce_uuid ce (vs_clock st1 + 1)) tok FERNET_V1 (mk_key_version k) now"
  have st3: "vs_faults st3 = []" "vs_saved st3 \<noteq> None" "vs_saved st3 = vs_saved st" "vs_key st3 = Some k" "vs_tables st3 = vs_tables st"
    using st by (simp_all add: st3_def st1_def)
  obtain t where put: "upsert_dek (ce_config ce) d st3 = (st3\<lparr>vs_tables := t\<rparr>, Inr ())" "other_tables t = other_tables (vs_tables st3)"
      "wrapping t (vk_dek_version d) = Some (wrap_of d)"
    using upsert_dek_calm [OF st3(1) env(3) st3(2), of d] by (auto simp: d_def new_dek_def)
  have "ensure_active_dek ce (unsealed_provider ce p) default_settings k now st = (st3\<lparr>vs_tables := t\<rparr>, Inr (d, dek))"
    using None st(1) tok(1) put(1)
    by (simp add: ensure_active_dek_def get_active_dek_def fetch_read_calm tick_steps_calm bind_s_def return_s_def default_settings_def
        dek_def [symmetric] st1_def d_def st3_def Let_def)
  moreover obtain d' where "dek_with (vk_dek_version d) t = Some d'" "vk_wrapped_dek d' = tok" "vk_wrap_algo d' = FERNET_V1"
    using put(3) by (auto simp: wrapping_Some wrap_of_def d_def new_dek_def)
  ultimately show ?thesis using st3 put(2) valid tok(2)
    by (intro exI [of _ "st3\<lparr>vs_tables := t\<rparr>"] exI [of _ d] exI [of _ dek] exI [of _ d']) simp
qed

section \<open>Reading back\<close>

lemma get_secret_calm:
  assumes env: "crypto_ok ce" and st: "vs_faults st = []" "vs_key st = Some k"
    and stored: "stored ce dek d dataset mk fld plain (vs_tables st)" and mk: "py_strip match_key = mk" "mk \<noteq> []"
    and d': "dek_with (vk_dek_version d) (vs_tables st) = Some d'" "opens ce k (vk_wrapped_dek d') (vk_wrap_algo d') dek"
  shows "get_secret ce (unsealed_provider ce p) default_settings dr dataset fld (match_key_ref match_key) run_id st = (st, Inr (Some plain))"
proof -
  obtain new where new: "newest_says new dataset fld mk (vs_tables st)" "vr_dek_version new = vk_dek_version d"
    "vr_cipher_algo new = FERNET_V1" "decrypt ce (vr_ciphertext new) dek FERNET_V1 = Inr plain" using stored by (auto simp: stored_def)
  obtain r where r: "select_secret dataset fld (\<lambda>r. vr_match_key r = Some mk) (vs_tables st) = Some r" "vr_ciphertext r = vr_ciphertext new"
    "vr_cipher_algo r = FERNET_V1" "vr_dek_version r = vk_dek_version d" using newest_selected [OF new(1)] new(2,3) by auto
  have row: "get_secret_row (ce_config ce) dataset fld (Some mk) h v run st = (st, Inr (Some r))" for h v run
  proof -
    have "str_or (Some mk) [] = mk" using mk(2) by (cases mk) (simp_all add: str_or_def)
    then show ?thesis using mk(2) r(1) st(1)
      by (simp add: get_secret_row_def get_secret_by_match_key_def fetch_read_calm bind_s_def return_s_def Let_def)
  qed
  have "load_secret ce (unsealed_provider ce p) default_settings dataset fld mk run st = (st, Inr (Some plain))" for run
    using row st(1) d' unwrap_calm [OF st(2) d'(2)] r new(4)
    by (simp add: load_secret_def default_settings_def build_locator_hash_v1 bind_s_def lift_s_def get_dek_def fetch_read_calm return_s_def)
  then show ?thesis using mk
    by (simp add: get_secret_def extract_match_key_def match_key_ref_def try_s_def)
qed

text \<open>
  C7.  A secret that was stored is read back: without faults \<open>put_many\<close> ends normally, and what \<open>get_secret\<close> then
  gives for any of its fields, whatever run asks, is the text that was stored - when the rows of the match key are
  older, the row of the locator is of this match key, and the active data encryption key opens under the vault's key.
  The reading run does not matter because the query by match key leaves out the run of the row.  The docstring of
  \<open>SecretVaultReadService\<close> and \<open>docs/dev/layers/vault/vault-storage.md\<close> (5.3 and 7) say otherwise: the exact run first,
  then the global rows, so that the run would separate the secrets.  The repository keeps that order only for a call
  without a match key, and the read service makes no such call.
\<close>

theorem stored_secret_reads_back:
  assumes "crypto_ok ce" "\<not> vc_readonly (ce_config ce)" "vs_faults st = []" "vs_saved st = None"
    "vault_ok (ce_config ce) (vs_tables st)" "unlocked ce p k st" "active_usable ce k (vs_tables st)"
    "py_strip match_key \<noteq> []" "distinct (map fst secrets)" "(fld, plain) \<in> set secrets"
    "place_clear ce (ce_now ce (vs_clock st)) dataset fld (py_strip match_key) (vs_tables st)"
  shows "\<exists>st'. put_many ce (unsealed_provider ce (Some p)) default_settings dataset match_key secrets run_id st = (st', Inr ())
    \<and> snd (get_secret ce (unsealed_provider ce (Some p)) default_settings dr dataset fld (match_key_ref match_key) run' st') = Inr (Some plain)"
proof -
  let ?kp = "unsealed_provider ce (Some p)" and ?mk = "py_strip match_key" and ?now = "ce_now ce (vs_clock st)"
  define st1 where "st1 = st\<lparr>vs_clock := vs_clock st + 1\<rparr>"
  define st2 where "st2 = st1\<lparr>vs_saved := Some (vs_tables st1)\<rparr>"
  define st3 where "st3 = st2\<lparr>vs_key := Some k\<rparr>"
  have st: "vs_faults st3 = []" "vs_saved st3 \<noteq> None" "vs_key st3 = Some k" "vs_tables st3 = vs_tables st" "vs_faults st2 = []"
    "unlocked ce p k st2" "vs_faults st1 = []" "vs_saved st1 = None" "vs_tables st1 = vs_tables st"
    using assms(3,4,6) by (simp_all add: st1_def st2_def st3_def unlocked_def)
  obtain m where "derive_key ce p m = Inr k" using assms(6) by (auto simp: unlocked_def)
  then have valid: "ce_fernet_key ce (utf8_encode (mk_key_material k))" by (rule derived_key [OF assms(1)])
  have active: "kp_active ?kp st2 = (st3, Inr k)"
    using active_key_calm [OF st(6,5)] by (simp add: unsealed_provider_def st3_def)
  have "deks_ok (vt_deks (vs_tables st3))" "active_usable ce k (vs_tables st3)" using assms(5,7) st(4) by (simp_all add: vault_ok_def)
  then obtain s4 d dek d' where s4: "ensure_active_dek ce ?kp default_settings k ?now st3 = (s4, Inr (d, dek))"
    "vs_faults s4 = []" "vs_saved s4 = vs_saved st3" "vs_key s4 = Some k" "other_tables (vs_tables s4) = other_tables (vs_tables st3)"
    "ce_fernet_key ce dek" "dek_with (vk_dek_version d) (vs_tables s4) = Some d'" "opens ce k (vk_wrapped_dek d') (vk_wrap_algo d') dek"
    using ensure_active_dek_calm [OF assms(1) valid assms(2) st(1,2,3), of "Some p" ?now] by blast
  have "d' \<in> set (vt_deks (vs_tables s4))" "vk_dek_version d' = vk_dek_version d"
    using s4(7) by (auto simp: dek_with_def dest: find_SomeD)
  then have "vk_dek_version d \<in> vk_dek_version ` set (vt_deks (vs_tables s4))" by (metis imageI)
  then obtain s5 where s5: "put_each (put_one ce default_settings dataset ?mk k (d, dek) run_id ?now) secrets s4 = (s5, Inr ())"
    "vs_faults s5 = []" "vs_saved s5 = vs_saved s4" "vs_key s5 = vs_key s4" "vt_deks (vs_tables s5) = vt_deks (vs_tables s4)"
    "\<forall>(f, plain) \<in> set secrets. place_clear ce ?now dataset f ?mk (vs_tables s4) \<longrightarrow> stored ce dek d dataset ?mk f plain (vs_tables s5)"
    using put_each_calm [OF assms(1) s4(6) assms(2) s4(2) _ assms(9), of d dataset ?mk k run_id ?now] by blast
  have "put_in_transaction ce ?kp default_settings dataset ?mk secrets run_id ?now st2 = (s5, Inr ())"
    using active s4(1) s5(1) by (simp add: put_in_transaction_def bind_s_def)
  then have "transaction_v (ce_config ce) (put_in_transaction ce ?kp default_settings dataset ?mk secrets run_id ?now) st1
      = (s5\<lparr>vs_saved := None\<rparr>, Inr ())"
    using st assms(2) s5(2,3) s4(3) by (intro transaction_calm) (simp_all add: st2_def)
  moreover have "secrets \<noteq> []" using assms(10) by auto
  ultimately have put: "put_many ce ?kp default_settings dataset match_key secrets run_id st = (s5\<lparr>vs_saved := None\<rparr>, Inr ())"
    using assms(8) by (simp add: put_many_def bind_s_def tick_steps_calm st1_def try_s_def)
  have "field_rows fld (vs_tables s4) = field_rows fld (vs_tables st)" using s4(5) st(4) by (simp add: other_tables_def field_rows_def)
  then have "place_clear ce ?now dataset fld ?mk (vs_tables s4)" using assms(11) by (simp add: place_clear_def)
  then have "stored ce dek d dataset ?mk fld plain (vs_tables s5)" using s5(6) assms(10) by blast
  then have "get_secret ce ?kp default_settings dr dataset fld (match_key_ref match_key) run' (s5\<lparr>vs_saved := None\<rparr>)
      = (s5\<lparr>vs_saved := None\<rparr>, Inr (Some plain))"
    using s5 s4 assms(1,8) by (intro get_secret_calm [where d' = d']) (simp_all add: dek_with_def)
  then show ?thesis using put by simp
qed

end
