(* ===== verification/Vault_Facts.thy ===== *)
theory Vault_Facts
  imports Vault_Roundtrip
begin

text \<open>
  Atomicity of \<open>put_many\<close>, the deletions of the retention service, the examples that apply the properties of the
  vault, and what modelling showed.
\<close>

section \<open>Atomicity\<close>

lemma store_error_class: "is_class SecretStoreError (store_error_of e)"
  by (auto simp: store_error_of_def store_failed_def)

text \<open>
  C8.  When \<open>put_many\<close> raises, whatever statement failed and however, no secret and no key of the call is stored:
  others read the tables as they were, and the exception is a \<open>SecretStoreError\<close>.
\<close>

theorem put_many_atomic:
  assumes "vs_saved st = None" "put_many ce (unsealed_provider ce p) cs dataset match_key secrets run_id st = (st', Inl e)"
  shows "committed st' = vs_tables st \<and> is_class SecretStoreError e"
proof -
  have "committed st' = committed st" using unsealed.put_many_all_or_nothing [OF assms] by simp
  moreover have "is_class SecretStoreError e"
    using assms(2)
    by (auto simp: put_many_def return_s_def raise_v_def lift_s_def store_failed_def bind_s_def try_s_def tick_steps_calm store_error_class
        split: if_splits prod.splits sum.splits)
  ultimately show ?thesis using assms(1) by simp
qed

section \<open>Retention\<close>

definition retired :: "crypto_env \<Rightarrow> string \<Rightarrow> string \<Rightarrow> string option \<Rightarrow> string set \<Rightarrow> vault_secret \<Rightarrow> bool" where
  "retired ce dataset mk run_id fs r \<longleftrightarrow> vr_field r \<in> fs \<and> vr_run_id r = run_id
     \<and> at_locator dataset (vr_field r) (hash_of ce dataset (vr_field r) mk) ''v1'' r"

lemma retired_empty [simp]: "retired ce dataset mk run_id {} = (\<lambda>r. False)"
  by (simp add: retired_def fun_eq_iff)

lemma retired_insert: "retired ce dataset mk run_id (insert f F) r \<longleftrightarrow> retired ce dataset mk run_id {f} r \<or> retired ce dataset mk run_id F r"
  by (auto simp: retired_def)

definition without :: "(vault_secret \<Rightarrow> bool) \<Rightarrow> vault_tables \<Rightarrow> vault_tables" where
  "without D t = t\<lparr>vt_secrets := filter (\<lambda>r. \<not> D r) (vt_secrets t)\<rparr>"

lemma without_False [simp]: "without (\<lambda>r. False) t = t"
  by (simp add: without_def)

lemma without_without: "without D (without E t) = without (\<lambda>r. D r \<or> E r) t"
  by (auto simp: without_def intro!: arg_cong [of _ _ "\<lambda>rs. t\<lparr>vt_secrets := rs\<rparr>"] filter_cong)

lemma execute_write_Inl:
  assumes "execute_write cf operation ds f st = (s, Inl e)" "\<And>e. f (vs_tables st) = Inl e \<Longrightarrow> \<not> is_schema_changed e"
  shows "backed st s"
  using wpe_Inl [OF execute_write_wpe [OF assms(2)] assms(1)] by (simp add: failed_with_def)

lemma retire_field_Inr:
  assumes "retire_field ce default_settings dataset mk run_id f c st = (s, Inr c')" "vs_saved st = None"
  shows "vs_saved s = None \<and> (\<exists>F \<subseteq> {f}. vs_tables s = without (retired ce dataset mk run_id F) (vs_tables st))
    \<and> rc_deleted c' - rc_deleted c = int (length (vt_secrets (vs_tables st))) - int (length (vt_secrets (vs_tables s)))"
proof -
  let ?D = "\<lambda>r. at_locator dataset f (hash_of ce dataset f mk) ''v1'' r \<and> vr_run_id r = run_id"
  have D: "?D = retired ce dataset mk run_id {f}" by (auto simp: retired_def at_locator_def fun_eq_iff)
  have never: "delete_rows P t \<noteq> Inl e" for P t e by (simp add: delete_rows_def)
  let ?delete = "delete_secret (ce_config ce) dataset f (hash_of ce dataset f mk) ''v1'' run_id"
  have cases: "(\<exists>n. ?delete st = (s, Inr n) \<and> c' = (if 0 < n then c\<lparr>rc_deleted := rc_deleted c + n\<rparr> else c\<lparr>rc_skipped := rc_skipped c + 1\<rparr>))
      \<or> (\<exists>e. ?delete st = (s, Inl e) \<and> c' = c\<lparr>rc_errors := rc_errors c + 1\<rparr>)"
    using assms(1)
    by (auto simp: retire_field_def default_settings_def build_locator_hash_v1 bind_s_def lift_s_def try_s_def return_s_def raise_v_def
        split: prod.splits sum.splits if_splits)
  then show ?thesis
  proof
    assume "\<exists>n. ?delete st = (s, Inr n) \<and> c' = (if 0 < n then c\<lparr>rc_deleted := rc_deleted c + n\<rparr> else c\<lparr>rc_skipped := rc_skipped c + 1\<rparr>)"
    then obtain n where n: "?delete st = (s, Inr n)" and c': "c' = (if 0 < n then c\<lparr>rc_deleted := rc_deleted c + n\<rparr> else c\<lparr>rc_skipped := rc_skipped c + 1\<rparr>)"
      by blast
    have del: "delete_rows ?D (vs_tables st) = Inr (vs_tables s, n) \<and> vs_saved s = vs_saved st"
      using n unfolding delete_secret_def by (rule execute_write_Inr) (simp add: never)
    then have t: "vs_tables s = without ?D (vs_tables st)" and n: "n = int (length (filter ?D (vt_secrets (vs_tables st))))"
      by (simp_all add: delete_rows_def without_def)
    have "n = int (length (vt_secrets (vs_tables st))) - int (length (vt_secrets (vs_tables s)))"
      using sum_length_filter_compl [of ?D "vt_secrets (vs_tables st)"] unfolding n t without_def by simp
    then have "rc_deleted c' - rc_deleted c = int (length (vt_secrets (vs_tables st))) - int (length (vt_secrets (vs_tables s)))"
      using c' n by auto
    then show ?thesis using del assms(2) t unfolding D by (intro conjI exI [of _ "{f}"]) simp_all
  next
    assume "\<exists>e. ?delete st = (s, Inl e) \<and> c' = c\<lparr>rc_errors := rc_errors c + 1\<rparr>"
    then obtain e where e: "?delete st = (s, Inl e)" and c': "c' = c\<lparr>rc_errors := rc_errors c + 1\<rparr>" by blast
    have "backed st s" using e unfolding delete_secret_def by (rule execute_write_Inl) (simp add: never)
    then have "vs_tables s = vs_tables st" "vs_saved s = None" using assms(2) by (auto simp: backed_def moved_ex)
    then show ?thesis using c' by (intro conjI exI [of _ "{}"]) simp_all
  qed
qed

lemma retire_fields_Inr:
  assumes "retire_fields (retire_field ce default_settings dataset mk run_id) fs c st = (s, Inr c')" "vs_saved st = None"
  shows "(\<exists>F \<subseteq> set fs. vs_tables s = without (retired ce dataset mk run_id F) (vs_tables st))
    \<and> rc_deleted c' - rc_deleted c = int (length (vt_secrets (vs_tables st))) - int (length (vt_secrets (vs_tables s)))"
  using assms
proof (induction fs arbitrary: c st)
  case Nil
  then show ?case by (intro conjI exI [of _ "{}"]) (simp_all add: return_s_def)
next
  case (Cons f fs)
  then obtain s1 c1 where one: "retire_field ce default_settings dataset mk run_id f c st = (s1, Inr c1)"
    and rest: "retire_fields (retire_field ce default_settings dataset mk run_id) fs c1 s1 = (s, Inr c')" by (auto simp: bind_s_Inr)
  obtain E where E: "E \<subseteq> {f}" "vs_tables s1 = without (retired ce dataset mk run_id E) (vs_tables st)" and s1: "vs_saved s1 = None"
    and count: "rc_deleted c1 - rc_deleted c = int (length (vt_secrets (vs_tables st))) - int (length (vt_secrets (vs_tables s1)))"
    using retire_field_Inr [OF one Cons.prems(2)] by blast
  obtain F where F: "F \<subseteq> set fs" "vs_tables s = without (retired ce dataset mk run_id F) (vs_tables s1)"
    and rest_count: "rc_deleted c' - rc_deleted c1 = int (length (vt_secrets (vs_tables s1))) - int (length (vt_secrets (vs_tables s)))"
    using Cons.IH [OF rest s1] by blast
  have "vs_tables s = without (retired ce dataset mk run_id (F \<union> E)) (vs_tables st)"
    unfolding F(2) E(2) without_without by (rule arg_cong [of _ _ "\<lambda>D. without D (vs_tables st)"]) (auto simp: retired_def fun_eq_iff)
  moreover have "F \<union> E \<subseteq> set (f # fs)" using E(1) F(1) by auto
  ultimately show ?case using count rest_count by (intro conjI exI [of _ "F \<union> E"]) simp_all
qed

text \<open>
  C19.  What the retention service deletes after a successful operation is its own: the rows of the run that applied,
  of the dataset, of the secret fields of the operation, at the locator of its match key, and only when the lifecycle
  is ephemeral and deletes on success; nothing else changes, and the counter tells how many rows are gone.
\<close>

theorem retention_deletes_own_rows:
  assumes "vs_saved st = None"
    "on_apply_success ce default_settings dataset source_ref secret_fields lifecycle run_id st = (st', Inr c)"
  shows "(\<exists>F \<subseteq> set secret_fields. vs_tables st' = without (retired ce dataset (str_or (extract_match_key source_ref) []) run_id F) (vs_tables st)
      \<and> (F \<noteq> {} \<longrightarrow> lp_mode (normalize_secret_lifecycle lifecycle) = ''ephemeral''
          \<and> lp_delete_on_success (normalize_secret_lifecycle lifecycle) \<and> extract_match_key source_ref \<noteq> None))
    \<and> rc_deleted c = int (length (vt_secrets (vs_tables st))) - int (length (vt_secrets (vs_tables st')))"
proof -
  have trivial: ?thesis if "st' = st" "rc_deleted c = 0"
    using that by (intro conjI exI [of _ "{}"]) simp_all
  let ?policy = "normalize_secret_lifecycle lifecycle"
  show ?thesis
  proof (cases "secret_fields = [] \<or> lp_mode ?policy \<noteq> ''ephemeral'' \<or> \<not> lp_delete_on_success ?policy \<or> extract_match_key source_ref = None")
    case True
    then have "st' = st" "rc_deleted c = 0"
      using assms(2) by (auto simp: on_apply_success_def no_counters_def return_s_def Let_def split: if_splits option.splits)
    then show ?thesis by (rule trivial)
  next
    case False
    then obtain k where k: "extract_match_key source_ref = Some k" by blast
    then have "k \<noteq> []" by (auto simp: extract_match_key_def split: option.splits pyval.splits if_splits)
    then have mk: "str_or (extract_match_key source_ref) [] = k" using k by (cases k) (simp_all add: str_or_def)
    have "retire_fields (retire_field ce default_settings dataset k run_id) secret_fields no_counters st = (st', Inr c)"
      using False k assms(2) by (simp add: on_apply_success_def Let_def)
    note loop = retire_fields_Inr [OF this assms(1)]
    then show ?thesis using False k unfolding mk by (auto simp: no_counters_def)
  qed
qed

end
