(* ===== verification/Vault_Examples.thy ===== *)
theory Vault_Examples
  imports Vault_Facts
begin

text \<open>
  Examples of the vault: a vault that the passphrase \<open>pw\<close> opens, with one data encryption key, a probe and a secret of
  a run; the properties of the vault applied to it.
\<close>

section \<open>An open vault\<close>

definition example_guard :: guard_settings where
  "example_guard = \<lparr>st_locator_version = ''v1'', st_cipher_algo = FERNET_V1, st_wrap_algo = FERNET_V1,
     gs_probe_name = ''startup'', gs_probe_payload = ''ok'', gs_strict_readonly = True\<rparr>"

definition example_salt :: bytes where
  "example_salt = replicate 32 (CHR ''s'')"

definition example_raw :: bytes where
  "example_raw = take 32 (''pw'' @ example_salt @ replicate 32 (CHR ''0''))"

definition example_key :: master_key where
  "example_key = to_master_key ''mk_0'' example_raw"

definition example_unseal :: unseal_metadata where
  "example_unseal = (fresh_metadata ''mk_0'' ''1'' example_salt example_salt)
     \<lparr>um_hmac_digest := Token_Bytes (example_raw @ ''ankey-vault-unseal-v1'' @ ''|'' @ example_salt)\<rparr>"

definition example_data_key :: bytes where
  "example_data_key = urlsafe_b64encode (replicate 32 (CHR ''d''))"

definition example_token :: "bytes \<Rightarrow> bytes \<Rightarrow> token" where
  "example_token k m = Token_Bytes (urlsafe_b64encode (example_head k @ m))"

definition example_dek :: vault_dek where
  "example_dek = \<lparr>vk_dek_version = ''dek_0'', vk_wrapped_dek = example_token (utf8_encode (mk_key_material example_key)) example_data_key,
     vk_wrap_algo = FERNET_V1, vk_wrap_key_version = ''mk_0'', vk_is_active = True, vk_created_at = ''1'', vk_updated_at = ''1''\<rparr>"

definition example_probe :: vault_probe where
  "example_probe = \<lparr>vp_probe_name = ''startup'', vp_ciphertext = example_token example_data_key ''ok'', vp_cipher_algo = FERNET_V1,
     vp_key_version = ''mk_0'', vp_dek_version = ''dek_0'', vp_created_at = ''1'', vp_updated_at = ''1''\<rparr>"

abbreviation ece :: crypto_env where
  "ece \<equiv> example_crypto False"

definition example_secret :: vault_secret where
  "example_secret = \<lparr>vr_dataset = ''people'', vr_field = ''password'', vr_match_key = Some ''42'',
     vr_locator_hash = hash_of ece ''people'' ''password'' ''42'', vr_locator_version = ''v1'',
     vr_ciphertext = example_token example_data_key ''old'', vr_cipher_algo = FERNET_V1, vr_key_version = ''mk_0'', vr_dek_version = ''dek_0'',
     vr_run_id = Some ''r1'', vr_created_at = ''1'', vr_updated_at = ''1'', vr_secret_id = Some 1\<rparr>"

definition example_vault :: vault_state where
  "example_vault = \<lparr>vs_tables = \<lparr>vt_secrets = [example_secret], vt_sequence = 1, vt_deks = [example_dek], vt_probes = [example_probe],
       vt_unseal = Some example_unseal, vt_meta = []\<rparr>,
     vs_saved = None, vs_faults = [], vs_clock = 5, vs_key = None\<rparr>"

lemma example_vault_fields [simp]:
  "vs_faults example_vault = []" "vs_saved example_vault = None" "vs_key example_vault = None" "vs_clock example_vault = 5"
  "vt_unseal (vs_tables example_vault) = Some example_unseal" "vt_deks (vs_tables example_vault) = [example_dek]"
  "vt_probes (vs_tables example_vault) = [example_probe]" "vt_secrets (vs_tables example_vault) = [example_secret]"
  "vt_meta (vs_tables example_vault) = []" "vt_sequence (vs_tables example_vault) = 1"
  by (simp_all add: example_vault_def)

lemma example_crypto_fields [simp]:
  "ce_now (example_crypto readonly) = stamp" "ce_uuid (example_crypto readonly) = stamp"
  "vc_readonly (ce_config (example_crypto readonly)) = readonly" "vc_foreign_keys (ce_config (example_crypto readonly)) = True"
  "vc_begin_locks (ce_config (example_crypto readonly)) = True"
  by (simp_all add: example_crypto_def)

lemma example_key_derived: "derive_key ece ''pw'' example_unseal = Inr example_key"
proof -
  have "utf8_encode ''pw'' = ''pw''" by (rule utf8_ascii) code_simp
  then have raw: "derive_raw_key ece ''pw'' example_unseal = Inr example_raw"
    by (simp add: derive_raw_key_def example_unseal_def fresh_metadata_def validate_kdf_params_def token_bytes_def example_salt_def example_raw_def
        example_crypto_def)
  have "build_hmac ece example_raw example_unseal = Inr (token_bytes (um_hmac_digest example_unseal))"
    by (simp add: build_hmac_def example_unseal_def fresh_metadata_def token_bytes_def example_crypto_def)
  then show ?thesis using raw
    by (simp add: derive_key_def require_passphrase_def example_key_def) (simp add: example_unseal_def fresh_metadata_def)
qed

lemma example_token_opens:
  assumes "ce_fernet_key ece k"
  shows "open_token (example_token k m) x = Inr (urlsafe_b64encode (example_head k @ m))"
    "ce_fernet_decrypt ece k (urlsafe_b64encode (example_head k @ m)) = Fernet_Plain m"
proof -
  have "fernet_envelope (example_head k @ m)" by (simp add: fernet_envelope_def example_head_def)
  then show "open_token (example_token k m) x = Inr (urlsafe_b64encode (example_head k @ m))"
    unfolding example_token_def by (rule envelope_token)
  show "ce_fernet_decrypt ece k (urlsafe_b64encode (example_head k @ m)) = Fernet_Plain m"
    by (simp add: example_crypto_def base64_roundtrip)
qed

lemma example_master_valid: "ce_fernet_key ece (utf8_encode (mk_key_material example_key))"
  by (rule derived_key [OF example_crypto_ok example_key_derived])

lemma example_data_valid: "ce_fernet_key ece example_data_key"
proof -
  have "length (replicate 32 (CHR ''d'')) = 32" by simp
  then show ?thesis using example_crypto_ok [of False] unfolding crypto_ok_def example_data_key_def by blast
qed

lemma example_dek_opens: "opens ece example_key (vk_wrapped_dek example_dek) (vk_wrap_algo example_dek) example_data_key"
  using example_token_opens [OF example_master_valid, of example_data_key] example_master_valid
  by (simp add: opens_def unwrap_dek_def ensure_algo_def build_fernet_from_master_key_def example_dek_def)

lemma example_probe_reads: "decrypt ece (vp_ciphertext example_probe) example_data_key (vp_cipher_algo example_probe) = Inr ''ok''"
proof -
  have "utf8_decode ''ok'' = Some ''ok''" by code_simp
  then show ?thesis using example_token_opens [OF example_data_valid, of "''ok''"] example_data_valid
    by (simp add: decrypt_def ensure_algo_def build_fernet_from_dek_def example_probe_def)
qed

lemma example_vault_ok: "vault_ok (ce_config ece) (vs_tables example_vault)"
  by (simp add: vault_ok_def deks_ok_def secrets_ok_def has_id_up_to_def) (simp add: example_secret_def example_dek_def)

section \<open>The witnesses\<close>

theorem vault_invariant_witness:
  "vault_ok (ce_config ece) (committed (fst (put_many ece (unsealed_provider ece (Some ''pw'')) default_settings ''people'' ''42''
     [(''password'', ''secret'')] (Some ''r2'') (fst (init_keyring (make_management ece example_guard) ''pw'' None new_vault)))))"
proof -
  have "(vault_step ece)\<^sup>*\<^sup>* new_vault (fst (put_many ece (unsealed_provider ece (Some ''pw'')) default_settings ''people'' ''42''
     [(''password'', ''secret'')] (Some ''r2'') (fst (init_keyring (make_management ece example_guard) ''pw'' None new_vault))))"
    by (rule rtranclp.rtrancl_into_rtrancl [OF r_into_rtranclp [of "vault_step ece"]]) (rule vault_step.init, rule vault_step.put)
  from vault_invariant [OF this] show ?thesis by simp
qed

theorem put_many_atomic_witness:
  "\<exists>st' e. put_many ece (unsealed_provider ece None) default_settings ''people'' ''42'' [(''password'', ''secret'')] None example_vault = (st', Inl e)
     \<and> committed st' = vs_tables example_vault \<and> is_class SecretStoreError e"
proof -
  let ?put = "put_many ece (unsealed_provider ece None) default_settings ''people'' ''42'' [(''password'', ''secret'')] None example_vault"
  have mk: "py_strip ''42'' = ''42''" by code_simp
  have "isl (snd ?put)"
    by (simp add: put_many_def mk tick_steps_calm bind_s_def try_s_def transaction_v_def engine_transaction_def run_begin_def in_transaction_def
        need_write_def meet_fault_def call_s_def update_s_def return_s_def put_in_transaction_def unsealed_provider_def unsealed_active_key_def
        load_active_key_def raise_v_def lift_s_def run_rollback_def end_transaction_def key_error_def split: sum.split prod.split)
  then obtain st' e where put: "?put = (st', Inl e)" by (metis isl_def prod.collapse)
  from put_many_atomic [OF example_vault_fields(2) put] put show ?thesis by blast
qed

theorem stored_secret_reads_back_witness:
  "\<exists>st'. put_many ece (unsealed_provider ece (Some ''pw'')) default_settings ''people'' ''42''
      [(''password'', ''secret''), (''pin'', ''1234'')] (Some ''r2'') example_vault = (st', Inr ())
    \<and> snd (get_secret ece (unsealed_provider ece (Some ''pw'')) default_settings None ''people'' ''password'' (match_key_ref ''42'') None st') = Inr (Some ''secret'')"
proof (rule stored_secret_reads_back)
  have later: "''1'' < stamp 5" by code_simp
  have mk: "py_strip ''42'' = ''42''" by code_simp
  show "crypto_ok ece" by (rule example_crypto_ok)
  show "unlocked ece ''pw'' example_key example_vault" using example_key_derived by (simp add: unlocked_def)
  show "active_usable ece example_key (vs_tables example_vault)"
    using example_dek_opens example_data_valid by (auto simp: active_usable_def active_dek_def)
  show "vault_ok (ce_config ece) (vs_tables example_vault)" by (rule example_vault_ok)
  show "place_clear ece (ce_now ece (vs_clock example_vault)) ''people'' ''password'' (py_strip ''42'') (vs_tables example_vault)"
    unfolding mk using later by (simp add: place_clear_def field_rows_def) (simp add: example_secret_def)
qed (simp_all add: py_strip_def py_isspace_def)

theorem retention_deletes_own_rows_witness:
  "\<exists>st' c F. on_apply_success ece default_settings ''people'' (match_key_ref ''42'') [''password''] (Some [(''mode'', PStr ''ephemeral'')]) (Some ''r1'') example_vault
      = (st', Inr c) \<and> F \<subseteq> {''password''} \<and> rc_deleted c = 1
      \<and> vs_tables st' = without (retired ece ''people'' ''42'' (Some ''r1'') F) (vs_tables example_vault)"
proof -
  let ?call = "on_apply_success ece default_settings ''people'' (match_key_ref ''42'') [''password''] (Some [(''mode'', PStr ''ephemeral'')]) (Some ''r1'') example_vault"
  have mk: "extract_match_key (match_key_ref ''42'') = Some ''42''" by code_simp
  have policy: "normalize_secret_lifecycle (Some [(''mode'', PStr ''ephemeral'')]) = \<lparr>lp_mode = ''ephemeral'', lp_delete_on_success = True, lp_ttl_seconds = None\<rparr>"
    by code_simp
  have "delete_rows (\<lambda>r. at_locator ''people'' ''password'' (hash_of ece ''people'' ''password'' ''42'') ''v1'' r \<and> vr_run_id r = Some ''r1'')
      (vs_tables example_vault) = Inr (vs_tables example_vault\<lparr>vt_secrets := []\<rparr>, 1)"
    by (simp add: delete_rows_def) (simp add: at_locator_def example_secret_def)
  then have "delete_secret (ce_config ece) ''people'' ''password'' (hash_of ece ''people'' ''password'' ''42'') ''v1'' (Some ''r1'') example_vault
      = (example_vault\<lparr>vs_tables := vs_tables example_vault\<lparr>vt_secrets := []\<rparr>\<rparr>, Inr 1)"
    unfolding delete_secret_def by (intro execute_write_calm) simp_all
  then have call: "?call = (example_vault\<lparr>vs_tables := vs_tables example_vault\<lparr>vt_secrets := []\<rparr>\<rparr>, Inr (no_counters\<lparr>rc_deleted := 1\<rparr>))"
    by (simp add: on_apply_success_def mk policy Let_def retire_field_def default_settings_def build_locator_hash_v1 bind_s_def lift_s_def try_s_def
        return_s_def no_counters_def)
  from retention_deletes_own_rows [OF example_vault_fields(2) call] obtain F where
    "F \<subseteq> set [''password'']" "vs_tables (example_vault\<lparr>vs_tables := vs_tables example_vault\<lparr>vt_secrets := []\<rparr>\<rparr>)
       = without (retired ece ''people'' (str_or (extract_match_key (match_key_ref ''42'')) []) (Some ''r1'') F) (vs_tables example_vault)"
    by blast
  then show ?thesis using call unfolding mk by (intro exI conjI) (assumption | simp add: str_or_def)+
qed

section \<open>Verifying and rotating\<close>

lemma is_readonly_calm:
  assumes "vs_faults st = []" "vs_saved st = None" "\<not> vc_readonly cf"
  shows "is_readonly cf st = (st, Inr False)"
  using assms
  by (simp add: is_readonly_def run_begin_def run_rollback_def in_transaction_def need_write_def meet_fault_def end_transaction_def committed_def
      bind_s_def try_s_def call_s_def update_s_def return_s_def)

lemma on_class_calm: "m st = (s, Inr a) \<Longrightarrow> on_class cs f m st = (s, Inr a)"
  by simp

lemma unwrap_static_calm:
  assumes "opens ce k (vk_wrapped_dek d) (vk_wrap_algo d) dek"
  shows "unwrap_by_provider ce (static_provider [k]) e d st = (st, Inr dek)"
  using assms by (auto simp: unwrap_by_provider_def candidate_master_keys_def static_provider_def opens_def bind_s_def lift_s_def return_s_def)

text \<open>The guard passes a vault whose probe reads back.\<close>

lemma ensure_ready_calm:
  assumes "vs_faults st = []" "vs_saved st = None" "\<not> vc_readonly (ce_config ce)"
    "probe_with (gs_probe_name gs) (vs_tables st) = Some q" "validate_probe_record gs q = Inr ()"
    "dek_with (vp_dek_version q) (vs_tables st) = Some d" "opens ce k (vk_wrapped_dek d) (vk_wrap_algo d) dek"
    "decrypt ce (vp_ciphertext q) dek (vp_cipher_algo q) = Inr (gs_probe_payload gs)"
  shows "ensure_ready ce (static_provider [k]) gs st = (st, Inr ())"
proof -
  have "load_probe ce gs st = (st, Inr (Some q))"
    unfolding load_probe_def get_probe_def by (rule on_class_calm) (use assms in \<open>simp add: fetch_read_calm probe_with_def\<close>)
  moreover have "load_probe_dek ce q st = (st, Inr d)"
    unfolding load_probe_dek_def using assms by (simp add: bind_s_def on_class_calm get_dek_def fetch_read_calm return_s_def)
  then have "verify_probe ce (static_provider [k]) gs q st = (st, Inr ())"
    using assms(8) by (simp add: verify_probe_def bind_s_def unwrap_static_calm [OF assms(7)] return_s_def)
  moreover have "kp_active (static_provider [k]) st = (st, Inr k)" by (simp add: static_provider_def return_s_def)
  ultimately show ?thesis using assms(1-3,5)
    by (simp add: ensure_ready_def bind_s_def is_readonly_calm ensure_probe_def lift_s_def return_s_def)
qed

lemma example_probe_valid: "validate_probe_record example_guard example_probe = Inr ()"
proof -
  have "urlsafe_b64encode bs \<noteq> []" if "bs \<noteq> []" for bs using that by (cases bs rule: urlsafe_b64encode.cases) (simp_all add: Let_def)
  then show ?thesis
    by (simp add: validate_probe_record_def example_guard_def example_probe_def example_token_def token_bytes_def example_head_def FERNET_V1_def)
qed

lemma example_guard_fields [simp]: "gs_probe_name example_guard = ''startup''" "gs_probe_payload example_guard = ''ok''"
  "vp_probe_name example_probe = ''startup''" "vp_dek_version example_probe = ''dek_0''"
  "vk_dek_version example_dek = ''dek_0''"
  by (simp_all add: example_guard_def example_probe_def example_dek_def)

theorem accepted_passphrase_opens_witness:
  "\<exists>st'. verify_unseal (make_management ece example_guard) ''pw'' example_vault = (st', Inr example_key)
     \<and> probe_readable ece [example_key] example_guard (vs_tables st')"
proof -
  have "ensure_ready ece (static_provider [example_key]) example_guard example_vault = (example_vault, Inr ())"
    by (rule ensure_ready_calm [OF _ _ _ _ example_probe_valid _ example_dek_opens])
      (use example_probe_reads in \<open>simp_all add: probe_with_def dek_with_def\<close>)
  then have verify: "verify_unseal (make_management ece example_guard) ''pw'' example_vault = (example_vault, Inr example_key)"
    by (simp add: verify_unseal_def require_metadata_def make_management_def guard_post_verify_def get_unseal_metadata_def fetch_read_calm
        bind_s_def return_s_def lift_s_def example_key_derived)
  from accepted_passphrase_opens [OF verify example_vault_fields(2)] verify show ?thesis by blast
qed

lemma set_meta_value_calm:
  assumes "vs_faults st = []" "\<not> vc_readonly cf"
  shows "set_meta_value cf key v st = (st\<lparr>vs_tables := vs_tables st\<lparr>vt_meta := AList.update key (Some v) (vt_meta (vs_tables st))\<rparr>\<rparr>, Inr ())"
  unfolding set_meta_value_def by (rule execute_write_calm) (use assms in simp_all)

text \<open>What the notes about a rotation leave as it was.\<close>

definition noted :: "vault_state \<Rightarrow> vault_state \<Rightarrow> bool" where
  "noted st s \<longleftrightarrow> (\<exists>m. s = st\<lparr>vs_tables := vs_tables st\<lparr>vt_meta := m\<rparr>\<rparr>)"

lemma noted_fields:
  assumes "noted st s"
  shows "vs_faults s = vs_faults st" "vs_saved s = vs_saved st" "vs_clock s = vs_clock st" "vt_deks (vs_tables s) = vt_deks (vs_tables st)"
    "vt_probes (vs_tables s) = vt_probes (vs_tables st)" "vt_unseal (vs_tables s) = vt_unseal (vs_tables st)"
  using assms by (auto simp: noted_def)

lemma mark_calm:
  assumes "vs_faults st = []" "\<not> vc_readonly cf"
  shows "\<exists>s. set_last_rotation_run_id cf (Some run) st = (s, Inr ()) \<and> noted st s"
    "\<exists>s. set_last_rotated_at cf at st = (s, Inr ()) \<and> noted st s"
    "\<exists>s. set_last_rotation_result cf res (Some reason) st = (s, Inr ()) \<and> noted st s"
proof -
  show "\<exists>s. set_last_rotation_run_id cf (Some run) st = (s, Inr ()) \<and> noted st s" "\<exists>s. set_last_rotated_at cf at st = (s, Inr ()) \<and> noted st s"
    using set_meta_value_calm [OF assms] by (auto simp: set_last_rotation_run_id_def set_last_rotated_at_def noted_def)
  let ?body = "bind_s (set_meta_value cf ''last_rotation_result'' res) (\<lambda>_. set_meta_value cf ''last_rotation_reason'' reason)"
  have body: "\<exists>s. ?body st = (s, Inr ()) \<and> noted st s" if "vs_faults st = []" for st
  proof -
    let ?s = "st\<lparr>vs_tables := vs_tables st\<lparr>vt_meta := AList.update ''last_rotation_result'' (Some res) (vt_meta (vs_tables st))\<rparr>\<rparr>"
    have "set_meta_value cf ''last_rotation_result'' res st = (?s, Inr ())" by (rule set_meta_value_calm) (use that assms in simp_all)
    moreover have "set_meta_value cf ''last_rotation_reason'' reason ?s
        = (?s\<lparr>vs_tables := vs_tables ?s\<lparr>vt_meta := AList.update ''last_rotation_reason'' (Some reason) (vt_meta (vs_tables ?s))\<rparr>\<rparr>, Inr ())"
      by (rule set_meta_value_calm) (use that assms in simp_all)
    moreover have "noted st (?s\<lparr>vs_tables := vs_tables ?s\<lparr>vt_meta := m\<rparr>\<rparr>)" for m
      unfolding noted_def by (rule exI [of _ m]) simp
    ultimately show ?thesis unfolding bind_s_def by (simp only: prod.case sum.case) blast
  qed
  show "\<exists>s. set_last_rotation_result cf res (Some reason) st = (s, Inr ()) \<and> noted st s"
  proof (cases "vs_saved st = None")
    case False
    then show ?thesis using body [OF assms(1)] by (auto simp: set_last_rotation_result_def autobegin_def in_transaction_def bind_s_def call_s_def)
  next
    case True
    let ?st = "st\<lparr>vs_saved := Some (vs_tables st)\<rparr>"
    obtain s where s: "?body ?st = (s, Inr ())" "noted ?st s" using body [of ?st] assms(1) by auto
    then have saved: "vs_faults s = []" "vs_saved s = Some (vs_tables st)" using assms(1) by (simp_all add: noted_fields)
    have "engine_transaction cf (vc_begin_locks cf) ?body st = (s\<lparr>vs_saved := None\<rparr>, Inr ())"
      using True assms s(1) saved
      by (simp add: engine_transaction_def run_begin_def run_commit_def need_write_def in_transaction_def bind_s_def try_s_def call_s_def
          meet_fault_def update_s_def return_s_def)
    moreover obtain m where "s = ?st\<lparr>vs_tables := vs_tables ?st\<lparr>vt_meta := m\<rparr>\<rparr>" using s(2) by (auto simp: noted_def)
    then have "noted st (s\<lparr>vs_saved := None\<rparr>)" using True unfolding noted_def by (intro exI [of _ m], cases st) simp
    ultimately show ?thesis using True
      by (auto simp: set_last_rotation_result_def autobegin_def in_transaction_def bind_s_def call_s_def)
  qed
qed

lemma rewrap_example_calm:
  assumes "vs_faults st = []" "vs_saved st \<noteq> None" "vt_deks (vs_tables st) = [example_dek]"
    "ce_fernet_key ece (utf8_encode (mk_key_material key))"
  shows "\<exists>t tok. rewrap_one (make_management ece gs) key [example_key] at example_dek st
      = (st\<lparr>vs_clock := vs_clock st + 1, vs_tables := t\<rparr>, Inr ())
    \<and> opens ece key tok FERNET_V1 example_data_key \<and> wrapping t ''dek_0'' = Some (tok, FERNET_V1, mk_key_version key)
    \<and> other_tables t = other_tables (vs_tables st)"
proof -
  obtain tok where tok: "wrap_dek ece example_data_key (mk_key_material key) FERNET_V1 st = (st\<lparr>vs_clock := vs_clock st + 1\<rparr>, Inr tok)"
    "opens ece key tok FERNET_V1 example_data_key" using wrap_calm [OF example_crypto_ok assms(4)] by blast
  have algo: "vk_wrap_algo example_dek = FERNET_V1" by (simp add: example_dek_def)
  have dek: "mgmt_unwrap_dek (make_management ece gs) [example_key] example_dek = Inr example_data_key"
    using example_dek_opens by (simp add: mgmt_unwrap_dek_def make_management_def opens_def)
  let ?d = "rewrapped_dek example_dek tok (mk_key_version key) at"
  have "vk_is_active ?d" "wrap_of ?d = (tok, FERNET_V1, mk_key_version key)" "vk_dek_version ?d = ''dek_0''"
    by (simp_all add: rewrapped_dek_def wrap_of_def algo) (simp add: example_dek_def)
  moreover have "vs_faults (st\<lparr>vs_clock := vs_clock st + 1\<rparr>) = []" "vs_saved (st\<lparr>vs_clock := vs_clock st + 1\<rparr>) \<noteq> None" using assms by simp_all
  ultimately obtain t where "upsert_dek (ce_config ece) ?d (st\<lparr>vs_clock := vs_clock st + 1\<rparr>)
      = (st\<lparr>vs_clock := vs_clock st + 1, vs_tables := t\<rparr>, Inr ())" "other_tables t = other_tables (vs_tables st)"
      "wrapping t ''dek_0'' = Some (tok, FERNET_V1, mk_key_version key)"
    using upsert_dek_calm [of "st\<lparr>vs_clock := vs_clock st + 1\<rparr>" "ce_config ece" ?d] by auto
  then show ?thesis using tok dek algo
    by (intro exI [of _ t] exI [of _ tok]) (simp add: rewrap_one_def bind_s_def lift_s_def make_management_def)
qed

theorem rotation_keeps_secrets_readable_witness:
  "\<exists>st' res m key. rotate_and_rewrap (make_management ece example_guard) ''pw'' ''new'' (Some ''r9'') example_vault = (st', Inr res)
     \<and> vres_dek_rewrapped_count res = 1 \<and> vt_unseal (vs_tables st') = Some m \<and> derive_key ece ''new'' m = Inr key
     \<and> rewrapped_to ece [example_key] key example_dek (vs_tables st')"
proof -
  let ?mg = "make_management ece example_guard" and ?cf = "ce_config ece"
  have writable: "\<not> vc_readonly ?cf" by simp
  define st1 where "st1 = example_vault\<lparr>vs_clock := 6\<rparr>"
  have version: "unique_key_version ?mg [um_key_version example_unseal] st1 = (example_vault\<lparr>vs_clock := 7\<rparr>, Inr (''mk_'' @ stamp 6))"
    by (simp add: unique_key_version_def numeral_eq_Suc make_management_def default_key_version_def tick_steps_calm bind_s_def return_s_def st1_def)
      (simp add: example_unseal_def fresh_metadata_def stamp_def)
  obtain st3 m key where made: "create_metadata ece ''new'' (''mk_'' @ stamp 6) (stamp 5) (example_vault\<lparr>vs_clock := 7\<rparr>) = (st3, Inr (m, key))"
    "st3 = example_vault\<lparr>vs_clock := 9\<rparr>"
    by (simp add: create_metadata_def require_passphrase_def tick_steps_calm bind_s_def lift_s_def return_s_def Let_def derive_raw_key_def
        validate_kdf_params_def build_hmac_def fresh_metadata_def token_bytes_def example_crypto_def)
  have key: "derive_key ece ''new'' m = Inr key" by (rule create_metadata_Inr(1) [OF made(1)])
  have valid: "ce_fernet_key ece (utf8_encode (mk_key_material key))" by (rule derived_key [OF example_crypto_ok key])
  define st4 where "st4 = example_vault\<lparr>vs_clock := 10, vs_saved := Some (vs_tables example_vault)\<rparr>"
  have st4: "vs_faults st4 = []" "vs_saved st4 = Some (vs_tables example_vault)" "vs_tables st4 = vs_tables example_vault" by (simp_all add: st4_def)
  obtain st5 where st5: "set_last_rotation_run_id ?cf (Some ''r9'') st4 = (st5, Inr ())" "noted st4 st5" using mark_calm(1) [OF st4(1) writable] by blast
  have "vs_faults st5 = []" using noted_fields(1) [OF st5(2)] st4 by simp
  then obtain st6 where st6: "set_last_rotation_result ?cf ''rotating'' (Some ''rotate_in_progress'') st5 = (st6, Inr ())" "noted st5 st6"
    using mark_calm(3) [OF _ writable] by blast
  note kept = noted_fields [OF st6(2)] noted_fields [OF st5(2)]
  let ?m = "m\<lparr>um_created_at := um_created_at example_unseal\<rparr>"
  define st7 where "st7 = st6\<lparr>vs_tables := vs_tables st6\<lparr>vt_unseal := Some ?m\<rparr>\<rparr>"
  have "upsert_unseal_metadata ?cf m st6 = (st7, Inr ())"
    unfolding upsert_unseal_metadata_def st7_def by (rule execute_write_calm) (use kept st4 in \<open>simp_all add: put_unseal_def\<close>)
  moreover have st7: "vs_faults st7 = []" "vs_saved st7 = Some (vs_tables example_vault)" "vt_deks (vs_tables st7) = [example_dek]"
      "vt_probes (vs_tables st7) = [example_probe]" "vt_unseal (vs_tables st7) = Some ?m"
    using kept st4 by (simp_all add: st7_def)
  moreover have "list_deks ?cf st7 = (st7, Inr [example_dek])"
    using st7 by (simp add: list_deks_def fetch_read_calm ordered_deks_def)
  moreover obtain t tok where rewrap: "rewrap_one ?mg key [example_key] (stamp 9) example_dek st7 = (st7\<lparr>vs_clock := vs_clock st7 + 1, vs_tables := t\<rparr>, Inr ())"
    "opens ece key tok FERNET_V1 example_data_key" "wrapping t ''dek_0'' = Some (tok, FERNET_V1, mk_key_version key)"
    "other_tables t = other_tables (vs_tables st7)"
    using rewrap_example_calm [OF st7(1) _ st7(3) valid] st7(2) by blast
  define st8 where "st8 = st7\<lparr>vs_clock := vs_clock st7 + 1, vs_tables := t\<rparr>"
  ultimately have body: "bind_s (set_last_rotation_run_id ?cf (Some ''r9'')) (\<lambda>_.
      bind_s (set_last_rotation_result ?cf ''rotating'' (Some ''rotate_in_progress'')) (\<lambda>_.
      bind_s (upsert_unseal_metadata ?cf m) (\<lambda>_. bind_s (list_deks ?cf) (\<lambda>ds. rewrap_each (rewrap_one ?mg key [example_key] (stamp 9)) ds 0)))) st4
      = (st8, Inr 1)"
    using st5 st6 rewrap(1) by (simp add: bind_s_def return_s_def st8_def)
  let ?done = "st8\<lparr>vs_saved := None\<rparr>"
  have st8: "vs_faults st8 = []" "vs_saved st8 \<noteq> None" "vs_tables st8 = t" using st7 by (simp_all add: st8_def)
  have "transaction_v ?cf (bind_s (set_last_rotation_run_id ?cf (Some ''r9'')) (\<lambda>_.
      bind_s (set_last_rotation_result ?cf ''rotating'' (Some ''rotate_in_progress'')) (\<lambda>_.
      bind_s (upsert_unseal_metadata ?cf m) (\<lambda>_. bind_s (list_deks ?cf) (\<lambda>ds. rewrap_each (rewrap_one ?mg key [example_key] (stamp 9)) ds 0)))))
      (example_vault\<lparr>vs_clock := 10\<rparr>) = (?done, Inr 1)"
    by (rule transaction_calm) (use body st8 in \<open>simp_all add: st4_def\<close>)
  then have rewrapped: "rewrap_in_transaction ?mg key [example_key] ''r9'' ''rotate_in_progress'' (Some m) st3 = (?done, Inr 1)"
    using made(2) by (simp add: rewrap_in_transaction_def bind_s_def make_management_def tick_steps_calm)
  obtain d where d: "dek_with ''dek_0'' t = Some d" "vk_wrapped_dek d = tok" "vk_wrap_algo d = FERNET_V1" using rewrap(3) by (auto simp: wrapping_Some)
  have "vt_probes t = [example_probe]" using rewrap(4) st7 by (simp add: other_tables_def)
  then have "ensure_ready ece (static_provider [key]) example_guard ?done = (?done, Inr ())"
    by (intro ensure_ready_calm [OF _ _ _ _ example_probe_valid, where d = d and dek = example_data_key])
      (use st8 d rewrap(2) example_probe_reads in \<open>simp_all add: probe_with_def\<close>)
  then have checked: "or_mark_failed ?mg ''r9'' ''rotate'' ''rotate_failed'' (bind_s (rewrap_in_transaction ?mg key [example_key] ''r9'' ''rotate_in_progress'' (Some m))
      (\<lambda>n. bind_s (mg_post_verify ?mg [key]) (\<lambda>_. return_s n))) st3 = (?done, Inr 1)"
    using rewrapped by (simp add: or_mark_failed_def bind_s_def try_s_def return_s_def make_management_def guard_post_verify_def)
  obtain st9 where st9: "mark_success ?mg ''r9'' ''rotate_completed'' (Some (stamp 5)) ?done = (st9, Inr ())"
  proof -
    obtain a where a: "set_last_rotation_run_id ?cf (Some ''r9'') ?done = (a, Inr ())" "noted ?done a" using mark_calm(1) [OF _ writable, of ?done] st8 by auto
    have "vs_faults a = []" using noted_fields(1) [OF a(2)] st8 by simp
    then obtain b where b: "set_last_rotation_result ?cf ''ok'' (Some ''rotate_completed'') a = (b, Inr ())" "noted a b" using mark_calm(3) [OF _ writable] by blast
    then have "vs_faults b = []" using noted_fields(1) [OF b(2)] \<open>vs_faults a = []\<close> by simp
    then obtain c where "set_last_rotated_at ?cf (stamp 5) b = (c, Inr ())" using mark_calm(2) [OF _ writable] by blast
    then show ?thesis using that a b by (simp add: mark_success_def bind_s_def make_management_def)
  qed
  obtain res where rotated: "rotate_and_rewrap ?mg ''pw'' ''new'' (Some ''r9'') example_vault = (st9, Inr res)" "vres_dek_rewrapped_count res = 1"
    using checked st9 version made example_key_derived
    by (simp add: rotate_and_rewrap_def effective_run_id_def str_or_def require_metadata_def get_unseal_metadata_def fetch_read_calm bind_s_def return_s_def
        lift_s_def make_management_def tick_steps_calm st1_def)
  have probe: "probe_with (gs_probe_name example_guard) (vs_tables example_vault) \<noteq> None" by (simp add: probe_with_def)
  from rotation_keeps_secrets_readable [OF example_crypto_ok example_vault_fields(2) example_vault_ok probe rotated(1)]
  obtain md old m' key' where "vt_unseal (vs_tables example_vault) = Some md" "derive_key ece ''pw'' md = Inr old" "vt_unseal (vs_tables st9) = Some m'"
    "derive_key ece ''new'' m' = Inr key'" "\<forall>d \<in> set (vt_deks (vs_tables example_vault)). rewrapped_to ece [old] key' d (vs_tables st9)" by blast
  then show ?thesis using rotated example_key_derived by (intro exI conjI) (assumption | simp)+
qed

end
