(* ===== verification/Spec2Isabelle.thy ===== *)
theory Spec2Isabelle
  imports Plan_Artifact Ankey_Provider Cache_Graph Core_Catalog Topology_Compare Topology_Anchoring Import_Apply Resolve_Pending Match_Decision Pipeline Vault_Examples
begin

text \<open>
  Verification library of nexus-etl (Python package \<open>connector\<close>).

  The program.  Records of a source are mapped, normalized and enriched, then matched against a cache of the target,
  resolved into operations with their links to other objects, collected in a plan, and the plan is applied to the target
  over HTTP.  A link whose object is not known yet is parked in the identity database with its row, and the row comes
  back in a later run; an applied object is registered there, which resolves the links that wait for it.  Secrets leave
  the rows before the plan and are kept in a vault of their own until they are applied.  The library models the way from
  the matcher to the target, the vault, and the parts both rest on.

  Theories and sources (paths under \<open>src/connector\<close>).

  \<^item> Basics.  \<open>Nexus_Prelude\<close>: Python values (\<open>pyval\<close>), errors as values (\<open>py_error\<close>, \<open>'a result\<close>), dictionaries as
    association lists in insertion order, strings and numbers as Python prints and reads them.  \<open>Step_Monad\<close>: statements
    that change a state and may raise, with weakest preconditions (\<open>wp\<close>).  \<open>Json_Text\<close>: \<open>json.dumps\<close> and \<open>json.loads\<close>.
    \<open>Py_Time\<close>: ISO texts, \<open>fromisoformat\<close>, \<open>CURRENT_TIMESTAMP\<close>.  \<open>Sanitize\<close>: \<open>common/sanitize.py\<close>.  \<open>Transform_Result\<close>:
    \<open>domain/transform/core\<close>.
  \<^item> Diagnostics.  \<open>Diagnostics\<close> and \<open>Core_Catalog\<close>: \<open>domain/diagnostics\<close>, with the catalog entry by entry and the exit
    code of a command.
  \<^item> Match.  \<open>Match_Models\<close>, \<open>Match_Rules\<close>, \<open>Matcher\<close>: \<open>domain/transform/matcher\<close> and the match part of
    \<open>domain/transform_dsl\<close>; \<open>Match_Decision\<close> holds their properties.
  \<^item> Resolve.  \<open>Pending_Codec\<close>, \<open>Resolve_Rules\<close>, \<open>Resolver\<close>: \<open>domain/transform/resolver\<close> and the resolve part of
    \<open>domain/transform_dsl\<close>; \<open>Resolve_Decision\<close> and \<open>Resolve_Pending\<close> hold their properties.  \<open>Identity_Store\<close>: the three
    tables of \<open>infra/identity/sqlite\<close>, their statements, the expiry sweep, the source de-duplication, the index
    synchronisation.
  \<^item> Pipeline.  \<open>Stages\<close>: \<open>domain/transform/stages\<close>, streams as lists of items that may end in an exception; \<open>Pipeline\<close>
    holds its properties.
  \<^item> Plan and apply.  \<open>Planner\<close>: \<open>domain/planning\<close>.  \<open>Plan_Artifact\<close>: \<open>infra/artifacts\<close> down to the bytes of the file.
    \<open>Import_Apply\<close>: \<open>usecases/import_apply_service.py\<close>.
  \<^item> Target.  \<open>Target_Core\<close>, \<open>Target_Gateway\<close>: \<open>infra/target/core\<close> and \<open>domain/target_dsl\<close>.  \<open>Http_Transport\<close> and
    \<open>Ankey_Provider\<close>: the transport and the provider of \<open>infra/target\<close>.
  \<^item> Topology and cache.  \<open>Topology\<close>, \<open>Topology_Builders\<close>, \<open>Topology_Anchoring\<close>, \<open>Topology_Compare\<close>:
    \<open>domain/dependency_tree\<close>.  \<open>Cache_Graph\<close>: \<open>domain/cache_core\<close>.
  \<^item> Vault.  \<open>Vault_Bytes\<close> (UTF-8, base64), \<open>Vault_Store\<close> (tables, transactions and the engine of \<open>infra/sqlite\<close>),
    \<open>Vault_Repository\<close> (every statement of \<open>infra/secrets/sqlite/repository.py\<close>), \<open>Vault_Crypto\<close> (envelope cipher, key
    derivation, locator), \<open>Vault_Services\<close> (\<open>domain/secrets\<close>), \<open>Vault_Management\<close> (\<open>usecases/management/vault\<close>).
    \<open>Vault_Logic\<close> and \<open>Vault_Safety\<close> are the reasoning; \<open>Vault_Rotation\<close>, \<open>Vault_Promises\<close>, \<open>Vault_Roundtrip\<close>,
    \<open>Vault_Facts\<close> the properties; \<open>Vault_Examples\<close> applies them to a small vault.
\<close>

text \<open>
  How state and errors correspond.  An object with attributes is a record with one field for each attribute, a table of a
  database is the list of its rows with the sequence of its ids, and an operation is a function that takes the state and
  gives the new state.  A raise is \<open>Inl\<close>, a return \<open>Inr\<close>; the state of a step that raised is what it had reached, so
  nothing is undone that the code does not undo.  SQL leaves the order of a query without ORDER BY open; the model picks
  the order of the table, so a list of such rows in a property stands for its members and their number.

  What the lemmas show.  Each component has an invariant that its operations keep (\<open>db_inv\<close>, \<open>snapshot_inv\<close>,
  \<open>vault_ok\<close>, a well-formed matched row), the behaviour of its operations on every branch, and the contract it has towards
  the next one.  Contracts between components are locales with interpretations on the model: the effects of one link and
  the conditions all links keep (\<open>link_effects\<close>, \<open>link_condition\<close>), the paged driver under the gateway
  (\<open>paged_driver\<close>), the two de-duplication stores (\<open>dedup_store\<close>), the topology port (\<open>topology_query\<close>), key providers,
  table conditions, services and management of the vault (\<open>vault_key_provider\<close>, \<open>vault_condition\<close>, \<open>vault_services\<close>,
  \<open>vault_management\<close>).  Where the code has a reference rule, its operations are shown to implement it: the retry loop the
  retry policy, the lookup tables of the kernel the rule list, the compiled resolve rules their specification.

  Bounds and fuel.  Loops are recursions that end: the retry loop by its remaining budget, the walks over graphs by the
  nodes not yet seen, the readers of texts by the rest of the text.  Two take fuel.  The reader of JSON has fuel for its
  nesting, twice the length of the text and one more, and \<open>json_loads_fuel\<close> shows that more changes nothing.  Paging
  without a limit has as its fuel the number of pages the driver is asked for, a parameter that its properties hold for.
  Python's integers are \<open>int\<close>; floats are decimals with an exponent (\<open>py_float\<close>) in values, and rationals with the
  infinities and NaN (\<open>py_seconds\<close>) where the code waits.

  Parameters.  Code outside the repository is an argument: the HTTP client, the wait strategy of tenacity, the texts of
  exceptions of libraries, MD5, SHA-256, Fernet, Argon2id, the random sources, the similarity of texts, the regular
  expressions of a specification, and whether a statement of SQLite or a step of the disk fails.  What the vault needs of
  the cryptography is the hypothesis \<open>crypto_ok\<close>, and \<open>Vault_Examples\<close> has functions that satisfy it.

  Limits of the model.  Characters are code points below 256.  Dictionaries have text keys, and there are no tuples among
  the values.  Identity of objects and aliasing are not modelled: the code copies or replaces the dictionaries it passes
  on.  Log records, reports and telemetry texts are left out.

  Not modelled: the transform DSL with its map, normalize and enrich stages and their dictionaries, the readers of CSV and
  the SQL of the cache, schema migrations, the command line with its containers, configuration, logging, reporting and
  observability.  They come before the matcher, hand arguments to what is modelled, or record what happened.
\<close>

end
